(* ===== verification/Prelude.thy ===== *)
theory Prelude
  imports Main "HOL-Library.Word" "HOL-Library.Sublist" "HOL-Library.Char_ord"
    "HOL-Library.List_Lexorder"
begin

text \<open>
  What every component of the development shares: the result type of code that may
  throw, JavaScript's \<open>slice\<close>, \<open>at(-1)\<close> and \<open>[...new Set(xs)].sort()\<close>, the
  JSON values that arrive over a wire, and the collections of rules the component
  theories feed.

  A TypeScript string is a sequence of UTF-16 code units. Where the code counts, slices
  or compares code units (the collaborative editor, the wire format) a string is
  \<open>utf16\<close>, a list of 16-bit words. Where a string is only an identifier that is
  compared, looked up, sorted or split at ASCII separators (task ids, file paths,
  resource names) it is HOL's \<open>string\<close>.
\<close>

section \<open>Rule collections\<close>

named_theorems bounds_rules \<open>ranges of lengths, offsets and counters\<close>
named_theorems wf_rules \<open>well-formedness of the values an operation returns\<close>
named_theorems step_rules \<open>one-step facts of state machines\<close>

section \<open>Results of code that may throw\<close>

text \<open>A thrown error is \<open>Inl\<close>, a returned value \<open>Inr\<close>.\<close>

definition res_bind :: "'e + 'a \<Rightarrow> ('a \<Rightarrow> 'e + 'b) \<Rightarrow> 'e + 'b" where
  "res_bind m k = (case m of Inl e \<Rightarrow> Inl e | Inr x \<Rightarrow> k x)"

lemma res_bind_simps [simp]:
  "res_bind (Inl e) k = Inl e"
  "res_bind (Inr x) k = k x"
  by (simp_all add: res_bind_def)

lemma res_bind_eq_Inr_conv:
  "res_bind m k = Inr y \<longleftrightarrow> (\<exists>x. m = Inr x \<and> k x = Inr y)"
  by (cases m) simp_all

lemma res_bind_eq_Inl_conv:
  "res_bind m k = Inl e \<longleftrightarrow> m = Inl e \<or> (\<exists>x. m = Inr x \<and> k x = Inl e)"
  by (cases m) simp_all

text \<open>\<open>xs.map(f)\<close> where \<open>f\<close> may throw: the first error ends the map.\<close>

fun res_map :: "('a \<Rightarrow> 'e + 'b) \<Rightarrow> 'a list \<Rightarrow> 'e + 'b list" where
  "res_map f [] = Inr []"
| "res_map f (x # xs) =
     res_bind (f x) (\<lambda>y. res_bind (res_map f xs) (\<lambda>ys. Inr (y # ys)))"

lemma res_map_Inr_iff:
  "res_map f xs = Inr ys \<longleftrightarrow> list_all2 (\<lambda>x y. f x = Inr y) xs ys"
  by (induction xs arbitrary: ys)
     (auto simp: res_bind_eq_Inr_conv list_all2_Cons1)

lemma res_map_length: "res_map f xs = Inr ys \<Longrightarrow> length ys = length xs"
  by (simp add: res_map_Inr_iff list_all2_lengthD)

lemma res_map_pure: "(\<And>x. x \<in> set xs \<Longrightarrow> f x = Inr (g x)) \<Longrightarrow> res_map f xs = Inr (map g xs)"
  by (induction xs) simp_all

lemma res_map_member:
  "res_map f xs = Inr ys \<Longrightarrow> x \<in> set xs \<Longrightarrow> \<exists>y \<in> set ys. f x = Inr y"
  by (induction xs arbitrary: ys) (auto simp: res_bind_eq_Inr_conv)

lemma res_map_source:
  "res_map f xs = Inr ys \<Longrightarrow> y \<in> set ys \<Longrightarrow> \<exists>x \<in> set xs. f x = Inr y"
  by (induction xs arbitrary: ys) (auto simp: res_bind_eq_Inr_conv)

text \<open>\<open>xs.filter(f)\<close> where \<open>f\<close> may throw.\<close>

fun res_filter :: "('a \<Rightarrow> 'e + bool) \<Rightarrow> 'a list \<Rightarrow> 'e + 'a list" where
  "res_filter f [] = Inr []"
| "res_filter f (x # xs) =
     res_bind (f x) (\<lambda>keep. res_bind (res_filter f xs) (\<lambda>ys. Inr (if keep then x # ys else ys)))"

lemma res_filter_members: "res_filter f xs = Inr ys \<Longrightarrow> set ys = {x \<in> set xs. f x = Inr True}"
proof (induction xs arbitrary: ys)
  case (Cons x xs)
  from Cons.prems obtain b zs where x: "f x = Inr b" "res_filter f xs = Inr zs" "ys = (if b then x # zs else zs)"
    by (auto simp: res_bind_eq_Inr_conv)
  have "set zs = {x \<in> set xs. f x = Inr True}" by (rule Cons.IH [OF x(2)])
  then show ?case using x(1,3) by (cases b) auto
qed simp

lemma res_filter_pure: "(\<And>x. x \<in> set xs \<Longrightarrow> f x = Inr (P x)) \<Longrightarrow> res_filter f xs = Inr (filter P xs)"
  by (induction xs) auto

section \<open>Strings of code units and JavaScript array helpers\<close>

type_synonym utf16 = "16 word list"

text \<open>\<open>s.slice(i, j)\<close> for offsets that are never negative.\<close>

definition js_slice :: "'a list \<Rightarrow> int \<Rightarrow> int \<Rightarrow> 'a list" where
  "js_slice xs i j = take (nat j - nat i) (drop (nat i) xs)"

lemma js_slice_prefix [simp]: "js_slice xs 0 j = take (nat j) xs"
  by (simp add: js_slice_def)

text \<open>\<open>xs.at(-1)\<close>: the last element, \<open>undefined\<close> of an empty array.\<close>

definition at_last :: "'a list \<Rightarrow> 'a option" where
  "at_last xs = (if xs = [] then None else Some (last xs))"

lemma at_last_simps [simp]:
  "at_last [] = None"
  "at_last [x] = Some x"
  "at_last (x # y # ys) = at_last (y # ys)"
  "at_last (xs @ [x]) = Some x"
  by (simp_all add: at_last_def)

lemma at_last_snoc2 [simp]: "at_last (xs @ [x, y]) = Some y" "butlast (xs @ [x, y]) = xs @ [x]"
  by (simp_all add: at_last_def butlast_append)

lemma at_last_SomeD: "at_last xs = Some x \<Longrightarrow> xs = butlast xs @ [x]"
  by (auto simp: at_last_def split: if_splits)

lemma at_last_NoneD: "at_last xs = None \<Longrightarrow> xs = []"
  by (auto simp: at_last_def split: if_splits)

text \<open>\<open>Number.isSafeInteger\<close> on a value that is an integer.\<close>

definition max_safe_integer :: int where
  "max_safe_integer = 9007199254740991"

definition is_safe_integer :: "int \<Rightarrow> bool" where
  "is_safe_integer n \<longleftrightarrow> - max_safe_integer \<le> n \<and> n \<le> max_safe_integer"

text \<open>\<open>[...new Set(xs)].sort()\<close>: duplicates dropped, ordered by code unit.\<close>

definition sorted_unique :: "'a::linorder list \<Rightarrow> 'a list" where
  "sorted_unique xs = sort (remdups xs)"

lemma set_sorted_unique [simp]: "set (sorted_unique xs) = set xs"
  by (simp add: sorted_unique_def)

lemma sorted_sorted_unique [simp]: "sorted (sorted_unique xs)"
  by (simp add: sorted_unique_def)

lemma distinct_sorted_unique [simp]: "distinct (sorted_unique xs)"
  by (simp add: sorted_unique_def)

lemma sorted_unique_cong: "set xs = set ys \<Longrightarrow> sorted_unique xs = sorted_unique ys"
  by (rule sorted_distinct_set_unique) simp_all

lemma sorted_unique_idem [simp]: "sorted_unique (sorted_unique xs) = sorted_unique xs"
  by (rule sorted_unique_cong) simp

lemma sorted_unique_Nil_iff [simp]: "sorted_unique xs = [] \<longleftrightarrow> xs = []"
  by (metis set_empty set_sorted_unique)

section \<open>JSON values\<close>

text \<open>
  What \<open>JSON.parse\<close> returns. A number is an integer or, for every value that is not an
  integer, its spelling: the code only ever asks such a number whether it is one.
\<close>

datatype json_number = JInt int | JOther string

datatype json =
    JNull
  | JBool bool
  | JNumber json_number
  | JString utf16
  | JArray "json list"
  | JObject "(string \<times> json) list"

section \<open>Lists\<close>

lemma foldl_invariant:
  "P s \<Longrightarrow> (\<And>s x. P s \<Longrightarrow> x \<in> set xs \<Longrightarrow> P (f s x)) \<Longrightarrow> P (foldl f s xs)"
  by (induction xs arbitrary: s) auto

lemma successively_snoc:
  "successively P (xs @ [x]) \<longleftrightarrow> successively P xs \<and> (xs = [] \<or> P (last xs) x)"
  by (auto simp: successively_append_iff)

lemma replicate_Cons_append: "replicate n x @ x # xs = x # replicate n x @ xs"
  by (induction n) simp_all

lemma split_at_separator:
  "x \<notin> set as \<Longrightarrow> x \<notin> set bs \<Longrightarrow> as @ x # cs = bs @ x # ds \<Longrightarrow> as = bs \<and> cs = ds"
proof (induction as arbitrary: bs)
  case Nil
  then show ?case by (cases bs) auto
next
  case (Cons a as)
  then show ?case by (cases bs) auto
qed

end
