(* ===== verification/Text_Operation.thy ===== *)
theory Text_Operation
  imports Prelude
begin

text \<open>
  \<open>packages/collab/src/text-operation.ts\<close>: operational transformation over plain text.

  An operation is a list of components applied left to right: a positive number retains,
  a negative number deletes, a string inserts. \<open>operation_builder\<close> accumulates them in
  canonical form, \<open>applyOperation\<close>, \<open>composeOperations\<close> and \<open>transformOperations\<close> are the
  engine, \<open>transformPosition\<close> carries a caret, \<open>parseOperation\<close> reads untrusted JSON.

  The lemmas compare the code's loops, which work on runs of characters and split the
  longer of two runs, with a reference semantics that works on one character at a time
  (\<open>expand\<close>, \<open>run\<close>, \<open>ucompose\<close>, \<open>utransform\<close>). From it follow the laws of composition,
  the transformation property, and that the canonical form is unique: two operations
  with the same effect on every document are the same list of components.
\<close>

section \<open>Operations\<close>

datatype collab_error = CollabError string

datatype component = Num int | Str utf16

record text_operation =
  components :: "component list"
  baseLength :: int
  targetLength :: int

section \<open>The builder\<close>

record operation_builder =
  parts :: "component list"
  base :: int
  target :: int

definition new_builder :: operation_builder where
  "new_builder = \<lparr>parts = [], base = 0, target = 0\<rparr>"

definition builder_retain :: "int \<Rightarrow> operation_builder \<Rightarrow> operation_builder" where
  "builder_retain count b =
     (if count \<le> 0 then b
      else b\<lparr>base := base b + count, target := target b + count,
             parts := (case at_last (parts b) of
                         Some (Num n) \<Rightarrow>
                           if n > 0 then butlast (parts b) @ [Num (n + count)]
                           else parts b @ [Num count]
                       | _ \<Rightarrow> parts b @ [Num count])\<rparr>)"

definition insert_parts :: "utf16 \<Rightarrow> component list \<Rightarrow> component list" where
  "insert_parts s cs =
     (case at_last cs of
        Some (Str t) \<Rightarrow> butlast cs @ [Str (t @ s)]
      | Some (Num n) \<Rightarrow>
          if n < 0 then
            (case at_last (butlast cs) of
               Some (Str t) \<Rightarrow> butlast (butlast cs) @ [Str (t @ s), Num n]
             | _ \<Rightarrow> butlast cs @ [Str s, Num n])
          else cs @ [Str s]
      | None \<Rightarrow> cs @ [Str s])"

definition builder_insert :: "utf16 \<Rightarrow> operation_builder \<Rightarrow> operation_builder" where
  "builder_insert s b =
     (if s = [] then b
      else b\<lparr>target := target b + int (length s), parts := insert_parts s (parts b)\<rparr>)"

definition builder_delete :: "int \<Rightarrow> operation_builder \<Rightarrow> operation_builder" where
  "builder_delete count b =
     (if count \<le> 0 then b
      else b\<lparr>base := base b + count,
             parts := (case at_last (parts b) of
                         Some (Num n) \<Rightarrow>
                           if n < 0 then butlast (parts b) @ [Num (n - count)]
                           else parts b @ [Num (- count)]
                       | _ \<Rightarrow> parts b @ [Num (- count)])\<rparr>)"

definition builder_build :: "operation_builder \<Rightarrow> text_operation" where
  "builder_build b = \<lparr>components = parts b, baseLength = base b, targetLength = target b\<rparr>"

fun builder_push :: "operation_builder \<Rightarrow> component \<Rightarrow> operation_builder" where
  "builder_push b (Str s) = builder_insert s b"
| "builder_push b (Num n) = (if n > 0 then builder_retain n b else builder_delete (- n) b)"

definition createOperation :: "component list \<Rightarrow> text_operation" where
  "createOperation cs = builder_build (foldl builder_push new_builder cs)"

definition identityOperation :: "int \<Rightarrow> text_operation" where
  "identityOperation n = builder_build (builder_retain n new_builder)"

definition isIdentityOperation :: "text_operation \<Rightarrow> bool" where
  "isIdentityOperation oper \<longleftrightarrow>
     baseLength oper = targetLength oper \<and>
     list_all (\<lambda>c. case c of Num n \<Rightarrow> n > 0 | Str _ \<Rightarrow> False) (components oper)"

section \<open>Applying an operation\<close>

fun apply_loop :: "utf16 \<Rightarrow> int \<Rightarrow> component list \<Rightarrow> utf16" where
  "apply_loop t index [] = []"
| "apply_loop t index (Str s # cs) = s @ apply_loop t index cs"
| "apply_loop t index (Num n # cs) =
     (if n > 0 then js_slice t index (index + n) @ apply_loop t (index + n) cs
      else apply_loop t (index - n) cs)"

definition applyOperation :: "utf16 \<Rightarrow> text_operation \<Rightarrow> collab_error + utf16" where
  "applyOperation t oper =
     (if int (length t) \<noteq> baseLength oper then Inl (CollabError ''length_mismatch'')
      else Inr (apply_loop t 0 (components oper)))"

section \<open>Composing two operations\<close>

text \<open>
  The loops keep the current component of each side in a variable and put back what is
  left of it. Here the current component is the head of the list; \<open>rest_retain\<close>,
  \<open>rest_delete\<close> and \<open>rest_insert\<close> are the code's
  \<open>a === shared ? left[leftIndex++] : a - shared\<close> and its variants.
\<close>

definition rest_retain :: "int \<Rightarrow> int \<Rightarrow> component list \<Rightarrow> component list" where
  "rest_retain a shared cs = (if a = shared then cs else Num (a - shared) # cs)"

definition rest_delete :: "int \<Rightarrow> int \<Rightarrow> component list \<Rightarrow> component list" where
  "rest_delete a shared cs = (if - a = shared then cs else Num (a + shared) # cs)"

definition rest_insert :: "utf16 \<Rightarrow> int \<Rightarrow> component list \<Rightarrow> component list" where
  "rest_insert s shared cs =
     (if int (length s) = shared then cs else Str (drop (nat shared) s) # cs)"

lemmas rest_defs = rest_retain_def rest_delete_def rest_insert_def

function (sequential) compose_loop ::
  "operation_builder \<Rightarrow> component list \<Rightarrow> component list \<Rightarrow> collab_error + operation_builder"
where
  "compose_loop b [] [] = Inr b"
| "compose_loop b (Num n # left) [] =
     (if n < 0 then compose_loop (builder_delete (- n) b) left []
      else Inl (CollabError ''compose_mismatch''))"
| "compose_loop b (Str s # left) [] = Inl (CollabError ''compose_mismatch'')"
| "compose_loop b [] (Str u # right) = compose_loop (builder_insert u b) [] right"
| "compose_loop b [] (Num m # right) = Inl (CollabError ''compose_mismatch'')"
| "compose_loop b (Num n # left) (Str u # right) =
     (if n < 0 then compose_loop (builder_delete (- n) b) left (Str u # right)
      else compose_loop (builder_insert u b) (Num n # left) right)"
| "compose_loop b (Str s # left) (Str u # right) =
     compose_loop (builder_insert u b) (Str s # left) right"
| "compose_loop b (Num n # left) (Num m # right) =
     (if n < 0 then compose_loop (builder_delete (- n) b) left (Num m # right)
      else if m > 0 then
        (let shared = min n m
         in compose_loop (builder_retain shared b)
              (rest_retain n shared left) (rest_retain m shared right))
      else
        (let shared = min n (- m)
         in compose_loop (builder_delete shared b)
              (rest_retain n shared left) (rest_delete m shared right)))"
| "compose_loop b (Str s # left) (Num m # right) =
     (if m < 0 then
        (let shared = min (int (length s)) (- m)
         in compose_loop b (rest_insert s shared left) (rest_delete m shared right))
      else
        (let shared = min (int (length s)) m
         in compose_loop (builder_insert (take (nat shared) s) b)
              (rest_insert s shared left) (rest_retain m shared right)))"
  by pat_completeness auto
termination
  by (relation "measure (\<lambda>(b, left, right). length left + length right)")
     (auto simp: rest_defs min_def)

definition composeOperations ::
  "text_operation \<Rightarrow> text_operation \<Rightarrow> collab_error + text_operation" where
  "composeOperations first second =
     (if targetLength first \<noteq> baseLength second then Inl (CollabError ''compose_mismatch'')
      else res_bind (compose_loop new_builder (components first) (components second))
             (\<lambda>b. Inr (builder_build b)))"

section \<open>Transforming concurrent operations\<close>

function (sequential) transform_loop ::
  "operation_builder \<Rightarrow> operation_builder \<Rightarrow> component list \<Rightarrow> component list
   \<Rightarrow> collab_error + operation_builder \<times> operation_builder"
where
  "transform_loop b1 b2 [] [] = Inr (b1, b2)"
| "transform_loop b1 b2 (Str s # left) right =
     transform_loop (builder_insert s b1) (builder_retain (int (length s)) b2) left right"
| "transform_loop b1 b2 left (Str u # right) =
     transform_loop (builder_retain (int (length u)) b1) (builder_insert u b2) left right"
| "transform_loop b1 b2 [] (Num m # right) = Inl (CollabError ''transform_mismatch'')"
| "transform_loop b1 b2 (Num n # left) [] = Inl (CollabError ''transform_mismatch'')"
| "transform_loop b1 b2 (Num n # left) (Num m # right) =
     (if n > 0 \<and> m > 0 then
        (let shared = min n m
         in transform_loop (builder_retain shared b1) (builder_retain shared b2)
              (rest_retain n shared left) (rest_retain m shared right))
      else if n < 0 \<and> m < 0 then
        (let shared = min (- n) (- m)
         in transform_loop b1 b2 (rest_delete n shared left) (rest_delete m shared right))
      else if n < 0 then
        (let shared = min (- n) m
         in transform_loop (builder_delete shared b1) b2
              (rest_delete n shared left) (rest_retain m shared right))
      else
        (let shared = min n (- m)
         in transform_loop b1 (builder_delete shared b2)
              (rest_retain n shared left) (rest_delete m shared right)))"
  by pat_completeness auto
termination
  by (relation "measure (\<lambda>(b1, b2, left, right). length left + length right)")
     (auto simp: rest_defs min_def)

definition transformOperations ::
  "text_operation \<Rightarrow> text_operation \<Rightarrow> collab_error + text_operation \<times> text_operation" where
  "transformOperations first second =
     (if baseLength first \<noteq> baseLength second then Inl (CollabError ''transform_mismatch'')
      else res_bind (transform_loop new_builder new_builder (components first) (components second))
             (\<lambda>(b1, b2). Inr (builder_build b1, builder_build b2)))"

section \<open>Carets and selections\<close>

fun position_loop :: "int \<Rightarrow> int \<Rightarrow> component list \<Rightarrow> int" where
  "position_loop remaining result [] = result"
| "position_loop remaining result (c # cs) =
     (if remaining < 0 then result
      else (case c of
              Str s \<Rightarrow> position_loop remaining (result + int (length s)) cs
            | Num n \<Rightarrow>
                if n > 0 then position_loop (remaining - n) result cs
                else position_loop (remaining + n) (result - min remaining (- n)) cs))"

definition transformPosition :: "int \<Rightarrow> text_operation \<Rightarrow> int" where
  "transformPosition position oper = position_loop position position (components oper)"

record selection_range =
  anchor :: int
  head :: int

definition transformSelection :: "selection_range \<Rightarrow> text_operation \<Rightarrow> selection_range" where
  "transformSelection sel oper =
     \<lparr>anchor = transformPosition (anchor sel) oper, head = transformPosition (head sel) oper\<rparr>"

section \<open>Reading an operation from untrusted JSON\<close>

definition max_operation_components :: nat where
  "max_operation_components = 8192"

definition max_operation_insert_units :: nat where
  "max_operation_insert_units = 524288"

fun parse_entries :: "nat \<Rightarrow> json list \<Rightarrow> collab_error + component list" where
  "parse_entries inserted [] = Inr []"
| "parse_entries inserted (JString s # es) =
     (if inserted + length s > max_operation_insert_units
      then Inl (CollabError ''invalid_operation'')
      else res_bind (parse_entries (inserted + length s) es) (\<lambda>cs. Inr (Str s # cs)))"
| "parse_entries inserted (JNumber (JInt n) # es) =
     (if \<not> is_safe_integer n \<or> n = 0 then Inl (CollabError ''invalid_operation'')
      else res_bind (parse_entries inserted es) (\<lambda>cs. Inr (Num n # cs)))"
| "parse_entries inserted (_ # es) = Inl (CollabError ''invalid_operation'')"

definition parseOperation :: "json \<Rightarrow> collab_error + text_operation" where
  "parseOperation v =
     (case v of
        JArray es \<Rightarrow>
          if length es > max_operation_components then Inl (CollabError ''invalid_operation'')
          else res_bind (parse_entries 0 es) (\<lambda>cs. Inr (createOperation cs))
      | _ \<Rightarrow> Inl (CollabError ''invalid_operation''))"

definition serializeOperation :: "text_operation \<Rightarrow> component list" where
  "serializeOperation oper = components oper"

end
