(* ===== verification/Operation_Semantics.thy ===== *)
theory Operation_Semantics
  imports Text_Operation
begin

text \<open>
  What the engine of \<open>Text_Operation\<close> means and why it is right. An operation is read one
  character at a time (\<open>unit_step\<close>); \<open>run\<close> is its effect on a document. \<open>builds\<close> says
  what the builder has accumulated, \<open>wf_operation\<close> what every operation the engine
  produces satisfies. The loops of the code are shown to compute \<open>ucompose\<close> and
  \<open>utransform\<close>, the same functions without runs to split.
\<close>

section \<open>Operations one character at a time\<close>

datatype unit_step = Keep | Drop | Put "16 word"

fun units :: "component \<Rightarrow> unit_step list" where
  "units (Num n) = (if n > 0 then replicate (nat n) Keep else replicate (nat (- n)) Drop)"
| "units (Str s) = map Put s"

fun expand :: "component list \<Rightarrow> unit_step list" where
  "expand [] = []"
| "expand (c # cs) = units c @ expand cs"

fun run :: "unit_step list \<Rightarrow> utf16 \<Rightarrow> utf16" where
  "run [] t = []"
| "run (Put c # us) t = c # run us t"
| "run (Drop # us) t = run us (tl t)"
| "run (Keep # us) (c # t) = c # run us t"
| "run (Keep # us) [] = run us []"

fun consumed :: "unit_step list \<Rightarrow> nat" where
  "consumed [] = 0"
| "consumed (Put c # us) = consumed us"
| "consumed (_ # us) = Suc (consumed us)"

fun produced :: "unit_step list \<Rightarrow> nat" where
  "produced [] = 0"
| "produced (Drop # us) = produced us"
| "produced (_ # us) = Suc (produced us)"

lemma expand_append [simp]: "expand (xs @ ys) = expand xs @ expand ys"
  by (induction xs) simp_all

lemma consumed_append [simp]: "consumed (us @ vs) = consumed us + consumed vs"
  by (induction us rule: consumed.induct) simp_all

lemma produced_append [simp]: "produced (us @ vs) = produced us + produced vs"
  by (induction us rule: produced.induct) simp_all

lemma consumed_runs [simp]:
  "consumed (replicate n Keep) = n" "consumed (replicate n Drop) = n" "consumed (map Put s) = 0"
  by (induction n, simp_all) (induction n, simp_all, induction s, simp_all)

lemma produced_runs [simp]:
  "produced (replicate n Keep) = n" "produced (replicate n Drop) = 0"
  "produced (map Put s) = length s"
  by (induction n, simp_all) (induction n, simp_all, induction s, simp_all)

lemma run_append: "run (us @ vs) t = run us t @ run vs (drop (consumed us) t)"
  by (induction us t rule: run.induct) (simp_all add: drop_Suc)

lemma run_keeps [simp]: "run (replicate n Keep) t = take n t"
  by (induction n arbitrary: t) (simp, case_tac t, simp_all)

lemma run_drops [simp]: "run (replicate n Drop) t = []"
  by (induction n arbitrary: t) simp_all

lemma run_puts [simp]: "run (map Put s) t = s"
  by (induction s) simp_all

lemma length_run: "consumed us \<le> length t \<Longrightarrow> length (run us t) = produced us"
  by (induction us t rule: run.induct) (auto simp: Suc_le_length_iff)

lemma run_take: "consumed us \<le> n \<Longrightarrow> run us (take n t) = run us t"
proof (induction us t arbitrary: n rule: run.induct)
  case (3 us t)
  then show ?case by (cases n; cases t) (auto simp: take_tl)
next
  case (4 us c t)
  then show ?case by (cases n) auto
qed auto

text \<open>The loop of \<open>applyOperation\<close> computes \<open>run\<close>.\<close>

lemma apply_loop_run:
  "0 \<le> index \<Longrightarrow> apply_loop t index cs = run (expand cs) (drop (nat index) t)"
  by (induction t index cs rule: apply_loop.induct)
     (auto simp: run_append js_slice_def nat_add_distrib add.commute,
      simp add: nat_add_distrib [of _ "- _", simplified])

section \<open>Canonical operations\<close>

fun proper :: "component \<Rightarrow> bool" where
  "proper (Num n) \<longleftrightarrow> n \<noteq> 0"
| "proper (Str s) \<longleftrightarrow> s \<noteq> []"

text \<open>Neighbours the builder would have merged, or, for an insert after a delete, swapped.\<close>

fun settled :: "component \<Rightarrow> component \<Rightarrow> bool" where
  "settled (Str _) (Str _) \<longleftrightarrow> False"
| "settled (Str _) (Num _) \<longleftrightarrow> True"
| "settled (Num n) (Str _) \<longleftrightarrow> n > 0"
| "settled (Num n) (Num m) \<longleftrightarrow> (n > 0) \<noteq> (m > 0)"

definition canonical :: "component list \<Rightarrow> bool" where
  "canonical cs \<longleftrightarrow> list_all proper cs \<and> successively settled cs"

definition wf_operation :: "text_operation \<Rightarrow> bool" where
  "wf_operation oper \<longleftrightarrow>
     canonical (components oper) \<and>
     baseLength oper = int (consumed (expand (components oper))) \<and>
     targetLength oper = int (produced (expand (components oper)))"

definition ueq :: "unit_step list \<Rightarrow> unit_step list \<Rightarrow> bool" where
  "ueq us vs \<longleftrightarrow>
     (\<forall>t. run us t = run vs t) \<and> consumed us = consumed vs \<and> produced us = produced vs"

lemma ueq_refl [simp]: "ueq us us"
  by (simp add: ueq_def)

lemma ueq_append_right: "ueq us vs \<Longrightarrow> ueq (us @ ws) (vs @ ws)"
  by (simp add: ueq_def run_append)

lemma ueq_trans: "ueq us vs \<Longrightarrow> ueq vs ws \<Longrightarrow> ueq us ws"
  by (simp add: ueq_def)

lemma ueq_swap: "ueq (us @ map Put s @ replicate n Drop) (us @ replicate n Drop @ map Put s)"
  by (simp add: ueq_def run_append)

definition builds :: "operation_builder \<Rightarrow> unit_step list \<Rightarrow> bool" where
  "builds b us \<longleftrightarrow>
     canonical (parts b) \<and> base b = int (consumed us) \<and> target b = int (produced us) \<and>
     ueq (expand (parts b)) us"

lemma builds_new [simp]: "builds new_builder []"
  by (simp add: builds_def new_builder_def canonical_def)

lemma canonical_snoc:
  "canonical (cs @ [c]) \<longleftrightarrow> canonical cs \<and> proper c \<and> (cs = [] \<or> settled (last cs) c)"
  by (auto simp: canonical_def successively_snoc)

lemma canonical_single [simp]: "canonical [c] \<longleftrightarrow> proper c"
  by (simp add: canonical_def)

lemma builds_wf: "builds b us \<Longrightarrow> wf_operation (builder_build b)"
  by (simp add: builds_def wf_operation_def builder_build_def ueq_def)

lemma builds_retain [wf_rules]:
  assumes "builds b us"
  shows "builds (builder_retain n b) (us @ replicate (nat n) Keep)"
proof (cases "n \<le> 0")
  case False
  show ?thesis
  proof (cases "\<exists>cs k. parts b = cs @ [Num k] \<and> k > 0")
    case True
    then obtain cs k where p: "parts b = cs @ [Num k]" "k > 0" by blast
    have "replicate (nat k) Keep @ replicate (nat n) Keep = replicate (nat (k + n)) Keep"
      using p(2) False by (simp add: nat_add_distrib flip: replicate_add)
    then have "expand (cs @ [Num (k + n)]) = expand (parts b) @ replicate (nat n) Keep"
      using p False by simp
    moreover have "canonical (cs @ [Num (k + n)])"
      using assms p False by (cases "last cs") (auto simp: builds_def canonical_snoc)
    ultimately show ?thesis
      using assms p False ueq_append_right [of "expand (parts b)" us]
      by (auto simp: builder_retain_def builds_def)
  next
    case new: False
    have "parts (builder_retain n b) = parts b @ [Num n]"
      using False new at_last_SomeD
      by (fastforce simp: builder_retain_def split: option.splits component.splits)
    moreover have "canonical (parts b @ [Num n])"
    proof -
      have "settled (last (parts b)) (Num n)" if "parts b \<noteq> []"
      proof -
        have "\<not> (\<exists>k. last (parts b) = Num k \<and> k > 0)"
          using new append_butlast_last_id [OF that] by metis
        then show ?thesis using False by (cases "last (parts b)") auto
      qed
      then show ?thesis using assms False by (auto simp: builds_def canonical_snoc)
    qed
    ultimately show ?thesis
      using assms False ueq_append_right [of "expand (parts b)" us]
      by (auto simp: builder_retain_def builds_def)
  qed
qed (use assms in \<open>simp add: builder_retain_def\<close>)

lemma builds_delete [wf_rules]:
  assumes "builds b us"
  shows "builds (builder_delete n b) (us @ replicate (nat n) Drop)"
proof (cases "n \<le> 0")
  case False
  show ?thesis
  proof (cases "\<exists>cs k. parts b = cs @ [Num k] \<and> k < 0")
    case True
    then obtain cs k where p: "parts b = cs @ [Num k]" "k < 0" by blast
    have "replicate (nat (- k)) Drop @ replicate (nat n) Drop = replicate (nat (n - k)) Drop"
      using p(2) False nat_add_distrib [of "- k" n] by (simp flip: replicate_add)
    then have "expand (cs @ [Num (k - n)]) = expand (parts b) @ replicate (nat n) Drop"
      using p False by simp
    moreover have "canonical (cs @ [Num (k - n)])"
      using assms p False by (cases "last cs") (auto simp: builds_def canonical_snoc)
    ultimately show ?thesis
      using assms p False ueq_append_right [of "expand (parts b)" us]
      by (auto simp: builder_delete_def builds_def)
  next
    case new: False
    have "parts (builder_delete n b) = parts b @ [Num (- n)]"
      using False new at_last_SomeD
      by (fastforce simp: builder_delete_def split: option.splits component.splits)
    moreover have "canonical (parts b @ [Num (- n)])"
    proof -
      have "settled (last (parts b)) (Num (- n))" if "parts b \<noteq> []"
      proof -
        have "\<not> (\<exists>k. last (parts b) = Num k \<and> k < 0)"
          using new append_butlast_last_id [OF that] by metis
        moreover have "proper (last (parts b))"
          using assms that by (simp add: builds_def canonical_def list_all_iff)
        ultimately show ?thesis using False by (cases "last (parts b)") auto
      qed
      then show ?thesis using assms False by (auto simp: builds_def canonical_snoc)
    qed
    ultimately show ?thesis
      using assms False ueq_append_right [of "expand (parts b)" us]
      by (auto simp: builder_delete_def builds_def)
  qed
qed (use assms in \<open>simp add: builder_delete_def\<close>)

text \<open>Where an inserted string goes depends on the last two components.\<close>

lemma parts_cases:
  obtains (empty) "cs = []"
    | (string) ds t where "cs = ds @ [Str t]"
    | (retain) ds n where "cs = ds @ [Num n]" "n \<ge> 0"
    | (string_delete) ds t n where "cs = ds @ [Str t, Num n]" "n < 0"
    | (only_delete) n where "cs = [Num n]" "n < 0"
    | (delete_delete) ds m n where "cs = ds @ [Num m, Num n]" "n < 0"
proof (cases cs rule: rev_cases)
  case (snoc ds c)
  show ?thesis
  proof (cases c)
    case (Num n)
    show ?thesis
    proof (cases "n < 0")
      case True
      then show ?thesis
        using snoc Num string_delete only_delete delete_delete
        by (cases ds rule: rev_cases; cases "last ds") auto
    qed (use snoc Num retain in auto)
  qed (use snoc string in auto)
qed (use empty in auto)

lemma insert_parts_spec:
  assumes "canonical cs" and "s \<noteq> []"
  shows "canonical (insert_parts s cs) \<and> ueq (expand (insert_parts s cs)) (expand cs @ map Put s)"
proof (cases cs rule: parts_cases)
  case empty
  then show ?thesis using assms by (simp add: insert_parts_def canonical_def)
next
  case (string ds t)
  then show ?thesis
    using assms by (cases "last ds") (auto simp: insert_parts_def canonical_snoc)
next
  case (retain ds n)
  then show ?thesis
    using assms canonical_snoc [of "ds @ [Num n]" "Str s"]
    by (auto simp: insert_parts_def canonical_snoc)
next
  case (string_delete ds t n)
  then show ?thesis
    using assms ueq_swap [of "expand ds @ map Put t" s "nat (- n)"]
      canonical_snoc [of "ds @ [Str t]" "Num n"] canonical_snoc [of "ds @ [Str (t @ s)]" "Num n"]
    by (cases "last ds") (auto simp: insert_parts_def canonical_snoc)
next
  case (only_delete n)
  then show ?thesis
    using assms ueq_swap [of "[]" s "nat (- n)"]
      canonical_snoc [of "[Str s]" "Num n"] canonical_snoc [of "[]" "Str s"]
    by (auto simp: insert_parts_def canonical_snoc at_last_def)
next
  case (delete_delete ds m n)
  then show ?thesis
    using assms ueq_swap [of "expand ds @ units (Num m)" s "nat (- n)"]
      canonical_snoc [of "ds @ [Num m, Str s]" "Num n"] canonical_snoc [of "ds @ [Num m]" "Str s"]
      canonical_snoc [of "ds @ [Num m]" "Num n"]
    by (auto simp: insert_parts_def at_last_def butlast_append)
qed

lemma builds_insert [wf_rules]:
  assumes "builds b us"
  shows "builds (builder_insert s b) (us @ map Put s)"
proof (cases "s = []")
  case False
  then have "canonical (insert_parts s (parts b))"
    and "ueq (expand (insert_parts s (parts b))) (expand (parts b) @ map Put s)"
    using assms insert_parts_spec by (auto simp: builds_def)
  then show ?thesis
    using assms False ueq_append_right [of "expand (parts b)" us "map Put s"] ueq_trans
    by (auto simp: builder_insert_def builds_def)
qed (use assms in \<open>simp add: builder_insert_def\<close>)

lemma builds_push: "builds b us \<Longrightarrow> builds (builder_push b c) (us @ units c)"
  by (cases c) (simp_all add: wf_rules)

lemma builds_pushes: "builds b us \<Longrightarrow> builds (foldl builder_push b cs) (us @ expand cs)"
  by (induction cs arbitrary: b us) (auto dest: builds_push simp flip: append_assoc)

lemma createOperation_builds:
  "\<exists>b. createOperation cs = builder_build b \<and> builds b (expand cs)"
  using builds_pushes [OF builds_new, of cs] by (auto simp: createOperation_def)

lemma wf_createOperation [wf_rules]: "wf_operation (createOperation cs)"
  using createOperation_builds [of cs] builds_wf by auto

lemma wf_identityOperation [wf_rules]: "wf_operation (identityOperation n)"
  using builds_wf [OF builds_retain [OF builds_new]] by (simp add: identityOperation_def)

section \<open>Composition\<close>

fun ucompose :: "unit_step list \<Rightarrow> unit_step list \<Rightarrow> unit_step list" where
  "ucompose (Drop # A) B = Drop # ucompose A B"
| "ucompose A (Put c # B) = Put c # ucompose A B"
| "ucompose (Keep # A) (Keep # B) = Keep # ucompose A B"
| "ucompose (Put c # A) (Drop # B) = ucompose A B"
| "ucompose (Put c # A) (Keep # B) = Put c # ucompose A B"
| "ucompose (Keep # A) (Drop # B) = Drop # ucompose A B"
| "ucompose A B = []"

lemma run_ucompose:
  "produced A = consumed B \<Longrightarrow> consumed A \<le> length t \<Longrightarrow> run (ucompose A B) t = run B (run A t)"
proof (induction A B arbitrary: t rule: ucompose.induct)
  case (1 A B)
  then show ?case by (cases t) auto
next
  case (3 A B)
  then show ?case by (cases t) auto
next
  case (6 A B)
  then show ?case by (cases t) auto
qed auto

lemma consumed_ucompose: "produced A = consumed B \<Longrightarrow> consumed (ucompose A B) = consumed A"
  by (induction A B rule: ucompose.induct) auto

lemma produced_ucompose: "produced A = consumed B \<Longrightarrow> produced (ucompose A B) = produced B"
  by (induction A B rule: ucompose.induct) auto

lemma ucompose_drops: "ucompose (replicate n Drop @ A) B = replicate n Drop @ ucompose A B"
  by (induction n) simp_all

lemma ucompose_puts:
  "A = [] \<or> hd A \<noteq> Drop \<Longrightarrow> ucompose A (map Put s @ B) = map Put s @ ucompose A B"
proof (induction s)
  case (Cons c s)
  then show ?case by (cases A; cases "hd A") auto
qed simp

lemma ucompose_keep_keep:
  "ucompose (replicate n Keep @ A) (replicate n Keep @ B) = replicate n Keep @ ucompose A B"
  by (induction n) simp_all

lemma ucompose_keep_drop:
  "ucompose (replicate n Keep @ A) (replicate n Drop @ B) = replicate n Drop @ ucompose A B"
  by (induction n) simp_all

lemma ucompose_put_drop: "ucompose (map Put s @ A) (replicate (length s) Drop @ B) = ucompose A B"
  by (induction s) simp_all

lemma ucompose_put_keep:
  "ucompose (map Put s @ A) (replicate (length s) Keep @ B) = map Put s @ ucompose A B"
  by (induction s) simp_all

text \<open>Taking the first \<open>k\<close> characters off a run leaves the code's remainder.\<close>

lemma expand_rest_retain:
  "0 < k \<Longrightarrow> k \<le> n \<Longrightarrow> expand (Num n # cs) = replicate (nat k) Keep @ expand (rest_retain n k cs)"
  by (auto simp: rest_retain_def simp flip: replicate_add nat_add_distrib append_assoc)

lemma expand_rest_delete:
  "0 < k \<Longrightarrow> k \<le> - n \<Longrightarrow> expand (Num n # cs) = replicate (nat k) Drop @ expand (rest_delete n k cs)"
  by (auto simp: rest_delete_def simp flip: replicate_add nat_add_distrib append_assoc)

lemma expand_rest_insert:
  "0 \<le> k \<Longrightarrow> k \<le> int (length s) \<Longrightarrow>
   expand (Str s # cs) = map Put (take (nat k) s) @ expand (rest_insert s k cs)"
  by (auto simp: rest_insert_def simp flip: map_append append_assoc)

lemma proper_rest:
  "list_all proper cs \<Longrightarrow> k \<le> n \<Longrightarrow> list_all proper (rest_retain n k cs)"
  "list_all proper cs \<Longrightarrow> k \<le> - m \<Longrightarrow> list_all proper (rest_delete m k cs)"
  "list_all proper cs \<Longrightarrow> k \<le> int (length s) \<Longrightarrow> s \<noteq> [] \<Longrightarrow> list_all proper (rest_insert s k cs)"
proof -
  assume "list_all proper cs" "k \<le> int (length s)" "s \<noteq> []"
  then show "list_all proper (rest_insert s k cs)"
    by (cases "k \<ge> 0") (auto simp: rest_defs le_nat_iff)
qed (auto simp: rest_defs)

text \<open>The code's loop computes \<open>ucompose\<close>, and never fails when the lengths fit.\<close>

lemma compose_loop_ucompose:
  assumes "builds b us" and "list_all proper left" and "list_all proper right"
    and "produced (expand left) = consumed (expand right)"
  shows "\<exists>b'. compose_loop b left right = Inr b' \<and>
              builds b' (us @ ucompose (expand left) (expand right))"
  using assms
proof (induction b left right arbitrary: us rule: compose_loop.induct)
  case (1 b)
  then show ?case by auto
next
  case (2 b n left)
  then have "n < 0" by (auto split: if_splits)
  then show ?case
    using 2 "2.IH" [of "us @ replicate (nat (- n)) Drop"] by (simp add: wf_rules ucompose_drops)
next
  case (4 b u right)
  then show ?case
    using "4.IH" [of "us @ map Put u"] by (simp add: wf_rules ucompose_puts)
next
  case (6 b n left u right)
  show ?case
  proof (cases "n < 0")
    case True
    then show ?thesis
      using 6 "6.IH"(1) [of "us @ replicate (nat (- n)) Drop"]
      by (simp add: wf_rules ucompose_drops)
  next
    case False
    then have "hd (expand (Num n # left)) \<noteq> Drop"
      using "6.prems" by (cases "nat n") auto
    then show ?thesis
      using False 6 "6.IH"(2) [of "us @ map Put u"]
      by (simp add: wf_rules ucompose_puts)
  qed
next
  case (7 b s left u right)
  then have "hd (expand (Str s # left)) \<noteq> Drop" by (cases s) auto
  then show ?case
    using 7 "7.IH" [of "us @ map Put u"] by (simp add: wf_rules ucompose_puts)
next
  case (8 b n left m right)
  consider "n < 0" | "n > 0" "m > 0" | "n > 0" "m < 0"
    using 8 by fastforce
  then show ?case
  proof cases
    case 1
    then show ?thesis
      using 8 "8.IH"(1) [of "us @ replicate (nat (- n)) Drop"]
      by (simp add: wf_rules ucompose_drops)
  next
    case 2
    let ?k = "min n m"
    have "expand (Num n # left) = replicate (nat ?k) Keep @ expand (rest_retain n ?k left)"
      "expand (Num m # right) = replicate (nat ?k) Keep @ expand (rest_retain m ?k right)"
      using 2 expand_rest_retain [of ?k n left] expand_rest_retain [of ?k m right] by simp_all
    then show ?thesis
      using 2 "8.prems" "8.IH"(2) [of ?k "us @ replicate (nat ?k) Keep"]
      by (simp add: wf_rules proper_rest ucompose_keep_keep Let_def del: expand.simps)
  next
    case 3
    let ?k = "min n (- m)"
    have "expand (Num n # left) = replicate (nat ?k) Keep @ expand (rest_retain n ?k left)"
      "expand (Num m # right) = replicate (nat ?k) Drop @ expand (rest_delete m ?k right)"
      using 3 expand_rest_retain [of ?k n left] expand_rest_delete [of ?k m right] by simp_all
    then show ?thesis
      using 3 "8.prems" "8.IH"(3) [of ?k "us @ replicate (nat ?k) Drop"]
      by (simp add: wf_rules proper_rest ucompose_keep_drop Let_def del: expand.simps)
  qed
next
  case (9 b s left m right)
  show ?case
  proof (cases "m < 0")
    case True
    let ?k = "min (int (length s)) (- m)"
    have "expand (Str s # left) = map Put (take (nat ?k) s) @ expand (rest_insert s ?k left)"
      "expand (Num m # right) = replicate (length (take (nat ?k) s)) Drop @ expand (rest_delete m ?k right)"
      using True 9 expand_rest_insert [of ?k s left] expand_rest_delete [of ?k m right]
      by (auto simp: min_def)
    then show ?thesis
      using True "9.prems" "9.IH"(1) [of ?k us]
      by (simp add: proper_rest ucompose_put_drop Let_def del: expand.simps length_take)
  next
    case False
    let ?k = "min (int (length s)) m"
    have "expand (Str s # left) = map Put (take (nat ?k) s) @ expand (rest_insert s ?k left)"
      "expand (Num m # right) = replicate (length (take (nat ?k) s)) Keep @ expand (rest_retain m ?k right)"
      using False 9 expand_rest_insert [of ?k s left] expand_rest_retain [of ?k m right]
      by (auto simp: min_def)
    then show ?thesis
      using False "9.prems" "9.IH"(2) [of ?k "us @ map Put (take (nat ?k) s)"]
      by (simp add: wf_rules proper_rest ucompose_put_keep Let_def del: expand.simps length_take)
  qed
qed (auto split: if_splits)

section \<open>Transformation\<close>

fun utransform :: "unit_step list \<Rightarrow> unit_step list \<Rightarrow> unit_step list \<times> unit_step list" where
  "utransform (Put c # A) B = map_prod ((#) (Put c)) ((#) Keep) (utransform A B)"
| "utransform A (Put c # B) = map_prod ((#) Keep) ((#) (Put c)) (utransform A B)"
| "utransform (Keep # A) (Keep # B) = map_prod ((#) Keep) ((#) Keep) (utransform A B)"
| "utransform (Drop # A) (Drop # B) = utransform A B"
| "utransform (Drop # A) (Keep # B) = map_prod ((#) Drop) id (utransform A B)"
| "utransform (Keep # A) (Drop # B) = map_prod id ((#) Drop) (utransform A B)"
| "utransform A B = ([], [])"

lemma utransform_lengths:
  "consumed A = consumed B \<Longrightarrow>
   consumed (fst (utransform A B)) = produced B \<and> consumed (snd (utransform A B)) = produced A \<and>
   produced (fst (utransform A B)) = produced (snd (utransform A B))"
  by (induction A B rule: utransform.induct) auto

text \<open>The transformation property: both orders reach the same document.\<close>

lemma run_utransform:
  "consumed A = consumed B \<Longrightarrow> consumed A \<le> length t \<Longrightarrow>
   run (snd (utransform A B)) (run A t) = run (fst (utransform A B)) (run B t)"
proof (induction A B arbitrary: t rule: utransform.induct)
  case (3 A B)
  then show ?case by (cases t) auto
next
  case (4 A B)
  then show ?case by (cases t) auto
next
  case (5 A B)
  then show ?case by (cases t) auto
next
  case (6 A B)
  then show ?case by (cases t) auto
qed auto

lemma utransform_puts_left:
  "utransform (map Put s @ A) B =
   map_prod ((@) (map Put s)) ((@) (replicate (length s) Keep)) (utransform A B)"
  by (induction s) (auto simp: prod.map_comp comp_def)

fun starts_put :: "unit_step list \<Rightarrow> bool" where
  "starts_put (Put c # _) = True"
| "starts_put _ = False"

lemma utransform_puts_right:
  "\<not> starts_put A \<Longrightarrow>
   utransform A (map Put s @ B) =
   map_prod ((@) (replicate (length s) Keep)) ((@) (map Put s)) (utransform A B)"
proof (induction s)
  case (Cons c s)
  then show ?case by (cases A rule: starts_put.cases) (auto simp: prod.map_comp comp_def)
qed (cases "utransform A B"; simp)

lemma utransform_keep_keep:
  "utransform (replicate n Keep @ A) (replicate n Keep @ B) =
   map_prod ((@) (replicate n Keep)) ((@) (replicate n Keep)) (utransform A B)"
  by (induction n) (auto simp: prod.map_comp comp_def)

lemma utransform_drop_drop:
  "utransform (replicate n Drop @ A) (replicate n Drop @ B) = utransform A B"
  by (induction n) auto

lemma utransform_drop_keep:
  "utransform (replicate n Drop @ A) (replicate n Keep @ B) =
   map_prod ((@) (replicate n Drop)) id (utransform A B)"
  by (induction n) (auto simp: prod.map_comp comp_def)

lemma utransform_keep_drop:
  "utransform (replicate n Keep @ A) (replicate n Drop @ B) =
   map_prod id ((@) (replicate n Drop)) (utransform A B)"
  by (induction n) (auto simp: prod.map_comp comp_def)

definition builds2 ::
  "(collab_error + operation_builder \<times> operation_builder) \<Rightarrow> unit_step list \<Rightarrow> unit_step list \<Rightarrow> bool"
where
  "builds2 r us vs \<longleftrightarrow> (\<exists>b1 b2. r = Inr (b1, b2) \<and> builds b1 us \<and> builds b2 vs)"

lemma transform_loop_utransform:
  assumes "builds b1 us" and "builds b2 vs" and "list_all proper left" and "list_all proper right"
    and "consumed (expand left) = consumed (expand right)"
  shows "builds2 (transform_loop b1 b2 left right)
           (us @ fst (utransform (expand left) (expand right)))
           (vs @ snd (utransform (expand left) (expand right)))"
  using assms
proof (induction b1 b2 left right arbitrary: us vs rule: transform_loop.induct
    [case_names finished left_insert last_insert right_insert left_short right_short numbers])
  case (finished b1 b2)
  then show ?case by (simp add: builds2_def)
next
  case (left_insert b1 b2 s left right)
  have "builds (builder_retain (int (length s)) b2) (vs @ replicate (length s) Keep)"
    using builds_retain [OF left_insert.prems(2), of "int (length s)"] by simp
  then show ?case
    using left_insert.prems left_insert.IH [of "us @ map Put s" "vs @ replicate (length s) Keep"]
    by (simp add: wf_rules utransform_puts_left)
next
  case (last_insert b1 b2 u right)
  have "builds (builder_retain (int (length u)) b1) (us @ replicate (length u) Keep)"
    using builds_retain [OF last_insert.prems(1), of "int (length u)"] by simp
  then show ?case
    using last_insert.prems last_insert.IH [of "us @ replicate (length u) Keep" "vs @ map Put u"]
    by (simp add: wf_rules utransform_puts_right)
next
  case (right_insert b1 b2 n left u right)
  have "builds (builder_retain (int (length u)) b1) (us @ replicate (length u) Keep)"
    using builds_retain [OF right_insert.prems(1), of "int (length u)"] by simp
  moreover have "\<not> starts_put (expand (Num n # left))"
    using right_insert.prems by (cases "nat n"; cases "nat (- n)") auto
  ultimately show ?case
    using right_insert.prems right_insert.IH [of "us @ replicate (length u) Keep" "vs @ map Put u"]
    by (simp add: wf_rules utransform_puts_right)
next
  case (numbers b1 b2 n left m right)
  consider (kk) "n > 0" "m > 0" | (dd) "n < 0" "m < 0" | (dk) "n < 0" "m > 0" | (kd) "n > 0" "m < 0"
    using numbers.prems by fastforce
  then show ?case
  proof cases
    case kk
    let ?k = "min n m"
    have "expand (Num n # left) = replicate (nat ?k) Keep @ expand (rest_retain n ?k left)"
      "expand (Num m # right) = replicate (nat ?k) Keep @ expand (rest_retain m ?k right)"
      using kk expand_rest_retain [of ?k n left] expand_rest_retain [of ?k m right] by simp_all
    then show ?thesis
      using kk numbers.prems numbers.IH(1) [of ?k "us @ replicate (nat ?k) Keep" "vs @ replicate (nat ?k) Keep"]
      by (simp add: wf_rules proper_rest utransform_keep_keep Let_def del: expand.simps)
  next
    case dd
    let ?k = "min (- n) (- m)"
    have "expand (Num n # left) = replicate (nat ?k) Drop @ expand (rest_delete n ?k left)"
      "expand (Num m # right) = replicate (nat ?k) Drop @ expand (rest_delete m ?k right)"
      using dd expand_rest_delete [of ?k n left] expand_rest_delete [of ?k m right] by simp_all
    then show ?thesis
      using dd numbers.prems numbers.IH(2) [of ?k us vs]
      by (simp add: proper_rest utransform_drop_drop Let_def del: expand.simps)
  next
    case dk
    let ?k = "min (- n) m"
    have "expand (Num n # left) = replicate (nat ?k) Drop @ expand (rest_delete n ?k left)"
      "expand (Num m # right) = replicate (nat ?k) Keep @ expand (rest_retain m ?k right)"
      using dk expand_rest_delete [of ?k n left] expand_rest_retain [of ?k m right] by simp_all
    then show ?thesis
      using dk numbers.prems numbers.IH(3) [of ?k "us @ replicate (nat ?k) Drop" vs]
      by (simp add: wf_rules proper_rest utransform_drop_keep Let_def del: expand.simps)
  next
    case kd
    let ?k = "min n (- m)"
    have "expand (Num n # left) = replicate (nat ?k) Keep @ expand (rest_retain n ?k left)"
      "expand (Num m # right) = replicate (nat ?k) Drop @ expand (rest_delete m ?k right)"
      using kd expand_rest_retain [of ?k n left] expand_rest_delete [of ?k m right] by simp_all
    then show ?thesis
      using kd numbers.prems numbers.IH(4) [of ?k us "vs @ replicate (nat ?k) Drop"]
      by (simp add: wf_rules proper_rest utransform_keep_drop Let_def del: expand.simps)
  qed
qed (auto split: if_splits)

section \<open>The canonical form is unique\<close>

fun same_kind :: "unit_step \<Rightarrow> unit_step \<Rightarrow> bool" where
  "same_kind Keep Keep = True"
| "same_kind Drop Drop = True"
| "same_kind (Put _) (Put _) = True"
| "same_kind _ _ = False"

fun may_precede :: "unit_step \<Rightarrow> unit_step \<Rightarrow> bool" where
  "may_precede Drop (Put _) = False"
| "may_precede _ _ = True"

lemma units_one_kind:
  "proper c \<Longrightarrow> units c \<noteq> [] \<and> (\<forall>u \<in> set (units c). same_kind (hd (units c)) u)"
  by (cases c) (auto simp: hd_map hd_replicate)

lemma settled_kinds:
  "proper c \<Longrightarrow> proper d \<Longrightarrow> settled c d \<Longrightarrow>
   \<not> same_kind (hd (units c)) (hd (units d)) \<and> may_precede (last (units c)) (hd (units d))"
  by (cases c; cases d) (auto simp: hd_map hd_replicate last_map neq_Nil_conv)

lemma canonical_Cons:
  "canonical (c # cs) \<longleftrightarrow> proper c \<and> canonical cs \<and> (cs = [] \<or> settled c (hd cs))"
  by (cases cs) (auto simp: canonical_def)

lemma expand_hd: "canonical (c # cs) \<Longrightarrow> expand (c # cs) \<noteq> [] \<and> hd (expand (c # cs)) = hd (units c)"
  using units_one_kind by (auto simp: canonical_Cons)

lemma expand_first_run:
  assumes "canonical (c # cs)"
  shows "takeWhile (same_kind (hd (units c))) (expand (c # cs)) = units c"
proof -
  have "takeWhile (same_kind (hd (units c))) (expand cs) = []"
  proof (cases cs)
    case (Cons d ds)
    then have "\<not> same_kind (hd (units c)) (hd (expand cs))" and "expand cs \<noteq> []"
      using assms settled_kinds [of c d] expand_hd [of d ds] by (auto simp: canonical_Cons)
    then show ?thesis by (cases "expand cs") auto
  qed simp
  then show ?thesis
    using assms units_one_kind [of c] by (simp add: takeWhile_append2 canonical_Cons)
qed

lemma units_inject: "proper c \<Longrightarrow> proper d \<Longrightarrow> units c = units d \<Longrightarrow> c = d"
proof -
  have puts: "map Put xs = map Put ys \<longleftrightarrow> xs = ys" for xs ys :: utf16
    by (rule inj_map_eq_map) (simp add: inj_def)
  have mixed: "map Put xs = replicate n u \<Longrightarrow> u = Keep \<or> u = Drop \<Longrightarrow> xs = []" for xs :: utf16 and n u
    by (cases xs; cases n) auto
  assume "proper c" "proper d" "units c = units d"
  then show "c = d"
    by (cases c; cases d)
       (auto simp: puts replicate_eq_replicate split: if_splits dest: mixed mixed [OF sym])
qed

lemma expand_inject: "canonical cs \<Longrightarrow> canonical ds \<Longrightarrow> expand cs = expand ds \<Longrightarrow> cs = ds"
proof (induction cs arbitrary: ds)
  case Nil
  then show ?case using expand_hd by (cases ds) auto
next
  case (Cons c cs)
  then obtain d ds' where ds: "ds = d # ds'" using expand_hd [of c cs] by (cases ds) auto
  have hd: "hd (units c) = hd (units d)"
    using Cons.prems ds expand_hd [of c cs] expand_hd [of d ds'] by simp
  then have "units c = units d"
    using Cons.prems ds expand_first_run [of c cs] expand_first_run [of d ds'] by simp
  then have "c = d" "expand cs = expand ds'"
    using Cons.prems ds units_inject [of c d] by (auto simp: canonical_Cons)
  then show ?case using Cons ds by (auto simp: canonical_Cons)
qed

lemma settled_expand: "canonical cs \<Longrightarrow> successively may_precede (expand cs)"
proof (induction cs)
  case (Cons c cs)
  have "successively may_precede (units c)"
    by (cases c) (auto simp: successively_conv_nth)
  moreover have "expand cs = [] \<or> may_precede (last (units c)) (hd (expand cs))"
    using Cons.prems settled_kinds [of c "hd cs"] expand_hd [of "hd cs" "tl cs"]
    by (cases cs) (auto simp: canonical_Cons)
  ultimately show ?case
    using Cons by (auto simp: successively_append_iff canonical_Cons)
qed simp

lemma other_char: "\<exists>c :: 16 word. c \<noteq> d"
  by (rule exI [of _ "d + 1"]) simp

text \<open>
  After a delete no insert follows at once, so the first character of the result is one of
  the document's own, and there is a document where it is not \<open>d\<close>.
\<close>

lemma run_after_drop:
  "successively may_precede (Drop # us) \<Longrightarrow>
   \<exists>t. length t = Suc (consumed us) \<and> (\<forall>w. run (Drop # us) t \<noteq> d # w)"
proof (induction us)
  case Nil
  then show ?case by (auto intro!: exI [of _ "[0]"])
next
  case (Cons u us)
  show ?case
  proof (cases u)
    case Keep
    obtain c :: "16 word" where "c \<noteq> d" using other_char by blast
    then show ?thesis
      using Keep by (auto intro!: exI [of _ "0 # c # replicate (consumed us) 0"])
  next
    case Drop
    then obtain t where "length t = Suc (consumed us)" "\<forall>w. run (Drop # us) t \<noteq> d # w"
      using Cons by auto
    then show ?thesis using Drop by (auto intro!: exI [of _ "0 # t"])
  qed (use Cons.prems in auto)
qed

definition same_effect :: "unit_step list \<Rightarrow> unit_step list \<Rightarrow> bool" where
  "same_effect us vs \<longleftrightarrow>
     consumed us = consumed vs \<and> (\<forall>t. length t = consumed us \<longrightarrow> run us t = run vs t)"

lemma same_effect_sym: "same_effect us vs \<Longrightarrow> same_effect vs us"
  by (simp add: same_effect_def)

lemma same_effectD: "same_effect us vs \<Longrightarrow> length t = consumed us \<Longrightarrow> run us t = run vs t"
  by (simp add: same_effect_def)

lemma same_effect_produced: "same_effect us vs \<Longrightarrow> produced us = produced vs"
  using same_effectD [of us vs "replicate (consumed us) 0"]
    length_run [of us "replicate (consumed us) 0"] length_run [of vs "replicate (consumed us) 0"]
  by (simp add: same_effect_def)

lemma not_same_effect_keep:
  assumes "same_effect (Keep # us) vs"
  shows "\<exists>ws. vs = Keep # ws"
proof (cases vs)
  case (Cons v ws)
  obtain c d :: "16 word" where cd: "c \<noteq> d" using other_char by blast
  have run: "run vs (x # replicate (consumed us) 0) = x # run us (replicate (consumed us) 0)" for x
    using same_effectD [OF assms, of "x # replicate (consumed us) 0"] by simp
  show ?thesis
    using run [of c] run [of d] cd Cons by (cases v) auto
qed (use assms in \<open>simp add: same_effect_def\<close>)

lemma not_same_effect_drop_put:
  "successively may_precede (Drop # us) \<Longrightarrow> \<not> same_effect (Drop # us) (Put d # ws)"
  using run_after_drop [of us d] same_effectD [of "Drop # us" "Put d # ws"] by fastforce

lemma same_effect_tl:
  assumes "same_effect (u # us) (u # vs)"
  shows "same_effect us vs"
proof -
  have "run us t = run vs t" if "length t = consumed us" for t
    using that same_effectD [OF assms, of "0 # t"] same_effectD [OF assms, of t] by (cases u) auto
  then show ?thesis using assms by (cases u) (auto simp: same_effect_def)
qed

lemma same_effect_unique:
  "successively may_precede us \<Longrightarrow> successively may_precede vs \<Longrightarrow> same_effect us vs \<Longrightarrow> us = vs"
proof (induction us arbitrary: vs)
  case Nil
  have "consumed vs = 0" "produced vs = 0"
    using Nil.prems(3) same_effect_produced [of "[]" vs] by (auto simp: same_effect_def)
  then show ?case by (cases vs rule: produced.cases) auto
next
  case (Cons u us)
  obtain v ws where vs: "vs = v # ws"
    using Cons.prems(3) same_effect_produced [of "u # us" vs]
    by (cases u; cases vs) (auto simp: same_effect_def)
  have "u = v"
    using Cons.prems vs not_same_effect_keep [of us vs] not_same_effect_keep [of ws "u # us"]
      not_same_effect_drop_put [of us _ ws] not_same_effect_drop_put [of ws _ us]
      same_effect_sym [of "u # us" vs] same_effectD [of "u # us" vs "replicate (consumed us) 0"]
    by (cases u; cases v) auto
  then show ?case
    using Cons vs same_effect_tl [of u us ws] by (auto simp: successively_Cons)
qed

section \<open>The laws of the engine\<close>

definition effect :: "text_operation \<Rightarrow> utf16 \<Rightarrow> utf16" where
  "effect oper t = run (expand (components oper)) t"

definition fits :: "text_operation \<Rightarrow> utf16 \<Rightarrow> bool" where
  "fits oper t \<longleftrightarrow> int (length t) = baseLength oper"

lemma applyOperation_effect:
  "applyOperation t oper =
     (if fits oper t then Inr (effect oper t) else Inl (CollabError ''length_mismatch''))"
  by (simp add: applyOperation_def fits_def effect_def apply_loop_run)

lemma effect_length [bounds_rules]:
  "wf_operation oper \<Longrightarrow> fits oper t \<Longrightarrow> int (length (effect oper t)) = targetLength oper"
  by (simp add: wf_operation_def fits_def effect_def length_run)

lemma wf_lengths [bounds_rules]:
  "wf_operation oper \<Longrightarrow> 0 \<le> baseLength oper" "wf_operation oper \<Longrightarrow> 0 \<le> targetLength oper"
  by (simp_all add: wf_operation_def)

lemma builds_effect: "builds b us \<Longrightarrow> effect (builder_build b) t = run us t"
  by (simp add: builds_def effect_def builder_build_def ueq_def)

lemma builds_lengths:
  "builds b us \<Longrightarrow> baseLength (builder_build b) = int (consumed us)"
  "builds b us \<Longrightarrow> targetLength (builder_build b) = int (produced us)"
  by (simp_all add: builds_def builder_build_def)

lemma wf_proper: "wf_operation oper \<Longrightarrow> list_all proper (components oper)"
  by (simp add: wf_operation_def canonical_def)

lemma composeOperations_law:
  assumes "wf_operation first" and "wf_operation second" and "targetLength first = baseLength second"
  shows "\<exists>c. composeOperations first second = Inr c \<and> wf_operation c \<and>
           baseLength c = baseLength first \<and> targetLength c = targetLength second \<and>
           (\<forall>t. fits first t \<longrightarrow> effect c t = effect second (effect first t))"
proof -
  let ?A = "expand (components first)" and ?B = "expand (components second)"
  have len: "produced ?A = consumed ?B" using assms by (simp add: wf_operation_def)
  then obtain b where b: "compose_loop new_builder (components first) (components second) = Inr b"
      "builds b (ucompose ?A ?B)"
    using compose_loop_ucompose [OF builds_new, of "components first" "components second"]
      assms wf_proper by auto
  have "effect (builder_build b) t = effect second (effect first t)" if "fits first t" for t
    using that b(2) len assms(1) run_ucompose [of ?A ?B t]
    by (simp add: builds_effect) (simp add: effect_def fits_def wf_operation_def)
  then show ?thesis
    using b assms len
    by (auto simp: composeOperations_def builds_wf builds_lengths consumed_ucompose produced_ucompose
        wf_operation_def [of first] wf_operation_def [of second])
qed

lemma transformOperations_law:
  assumes "wf_operation first" and "wf_operation second" and "baseLength first = baseLength second"
  shows "\<exists>first' second'. transformOperations first second = Inr (first', second') \<and>
           wf_operation first' \<and> wf_operation second' \<and>
           baseLength first' = targetLength second \<and> baseLength second' = targetLength first \<and>
           targetLength first' = targetLength second' \<and>
           (\<forall>t. fits first t \<longrightarrow> effect second' (effect first t) = effect first' (effect second t))"
proof -
  let ?A = "expand (components first)" and ?B = "expand (components second)"
  let ?U = "utransform ?A ?B"
  have len: "consumed ?A = consumed ?B" using assms by (simp add: wf_operation_def)
  then obtain b1 b2 where
    b: "transform_loop new_builder new_builder (components first) (components second) = Inr (b1, b2)"
      "builds b1 (fst ?U)" "builds b2 (snd ?U)"
    using transform_loop_utransform
        [OF builds_new builds_new, of "components first" "components second"]
      assms wf_proper by (auto simp: builds2_def)
  have "effect (builder_build b2) (effect first t) = effect (builder_build b1) (effect second t)"
    if "fits first t" for t
    using that b len assms(1) run_utransform [of ?A ?B t]
    by (simp add: builds_effect) (simp add: effect_def fits_def wf_operation_def)
  then show ?thesis
    using b assms len utransform_lengths [OF len]
    by (auto simp: transformOperations_def builds_wf builds_lengths
        wf_operation_def [of first] wf_operation_def [of second])
qed

text \<open>Two well-formed operations with the same effect are the same list of components.\<close>

lemma effect_unique:
  assumes "wf_operation a" and "wf_operation b" and "baseLength a = baseLength b"
    and "\<And>t. fits a t \<Longrightarrow> effect a t = effect b t"
  shows "a = b"
proof -
  have "same_effect (expand (components a)) (expand (components b))"
    using assms by (auto simp: same_effect_def wf_operation_def fits_def effect_def)
  then have "expand (components a) = expand (components b)"
    using assms(1,2) settled_expand by (intro same_effect_unique) (auto simp: wf_operation_def)
  then show "a = b"
    using assms expand_inject by (auto simp: wf_operation_def intro!: text_operation.equality)
qed

lemma createOperation_law:
  "wf_operation (createOperation cs) \<and> effect (createOperation cs) t = run (expand cs) t \<and>
   baseLength (createOperation cs) = int (consumed (expand cs)) \<and>
   targetLength (createOperation cs) = int (produced (expand cs))"
  using createOperation_builds [of cs] builds_wf builds_effect builds_lengths by auto

lemma createOperation_components:
  assumes "wf_operation oper"
  shows "createOperation (components oper) = oper"
  using assms createOperation_law [of "components oper"]
  by (intro effect_unique) (simp_all add: effect_def wf_operation_def [of oper])

lemma effect_identity: "length t = n \<Longrightarrow> effect (identityOperation (int n)) t = t"
  using builds_retain [OF builds_new, of "int n"]
  by (simp add: identityOperation_def builds_effect)

lemma identity_lengths: "baseLength (identityOperation (int n)) = int n" "targetLength (identityOperation (int n)) = int n"
  using builds_retain [OF builds_new, of "int n"]
  by (simp_all add: identityOperation_def builds_lengths)

section \<open>Carets\<close>

text \<open>
  The part of an operation a caret has passed: everything that consumes the first \<open>p\<close>
  characters, and what is inserted exactly at the caret.
\<close>

primrec caret_prefix :: "nat \<Rightarrow> unit_step list \<Rightarrow> unit_step list" where
  "caret_prefix p [] = []"
| "caret_prefix p (u # us) =
     (case u of
        Put c \<Rightarrow> u # caret_prefix p us
      | _ \<Rightarrow> (case p of 0 \<Rightarrow> [] | Suc q \<Rightarrow> u # caret_prefix q us))"

lemma caret_prefix_puts: "caret_prefix p (map Put s @ us) = map Put s @ caret_prefix p us"
  by (induction s) simp_all

lemma caret_prefix_run:
  "u = Keep \<or> u = Drop \<Longrightarrow>
   caret_prefix p (replicate n u @ us) =
     (if n \<le> p then replicate n u @ caret_prefix (p - n) us else replicate p u)"
proof (induction n arbitrary: p)
  case (Suc n)
  then show ?case by (cases p) auto
qed simp

lemma position_loop_past: "remaining < 0 \<Longrightarrow> position_loop remaining result cs = result"
  by (cases cs) simp_all

lemma position_loop_caret:
  "position_loop (int r) result cs =
     result + int (produced (caret_prefix r (expand cs))) - int (consumed (caret_prefix r (expand cs)))"
proof (induction cs arbitrary: r result)
  case (Cons c cs)
  show ?case
  proof (cases c)
    case (Num n)
    consider "n > 0" "nat n \<le> r" | "n > 0" "r < nat n" | "n \<le> 0" "nat (- n) \<le> r" | "n \<le> 0" "r < nat (- n)"
      by linarith
    then show ?thesis
    proof cases
      case 1
      then show ?thesis
        using Num Cons [of "r - nat n" result] by (simp add: caret_prefix_run)
    next
      case 3
      then have "min (int r) (- n) = - n" by simp
      then show ?thesis
        using 3 Num Cons [of "r - nat (- n)" "result + n"] by (simp add: caret_prefix_run)
    qed (simp_all add: Num caret_prefix_run position_loop_past)
  qed (simp add: Cons caret_prefix_puts)
qed simp

lemma caret_prefix_split: "\<exists>post. us = caret_prefix p us @ post \<and> \<not> starts_put post"
proof (induction us arbitrary: p)
  case (Cons u us)
  then show ?case by (cases u; cases p) force+
qed simp

lemma consumed_caret_prefix: "p \<le> consumed us \<Longrightarrow> consumed (caret_prefix p us) = p"
proof (induction us arbitrary: p)
  case (Cons u us)
  then show ?case by (cases u; cases p) auto
qed simp

lemma caret_prefix_mono: "p \<le> q \<Longrightarrow> produced (caret_prefix p us) \<le> produced (caret_prefix q us)"
proof (induction us arbitrary: p q)
  case (Cons u us)
  then show ?case by (cases u; cases p; cases q) auto
qed simp

lemma transformPosition_caret:
  assumes "wf_operation oper" and "0 \<le> p" and "p \<le> baseLength oper"
  shows "transformPosition p oper = int (produced (caret_prefix (nat p) (expand (components oper))))"
  using assms position_loop_caret [of "nat p" p "components oper"]
    consumed_caret_prefix [of "nat p" "expand (components oper)"]
  by (simp add: transformPosition_def wf_operation_def)

lemma produced_caret_le: "produced (caret_prefix p us) \<le> produced us"
  using caret_prefix_split [of us p] by (metis le_add1 produced_append)

lemma transformPosition_bounds [bounds_rules]:
  assumes "wf_operation oper" and "0 \<le> p" and "p \<le> baseLength oper"
  shows "0 \<le> transformPosition p oper \<and> transformPosition p oper \<le> targetLength oper"
  using assms transformPosition_caret [OF assms] produced_caret_le
  by (simp add: wf_operation_def)

text \<open>
  The documented form of the transformation property: the two ways round are not only the
  same on every text, they compose to the same operation.
\<close>

lemma transform_compose_same:
  assumes "wf_operation first" and "wf_operation second" and "baseLength first = baseLength second"
    and "transformOperations first second = Inr (first', second')"
  shows "\<exists>c. composeOperations first second' = Inr c \<and> composeOperations second first' = Inr c"
proof -
  have p: "wf_operation first'" "wf_operation second'" "baseLength first' = targetLength second"
      "baseLength second' = targetLength first" "targetLength first' = targetLength second'"
      "\<forall>t. fits first t \<longrightarrow> effect second' (effect first t) = effect first' (effect second t)"
    using transformOperations_law [OF assms(1-3)] assms(4) by auto
  obtain c where c: "composeOperations first second' = Inr c" "wf_operation c" "baseLength c = baseLength first"
      "\<forall>t. fits first t \<longrightarrow> effect c t = effect second' (effect first t)"
    using composeOperations_law [OF assms(1) p(2)] p(4) by auto
  obtain c' where c': "composeOperations second first' = Inr c'" "wf_operation c'" "baseLength c' = baseLength second"
      "\<forall>t. fits second t \<longrightarrow> effect c' t = effect first' (effect second t)"
    using composeOperations_law [OF assms(2) p(1)] p(3) by auto
  have "c = c'"
    using c c' p(6) assms(3) by (intro effect_unique) (auto simp: fits_def)
  then show ?thesis using c c' by blast
qed

text \<open>
  A caret separates the text in two, and the transformed caret separates the two results:
  what is left of it comes only from the text on its left, what is right of it only from the
  text on its right.
\<close>

lemma caret_separates:
  assumes wf: "wf_operation oper" and fits: "fits oper t" and p: "0 \<le> p" "p \<le> int (length t)"
  defines "q \<equiv> nat (transformPosition p oper)"
  defines "pre \<equiv> caret_prefix (nat p) (expand (components oper))"
  shows "take q (effect oper t) = run pre (take (nat p) t)"
    and "\<exists>post. expand (components oper) = pre @ post \<and> drop q (effect oper t) = run post (drop (nat p) t)"
proof -
  let ?us = "expand (components oper)"
  obtain post where us: "?us = pre @ post" using caret_prefix_split [of ?us "nat p"] by (auto simp: pre_def)
  have base: "int (consumed ?us) = baseLength oper" using wf by (simp add: wf_operation_def)
  have c: "consumed pre = nat p"
    using p fits base consumed_caret_prefix [of "nat p" ?us] by (simp add: pre_def fits_def nat_le_iff)
  have q: "q = produced pre"
    using transformPosition_caret [OF wf p(1)] p fits by (simp add: q_def pre_def fits_def)
  have len: "length (run pre t) = q" using length_run [of pre t] c p q by (simp add: nat_le_iff)
  have eff: "effect oper t = run pre t @ run post (drop (nat p) t)"
    by (simp add: effect_def us run_append c)
  show "take q (effect oper t) = run pre (take (nat p) t)"
    using eff len c run_take [of pre "nat p" t] by simp
  show "\<exists>post. ?us = pre @ post \<and> drop q (effect oper t) = run post (drop (nat p) t)"
    using eff len us by auto
qed

section \<open>The engine as an interface\<close>

text \<open>
  What the document and the client rely on: composing two consecutive operations and
  transforming two concurrent ones always succeed and agree on the resulting state.
\<close>

locale ot_engine =
  fixes legal :: "'op \<Rightarrow> bool"
    and applies :: "'op \<Rightarrow> 's \<Rightarrow> bool"
    and result :: "'op \<Rightarrow> 's \<Rightarrow> 's"
    and composition :: "'op \<Rightarrow> 'op \<Rightarrow> 'e + 'op"
    and transformation :: "'op \<Rightarrow> 'op \<Rightarrow> 'e + 'op \<times> 'op"
  assumes composition_ok:
      "\<lbrakk>legal a; legal b; applies a t; applies b (result a t)\<rbrakk> \<Longrightarrow>
       \<exists>c. composition a b = Inr c \<and> legal c \<and> applies c t \<and> result c t = result b (result a t)"
    and transformation_ok:
      "\<lbrakk>legal a; legal b; applies a t; applies b t\<rbrakk> \<Longrightarrow>
       \<exists>a' b'. transformation a b = Inr (a', b') \<and> legal a' \<and> legal b' \<and>
         applies a' (result b t) \<and> applies b' (result a t) \<and>
         result b' (result a t) = result a' (result b t)"
begin

lemma transform_obtains:
  assumes "legal a" and "legal b" and "applies a t" and "applies b t"
  obtains a' b' where "transformation a b = Inr (a', b')" "legal a'" "legal b'"
    "applies a' (result b t)" "applies b' (result a t)"
    "result b' (result a t) = result a' (result b t)"
  using transformation_ok [OF assms] by blast

lemma compose_obtains:
  assumes "legal a" and "legal b" and "applies a t" and "applies b (result a t)"
  obtains c where "composition a b = Inr c" "legal c" "applies c t"
    "result c t = result b (result a t)"
  using composition_ok [OF assms] by blast

text \<open>Two concurrent operations against one: the two sides still agree.\<close>

lemma transform_two:
  assumes "legal a" and "legal b" and "legal c" and "applies a t" and "applies c t"
    and "applies b (result a t)"
  shows "\<exists>a' b' c1 c2. transformation a c = Inr (a', c1) \<and> transformation b c1 = Inr (b', c2) \<and>
           legal a' \<and> legal b' \<and> legal c2 \<and> applies a' (result c t) \<and>
           applies b' (result a' (result c t)) \<and> applies c2 (result b (result a t)) \<and>
           result c2 (result b (result a t)) = result b' (result a' (result c t))"
proof -
  obtain a' c1 where 1: "transformation a c = Inr (a', c1)" "legal a'" "legal c1"
      "applies a' (result c t)" "applies c1 (result a t)"
      "result c1 (result a t) = result a' (result c t)"
    using transform_obtains [OF assms(1,3,4,5)] .
  obtain b' c2 where 2: "transformation b c1 = Inr (b', c2)" "legal b'" "legal c2"
      "applies b' (result c1 (result a t))" "applies c2 (result b (result a t))"
      "result c2 (result b (result a t)) = result b' (result c1 (result a t))"
    using transform_obtains [OF assms(2) 1(3) assms(6) 1(5)] .
  show ?thesis using 1 2 by auto
qed

end

interpretation text_ot: ot_engine wf_operation fits effect composeOperations transformOperations
proof unfold_locales
  fix a b :: text_operation and t :: utf16
  assume w: "wf_operation a" "wf_operation b" "fits a t"
  show "\<exists>c. composeOperations a b = Inr c \<and> wf_operation c \<and> fits c t \<and> effect c t = effect b (effect a t)"
    if "fits b (effect a t)"
    using that w composeOperations_law [of a b] effect_length [of a t] by (auto simp: fits_def)
  show "\<exists>a' b'. transformOperations a b = Inr (a', b') \<and> wf_operation a' \<and> wf_operation b' \<and>
         fits a' (effect b t) \<and> fits b' (effect a t) \<and>
         effect b' (effect a t) = effect a' (effect b t)" if "fits b t"
    using that w transformOperations_law [of a b] effect_length [of a t] effect_length [of b t]
    by (auto simp: fits_def)
qed

end
