(* ===== verification/Collab_Document.thy ===== *)
theory Collab_Document
  imports Operation_Semantics
begin

text \<open>
  \<open>packages/collab/src/document.ts\<close>: the server's copy of a shared document.

  The state is the text, the operations since \<open>historyBase\<close> and the bound on how many are
  kept. \<open>receive\<close> rebases an arriving operation over everything its sender had not seen,
  \<open>replace_content\<close> is the splice for a change from outside, \<open>since\<close> composes a
  catch-up for a stale client. \<open>wf_document\<close> is the invariant: the history leads, step by
  step, from some text at \<open>historyBase\<close> to the current text, and is never longer than the
  limit.
\<close>

section \<open>State and operations\<close>

record collab_document =
  doc_text :: utf16
  history :: "text_operation list"
  historyBase :: int
  historyLimit :: int

datatype document_error = RangeError | Collab collab_error

record applied_operation =
  applied_revision :: int
  applied_oper :: text_operation

definition default_history_limit :: int where
  "default_history_limit = 2000"

definition new_document :: "utf16 \<Rightarrow> int \<Rightarrow> document_error + collab_document" where
  "new_document content limit =
     (if \<not> is_safe_integer limit \<or> limit < 1 then Inl RangeError
      else Inr \<lparr>doc_text = content, history = [], historyBase = 0, historyLimit = limit\<rparr>)"

definition revision :: "collab_document \<Rightarrow> int" where
  "revision d = historyBase d + int (length (history d))"

text \<open>The private \<open>append\<close>: push, then drop what exceeds the window from the front.\<close>

definition append_history :: "text_operation \<Rightarrow> collab_document \<Rightarrow> collab_document" where
  "append_history oper d =
     (let pushed = history d @ [oper];
          excess = int (length pushed) - historyLimit d
      in if excess > 0
         then d\<lparr>history := drop (nat excess) pushed, historyBase := historyBase d + excess\<rparr>
         else d\<lparr>history := pushed\<rparr>)"

text \<open>The loop of \<open>receive\<close>: the arriving operation is always the first argument.\<close>

fun rebase :: "text_operation \<Rightarrow> text_operation list \<Rightarrow> collab_error + text_operation" where
  "rebase oper [] = Inr oper"
| "rebase oper (concurrent # rest) =
     res_bind (transformOperations oper concurrent) (\<lambda>(rebased, _). rebase rebased rest)"

definition receive ::
  "int \<Rightarrow> text_operation \<Rightarrow> collab_document \<Rightarrow> collab_error + applied_operation \<times> collab_document"
where
  "receive clientRevision oper d =
     (if \<not> is_safe_integer clientRevision \<or> clientRevision < 0
      then Inl (CollabError ''invalid_revision'')
      else if clientRevision > revision d then Inl (CollabError ''invalid_revision'')
      else if clientRevision < historyBase d then Inl (CollabError ''revision_too_old'')
      else res_bind (rebase oper (drop (nat (clientRevision - historyBase d)) (history d)))
             (\<lambda>rebased. res_bind (applyOperation (doc_text d) rebased)
                (\<lambda>t. let d' = append_history rebased (d\<lparr>doc_text := t\<rparr>)
                     in Inr (\<lparr>applied_revision = revision d', applied_oper = rebased\<rparr>, d'))))"

text \<open>
  \<open>diffOperation\<close>: the common prefix, then the common suffix of what is left, then one
  splice. The two loops count while the characters agree.
\<close>

fun common_prefix :: "nat \<Rightarrow> 'a list \<Rightarrow> 'a list \<Rightarrow> nat" where
  "common_prefix (Suc limit) (x # xs) (y # ys) = (if x = y then Suc (common_prefix limit xs ys) else 0)"
| "common_prefix _ _ _ = 0"

definition diffOperation :: "utf16 \<Rightarrow> utf16 \<Rightarrow> text_operation" where
  "diffOperation before after =
     (let maximumPrefix = min (length before) (length after);
          prefix = common_prefix maximumPrefix before after;
          suffix = common_prefix (maximumPrefix - prefix) (rev before) (rev after)
      in builder_build
           (builder_retain (int suffix)
             (builder_insert (js_slice after (int prefix) (int (length after) - int suffix))
               (builder_delete (int (length before) - int prefix - int suffix)
                 (builder_retain (int prefix) new_builder)))))"

definition replace_content ::
  "utf16 \<Rightarrow> collab_document \<Rightarrow> collab_error + applied_operation option \<times> collab_document" where
  "replace_content content d =
     (if content = doc_text d then Inr (None, d)
      else
        (let oper = diffOperation (doc_text d) content
         in res_bind (applyOperation (doc_text d) oper)
              (\<lambda>t. let d' = append_history oper (d\<lparr>doc_text := t\<rparr>)
                   in Inr (Some \<lparr>applied_revision = revision d', applied_oper = oper\<rparr>, d'))))"

fun compose_all :: "text_operation \<Rightarrow> text_operation list \<Rightarrow> collab_error + text_operation" where
  "compose_all left [] = Inr left"
| "compose_all left (right # rest) =
     res_bind (composeOperations left right) (\<lambda>c. compose_all c rest)"

definition since :: "int \<Rightarrow> collab_document \<Rightarrow> collab_error + text_operation option" where
  "since at d =
     (if at < historyBase d \<or> at > revision d then Inr None
      else
        (case drop (nat (at - historyBase d)) (history d) of
           [] \<Rightarrow> Inr (Some (identityOperation (int (length (doc_text d)))))
         | oper # rest \<Rightarrow> res_bind (compose_all oper rest) (\<lambda>c. Inr (Some c))))"

section \<open>The invariant\<close>

text \<open>A list of operations that leads from one text to another.\<close>

fun leads :: "utf16 \<Rightarrow> text_operation list \<Rightarrow> utf16 \<Rightarrow> bool" where
  "leads t [] u \<longleftrightarrow> t = u"
| "leads t (oper # rest) u \<longleftrightarrow>
     wf_operation oper \<and> fits oper t \<and> leads (effect oper t) rest u"

definition wf_document :: "collab_document \<Rightarrow> bool" where
  "wf_document d \<longleftrightarrow>
     0 \<le> historyBase d \<and> 1 \<le> historyLimit d \<and> int (length (history d)) \<le> historyLimit d \<and>
     (\<exists>t. leads t (history d) (doc_text d))"

text \<open>The text a client saw at a revision the window still holds.\<close>

definition text_at :: "collab_document \<Rightarrow> int \<Rightarrow> utf16 \<Rightarrow> bool" where
  "text_at d r t \<longleftrightarrow>
     historyBase d \<le> r \<and> r \<le> revision d \<and>
     leads t (drop (nat (r - historyBase d)) (history d)) (doc_text d)"

lemma leads_append: "leads t (xs @ ys) u \<longleftrightarrow> (\<exists>v. leads t xs v \<and> leads v ys u)"
  by (induction xs arbitrary: t) auto

lemma leads_drop: "leads t xs u \<Longrightarrow> \<exists>v. leads v (drop n xs) u"
  by (metis append_take_drop_id leads_append)

lemma leads_snoc: "leads t xs u \<Longrightarrow> wf_operation oper \<Longrightarrow> fits oper u \<Longrightarrow> leads t (xs @ [oper]) (effect oper u)"
  by (auto simp: leads_append)

text \<open>
  The two loops of the document over a list of operations, over any engine: \<open>walks\<close> is the
  relation \<open>leads\<close>, \<open>over\<close> the loop of \<open>receive\<close>, \<open>folded\<close> the loop of \<open>since\<close>.
\<close>

locale ot_history = ot_engine +
  fixes walks :: "'b \<Rightarrow> 'a list \<Rightarrow> 'b \<Rightarrow> bool"
    and over :: "'a \<Rightarrow> 'a list \<Rightarrow> 'c + 'a"
    and folded :: "'a \<Rightarrow> 'a list \<Rightarrow> 'c + 'a"
  assumes walks_Nil: "walks t [] u \<longleftrightarrow> t = u"
    and walks_Cons: "walks t (a # as) u \<longleftrightarrow> legal a \<and> applies a t \<and> walks (result a t) as u"
    and over_Nil: "over a [] = Inr a"
    and over_Cons: "over a (b # bs) = res_bind (transformation a b) (\<lambda>(a', _). over a' bs)"
    and folded_Nil: "folded a [] = Inr a"
    and folded_Cons: "folded a (b # bs) = res_bind (composition a b) (\<lambda>c. folded c bs)"
begin

lemmas history_simps = walks_Nil walks_Cons over_Nil over_Cons folded_Nil folded_Cons

text \<open>Rebasing over a history is repeated use of the transformation property.\<close>

lemma rebase_ok:
  "legal a \<Longrightarrow> applies a t \<Longrightarrow> walks t bs u \<Longrightarrow> \<exists>a'. over a bs = Inr a' \<and> legal a' \<and> applies a' u"
proof (induction bs arbitrary: a t)
  case (Cons b bs)
  then have b: "legal b" "applies b t" "walks (result b t) bs u" by (simp_all add: history_simps)
  obtain a' b' where "transformation a b = Inr (a', b')" "legal a'" "applies a' (result b t)"
    using transform_obtains [OF Cons.prems(1) b(1) Cons.prems(2) b(2)] by metis
  then show ?case using Cons.IH [of a' "result b t"] b by (simp add: history_simps)
qed (simp add: history_simps)

text \<open>Composing a history from the left gives one operation with its total effect.\<close>

lemma fold_ok:
  "legal a \<Longrightarrow> applies a t \<Longrightarrow> walks (result a t) bs u \<Longrightarrow>
   \<exists>c. folded a bs = Inr c \<and> legal c \<and> applies c t \<and> result c t = u"
proof (induction bs arbitrary: a)
  case (Cons b bs)
  then have b: "legal b" "applies b (result a t)" "walks (result b (result a t)) bs u"
    by (simp_all add: history_simps)
  obtain c where "composition a b = Inr c" "legal c" "applies c t" "result c t = result b (result a t)"
    using compose_obtains [OF Cons.prems(1) b(1) Cons.prems(2) b(2)] .
  then show ?case using Cons.IH [of c] b by (simp add: history_simps)
qed (simp add: history_simps)

end

interpretation text_history: ot_history wf_operation fits effect composeOperations transformOperations
    leads rebase compose_all
  by unfold_locales simp_all

lemma append_history_wf [wf_rules]:
  assumes "wf_document d" and "wf_operation oper" and "fits oper (doc_text d)"
  shows "wf_document (append_history oper (d\<lparr>doc_text := effect oper (doc_text d)\<rparr>))"
proof -
  obtain t where "leads t (history d) (doc_text d)" using assms(1) by (auto simp: wf_document_def)
  then have "leads t (history d @ [oper]) (effect oper (doc_text d))"
    using assms leads_snoc by blast
  then have "\<exists>v. leads v (drop n (history d @ [oper])) (effect oper (doc_text d))" for n
    using leads_drop by blast
  moreover have "\<exists>v. leads v (history d @ [oper]) (effect oper (doc_text d))"
    using \<open>leads t (history d @ [oper]) (effect oper (doc_text d))\<close> by blast
  ultimately show ?thesis
    using assms(1)
    by (simp add: wf_document_def append_history_def Let_def del: drop_append) linarith
qed

lemma append_history_revision [simp]:
  "1 \<le> historyLimit d \<Longrightarrow> revision (append_history oper d) = revision d + 1"
  by (auto simp: append_history_def revision_def Let_def of_nat_diff)

lemma append_history_fields [simp]:
  "doc_text (append_history oper d) = doc_text d"
  "historyLimit (append_history oper d) = historyLimit d"
  by (simp_all add: append_history_def Let_def)

lemma new_document_wf [wf_rules]: "new_document content limit = Inr d \<Longrightarrow> wf_document d"
  by (auto simp: new_document_def wf_document_def split: if_splits intro: exI [of _ content])

lemma text_at_revision: "wf_document d \<Longrightarrow> text_at d (revision d) (doc_text d)"
  by (simp add: text_at_def wf_document_def revision_def)

lemma text_at_exists:
  "wf_document d \<Longrightarrow> historyBase d \<le> r \<Longrightarrow> r \<le> revision d \<Longrightarrow> \<exists>t. text_at d r t"
  using leads_drop by (auto simp: text_at_def wf_document_def)

section \<open>Receiving an operation\<close>

lemma receive_law:
  assumes "wf_document d" and "text_at d r t" and "is_safe_integer r"
    and "wf_operation oper" and "fits oper t"
  obtains rebased where
    "rebase oper (drop (nat (r - historyBase d)) (history d)) = Inr rebased"
    "wf_operation rebased" "fits rebased (doc_text d)"
    "receive r oper d =
       Inr (\<lparr>applied_revision = revision d + 1, applied_oper = rebased\<rparr>,
            append_history rebased (d\<lparr>doc_text := effect rebased (doc_text d)\<rparr>))"
proof -
  obtain rebased where
    "rebase oper (drop (nat (r - historyBase d)) (history d)) = Inr rebased"
    "wf_operation rebased" "fits rebased (doc_text d)"
    using assms text_history.rebase_ok [of oper t] by (auto simp: text_at_def)
  moreover have "0 \<le> r" and "1 \<le> historyLimit d"
    using assms by (auto simp: text_at_def wf_document_def)
  ultimately show thesis
    using that assms
    by (auto simp: receive_def text_at_def applyOperation_effect Let_def revision_def [of "d\<lparr>doc_text := _\<rparr>"])
       (simp add: revision_def)
qed

text \<open>Whatever is accepted was written for the text at its revision.\<close>

lemma receive_InrD:
  assumes wf: "wf_document d" and "wf_operation oper" and rec: "receive r oper d = Inr (a, d')"
  obtains t where "text_at d r t" "is_safe_integer r" "fits oper t"
proof -
  let ?hs = "drop (nat (r - historyBase d)) (history d)"
  have r: "is_safe_integer r" "historyBase d \<le> r" "r \<le> revision d"
    using rec by (auto simp: receive_def split: if_splits)
  obtain rebased t' where reb: "rebase oper ?hs = Inr rebased" "applyOperation (doc_text d) rebased = Inr t'"
    using rec by (auto simp: receive_def res_bind_eq_Inr_conv split: if_splits)
  obtain t where t: "text_at d r t" using text_at_exists [OF wf r(2,3)] by blast
  have "fits oper t"
  proof (cases ?hs)
    case Nil
    then show ?thesis
      using reb t by (auto simp: text_at_def applyOperation_effect split: if_splits)
  next
    case (Cons c cs)
    then have "baseLength oper = baseLength c" "fits c t"
      using reb t by (auto simp: text_at_def res_bind_eq_Inr_conv transformOperations_def split: if_splits)
    then show ?thesis by (simp add: fits_def)
  qed
  then show thesis using that t r(1) by blast
qed

lemma receive_wf [wf_rules]:
  assumes "wf_document d" and "wf_operation oper" and "receive r oper d = Inr (a, d')"
  shows "wf_document d' \<and> wf_operation (applied_oper a) \<and>
         applyOperation (doc_text d) (applied_oper a) = Inr (doc_text d') \<and>
         applied_revision a = revision d + 1 \<and> revision d' = revision d + 1"
proof -
  obtain t where t: "text_at d r t" "is_safe_integer r" "fits oper t"
    using receive_InrD [OF assms] .
  obtain rebased where "wf_operation rebased" "fits rebased (doc_text d)"
    "receive r oper d =
       Inr (\<lparr>applied_revision = revision d + 1, applied_oper = rebased\<rparr>,
            append_history rebased (d\<lparr>doc_text := effect rebased (doc_text d)\<rparr>))"
    using receive_law [OF assms(1) t(1,2) assms(2) t(3)] by blast
  moreover from this have "revision d' = revision d + 1"
    using assms by (simp add: wf_document_def) (simp add: revision_def)
  ultimately show ?thesis
    using assms append_history_wf [OF assms(1), of rebased] by (auto simp: applyOperation_effect)
qed

section \<open>Replacing the content\<close>

lemma common_prefix_le: "common_prefix k xs ys \<le> k" "common_prefix k xs ys \<le> length xs"
    "common_prefix k xs ys \<le> length ys"
  by (induction k xs ys rule: common_prefix.induct) auto

lemma common_prefix_take: "take (common_prefix k xs ys) xs = take (common_prefix k xs ys) ys"
  by (induction k xs ys rule: common_prefix.induct) auto

lemma common_prefix_maximal:
  "common_prefix k xs ys < k \<Longrightarrow> common_prefix k xs ys < length xs \<Longrightarrow>
   common_prefix k xs ys < length ys \<Longrightarrow>
   xs ! common_prefix k xs ys \<noteq> ys ! common_prefix k xs ys"
  by (induction k xs ys rule: common_prefix.induct) (auto split: if_splits)

lemma common_suffix_drop:
  fixes xs ys :: "'a list" and n :: nat
  defines "k \<equiv> common_prefix n (rev xs) (rev ys)"
  shows "drop (length xs - k) xs = drop (length ys - k) ys"
proof -
  have "rev (take k (rev xs)) = rev (take k (rev ys))"
    unfolding k_def by (rule arg_cong [OF common_prefix_take])
  then show ?thesis by (simp add: take_rev)
qed

lemma diffOperation_law:
  "wf_operation (diffOperation t u) \<and> fits (diffOperation t u) t \<and> effect (diffOperation t u) t = u"
proof -
  define m where "m = min (length t) (length u)"
  define p where "p = common_prefix m t u"
  define q where "q = common_prefix (m - p) (rev t) (rev u)"
  define mid where "mid = js_slice u (int p) (int (length u) - int q)"
  let ?us = "((([] @ replicate (nat (int p)) Keep) @ replicate (nat (int (length t) - int p - int q)) Drop)
              @ map Put mid) @ replicate (nat (int q)) Keep"
  have bounds: "p \<le> m" "q \<le> m - p" "m \<le> length t" "m \<le> length u"
    by (simp_all add: p_def q_def common_prefix_le(1)) (simp_all add: m_def)
  have b: "diffOperation t u = builder_build
      (builder_retain (int q) (builder_insert mid (builder_delete (int (length t) - int p - int q)
        (builder_retain (int p) new_builder))))"
    by (simp add: diffOperation_def Let_def m_def p_def q_def mid_def)
  have builds: "builds (builder_retain (int q) (builder_insert mid (builder_delete (int (length t) - int p - int q)
        (builder_retain (int p) new_builder)))) ?us"
    by (intro wf_rules builds_new)
  have ends: "take p t = take p u" "drop (length t - q) t = drop (length u - q) u"
    unfolding p_def q_def by (rule common_prefix_take, rule common_suffix_drop)
  have mid: "mid = take (length u - q - p) (drop p u)"
    using bounds by (auto simp: mid_def js_slice_def nat_diff_distrib)
  have "run ?us t = take p t @ mid @ drop (length t - q) t"
    using bounds by (simp add: run_append nat_diff_distrib add.commute)
  also have "\<dots> = take p u @ take (length u - q - p) (drop p u) @ drop (length u - q) u"
    by (simp add: ends mid)
  also have "\<dots> = u"
  proof -
    have "take (length u - q - p) (drop p u) @ drop (length u - q) u = drop p u"
      using append_take_drop_id [of "length u - q - p" "drop p u"] bounds by simp
    then show ?thesis by (metis append_take_drop_id)
  qed
  finally show ?thesis
    using b builds bounds builds_wf builds_effect [OF builds] builds_lengths [OF builds]
    by (simp add: fits_def)
qed

lemma replace_content_law:
  assumes "wf_document d" and "content \<noteq> doc_text d"
  shows "replace_content content d =
     Inr (Some \<lparr>applied_revision = revision d + 1, applied_oper = diffOperation (doc_text d) content\<rparr>,
          append_history (diffOperation (doc_text d) content) (d\<lparr>doc_text := content\<rparr>))"
  using assms diffOperation_law [of "doc_text d" content]
  by (simp add: replace_content_def applyOperation_effect Let_def wf_document_def)
     (simp add: revision_def)

section \<open>Catching up\<close>

lemma since_law:
  assumes "text_at d r t"
  shows "\<exists>c. since r d = Inr (Some c) \<and> wf_operation c \<and> fits c t \<and> effect c t = doc_text d"
proof (cases "drop (nat (r - historyBase d)) (history d)")
  case Nil
  then show ?thesis
    using assms effect_identity [OF refl, of t]
    by (auto simp: since_def text_at_def wf_rules fits_def identity_lengths)
next
  case (Cons oper rest)
  then have "wf_operation oper" "fits oper t" "leads (effect oper t) rest (doc_text d)"
    using assms by (auto simp: text_at_def)
  then show ?thesis
    using text_history.fold_ok [of oper t rest "doc_text d"] Cons assms
    by (auto simp: since_def text_at_def)
qed

lemma append_history_text_at:
  assumes "text_at d r t" and "wf_operation oper" and "fits oper (doc_text d)"
    and "historyBase (append_history oper d) \<le> r"
  shows "text_at (append_history oper (d\<lparr>doc_text := effect oper (doc_text d)\<rparr>)) r t"
proof -
  have "leads t (drop (nat (r - historyBase d)) (history d) @ [oper]) (effect oper (doc_text d))"
    using assms leads_snoc by (auto simp: text_at_def)
  moreover have "nat (r - historyBase d) \<le> length (history d)"
    using assms by (simp add: text_at_def revision_def nat_le_iff)
  ultimately have l: "leads t (drop (nat (r - historyBase d)) (history d @ [oper])) (effect oper (doc_text d))"
    by simp
  show ?thesis
    using assms l
    by (auto simp: text_at_def append_history_def Let_def revision_def nat_add_distrib [symmetric]
        simp del: drop_append split: if_splits)
qed

end
