(* ===== verification/Collab_Room.thy ===== *)
theory Collab_Room
  imports Collab_Document "HOL-Library.AList"
begin

text \<open>
  \<open>packages/collab/src/room.ts\<close>: one shared file, its document, its participants with their
  carets, and the agents at work on it. A JavaScript \<open>Map\<close> is an association list in
  insertion order: \<open>AList.update\<close> overwrites in place or appends, as \<open>Map.set\<close> does.
\<close>

section \<open>State\<close>

record room_scope =
  scope_projectId :: string
  scope_repositoryId :: string
  scope_ownerUserId :: utf16
  scope_path :: string

record participant =
  part_id :: string
  part_userId :: utf16
  part_displayName :: utf16
  part_color :: string
  part_owner :: bool
  part_selection :: "selection_range option"

datatype activity_stage = Planned | Changed

record agent_activity =
  activity_taskId :: string
  activity_agentId :: string
  activity_stage :: activity_stage
  activity_objective :: string
  activity_occurredAt :: string

record collab_room =
  room_scope :: room_scope
  room_document :: collab_document
  members :: "(string \<times> participant) list"
  agents :: "(string \<times> agent_activity) list"
  savedRevision :: int
  lastActivityAt :: int

section \<open>Participants\<close>

definition participant_colors :: "string list" where
  "participant_colors =
     [''#4cc2ff'', ''#ffb454'', ''#7ee787'', ''#ff7b9c'', ''#c792ea'', ''#ffd866'', ''#5eead4'', ''#f78166'']"

text \<open>\<open>hash = (hash * 31 + code) >>> 0\<close>: arithmetic on 32-bit words.\<close>

definition user_hash :: "utf16 \<Rightarrow> 32 word" where
  "user_hash userId = foldl (\<lambda>hash code. hash * 31 + ucast code) 0 userId"

definition colorForUser :: "utf16 \<Rightarrow> string" where
  "colorForUser userId = participant_colors ! (unat (user_hash userId) mod length participant_colors)"

definition new_room :: "room_scope \<Rightarrow> utf16 \<Rightarrow> int \<Rightarrow> document_error + collab_room" where
  "new_room scope content now =
     res_bind (new_document content default_history_limit)
       (\<lambda>d. Inr \<lparr>room_scope = scope, room_document = d, members = [], agents = [],
                 savedRevision = revision d, lastActivityAt = now\<rparr>)"

definition touch :: "int \<Rightarrow> collab_room \<Rightarrow> collab_room" where
  "touch now r = r\<lparr>lastActivityAt := now\<rparr>"

definition dirty :: "collab_room \<Rightarrow> bool" where
  "dirty r \<longleftrightarrow> revision (room_document r) \<noteq> savedRevision r"

definition room_participant :: "string \<Rightarrow> collab_room \<Rightarrow> participant option" where
  "room_participant i r = map_of (members r) i"

definition join :: "string \<Rightarrow> utf16 \<Rightarrow> utf16 \<Rightarrow> collab_room \<Rightarrow> participant \<times> collab_room" where
  "join i userId displayName r =
     (let p = \<lparr>part_id = i, part_userId = userId, part_displayName = displayName,
               part_color = colorForUser userId,
               part_owner = (userId = scope_ownerUserId (room_scope r)),
               part_selection = None\<rparr>
      in (p, r\<lparr>members := AList.update i p (members r)\<rparr>))"

definition leave :: "string \<Rightarrow> collab_room \<Rightarrow> bool \<times> collab_room" where
  "leave i r = (map_of (members r) i \<noteq> None, r\<lparr>members := AList.delete i (members r)\<rparr>)"

section \<open>Operations and carets\<close>

definition clamp_offset :: "int \<Rightarrow> int \<Rightarrow> int" where
  "clamp_offset len v = (if is_safe_integer v then min (max v 0) len else 0)"

definition clampSelection :: "selection_range \<Rightarrow> int \<Rightarrow> selection_range" where
  "clampSelection sel len =
     \<lparr>anchor = clamp_offset len (anchor sel), head = clamp_offset len (head sel)\<rparr>"

definition carry_caret :: "text_operation \<Rightarrow> participant \<Rightarrow> participant" where
  "carry_caret oper p =
     p\<lparr>part_selection := map_option (\<lambda>sel. transformSelection sel oper) (part_selection p)\<rparr>"

text \<open>
  \<open>receive\<close>: the document first, then every caret but the sender's is carried across, and
  the sender's is set from what it sent. An error of the document leaves the room as it was.
\<close>

definition room_receive ::
  "string \<Rightarrow> int \<Rightarrow> text_operation \<Rightarrow> selection_range option \<Rightarrow> collab_room
   \<Rightarrow> collab_error + applied_operation \<times> collab_room"
where
  "room_receive i clientRevision oper sel r =
     (case map_of (members r) i of
        None \<Rightarrow> Inl (CollabError ''unknown_participant'')
      | Some sender \<Rightarrow>
          res_bind (receive clientRevision oper (room_document r))
            (\<lambda>(applied, d).
               let carried = map (\<lambda>(k, p). (k, if part_id p = i then p
                                                else carry_caret (applied_oper applied) p)) (members r);
                   placed = (case sel of
                               None \<Rightarrow> carried
                             | Some s \<Rightarrow> AList.update i
                                 (sender\<lparr>part_selection := Some (clampSelection s (int (length (doc_text d))))\<rparr>)
                                 carried)
               in Inr (applied, r\<lparr>room_document := d, members := placed\<rparr>)))"

definition setSelection ::
  "string \<Rightarrow> int \<Rightarrow> selection_range \<Rightarrow> collab_room \<Rightarrow> collab_error + selection_range option \<times> collab_room"
where
  "setSelection i clientRevision sel r =
     (case map_of (members r) i of
        None \<Rightarrow> Inr (None, r)
      | Some member \<Rightarrow>
          res_bind (since clientRevision (room_document r))
            (\<lambda>catchUp.
               case catchUp of
                 None \<Rightarrow> Inr (None, r)
               | Some c \<Rightarrow>
                   (let current = clampSelection (transformSelection sel c)
                                    (int (length (doc_text (room_document r))))
                    in Inr (Some current,
                            r\<lparr>members := AList.update i (member\<lparr>part_selection := Some current\<rparr>) (members r)\<rparr>))))"

definition replaceContent ::
  "utf16 \<Rightarrow> collab_room \<Rightarrow> collab_error + applied_operation option \<times> collab_room" where
  "replaceContent content r =
     res_bind (replace_content content (room_document r))
       (\<lambda>(applied, d).
          case applied of
            None \<Rightarrow> Inr (None, r)
          | Some a \<Rightarrow>
              Inr (Some a,
                   r\<lparr>room_document := d,
                     members := map (\<lambda>(k, p). (k, carry_caret (applied_oper a) p)) (members r),
                     savedRevision := revision d\<rparr>))"

definition markSaved :: "int \<Rightarrow> collab_room \<Rightarrow> collab_room" where
  "markSaved rv r = r\<lparr>savedRevision := rv\<rparr>"

section \<open>Agents at work on the file\<close>

definition noteAgentActivity :: "agent_activity \<Rightarrow> collab_room \<Rightarrow> bool \<times> collab_room" where
  "noteAgentActivity a r =
     (case map_of (agents r) (activity_taskId a) of
        Some existing \<Rightarrow>
          if activity_stage existing = activity_stage a then (False, r)
          else if activity_stage existing = Changed \<and> activity_stage a = Planned then (False, r)
          else (True, r\<lparr>agents := AList.update (activity_taskId a) a (agents r)\<rparr>)
      | None \<Rightarrow> (True, r\<lparr>agents := AList.update (activity_taskId a) a (agents r)\<rparr>))"

definition clearAgentActivity :: "string \<Rightarrow> collab_room \<Rightarrow> bool \<times> collab_room" where
  "clearAgentActivity taskId r =
     (map_of (agents r) taskId \<noteq> None, r\<lparr>agents := AList.delete taskId (agents r)\<rparr>)"

section \<open>The invariant of a room\<close>

text \<open>
  The document is well formed, the members are distinct and filed under their own id, and
  every caret lies inside the text.
\<close>

definition in_text :: "int \<Rightarrow> selection_range \<Rightarrow> bool" where
  "in_text len sel \<longleftrightarrow> 0 \<le> anchor sel \<and> anchor sel \<le> len \<and> 0 \<le> head sel \<and> head sel \<le> len"

definition caret_ok :: "utf16 \<Rightarrow> string \<times> participant \<Rightarrow> bool" where
  "caret_ok t = (\<lambda>(k, p). part_id p = k \<and> (\<forall>s. part_selection p = Some s \<longrightarrow> in_text (int (length t)) s))"

definition wf_room :: "collab_room \<Rightarrow> bool" where
  "wf_room r \<longleftrightarrow>
     wf_document (room_document r) \<and> distinct (map fst (members r)) \<and>
     (\<forall>m \<in> set (members r). caret_ok (doc_text (room_document r)) m)"

lemma wf_room_document: "wf_room r \<Longrightarrow> wf_document (room_document r)"
  by (simp add: wf_room_def)

lemma clampSelection_in_text: "0 \<le> len \<Longrightarrow> in_text len (clampSelection sel len)"
  by (simp add: in_text_def clampSelection_def clamp_offset_def)

lemma transformSelection_in_text:
  assumes "wf_operation oper" and "fits oper t" and "in_text (int (length t)) sel"
  shows "in_text (int (length (effect oper t))) (transformSelection sel oper)"
  using assms transformPosition_bounds [of oper "anchor sel"] transformPosition_bounds [of oper "head sel"]
    effect_length [of oper t]
  by (auto simp: in_text_def transformSelection_def fits_def)

lemma carry_caret_ok:
  assumes "wf_operation oper" and "fits oper t" and "caret_ok t (k, p)"
  shows "caret_ok (effect oper t) (k, carry_caret oper p)"
  using assms transformSelection_in_text [of oper t] by (auto simp: caret_ok_def carry_caret_def)

lemma caret_ok_update:
  assumes "\<forall>m \<in> set ms. caret_ok t m" and "caret_ok t (k, p)"
  shows "\<forall>m \<in> set (AList.update k p ms). caret_ok t m"
  using assms by (induction ms) auto

lemma distinct_keys_map [simp]: "map fst (map (\<lambda>(k, p). (k, f k p)) ms) = map fst ms"
  by (induction ms) auto

lemma fst_comp_keys [simp]: "fst \<circ> (\<lambda>(k, p). (k, f k p)) = fst"
  by (auto simp: fun_eq_iff)

lemma new_room_wf [wf_rules]: "new_room scope content now = Inr r \<Longrightarrow> wf_room r"
  by (auto simp: new_room_def res_bind_eq_Inr_conv wf_room_def dest: new_document_wf)

lemma join_wf [wf_rules]:
  assumes "wf_room r"
  shows "wf_room (snd (join i u n r))"
proof -
  let ?p = "fst (join i u n r)"
  have "caret_ok (doc_text (room_document r)) (i, ?p)"
    by (simp add: join_def Let_def caret_ok_def)
  then show ?thesis
    using assms caret_ok_update [of "members r" "doc_text (room_document r)" i ?p]
    by (simp add: wf_room_def join_def Let_def distinct_update)
qed

lemma leave_wf [wf_rules]: "wf_room r \<Longrightarrow> wf_room (snd (leave i r))"
  by (auto simp: wf_room_def leave_def AList.delete_eq distinct_map_filter)

text \<open>What the sender's carets and everybody else's are after an operation.\<close>

definition carry_others :: "string \<Rightarrow> text_operation \<Rightarrow> (string \<times> participant) list \<Rightarrow> (string \<times> participant) list" where
  "carry_others i oper ms = map (\<lambda>(k, p). (k, if part_id p = i then p else carry_caret oper p)) ms"

lemma keys_carry_others [simp]: "map fst (carry_others i oper ms) = map fst ms"
  unfolding carry_others_def by (rule distinct_keys_map)

lemma room_receive_eq:
  assumes "map_of (members r) i = Some sender"
    and "receive at oper (room_document r) = Inr (applied, d)"
  shows "room_receive i at oper sel r =
     Inr (applied, r\<lparr>room_document := d,
       members := (case sel of
                     None \<Rightarrow> carry_others i (applied_oper applied) (members r)
                   | Some s \<Rightarrow> AList.update i
                       (sender\<lparr>part_selection := Some (clampSelection s (int (length (doc_text d))))\<rparr>)
                       (carry_others i (applied_oper applied) (members r)))\<rparr>)"
  using assms by (cases sel) (simp_all add: room_receive_def carry_others_def Let_def)

text \<open>
  A caret that is not carried keeps its offsets, so the sender's own caret may end up outside
  the text when the operation shrinks it and no selection came with it. Every other caret,
  and the sender's when it sends one, stays inside.
\<close>

definition caret_in :: "utf16 \<Rightarrow> participant \<Rightarrow> bool" where
  "caret_in t p \<longleftrightarrow> (\<forall>s. part_selection p = Some s \<longrightarrow> in_text (int (length t)) s)"

lemma carry_others_ok:
  assumes "wf_operation oper" and "fits oper t" and "(k, p) \<in> set (carry_others i oper ms)"
    and "\<forall>m \<in> set ms. caret_ok t m" and "k \<noteq> i"
  shows "caret_ok (effect oper t) (k, p)"
proof -
  obtain q where "(k, q) \<in> set ms" and p: "p = (if part_id q = i then q else carry_caret oper q)"
    using assms(3) by (auto simp: carry_others_def)
  then show ?thesis
    using assms carry_caret_ok [of oper t k q] by (auto simp: caret_ok_def)
qed

lemma room_receive_law:
  assumes wf: "wf_room r" and sender: "map_of (members r) i = Some sender"
    and "text_at (room_document r) at t" and "is_safe_integer at"
    and "wf_operation oper" and "fits oper t"
  obtains rebased d ms where
    "rebase oper (drop (nat (at - historyBase (room_document r))) (history (room_document r))) = Inr rebased"
    "wf_operation rebased" "fits rebased (doc_text (room_document r))"
    "d = append_history rebased ((room_document r)\<lparr>doc_text := effect rebased (doc_text (room_document r))\<rparr>)"
    "room_receive i at oper sel r =
       Inr (\<lparr>applied_revision = revision (room_document r) + 1, applied_oper = rebased\<rparr>,
            r\<lparr>room_document := d, members := ms\<rparr>)"
    "map fst ms = map fst (members r)"
    "\<forall>k p. (k, p) \<in> set ms \<longrightarrow> k \<noteq> i \<or> sel \<noteq> None \<longrightarrow> caret_ok (doc_text d) (k, p)"
proof -
  let ?doc = "room_document r"
  have doc: "wf_document ?doc" using wf by (simp add: wf_room_def)
  obtain rebased where reb:
    "rebase oper (drop (nat (at - historyBase ?doc)) (history ?doc)) = Inr rebased"
    "wf_operation rebased" "fits rebased (doc_text ?doc)"
    "receive at oper ?doc =
       Inr (\<lparr>applied_revision = revision ?doc + 1, applied_oper = rebased\<rparr>,
            append_history rebased (?doc\<lparr>doc_text := effect rebased (doc_text ?doc)\<rparr>))"
    using receive_law [OF doc assms(3-6)] by blast
  define d where "d = append_history rebased (?doc\<lparr>doc_text := effect rebased (doc_text ?doc)\<rparr>)"
  define ms where "ms = (case sel of
      None \<Rightarrow> carry_others i rebased (members r)
    | Some s \<Rightarrow> AList.update i
        (sender\<lparr>part_selection := Some (clampSelection s (int (length (doc_text d))))\<rparr>)
        (carry_others i rebased (members r)))"
  have i: "i \<in> fst ` set (members r)"
    using sender by (force dest: map_of_SomeD)
  have keys: "map fst ms = map fst (members r)"
    using i by (auto simp: ms_def update_keys image_iff split: option.splits)
  have others: "caret_ok (doc_text d) (k, p)" if "(k, p) \<in> set (carry_others i rebased (members r))" "k \<noteq> i" for k p
    using carry_others_ok [OF reb(2,3) that(1)] that wf by (simp add: wf_room_def d_def)
  have own: "caret_ok (doc_text d)
      (i, sender\<lparr>part_selection := Some (clampSelection s (int (length (doc_text d))))\<rparr>)" for s
  proof -
    have "caret_ok (doc_text ?doc) (i, sender)"
      using wf sender by (auto simp: wf_room_def dest: map_of_SomeD)
    then show ?thesis by (simp add: caret_ok_def clampSelection_in_text)
  qed
  have carets: "caret_ok (doc_text d) (k, p)" if "(k, p) \<in> set ms" "k \<noteq> i \<or> sel \<noteq> None" for k p
  proof (cases sel)
    case None
    then show ?thesis using that others by (simp add: ms_def)
  next
    case (Some s)
    have "distinct (map fst ms)" using keys wf by (simp add: wf_room_def)
    then have "map_of ms k = Some p" using that(1) by simp
    then show ?thesis
      using that Some own [of s] others [of k p]
      by (auto simp: ms_def update_conv split: if_splits dest: map_of_SomeD)
  qed
  have "room_receive i at oper sel r =
      Inr (\<lparr>applied_revision = revision ?doc + 1, applied_oper = rebased\<rparr>,
           r\<lparr>room_document := d, members := ms\<rparr>)"
    using room_receive_eq [OF sender reb(4), of sel] by (cases sel) (simp_all add: d_def ms_def)
  then show thesis
    using that [OF reb(1-3) d_def] keys carets by blast
qed

lemma room_receive_wf [wf_rules]:
  assumes wf: "wf_room r" and "wf_operation oper" and rec: "room_receive i at oper sel r = Inr (a, r')"
    and own: "sel \<noteq> None \<or> (\<forall>p. map_of (members r) i = Some p \<longrightarrow> part_selection p = None)"
  shows "wf_room r' \<and> map fst (members r') = map fst (members r) \<and>
         receive at oper (room_document r) = Inr (a, room_document r')"
proof -
  let ?d = "room_document r"
  obtain sender d where s: "map_of (members r) i = Some sender" "receive at oper ?d = Inr (a, d)"
    using rec by (auto simp: room_receive_def res_bind_eq_Inr_conv Let_def split: option.splits)
  obtain t where t: "text_at ?d at t" "is_safe_integer at" "fits oper t"
    using receive_InrD [OF wf_room_document [OF wf] assms(2) s(2)] .
  obtain rebased d1 ms where
      "rebase oper (drop (nat (at - historyBase ?d)) (history ?d)) = Inr rebased"
      "wf_operation rebased" "fits rebased (doc_text ?d)"
      "d1 = append_history rebased (?d\<lparr>doc_text := effect rebased (doc_text ?d)\<rparr>)" and law:
      "room_receive i at oper sel r =
       Inr (\<lparr>applied_revision = revision ?d + 1, applied_oper = rebased\<rparr>, r\<lparr>room_document := d1, members := ms\<rparr>)"
      "map fst ms = map fst (members r)"
      "\<forall>k p. (k, p) \<in> set ms \<longrightarrow> k \<noteq> i \<or> sel \<noteq> None \<longrightarrow> caret_ok (doc_text d1) (k, p)"
    by (rule room_receive_law [OF wf s(1) t(1,2) assms(2) t(3)])
  have r': "r' = r\<lparr>room_document := d1, members := ms\<rparr>" using law(1) rec by simp
  note r'' = rec [unfolded room_receive_eq [OF s, of sel]]
  then have same: "r\<lparr>room_document := d1, members := ms\<rparr> = r\<lparr>room_document := d, members :=
      (case sel of None \<Rightarrow> carry_others i (applied_oper a) (members r)
       | Some s \<Rightarrow> AList.update i (sender\<lparr>part_selection := Some (clampSelection s (int (length (doc_text d))))\<rparr>)
           (carry_others i (applied_oper a) (members r)))\<rparr>"
    using r' by simp
  have d1: "d1 = d" using arg_cong [OF same, of room_document] by simp
  have "caret_ok (doc_text d) (i, p)" if m: "(i, p) \<in> set ms" and none: "sel = None" for p
  proof -
    have "ms = carry_others i (applied_oper a) (members r)"
      using arg_cong [OF same, of members] none by simp
    then obtain q where q: "(i, q) \<in> set (members r)"
        "p = (if part_id q = i then q else carry_caret (applied_oper a) q)"
      using m by (auto simp: carry_others_def)
    then have "map_of (members r) i = Some q" "part_id q = i"
      using wf by (auto simp: wf_room_def caret_ok_def)
    then show ?thesis using own none q by (auto simp: caret_ok_def)
  qed
  then have "caret_ok (doc_text d) m" if "m \<in> set ms" for m
    using law(3) d1 that by (cases m) blast
  moreover have "wf_document d" using receive_wf [OF wf_room_document [OF wf] assms(2) s(2)] by simp
  ultimately show ?thesis using law(2) wf r' s(2) d1 by (simp add: wf_room_def)
qed

lemma setSelection_wf [wf_rules]:
  assumes "wf_room r" and "setSelection i at sel r = Inr (placed, r')"
  shows "wf_room r' \<and> room_document r' = room_document r \<and>
         (\<forall>s. placed = Some s \<longrightarrow> in_text (int (length (doc_text (room_document r)))) s)"
proof (cases "map_of (members r) i")
  case (Some member)
  let ?t = "doc_text (room_document r)"
  have "caret_ok ?t (i, member)"
    using assms(1) Some by (auto simp: wf_room_def dest: map_of_SomeD)
  then have "caret_ok ?t (i, member\<lparr>part_selection := Some (clampSelection s (int (length ?t)))\<rparr>)" for s
    by (simp add: caret_ok_def clampSelection_in_text)
  then have "\<forall>m \<in> set (AList.update i
      (member\<lparr>part_selection := Some (clampSelection s (int (length ?t)))\<rparr>) (members r)). caret_ok ?t m" for s
    using assms(1) by (intro caret_ok_update) (simp_all add: wf_room_def)
  then show ?thesis
    using assms Some
    by (auto simp: setSelection_def res_bind_eq_Inr_conv Let_def wf_room_def distinct_update
        clampSelection_in_text split: option.splits)
qed (use assms in \<open>simp add: setSelection_def\<close>)

lemma replaceContent_wf [wf_rules]:
  assumes "wf_room r" and "replaceContent content r = Inr (a, r')"
  shows "wf_room r' \<and> doc_text (room_document r') = content \<and> (a \<noteq> None \<longrightarrow> \<not> dirty r')"
proof (cases "content = doc_text (room_document r)")
  case True
  then show ?thesis
    using assms by (simp add: replaceContent_def replace_content_def)
next
  case False
  let ?d = "room_document r"
  let ?oper = "diffOperation (doc_text ?d) content"
  let ?d' = "append_history ?oper (?d\<lparr>doc_text := content\<rparr>)"
  note law = diffOperation_law [of "doc_text ?d" content]
  have r': "r' = r\<lparr>room_document := ?d',
        members := map (\<lambda>(k, p). (k, carry_caret ?oper p)) (members r), savedRevision := revision ?d'\<rparr>"
    using assms False replace_content_law [OF wf_room_document False]
    by (simp add: replaceContent_def)
  have "caret_ok content (k, carry_caret ?oper p)" if "(k, p) \<in> set (members r)" for k p
    using that assms(1) law carry_caret_ok [of ?oper "doc_text ?d" k p] by (auto simp: wf_room_def)
  moreover have "wf_document ?d'"
    using append_history_wf [of ?d ?oper] law assms(1) by (simp add: wf_room_def)
  ultimately show ?thesis
    using r' assms(1) by (auto simp: wf_room_def dirty_def)
qed

lemma noteAgentActivity_stage:
  "map_of (agents r) t = Some a \<Longrightarrow> activity_stage a = Changed \<Longrightarrow>
   \<exists>b. map_of (agents (snd (noteAgentActivity n r))) t = Some b \<and> activity_stage b = Changed"
  by (cases "activity_stage n")
     (auto simp: noteAgentActivity_def update_conv split: option.splits)

section \<open>Room keys and the registry\<close>

text \<open>
  The four parts joined by NUL. Ids and paths are characters here, the owner's id is code
  units, so the key is a list of code units.
\<close>

definition units_of_string :: "string \<Rightarrow> utf16" where
  "units_of_string s = map (\<lambda>c. word_of_nat (of_char c)) s"

definition roomKey :: "room_scope \<Rightarrow> utf16" where
  "roomKey s = units_of_string (scope_projectId s) @ [0] @ units_of_string (scope_repositoryId s) @ [0] @
     scope_ownerUserId s @ [0] @ units_of_string (scope_path s)"

type_synonym room_registry = "(utf16 \<times> collab_room) list"

definition registry_get :: "room_scope \<Rightarrow> room_registry \<Rightarrow> collab_room option" where
  "registry_get s g = map_of g (roomKey s)"

definition registry_create ::
  "room_scope \<Rightarrow> utf16 \<Rightarrow> int \<Rightarrow> room_registry \<Rightarrow> document_error + collab_room \<times> room_registry" where
  "registry_create s content now g =
     res_bind (new_room s content now) (\<lambda>r. Inr (r, AList.update (roomKey s) r g))"

definition registry_delete :: "room_scope \<Rightarrow> room_registry \<Rightarrow> room_registry" where
  "registry_delete s g = AList.delete (roomKey s) g"

lemma inj_code_unit: "inj (\<lambda>c. word_of_nat (of_char c) :: 16 word)"
proof (rule injI)
  fix c d :: char
  assume "(word_of_nat (of_char c) :: 16 word) = word_of_nat (of_char d)"
  then have "(of_char c :: nat) mod 65536 = of_char d mod 65536"
    using unat_of_nat [where ?'a = 16, of "of_char c"] unat_of_nat [where ?'a = 16, of "of_char d"] by simp
  moreover have "(of_char c :: nat) < 65536" "(of_char d :: nat) < 65536"
    using nat_of_char_less_256 [of c] nat_of_char_less_256 [of d] by linarith+
  ultimately show "c = d" by simp
qed

lemma units_of_string_inject [simp]: "units_of_string s = units_of_string t \<longleftrightarrow> s = t"
  by (simp add: units_of_string_def inj_map_eq_map [OF inj_code_unit])

lemma nul_free_units: "CHR 0x00 \<notin> set s \<Longrightarrow> 0 \<notin> set (units_of_string s)"
proof
  assume "CHR 0x00 \<notin> set s" "0 \<in> set (units_of_string s)"
  then obtain c where c: "c \<in> set s" "(word_of_nat (of_char c) :: 16 word) = 0"
    by (auto simp: units_of_string_def)
  then have "(word_of_nat (of_char c) :: 16 word) = word_of_nat (of_char CHR 0x00)" by simp
  then have "c = CHR 0x00" using injD [OF inj_code_unit] by blast
  then show False using c \<open>CHR 0x00 \<notin> set s\<close> by simp
qed

definition nul_free :: "room_scope \<Rightarrow> bool" where
  "nul_free s \<longleftrightarrow> CHR 0x00 \<notin> set (scope_projectId s) \<and> CHR 0x00 \<notin> set (scope_repositoryId s) \<and>
     0 \<notin> set (scope_ownerUserId s) \<and> CHR 0x00 \<notin> set (scope_path s)"

lemma roomKey_inject:
  assumes "nul_free s" and "nul_free s'" and "roomKey s = roomKey s'"
  shows "s = s'"
proof -
  note nf = assms(1,2) [unfolded nul_free_def]
  have k: "units_of_string (scope_projectId s) @ 0 # units_of_string (scope_repositoryId s) @ 0 #
        scope_ownerUserId s @ 0 # units_of_string (scope_path s) =
      units_of_string (scope_projectId s') @ 0 # units_of_string (scope_repositoryId s') @ 0 #
        scope_ownerUserId s' @ 0 # units_of_string (scope_path s')"
    using assms(3) by (simp add: roomKey_def)
  have 1: "units_of_string (scope_projectId s) = units_of_string (scope_projectId s')"
    "units_of_string (scope_repositoryId s) @ 0 # scope_ownerUserId s @ 0 # units_of_string (scope_path s) =
     units_of_string (scope_repositoryId s') @ 0 # scope_ownerUserId s' @ 0 # units_of_string (scope_path s')"
    using split_at_separator [OF _ _ k] nf nul_free_units by blast+
  have 2: "units_of_string (scope_repositoryId s) = units_of_string (scope_repositoryId s')"
    "scope_ownerUserId s @ 0 # units_of_string (scope_path s) =
     scope_ownerUserId s' @ 0 # units_of_string (scope_path s')"
    using split_at_separator [OF _ _ 1(2)] nf nul_free_units by blast+
  have 3: "scope_ownerUserId s = scope_ownerUserId s'"
    "units_of_string (scope_path s) = units_of_string (scope_path s')"
    using split_at_separator [OF _ _ 2(2)] nf by blast+
  from 1(1) 2(1) 3 show ?thesis by simp
qed

end
