(* ===== verification/Collab_Protocol.thy ===== *)
theory Collab_Protocol
  imports Collab_Room
begin

text \<open>
  \<open>packages/collab/src/protocol.ts\<close>: the messages of the collaboration socket and the guard
  every frame from a browser passes. The argument of \<open>parseClientMessage\<close> is what
  \<open>JSON.parse\<close> made of the frame, \<open>None\<close> when it threw.
\<close>

section \<open>Messages\<close>

datatype client_message =
    ClientOperation int text_operation "selection_range option"
  | ClientSelection int selection_range
  | ClientSave
  | ClientResync

datatype server_message =
    ServerWelcome string int utf16 "participant list" "agent_activity list" utf16 string bool bool
  | ServerAck int
  | ServerOperation int "component list" string
  | ServerSelection string selection_range
  | ServerJoin participant
  | ServerLeave string
  | ServerSaved int utf16
  | ServerAgents "agent_activity list"
  | ServerError string bool

section \<open>Parsing\<close>

definition invalid_message :: collab_error where
  "invalid_message = CollabError ''invalid_message''"

fun asRecord :: "json option \<Rightarrow> collab_error + (string \<times> json) list" where
  "asRecord (Some (JObject rcd)) = Inr rcd"
| "asRecord _ = Inl invalid_message"

fun as_safe :: "json option \<Rightarrow> int option" where
  "as_safe (Some (JNumber (JInt n))) = (if is_safe_integer n then Some n else None)"
| "as_safe _ = None"

definition asRevision :: "json option \<Rightarrow> collab_error + int" where
  "asRevision v =
     (case as_safe v of
        Some n \<Rightarrow> if n < 0 then Inl invalid_message else Inr n
      | None \<Rightarrow> Inl invalid_message)"

definition asSelection :: "json option \<Rightarrow> collab_error + selection_range" where
  "asSelection v =
     res_bind (asRecord v) (\<lambda>rcd.
       case (as_safe (map_of rcd ''anchor''), as_safe (map_of rcd ''head'')) of
         (Some a, Some h) \<Rightarrow>
           if a < 0 \<or> h < 0 then Inl invalid_message else Inr \<lparr>anchor = a, head = h\<rparr>
       | _ \<Rightarrow> Inl invalid_message)"

text \<open>A missing field reads as \<open>undefined\<close>, which \<open>parseOperation\<close> refuses like \<open>null\<close>.\<close>

definition parseOperationField :: "json option \<Rightarrow> collab_error + text_operation" where
  "parseOperationField v = (case v of None \<Rightarrow> parseOperation JNull | Some w \<Rightarrow> parseOperation w)"

definition type_is :: "(string \<times> json) list \<Rightarrow> string \<Rightarrow> bool" where
  "type_is rcd s \<longleftrightarrow> map_of rcd ''type'' = Some (JString (units_of_string s))"

definition parseClientMessage :: "json option \<Rightarrow> collab_error + client_message" where
  "parseClientMessage decoded =
     res_bind (asRecord decoded) (\<lambda>rcd.
       if type_is rcd ''op'' then
         res_bind (asRevision (map_of rcd ''revision'')) (\<lambda>rv.
         res_bind (parseOperationField (map_of rcd ''operation'')) (\<lambda>oper.
           case map_of rcd ''selection'' of
             None \<Rightarrow> Inr (ClientOperation rv oper None)
           | Some s \<Rightarrow> res_bind (asSelection (Some s)) (\<lambda>sel. Inr (ClientOperation rv oper (Some sel)))))
       else if type_is rcd ''selection'' then
         res_bind (asRevision (map_of rcd ''revision'')) (\<lambda>rv.
         res_bind (asSelection (map_of rcd ''selection'')) (\<lambda>sel.
           Inr (ClientSelection rv sel)))
       else if type_is rcd ''save'' then Inr ClientSave
       else if type_is rcd ''resync'' then Inr ClientResync
       else Inl invalid_message)"

section \<open>What the guard guarantees\<close>

definition safe_selection :: "selection_range \<Rightarrow> bool" where
  "safe_selection s \<longleftrightarrow> 0 \<le> anchor s \<and> is_safe_integer (anchor s) \<and> 0 \<le> head s \<and> is_safe_integer (head s)"

fun valid_message :: "client_message \<Rightarrow> bool" where
  "valid_message (ClientOperation rv oper sel) \<longleftrightarrow>
     0 \<le> rv \<and> is_safe_integer rv \<and> wf_operation oper \<and> (\<forall>s. sel = Some s \<longrightarrow> safe_selection s)"
| "valid_message (ClientSelection rv sel) \<longleftrightarrow> 0 \<le> rv \<and> is_safe_integer rv \<and> safe_selection sel"
| "valid_message _ \<longleftrightarrow> True"

lemma as_safe_SomeD: "as_safe v = Some n \<Longrightarrow> is_safe_integer n"
  by (cases v rule: as_safe.cases) (auto split: if_splits)

lemma asRevision_InrD: "asRevision v = Inr n \<Longrightarrow> 0 \<le> n \<and> is_safe_integer n"
  by (auto simp: asRevision_def split: option.splits if_splits dest: as_safe_SomeD)

lemma asSelection_InrD: "asSelection v = Inr s \<Longrightarrow> safe_selection s"
proof -
  assume "asSelection v = Inr s"
  then obtain rcd where "res_bind (Inr rcd) (\<lambda>rcd.
       case (as_safe (map_of rcd ''anchor''), as_safe (map_of rcd ''head'')) of
         (Some a, Some h) \<Rightarrow>
           if a < 0 \<or> h < 0 then Inl invalid_message else Inr \<lparr>anchor = a, head = h\<rparr>
       | _ \<Rightarrow> Inl invalid_message) = Inr s"
    unfolding asSelection_def res_bind_eq_Inr_conv by auto
  then show ?thesis
    by (cases "as_safe (map_of rcd ''anchor'')"; cases "as_safe (map_of rcd ''head'')")
       (auto simp: safe_selection_def dest: as_safe_SomeD split: if_splits)
qed

lemma parseOperation_wf [wf_rules]: "parseOperation v = Inr oper \<Longrightarrow> wf_operation oper"
  by (auto simp: parseOperation_def res_bind_eq_Inr_conv wf_createOperation split: json.splits if_splits)

lemma parseClientMessage_valid:
  "parseClientMessage decoded = Inr m \<Longrightarrow> valid_message m"
  by (auto simp: parseClientMessage_def parseOperationField_def res_bind_eq_Inr_conv
      split: if_splits option.splits dest!: asRevision_InrD asSelection_InrD parseOperation_wf)

text \<open>
  Writing an operation and reading it back. \<open>JSON.stringify\<close> of a component list is a list
  of strings and integers.
\<close>

fun component_json :: "component \<Rightarrow> json" where
  "component_json (Num n) = JNumber (JInt n)"
| "component_json (Str s) = JString s"

definition operation_json :: "text_operation \<Rightarrow> json" where
  "operation_json oper = JArray (map component_json (serializeOperation oper))"

fun inserted_units :: "component list \<Rightarrow> nat" where
  "inserted_units [] = 0"
| "inserted_units (Str s # cs) = length s + inserted_units cs"
| "inserted_units (Num n # cs) = inserted_units cs"

fun safe_component :: "component \<Rightarrow> bool" where
  "safe_component (Num n) \<longleftrightarrow> is_safe_integer n"
| "safe_component (Str s) \<longleftrightarrow> True"

definition sendable :: "text_operation \<Rightarrow> bool" where
  "sendable oper \<longleftrightarrow>
     length (components oper) \<le> max_operation_components \<and>
     inserted_units (components oper) \<le> max_operation_insert_units \<and>
     list_all safe_component (components oper)"

lemma parse_entries_components:
  "list_all proper cs \<Longrightarrow> list_all safe_component cs \<Longrightarrow>
   k + inserted_units cs \<le> max_operation_insert_units \<Longrightarrow>
   parse_entries k (map component_json cs) = Inr cs"
proof (induction cs arbitrary: k)
  case (Cons c cs)
  then show ?case by (cases c) auto
qed simp

lemma parse_entries_limits:
  "parse_entries k es = Inr cs \<Longrightarrow>
   length cs = length es \<and> (cs = [] \<or> k + inserted_units cs \<le> max_operation_insert_units \<or> inserted_units cs = 0)"
proof (induction k es arbitrary: cs rule: parse_entries.induct)
  case (2 k s es)
  then show ?case by (fastforce simp: res_bind_eq_Inr_conv split: if_splits)
qed (auto simp: res_bind_eq_Inr_conv split: if_splits)

end
