(* ===== verification/Collab_Client.thy ===== *)
theory Collab_Client
  imports Operation_Semantics
begin

text \<open>
  \<open>packages/collab/src/client.ts\<close>: the client half of the loop. At most one operation is in
  flight (\<open>outstanding\<close>); later local edits are composed into \<open>buffer\<close>. Each method returns
  what it throws or what the caller must do, and the state afterwards: the methods assign
  their fields one by one, so a method that throws half way has already changed some.

  \<open>client_sees\<close> is the invariant the whole loop rests on: the editor's text is the server's
  text at the client's revision, with the unacknowledged work applied on top.
\<close>

record collab_client =
  serverRevision :: int
  outstanding :: "text_operation option"
  buffer :: "text_operation option"

record client_action =
  act_send :: "(text_operation \<times> int) option"
  act_apply :: "text_operation option"

definition no_action :: client_action where
  "no_action = \<lparr>act_send = None, act_apply = None\<rparr>"

definition new_client :: "int \<Rightarrow> collab_error + collab_client" where
  "new_client rv =
     (if \<not> is_safe_integer rv \<or> rv < 0 then Inl (CollabError ''invalid_revision'')
      else Inr \<lparr>serverRevision = rv, outstanding = None, buffer = None\<rparr>)"

definition synchronized :: "collab_client \<Rightarrow> bool" where
  "synchronized c \<longleftrightarrow> outstanding c = None"

definition applyLocal ::
  "text_operation \<Rightarrow> collab_client \<Rightarrow> (collab_error + client_action) \<times> collab_client" where
  "applyLocal oper c =
     (case outstanding c of
        None \<Rightarrow> (Inr (no_action\<lparr>act_send := Some (oper, serverRevision c)\<rparr>),
                 c\<lparr>outstanding := Some oper\<rparr>)
      | Some _ \<Rightarrow>
          (case buffer c of
             None \<Rightarrow> (Inr no_action, c\<lparr>buffer := Some oper\<rparr>)
           | Some b \<Rightarrow>
               (case composeOperations b oper of
                  Inl e \<Rightarrow> (Inl e, c)
                | Inr composed \<Rightarrow> (Inr no_action, c\<lparr>buffer := Some composed\<rparr>))))"

definition applyServer ::
  "text_operation \<Rightarrow> collab_client \<Rightarrow> (collab_error + client_action) \<times> collab_client" where
  "applyServer oper c =
     (let c1 = c\<lparr>serverRevision := serverRevision c + 1\<rparr>
      in case outstanding c1 of
           None \<Rightarrow> (Inr (no_action\<lparr>act_apply := Some oper\<rparr>), c1)
         | Some out \<Rightarrow>
             (case transformOperations out oper of
                Inl e \<Rightarrow> (Inl e, c1)
              | Inr (outstandingPrime, remoteAfterOutstanding) \<Rightarrow>
                  (let c2 = c1\<lparr>outstanding := Some outstandingPrime\<rparr>
                   in case buffer c2 of
                        None \<Rightarrow> (Inr (no_action\<lparr>act_apply := Some remoteAfterOutstanding\<rparr>), c2)
                      | Some buf \<Rightarrow>
                          (case transformOperations buf remoteAfterOutstanding of
                             Inl e \<Rightarrow> (Inl e, c2)
                           | Inr (bufferPrime, remoteAfterBuffer) \<Rightarrow>
                               (Inr (no_action\<lparr>act_apply := Some remoteAfterBuffer\<rparr>),
                                c2\<lparr>buffer := Some bufferPrime\<rparr>)))))"

definition acknowledge :: "collab_client \<Rightarrow> (collab_error + client_action) \<times> collab_client" where
  "acknowledge c =
     (case outstanding c of
        None \<Rightarrow> (Inl (CollabError ''unexpected_ack''), c)
      | Some _ \<Rightarrow>
          (let c1 = c\<lparr>serverRevision := serverRevision c + 1\<rparr>
           in case buffer c1 of
                None \<Rightarrow> (Inr no_action, c1\<lparr>outstanding := None\<rparr>)
              | Some buf \<Rightarrow>
                  (Inr (no_action\<lparr>act_send := Some (buf, serverRevision c1)\<rparr>),
                   c1\<lparr>outstanding := Some buf, buffer := None\<rparr>)))"

definition selectionToLocal :: "selection_range \<Rightarrow> collab_client \<Rightarrow> selection_range" where
  "selectionToLocal sel c =
     (let after_out = (case outstanding c of None \<Rightarrow> sel | Some out \<Rightarrow> transformSelection sel out)
      in case buffer c of None \<Rightarrow> after_out | Some buf \<Rightarrow> transformSelection after_out buf)"

definition client_reset :: "int \<Rightarrow> collab_client \<Rightarrow> collab_client" where
  "client_reset rv c = c\<lparr>serverRevision := rv, outstanding := None, buffer := None\<rparr>"

section \<open>What a client sees\<close>

text \<open>The text after an operation that may be absent.\<close>

fun opt_effect :: "text_operation option \<Rightarrow> utf16 \<Rightarrow> utf16" where
  "opt_effect None t = t"
| "opt_effect (Some oper) t = effect oper t"

fun opt_fits :: "text_operation option \<Rightarrow> utf16 \<Rightarrow> bool" where
  "opt_fits None t = True"
| "opt_fits (Some oper) t \<longleftrightarrow> wf_operation oper \<and> fits oper t"

definition client_sees :: "collab_client \<Rightarrow> utf16 \<Rightarrow> utf16 \<Rightarrow> bool" where
  "client_sees c t x \<longleftrightarrow>
     opt_fits (outstanding c) t \<and> opt_fits (buffer c) (opt_effect (outstanding c) t) \<and>
     x = opt_effect (buffer c) (opt_effect (outstanding c) t) \<and>
     (outstanding c = None \<longrightarrow> buffer c = None)"

lemma client_sees_idle: "outstanding c = None \<Longrightarrow> client_sees c t x \<Longrightarrow> x = t \<and> buffer c = None"
  by (simp add: client_sees_def)

text \<open>A local edit is applied on top; it is sent at once only if nothing is in flight.\<close>

lemma applyLocal_law:
  assumes "client_sees c t x" and "wf_operation oper" and "fits oper x"
  shows "\<exists>act c'. applyLocal oper c = (Inr act, c') \<and> client_sees c' t (effect oper x) \<and>
           serverRevision c' = serverRevision c \<and> act_apply act = None \<and>
           (if outstanding c = None
            then outstanding c' = Some oper \<and> act_send act = Some (oper, serverRevision c)
            else outstanding c' = outstanding c \<and> act_send act = None)"
proof (cases "outstanding c")
  case None
  then show ?thesis
    using assms by (auto simp: applyLocal_def client_sees_def no_action_def)
next
  case (Some out)
  show ?thesis
  proof (cases "buffer c")
    case None
    then show ?thesis
      using Some assms by (auto simp: applyLocal_def client_sees_def no_action_def)
  next
    case (Some b)
    have len: "targetLength b = baseLength oper"
      using assms Some effect_length [of b "opt_effect (outstanding c) t"]
      by (simp add: client_sees_def fits_def)
    then obtain d where "composeOperations b oper = Inr d" "wf_operation d"
        "baseLength d = baseLength b" "\<forall>t. fits b t \<longrightarrow> effect d t = effect oper (effect b t)"
      using composeOperations_law [of b oper] assms Some by (auto simp: client_sees_def)
    then show ?thesis
      using \<open>outstanding c = Some out\<close> Some assms
      by (auto simp: applyLocal_def client_sees_def no_action_def fits_def)
  qed
qed

text \<open>
  A remote operation on the server's text is carried over the unacknowledged work: the
  client ends on the server's next text with its own work rebased on top.
\<close>

lemma applyServer_law:
  assumes "client_sees c t x" and "wf_operation oper" and "fits oper t"
  shows "\<exists>a c'. applyServer oper c = (Inr (no_action\<lparr>act_apply := Some a\<rparr>), c') \<and>
           wf_operation a \<and> fits a x \<and> client_sees c' (effect oper t) (effect a x) \<and>
           serverRevision c' = serverRevision c + 1 \<and>
           (case outstanding c of
              None \<Rightarrow> outstanding c' = None
            | Some out \<Rightarrow> \<exists>out' rest. outstanding c' = Some out' \<and>
                             transformOperations out oper = Inr (out', rest))"
proof (cases "outstanding c")
  case None
  then show ?thesis using assms by (auto simp: applyServer_def client_sees_def)
next
  case (Some out)
  then obtain out' r where tr: "transformOperations out oper = Inr (out', r)"
      "wf_operation out'" "wf_operation r" "fits out' (effect oper t)" "fits r (effect out t)"
      "effect r (effect out t) = effect out' (effect oper t)"
    using assms text_ot.transformation_ok [of out oper t] by (auto simp: client_sees_def)
  show ?thesis
  proof (cases "buffer c")
    case None
    then show ?thesis
      using Some tr assms by (auto simp: applyServer_def client_sees_def)
  next
    case (Some b)
    then obtain b' r' where "transformOperations b r = Inr (b', r')"
        "wf_operation b'" "wf_operation r'" "fits b' (effect r (effect out t))"
        "fits r' (effect b (effect out t))"
        "effect r' (effect b (effect out t)) = effect b' (effect r (effect out t))"
      using assms tr \<open>outstanding c = Some out\<close> text_ot.transformation_ok [of b r "effect out t"]
      by (auto simp: client_sees_def)
    then show ?thesis
      using Some tr assms \<open>outstanding c = Some out\<close>
      by (auto simp: applyServer_def client_sees_def)
  qed
qed

lemma acknowledge_law:
  assumes "client_sees c t x" and "outstanding c = Some out"
  shows "\<exists>act c'. acknowledge c = (Inr act, c') \<and> client_sees c' (effect out t) x \<and>
           serverRevision c' = serverRevision c + 1 \<and> outstanding c' = buffer c \<and>
           act_send act = map_option (\<lambda>b. (b, serverRevision c + 1)) (buffer c) \<and> act_apply act = None"
  using assms by (cases "buffer c") (auto simp: acknowledge_def client_sees_def no_action_def)

lemma client_reset_sees: "client_sees (client_reset rv c) t t"
  by (simp add: client_reset_def client_sees_def)

end
