(* ===== verification/Collab_Session.thy ===== *)
theory Collab_Session
  imports Collab_Protocol Collab_Client
begin

text \<open>
  \<open>CollabWebSocketHub\<close> of \<open>services/api-gateway/src/collab-websocket.ts\<close> and the session it
  runs: one room, any number of clients, and between each client and the hub two sockets'
  directions that deliver in order. \<open>hub_handle\<close> is the hub's \<open>handle\<close>; a session step is
  one local edit, one frame delivered to a client, one frame handled by the hub, a client
  that asks for a new snapshot, or somebody joining or leaving.

  The theorem of this theory is convergence: in every reachable session a client with
  nothing in flight and nothing left to read shows exactly the server's text.
\<close>

section \<open>The hub\<close>

datatype audience = Only string | Except string | Everybody

definition max_document_units :: int where
  "max_document_units = 524288"

definition welcome_frame :: "string \<Rightarrow> collab_room \<Rightarrow> server_message" where
  "welcome_frame i r =
     ServerWelcome i (revision (room_document r)) (doc_text (room_document r))
       (map snd (members r)) (map snd (agents r)) (scope_ownerUserId (room_scope r))
       (scope_path (room_scope r)) True (dirty r)"

fun error_code :: "collab_error \<Rightarrow> string" where
  "error_code (CollabError code) = code"

text \<open>
  \<open>handle\<close> after the guard. \<open>now\<close> is the clock \<open>touch\<close> reads. A save is answered when the
  write port returns, see \<open>hub_saved\<close>; here it only touches the room.
\<close>

fun hub_handle ::
  "int \<Rightarrow> string \<Rightarrow> client_message \<Rightarrow> collab_room \<Rightarrow> (audience \<times> server_message) list \<times> collab_room"
where
  "hub_handle now i (ClientOperation at oper sel) r0 =
     (let r = touch now r0;
          growth = targetLength oper - baseLength oper
      in if int (length (doc_text (room_document r))) + max growth 0 > max_document_units
         then ([(Only i, ServerError ''document_too_large'' False)], r)
         else
           (case room_receive i at oper sel r of
              Inl e \<Rightarrow> ([(Only i, ServerError (error_code e) True)], r)
            | Inr (applied, r') \<Rightarrow>
                ([(Only i, ServerAck (applied_revision applied)),
                  (Except i, ServerOperation (applied_revision applied)
                               (components (applied_oper applied)) i)]
                 @ (case map_of (members r') i of
                      Some sender \<Rightarrow>
                        (case part_selection sender of
                           Some s \<Rightarrow> [(Except i, ServerSelection i s)]
                         | None \<Rightarrow> [])
                    | None \<Rightarrow> []),
                 r')))"
| "hub_handle now i (ClientSelection at sel) r0 =
     (let r = touch now r0
      in case setSelection i at sel r of
           Inl e \<Rightarrow> ([(Only i, ServerError (error_code e) True)], r)
         | Inr (None, r') \<Rightarrow> ([], r')
         | Inr (Some placed, r') \<Rightarrow> ([(Except i, ServerSelection i placed)], r'))"
| "hub_handle now i ClientSave r0 = ([], touch now r0)"
| "hub_handle now i ClientResync r0 = (let r = touch now r0 in ([(Only i, welcome_frame i r)], r))"

text \<open>
  The end of \<open>save\<close>. \<open>at\<close> is the revision whose text was written, read before the write
  started; \<open>written\<close> is what the workspace port answered. Operations may have landed in
  between, and the room then stays dirty.
\<close>

definition hub_saved ::
  "string \<Rightarrow> utf16 \<Rightarrow> int \<Rightarrow> bool \<Rightarrow> collab_room \<Rightarrow> (audience \<times> server_message) list \<times> collab_room"
where
  "hub_saved i savedBy at written r =
     (if \<not> written then ([(Only i, ServerError ''internal_error'' False)], r)
      else ([(Everybody, ServerSaved at savedBy)], markSaved at r))"

section \<open>Sites and sessions\<close>

record site =
  client :: collab_client
  site_text :: utf16
  inbox :: "server_message list"
  outbox :: "client_message list"
  fault :: bool
  crashed :: bool

record session =
  room :: collab_room
  sites :: "string \<Rightarrow> site option"

definition put_site :: "string \<Rightarrow> site \<Rightarrow> session \<Rightarrow> session" where
  "put_site i s S = S\<lparr>sites := (sites S)(i \<mapsto> s)\<rparr>"

fun hears :: "audience \<Rightarrow> string \<Rightarrow> bool" where
  "hears (Only i) j \<longleftrightarrow> j = i"
| "hears (Except i) j \<longleftrightarrow> j \<noteq> i"
| "hears Everybody j \<longleftrightarrow> True"

definition post :: "(audience \<times> server_message) list \<Rightarrow> (string \<Rightarrow> site option) \<Rightarrow> string \<Rightarrow> site option" where
  "post ms ss j =
     map_option (\<lambda>s. s\<lparr>inbox := inbox s @ map snd (filter (\<lambda>(a, m). hears a j) ms)\<rparr>) (ss j)"

text \<open>What a method of the client asks for is put on the wire.\<close>

definition send_action :: "client_action \<Rightarrow> selection_range option \<Rightarrow> site \<Rightarrow> site" where
  "send_action act sel s =
     (case act_send act of
        None \<Rightarrow> s
      | Some (oper, rv) \<Rightarrow> s\<lparr>outbox := outbox s @ [ClientOperation rv oper sel]\<rparr>)"

text \<open>The user edits: the editor applies the operation and the client records it.\<close>

definition site_edit :: "text_operation \<Rightarrow> selection_range option \<Rightarrow> site \<Rightarrow> site" where
  "site_edit oper sel s =
     (case (applyOperation (site_text s) oper, applyLocal oper (client s)) of
        (Inr t, Inr act, c) \<Rightarrow> send_action act sel (s\<lparr>site_text := t, client := c\<rparr>)
      | (_, _, c) \<Rightarrow> s\<lparr>client := c, crashed := True\<rparr>)"

text \<open>One frame reaches the client.\<close>

definition site_read :: "server_message \<Rightarrow> site \<Rightarrow> site" where
  "site_read m s =
     (case m of
        ServerAck _ \<Rightarrow>
          (case acknowledge (client s) of
             (Inr act, c) \<Rightarrow> send_action act None (s\<lparr>client := c\<rparr>)
           | (Inl e, c) \<Rightarrow> s\<lparr>client := c, crashed := True\<rparr>)
      | ServerOperation _ cs _ \<Rightarrow>
          (case applyServer (createOperation cs) (client s) of
             (Inr act, c) \<Rightarrow>
               (case act_apply act of
                  None \<Rightarrow> s\<lparr>client := c\<rparr>
                | Some a \<Rightarrow>
                    (case applyOperation (site_text s) a of
                       Inr t \<Rightarrow> s\<lparr>client := c, site_text := t\<rparr>
                     | Inl e \<Rightarrow> s\<lparr>client := c, crashed := True\<rparr>))
           | (Inl e, c) \<Rightarrow> s\<lparr>client := c, crashed := True\<rparr>)
      | ServerWelcome _ rv content _ _ _ _ _ _ \<Rightarrow>
          s\<lparr>client := client_reset rv (client s), site_text := content, fault := False\<rparr>
      | ServerError _ fatal \<Rightarrow> (if fatal then s\<lparr>fault := True\<rparr> else s)
      | _ \<Rightarrow> s)"

definition session_serve :: "int \<Rightarrow> string \<Rightarrow> client_message \<Rightarrow> client_message list \<Rightarrow> site \<Rightarrow> session \<Rightarrow> session" where
  "session_serve now i m rest s S =
     (let (ms, r) = hub_handle now i m (room S)
      in S\<lparr>room := r, sites := post ms ((sites S)(i \<mapsto> s\<lparr>outbox := rest\<rparr>))\<rparr>)"

text \<open>
  A participant joins: the welcome is the first frame it reads, so its client starts at the
  snapshot; the others are told.
\<close>

definition new_site :: "collab_room \<Rightarrow> site" where
  "new_site r =
     \<lparr>client = \<lparr>serverRevision = revision (room_document r), outstanding = None, buffer = None\<rparr>,
      site_text = doc_text (room_document r), inbox = [], outbox = [], fault = False, crashed = False\<rparr>"

definition session_join :: "string \<Rightarrow> utf16 \<Rightarrow> utf16 \<Rightarrow> session \<Rightarrow> session" where
  "session_join i userId displayName S =
     (let (p, r) = join i userId displayName (room S)
      in S\<lparr>room := r, sites := post [(Except i, ServerJoin p)] ((sites S)(i \<mapsto> new_site r))\<rparr>)"

text \<open>
  A write finishes, at any time and for any revision the room had. The frames that ask for a
  save or move a caret change no document and are left out of the sessions.
\<close>

definition session_saved :: "string \<Rightarrow> utf16 \<Rightarrow> int \<Rightarrow> bool \<Rightarrow> session \<Rightarrow> session" where
  "session_saved i savedBy at written S =
     (let (ms, r) = hub_saved i savedBy at written (room S)
      in S\<lparr>room := r, sites := post ms (sites S)\<rparr>)"

definition session_leave :: "string \<Rightarrow> session \<Rightarrow> session" where
  "session_leave i S =
     S\<lparr>room := snd (leave i (room S)),
       sites := post [(Everybody, ServerLeave i)] ((sites S)(i := None))\<rparr>"

inductive session_step :: "session \<Rightarrow> session \<Rightarrow> bool" where
  edit: "sites S i = Some s \<Longrightarrow> wf_operation oper \<Longrightarrow> fits oper (site_text s) \<Longrightarrow>
         session_step S (put_site i (site_edit oper sel s) S)"
| read: "sites S i = Some s \<Longrightarrow> inbox s = m # rest \<Longrightarrow>
         session_step S (put_site i (site_read m (s\<lparr>inbox := rest\<rparr>)) S)"
| serve: "sites S i = Some s \<Longrightarrow> outbox s = m # rest \<Longrightarrow>
          session_step S (session_serve now i m rest s S)"
| resync: "sites S i = Some s \<Longrightarrow> fault s \<Longrightarrow>
           session_step S (put_site i (s\<lparr>outbox := outbox s @ [ClientResync], fault := False\<rparr>) S)"
| join: "sites S i = None \<Longrightarrow> session_step S (session_join i userId displayName S)"
| saved: "session_step S (session_saved i savedBy at written S)"
| leave: "session_step S (session_leave i S)"

inductive reachable :: "session \<Rightarrow> bool" where
  start: "new_room scope content now = Inr r \<Longrightarrow> reachable \<lparr>room = r, sites = (\<lambda>_. None)\<rparr>"
| step: "reachable S \<Longrightarrow> session_step S S' \<Longrightarrow> reachable S'"

section \<open>The invariant of a site\<close>

text \<open>The operations among the frames a client has still to read.\<close>

fun remotes :: "server_message list \<Rightarrow> text_operation list" where
  "remotes [] = []"
| "remotes (ServerOperation rv cs i # ms) = createOperation cs # remotes ms"
| "remotes (_ # ms) = remotes ms"

fun fatal_count :: "server_message list \<Rightarrow> nat" where
  "fatal_count [] = 0"
| "fatal_count (ServerError code fatal # ms) = (if fatal then 1 else 0) + fatal_count ms"
| "fatal_count (_ # ms) = fatal_count ms"

fun plain :: "server_message \<Rightarrow> bool" where
  "plain (ServerAck _) = False"
| "plain (ServerWelcome _ _ _ _ _ _ _ _ _) = False"
| "plain _ = True"

text \<open>Frames that lead from one server text to another: no acknowledgement, no snapshot.\<close>

definition flow :: "utf16 \<Rightarrow> server_message list \<Rightarrow> utf16 \<Rightarrow> bool" where
  "flow t ms u \<longleftrightarrow> list_all plain ms \<and> leads t (remotes ms) u"

lemma remotes_append [simp]: "remotes (xs @ ys) = remotes xs @ remotes ys"
  by (induction xs rule: remotes.induct) simp_all

lemma fatal_count_append [simp]: "fatal_count (xs @ ys) = fatal_count xs + fatal_count ys"
  by (induction xs rule: fatal_count.induct) simp_all

lemma flow_Nil [simp]: "flow t [] u \<longleftrightarrow> t = u"
  by (simp add: flow_def)

lemma flow_append: "flow t (xs @ ys) u \<longleftrightarrow> (\<exists>v. flow t xs v \<and> flow v ys u)"
  by (auto simp: flow_def leads_append)

text \<open>
  Two suffixes of one list. The window forgets the oldest operations, a client the ones it
  has read, so the two stay aligned and agree as far as both reach back.
\<close>

definition aligned :: "'a list \<Rightarrow> 'a list \<Rightarrow> bool" where
  "aligned xs ys \<longleftrightarrow> (\<exists>zs. suffix xs zs \<and> suffix ys zs)"

lemma aligned_Nil [simp]: "aligned xs []"
  by (auto simp: aligned_def)

lemma aligned_snoc: "aligned xs ys \<Longrightarrow> aligned (xs @ zs) (ys @ zs)"
  unfolding aligned_def by (metis suffix_append)

lemma aligned_right: "aligned xs (ys @ zs) \<Longrightarrow> aligned xs zs"
  unfolding aligned_def by (metis suffix_appendD suffix_order.order_trans suffix_def)

lemma aligned_tl: "aligned xs (y # zs) \<Longrightarrow> aligned xs zs"
  using aligned_right [of xs "[y]" zs] by simp

lemma aligned_left: "aligned xs ys \<Longrightarrow> aligned (drop n xs) ys"
  unfolding aligned_def by (metis suffix_drop suffix_order.order_trans)

lemma aligned_drop:
  assumes "aligned xs ys" and "length ys \<le> length xs"
  shows "drop (length xs - length ys) xs = ys"
proof -
  from assms have "suffix ys xs"
    unfolding aligned_def using suffix_length_suffix by blast
  then show ?thesis by (auto simp: suffix_def)
qed

text \<open>
  \<open>stream d r t ms\<close>: reading the frames \<open>ms\<close> from text \<open>t\<close> at revision \<open>r\<close> ends on the
  server's text at the server's revision, and the operations in \<open>ms\<close> are the ones the
  server recorded.
\<close>

definition stream :: "collab_document \<Rightarrow> int \<Rightarrow> utf16 \<Rightarrow> server_message list \<Rightarrow> bool" where
  "stream d r t ms \<longleftrightarrow>
     flow t ms (doc_text d) \<and> aligned (history d) (remotes ms) \<and>
     r + int (length (remotes ms)) = revision d"

text \<open>
  Where the operation in flight is: nowhere (\<open>idle\<close>), in the socket to the hub
  (\<open>in_flight\<close>), applied with the acknowledgement on its way (\<open>acked\<close>), refused by the hub
  (\<open>lost\<close>), or made irrelevant by a snapshot on its way (\<open>welcomed\<close>).
\<close>

definition quiet :: "site \<Rightarrow> bool" where
  "quiet s \<longleftrightarrow> fatal_count (inbox s) = 0 \<and> \<not> fault s"

definition idle :: "collab_document \<Rightarrow> utf16 \<Rightarrow> site \<Rightarrow> bool" where
  "idle d t s \<longleftrightarrow>
     outstanding (client s) = None \<and> outbox s = [] \<and> quiet s \<and>
     stream d (serverRevision (client s)) t (inbox s)"

definition in_flight :: "collab_document \<Rightarrow> utf16 \<Rightarrow> site \<Rightarrow> bool" where
  "in_flight d t s \<longleftrightarrow>
     (\<exists>out oper at sel t0 hs.
        outstanding (client s) = Some out \<and> outbox s = [ClientOperation at oper sel] \<and> quiet s \<and>
        stream d (serverRevision (client s)) t (inbox s) \<and>
        wf_operation oper \<and> fits oper t0 \<and> leads t0 hs t \<and> rebase oper hs = Inr out \<and>
        aligned (history d) (hs @ remotes (inbox s)) \<and>
        at + int (length hs) = serverRevision (client s))"

definition acked :: "collab_document \<Rightarrow> utf16 \<Rightarrow> site \<Rightarrow> bool" where
  "acked d t s \<longleftrightarrow>
     (\<exists>out ms rv ms' u applied.
        outstanding (client s) = Some out \<and> outbox s = [] \<and> quiet s \<and>
        inbox s = ms @ ServerAck rv # ms' \<and> flow t ms u \<and> rebase out (remotes ms) = Inr applied \<and>
        fits applied u \<and> wf_operation applied \<and>
        stream d (serverRevision (client s) + int (length (remotes ms)) + 1) (effect applied u) ms')"

definition lost :: "collab_document \<Rightarrow> utf16 \<Rightarrow> site \<Rightarrow> bool" where
  "lost d t s \<longleftrightarrow>
     outstanding (client s) \<noteq> None \<and> stream d (serverRevision (client s)) t (inbox s) \<and>
     (outbox s = [] \<and> fatal_count (inbox s) + (if fault s then 1 else 0) \<le> 1 \<or>
      outbox s = [ClientResync] \<and> quiet s)"

definition welcomed :: "collab_document \<Rightarrow> utf16 \<Rightarrow> site \<Rightarrow> bool" where
  "welcomed d t s \<longleftrightarrow>
     (\<exists>ms i rv content ps ags own path w dy ms' u.
        outstanding (client s) \<noteq> None \<and> outbox s = [] \<and> quiet s \<and>
        inbox s = ms @ ServerWelcome i rv content ps ags own path w dy # ms' \<and>
        flow t ms u \<and> stream d rv content ms')"

definition site_ok :: "collab_document \<Rightarrow> site \<Rightarrow> bool" where
  "site_ok d s \<longleftrightarrow>
     \<not> crashed s \<and>
     (\<exists>t. client_sees (client s) t (site_text s) \<and>
          (idle d t s \<or> in_flight d t s \<or> acked d t s \<or> lost d t s \<or> welcomed d t s))"

lemmas phase_defs = idle_def in_flight_def acked_def lost_def welcomed_def

definition session_ok :: "session \<Rightarrow> bool" where
  "session_ok S \<longleftrightarrow>
     wf_document (room_document (room S)) \<and>
     (\<forall>i s. sites S i = Some s \<longrightarrow>
        site_ok (room_document (room S)) s \<and> map_of (members (room S)) i \<noteq> None)"

section \<open>Reading\<close>

lemma rebase_append: "rebase oper (xs @ ys) = res_bind (rebase oper xs) (\<lambda>o'. rebase o' ys)"
  by (induction xs arbitrary: oper) (auto simp: res_bind_def split: sum.splits)

lemma plain_flow_Cons:
  "flow t (m # ms) u \<longleftrightarrow> plain m \<and> (\<exists>v. leads t (remotes [m]) v \<and> flow v ms u)"
  using flow_append [of t "[m]" ms u] by (auto simp: flow_def)

text \<open>One frame that is neither an acknowledgement nor a snapshot.\<close>

lemma site_read_plain:
  assumes sees: "client_sees (client s) t (site_text s)" and "plain m" and "leads t (remotes [m]) v"
    and "\<not> crashed s"
  shows "client_sees (client (site_read m s)) v (site_text (site_read m s)) \<and>
         \<not> crashed (site_read m s) \<and> outbox (site_read m s) = outbox s \<and>
         inbox (site_read m s) = inbox s \<and>
         serverRevision (client (site_read m s)) = serverRevision (client s) + int (length (remotes [m])) \<and>
         (fault (site_read m s) \<longleftrightarrow> fault s \<or> 0 < fatal_count [m]) \<and>
         (case outstanding (client s) of
            None \<Rightarrow> outstanding (client (site_read m s)) = None
          | Some out \<Rightarrow> \<exists>out'. outstanding (client (site_read m s)) = Some out' \<and>
                          rebase out (remotes [m]) = Inr out')"
proof (cases m)
  case (ServerOperation rv cs i)
  let ?o = "createOperation cs"
  have o: "wf_operation ?o" "fits ?o t" "v = effect ?o t"
    using assms(3) ServerOperation by auto
  obtain a c' where ac: "applyServer ?o (client s) = (Inr (no_action\<lparr>act_apply := Some a\<rparr>), c')"
      "wf_operation a" "fits a (site_text s)" "client_sees c' v (effect a (site_text s))"
      "serverRevision c' = serverRevision (client s) + 1"
      "case outstanding (client s) of None \<Rightarrow> outstanding c' = None
        | Some out \<Rightarrow> \<exists>out' rest. outstanding c' = Some out' \<and> transformOperations out ?o = Inr (out', rest)"
    using applyServer_law [OF sees o(1,2)] o(3) by blast
  have "site_read m s = s\<lparr>client := c', site_text := effect a (site_text s)\<rparr>"
    using ac ServerOperation by (simp add: site_read_def applyOperation_effect)
  then show ?thesis
    using ac ServerOperation assms(4) by (auto split: option.splits)
qed (use assms in \<open>auto simp: site_read_def split: option.splits\<close>)

text \<open>A snapshot or an acknowledgement somewhere later in the inbox is still there afterwards.\<close>

lemma stream_Cons:
  assumes "stream d r t (m # ms)"
  obtains v where "plain m" "leads t (remotes [m]) v" "stream d (r + int (length (remotes [m]))) v ms"
proof -
  have "remotes (m # ms) = remotes [m] @ remotes ms"
    using remotes_append [of "[m]" ms] by simp
  then show thesis
    using assms that aligned_right by (fastforce simp: stream_def plain_flow_Cons)
qed

lemma fatal_Cons: "fatal_count (m # ms) = fatal_count [m] + fatal_count ms"
  using fatal_count_append [of "[m]" ms] by simp

lemma remotes_Cons: "remotes (m # ms) = remotes [m] @ remotes ms"
  using remotes_append [of "[m]" ms] by simp

text \<open>The site after the head of its inbox has been read.\<close>

abbreviation after_read :: "site \<Rightarrow> server_message \<Rightarrow> server_message list \<Rightarrow> site" where
  "after_read s m rest \<equiv> site_read m (s\<lparr>inbox := rest\<rparr>)"

lemma read_idle:
  assumes "idle d t s" and "client_sees (client s) t (site_text s)" and "\<not> crashed s"
    and "inbox s = m # rest"
  shows "site_ok d (after_read s m rest)"
proof -
  have st: "stream d (serverRevision (client s)) t (m # rest)"
    using assms by (simp add: idle_def)
  obtain v where v: "plain m" "leads t (remotes [m]) v"
      "stream d (serverRevision (client s) + int (length (remotes [m]))) v rest"
    using stream_Cons [OF st] .
  have "fatal_count [m] = 0" "fatal_count rest = 0"
    using assms fatal_Cons [of m rest] by (simp_all add: idle_def quiet_def)
  then show ?thesis
    using site_read_plain [of "s\<lparr>inbox := rest\<rparr>" t m v] v assms
    by (auto simp: site_ok_def idle_def quiet_def)
qed

lemma read_in_flight:
  assumes "in_flight d t s" and "client_sees (client s) t (site_text s)" and "\<not> crashed s"
    and "inbox s = m # rest"
  shows "site_ok d (after_read s m rest)"
proof -
  obtain out oper at sel t0 hs where f: "outstanding (client s) = Some out"
      "outbox s = [ClientOperation at oper sel]" "quiet s"
      "stream d (serverRevision (client s)) t (m # rest)" "wf_operation oper" "fits oper t0"
      "leads t0 hs t" "rebase oper hs = Inr out" "aligned (history d) (hs @ remotes (m # rest))"
      "at + int (length hs) = serverRevision (client s)"
    using assms by (auto simp: in_flight_def)
  obtain v where v: "plain m" "leads t (remotes [m]) v"
      "stream d (serverRevision (client s) + int (length (remotes [m]))) v rest"
    using stream_Cons [OF f(4)] .
  have q: "fatal_count [m] = 0" "fatal_count rest = 0"
    using assms f(3) fatal_Cons [of m rest] by (simp_all add: quiet_def)
  let ?s = "after_read s m rest"
  obtain out' where r: "client_sees (client ?s) v (site_text ?s)" "\<not> crashed ?s"
      "outbox ?s = outbox s" "inbox ?s = rest" "\<not> fault ?s"
      "serverRevision (client ?s) = serverRevision (client s) + int (length (remotes [m]))"
      "outstanding (client ?s) = Some out'" "rebase out (remotes [m]) = Inr out'"
    using site_read_plain [of "s\<lparr>inbox := rest\<rparr>" t m v] v assms f(1,3) q by (auto simp: quiet_def)
  have "leads t0 (hs @ remotes [m]) v" using f(7) v(2) by (auto simp: leads_append)
  moreover have "rebase oper (hs @ remotes [m]) = Inr out'" using f(8) r(8) by (simp add: rebase_append)
  moreover have "aligned (history d) ((hs @ remotes [m]) @ remotes rest)"
    using f(9) by (simp add: remotes_Cons [of m rest])
  ultimately have "in_flight d v ?s"
    unfolding in_flight_def using r v f q
    by (intro exI [of _ out'] exI [of _ oper] exI [of _ at] exI [of _ sel] exI [of _ t0]
        exI [of _ "hs @ remotes [m]"]) (simp add: quiet_def)
  then show ?thesis using r by (auto simp: site_ok_def)
qed

lemma site_read_ack:
  assumes "client_sees (client s) t (site_text s)" and "outstanding (client s) = Some out"
    and "inbox s = ServerAck rv # rest"
    and "outbox s = []" and "quiet s" and "\<not> crashed s"
    and "stream d (serverRevision (client s) + 1) (effect out t) rest"
  shows "site_ok d (after_read s (ServerAck rv) rest)"
proof -
  obtain act c' where ac: "acknowledge (client s) = (Inr act, c')" "client_sees c' (effect out t) (site_text s)"
      "serverRevision c' = serverRevision (client s) + 1" "outstanding c' = buffer (client s)"
      "act_send act = map_option (\<lambda>b. (b, serverRevision (client s) + 1)) (buffer (client s))"
    using acknowledge_law [OF assms(1,2)] by blast
  have q: "fatal_count rest = 0" "\<not> fault s" using assms by (simp_all add: quiet_def)
  show ?thesis
  proof (cases "buffer (client s)")
    case None
    then have "idle d (effect out t) (after_read s (ServerAck rv) rest)"
      using ac assms q by (simp add: idle_def quiet_def site_read_def send_action_def)
    then show ?thesis
      using None ac assms by (auto simp: site_ok_def site_read_def send_action_def)
  next
    case (Some b)
    then have b: "wf_operation b" "fits b (effect out t)"
      using ac by (simp_all add: client_sees_def)
    have "in_flight d (effect out t) (after_read s (ServerAck rv) rest)"
      unfolding in_flight_def using Some ac assms q b
      by (intro exI [of _ b] exI [of _ b] exI [of _ "serverRevision (client s) + 1"] exI [of _ None]
          exI [of _ "effect out t"] exI [of _ "[]"])
        (simp add: quiet_def site_read_def send_action_def stream_def)
    then show ?thesis
      using Some ac assms by (auto simp: site_ok_def site_read_def send_action_def)
  qed
qed

lemma read_acked:
  assumes "acked d t s" and "client_sees (client s) t (site_text s)" and "\<not> crashed s"
    and "inbox s = m # rest"
  shows "site_ok d (after_read s m rest)"
proof -
  obtain out ms rv ms' u applied where a: "outstanding (client s) = Some out" "outbox s = []" "quiet s"
      "m # rest = ms @ ServerAck rv # ms'" "flow t ms u" "rebase out (remotes ms) = Inr applied"
      "fits applied u" "wf_operation applied"
      "stream d (serverRevision (client s) + int (length (remotes ms)) + 1) (effect applied u) ms'"
    using assms by (auto simp: acked_def)
  show ?thesis
  proof (cases ms)
    case Nil
    then show ?thesis
      using a assms site_read_ack [of s t out rv rest d] by simp
  next
    case (Cons n ns)
    then have m: "n = m" "rest = ns @ ServerAck rv # ms'" using a(4) by simp_all
    obtain v where v: "plain m" "leads t (remotes [m]) v" "flow v ns u"
      using a(5) Cons m plain_flow_Cons by blast
    have q: "fatal_count [m] = 0" "fatal_count rest = 0"
      using assms a(3) fatal_Cons [of m rest] by (simp_all add: quiet_def)
    let ?s = "after_read s m rest"
    obtain out' where r: "client_sees (client ?s) v (site_text ?s)" "\<not> crashed ?s"
        "outbox ?s = outbox s" "inbox ?s = rest" "\<not> fault ?s"
        "serverRevision (client ?s) = serverRevision (client s) + int (length (remotes [m]))"
        "outstanding (client ?s) = Some out'" "rebase out (remotes [m]) = Inr out'"
      using site_read_plain [of "s\<lparr>inbox := rest\<rparr>" t m v] v assms a(1,3) q by (auto simp: quiet_def)
    have "rebase out' (remotes ns) = Inr applied"
      using a(6) r(8) Cons m rebase_append [of out "remotes [m]" "remotes ns"] remotes_Cons [of m ns] by simp
    moreover have "length (remotes ms) = length (remotes [m]) + length (remotes ns)"
      using Cons m remotes_Cons [of m ns] by simp
    ultimately have "acked d v ?s"
      unfolding acked_def using r v a q m
      by (intro exI [of _ out'] exI [of _ ns] exI [of _ rv] exI [of _ ms'] exI [of _ u] exI [of _ applied])
        (simp add: quiet_def ac_simps)
    then show ?thesis using r by (auto simp: site_ok_def)
  qed
qed

lemma read_lost:
  assumes "lost d t s" and "client_sees (client s) t (site_text s)" and "\<not> crashed s"
    and "inbox s = m # rest"
  shows "site_ok d (after_read s m rest)"
proof -
  have st: "stream d (serverRevision (client s)) t (m # rest)"
    using assms by (simp add: lost_def)
  obtain v where v: "plain m" "leads t (remotes [m]) v"
      "stream d (serverRevision (client s) + int (length (remotes [m]))) v rest"
    using stream_Cons [OF st] .
  let ?s = "after_read s m rest"
  have r: "client_sees (client ?s) v (site_text ?s)" "\<not> crashed ?s"
        "outbox ?s = outbox s" "inbox ?s = rest" "fault ?s \<longleftrightarrow> fault s \<or> 0 < fatal_count [m]"
        "serverRevision (client ?s) = serverRevision (client s) + int (length (remotes [m]))"
        "outstanding (client ?s) \<noteq> None"
    using site_read_plain [of "s\<lparr>inbox := rest\<rparr>" t m v] v assms
    by (auto simp: lost_def split: option.splits)
  have "lost d v ?s"
    using assms r v fatal_Cons [of m rest] by (auto simp: lost_def quiet_def)
  then show ?thesis using r by (auto simp: site_ok_def)
qed

lemma read_welcomed:
  assumes "welcomed d t s" and "client_sees (client s) t (site_text s)" and "\<not> crashed s"
    and "inbox s = m # rest"
  shows "site_ok d (after_read s m rest)"
proof -
  obtain ms i rv content ps ags own path w dy ms' u where a:
      "outstanding (client s) \<noteq> None" "outbox s = []" "quiet s"
      "m # rest = ms @ ServerWelcome i rv content ps ags own path w dy # ms'"
      "flow t ms u" "stream d rv content ms'"
    using assms by (auto simp: welcomed_def)
  have q: "fatal_count [m] = 0" "fatal_count rest = 0"
    using assms a(3) fatal_Cons [of m rest] by (simp_all add: quiet_def)
  let ?s = "after_read s m rest"
  show ?thesis
  proof (cases ms)
    case Nil
    then have "idle d content ?s"
      using a q by (simp add: idle_def quiet_def site_read_def client_reset_def)
    then show ?thesis
      using Nil a assms client_reset_sees by (auto simp: site_ok_def site_read_def)
  next
    case (Cons n ns)
    then have m: "n = m" "rest = ns @ ServerWelcome i rv content ps ags own path w dy # ms'"
      using a(4) by simp_all
    obtain v where v: "plain m" "leads t (remotes [m]) v" "flow v ns u"
      using a(5) Cons m plain_flow_Cons by blast
    have r: "client_sees (client ?s) v (site_text ?s)" "\<not> crashed ?s"
        "outbox ?s = outbox s" "inbox ?s = rest" "\<not> fault ?s" "outstanding (client ?s) \<noteq> None"
      using site_read_plain [of "s\<lparr>inbox := rest\<rparr>" t m v] v assms a(1,3) q
      by (auto simp: quiet_def split: option.splits)
    then have "welcomed d v ?s"
      unfolding welcomed_def using a v q m
      by (intro exI [of _ ns] exI [of _ i] exI [of _ rv] exI [of _ content] exI [of _ ps] exI [of _ ags]
          exI [of _ own] exI [of _ path] exI [of _ w] exI [of _ dy] exI [of _ ms'] exI [of _ u])
        (simp add: quiet_def)
    then show ?thesis using r by (auto simp: site_ok_def)
  qed
qed

lemma read_ok [step_rules]:
  assumes "site_ok d s" and "inbox s = m # rest"
  shows "site_ok d (after_read s m rest)"
proof -
  obtain t where "client_sees (client s) t (site_text s)" "\<not> crashed s"
      "idle d t s \<or> in_flight d t s \<or> acked d t s \<or> lost d t s \<or> welcomed d t s"
    using assms(1) by (auto simp: site_ok_def)
  from this(3) this(1,2) show ?thesis
    by (elim disjE) (rule read_idle read_in_flight read_acked read_lost read_welcomed, assumption+, rule assms(2))+
qed

section \<open>Editing\<close>

lemma edit_ok [step_rules]:
  assumes "site_ok d s" and "wf_operation oper" and "fits oper (site_text s)"
  shows "site_ok d (site_edit oper sel s)"
proof -
  obtain t where t: "client_sees (client s) t (site_text s)" "\<not> crashed s"
      "idle d t s \<or> in_flight d t s \<or> acked d t s \<or> lost d t s \<or> welcomed d t s"
    using assms(1) by (auto simp: site_ok_def)
  obtain act c' where ac: "applyLocal oper (client s) = (Inr act, c')"
      "client_sees c' t (effect oper (site_text s))" "serverRevision c' = serverRevision (client s)"
      "if outstanding (client s) = None
       then outstanding c' = Some oper \<and> act_send act = Some (oper, serverRevision (client s))
       else outstanding c' = outstanding (client s) \<and> act_send act = None"
    using applyLocal_law [OF t(1) assms(2,3)] by blast
  let ?s = "site_edit oper sel s"
  have e: "?s = send_action act sel (s\<lparr>site_text := effect oper (site_text s), client := c'\<rparr>)"
    using ac(1) assms by (simp add: site_edit_def applyOperation_effect)
  show ?thesis
  proof (cases "outstanding (client s)")
    case None
    then have i: "idle d t s" using t(3) by (auto simp: phase_defs)
    then have "site_text s = t" using t(1) None client_sees_idle by blast
    then have "in_flight d t ?s"
      unfolding in_flight_def using i ac None assms e
      by (intro exI [of _ oper] exI [of _ oper] exI [of _ "serverRevision (client s)"] exI [of _ sel]
          exI [of _ t] exI [of _ "[]"]) (simp add: idle_def send_action_def quiet_def stream_def)
    then show ?thesis using e ac t(2) None by (auto simp: site_ok_def send_action_def)
  next
    case (Some out)
    then have same: "?s = s\<lparr>site_text := effect oper (site_text s), client := c'\<rparr>" "outstanding c' = Some out"
      using e ac by (simp_all add: send_action_def)
    then have "in_flight d t s \<Longrightarrow> in_flight d t ?s" "acked d t s \<Longrightarrow> acked d t ?s"
        "lost d t s \<Longrightarrow> lost d t ?s" "welcomed d t s \<Longrightarrow> welcomed d t ?s"
      using Some ac(3) by (simp_all add: phase_defs quiet_def)
    moreover have "\<not> idle d t s" using Some by (simp add: idle_def)
    ultimately show ?thesis using same ac t by (auto simp: site_ok_def)
  qed
qed

lemma resync_ok [step_rules]:
  assumes "site_ok d s" and "fault s"
  shows "site_ok d (s\<lparr>outbox := outbox s @ [ClientResync], fault := False\<rparr>)"
proof -
  obtain t where t: "client_sees (client s) t (site_text s)" "\<not> crashed s" "lost d t s"
    using assms by (auto simp: site_ok_def phase_defs quiet_def)
  then have "lost d t (s\<lparr>outbox := outbox s @ [ClientResync], fault := False\<rparr>)"
    using assms(2) by (auto simp: lost_def quiet_def)
  then show ?thesis using t by (auto simp: site_ok_def)
qed

section \<open>The server moves on\<close>

text \<open>
  The frames \<open>ms\<close> take a client from what it knew of \<open>d\<close> to \<open>d'\<close>: the text, the revision and
  the recorded operations all advance by exactly what the frames say.
\<close>

definition advance :: "collab_document \<Rightarrow> server_message list \<Rightarrow> collab_document \<Rightarrow> bool" where
  "advance d ms d' \<longleftrightarrow>
     flow (doc_text d) ms (doc_text d') \<and> fatal_count ms = 0 \<and>
     revision d' = revision d + int (length (remotes ms)) \<and>
     (\<forall>ops. aligned (history d) ops \<longrightarrow> aligned (history d') (ops @ remotes ms))"

lemma advance_refl: "list_all plain ms \<Longrightarrow> fatal_count ms = 0 \<Longrightarrow> remotes ms = [] \<Longrightarrow> advance d ms d"
  by (simp add: advance_def flow_def)

lemma advance_append_history:
  assumes "wf_document d" and "wf_operation oper" and "fits oper (doc_text d)"
    and "list_all plain ms" and "fatal_count ms = 0" and "remotes ms = [oper]"
  shows "advance d ms (append_history oper (d\<lparr>doc_text := effect oper (doc_text d)\<rparr>))"
proof -
  have "aligned (history d) ops \<Longrightarrow>
      aligned (history (append_history oper (d\<lparr>doc_text := effect oper (doc_text d)\<rparr>))) (ops @ [oper])" for ops
    using aligned_snoc [of "history d" ops "[oper]"] aligned_left [of "history d @ [oper]" "ops @ [oper]"]
    by (simp add: append_history_def Let_def del: drop_append)
  moreover have "revision (append_history oper (d\<lparr>doc_text := effect oper (doc_text d)\<rparr>)) = revision d + 1"
    using assms(1) by (simp add: wf_document_def) (simp add: revision_def)
  ultimately show ?thesis
    using assms by (simp add: advance_def flow_def)
qed

lemma stream_advance:
  "stream d r t ms \<Longrightarrow> advance d ns d' \<Longrightarrow> stream d' r t (ms @ ns)"
  by (auto simp: stream_def advance_def flow_append)

lemma advance_ok [step_rules]:
  assumes "site_ok d s" and "advance d ms d'"
  shows "site_ok d' (s\<lparr>inbox := inbox s @ ms\<rparr>)"
proof -
  let ?s = "s\<lparr>inbox := inbox s @ ms\<rparr>"
  note st = stream_advance [OF _ assms(2)]
  have q: "quiet s \<Longrightarrow> quiet ?s" "fatal_count ms = 0"
    using assms(2) by (simp_all add: quiet_def advance_def)
  obtain t where t: "client_sees (client s) t (site_text s)" "\<not> crashed s"
      "idle d t s \<or> in_flight d t s \<or> acked d t s \<or> lost d t s \<or> welcomed d t s"
    using assms(1) by (auto simp: site_ok_def)
  have "idle d t s \<Longrightarrow> idle d' t ?s"
    using q st by (simp add: idle_def)
  moreover have "in_flight d' t ?s" if "in_flight d t s"
  proof -
    have "aligned (history d) ops \<Longrightarrow> aligned (history d') (ops @ remotes ms)" for ops
      using assms(2) by (simp add: advance_def)
    from this [of "_ @ remotes (inbox s)"] show ?thesis
      using that q st unfolding in_flight_def by fastforce
  qed
  moreover have "acked d' t ?s" if k: "acked d t s"
  proof -
    obtain out ms0 rv ms' u applied where a: "outstanding (client s) = Some out" "outbox s = []" "quiet s"
        "inbox s = ms0 @ ServerAck rv # ms'" "flow t ms0 u" "rebase out (remotes ms0) = Inr applied"
        "fits applied u" "wf_operation applied"
        "stream d (serverRevision (client s) + int (length (remotes ms0)) + 1) (effect applied u) ms'"
      using k unfolding acked_def by blast
    show ?thesis
      unfolding acked_def using a q st [OF a(9)]
      by (intro exI [of _ out] exI [of _ ms0] exI [of _ rv] exI [of _ "ms' @ ms"] exI [of _ u]
          exI [of _ applied]) simp
  qed
  moreover have "lost d t s \<Longrightarrow> lost d' t ?s"
    using q st by (auto simp: lost_def quiet_def)
  moreover have "welcomed d' t ?s" if k: "welcomed d t s"
  proof -
    obtain ms0 i rv content ps ags own path w dy ms' u where a:
        "outstanding (client s) \<noteq> None" "outbox s = []" "quiet s"
        "inbox s = ms0 @ ServerWelcome i rv content ps ags own path w dy # ms'"
        "flow t ms0 u" "stream d rv content ms'"
      using k unfolding welcomed_def by blast
    show ?thesis
      unfolding welcomed_def using a q st [OF a(6)]
      by (intro exI [of _ ms0] exI [of _ i] exI [of _ rv] exI [of _ content] exI [of _ ps] exI [of _ ags]
          exI [of _ own] exI [of _ path] exI [of _ w] exI [of _ dy] exI [of _ "ms' @ ms"] exI [of _ u]) simp
  qed
  ultimately show ?thesis using t by (auto simp: site_ok_def)
qed

section \<open>Serving\<close>

lemma stream_error: "stream d r t ms \<Longrightarrow> stream d r t (ms @ [ServerError code fatal])"
  by (simp add: stream_def flow_def)

lemma refused_ok:
  assumes "in_flight d t s" and "client_sees (client s) t (site_text s)" and "\<not> crashed s"
  shows "site_ok d (s\<lparr>outbox := [], inbox := inbox s @ [ServerError code fatal]\<rparr>)"
proof -
  have "lost d t (s\<lparr>outbox := [], inbox := inbox s @ [ServerError code fatal]\<rparr>)"
    using assms(1) by (auto simp: in_flight_def lost_def quiet_def stream_error)
  then show ?thesis using assms by (auto simp: site_ok_def)
qed

text \<open>
  What the hub's document does with the operation in flight: if the window still holds the
  revision it was written against, it is rebased to the very operation the client will
  have arrived at when it has read everything before the acknowledgement.
\<close>

lemma in_flight_text_at:
  assumes "in_flight d t s" and "outbox s = [ClientOperation at oper sel]" and "historyBase d \<le> at"
  shows "\<exists>t0 out. outstanding (client s) = Some out \<and> wf_operation oper \<and> fits oper t0 \<and> text_at d at t0 \<and>
           rebase oper (drop (nat (at - historyBase d)) (history d)) = rebase out (remotes (inbox s))"
proof -
  obtain out t0 hs where f: "outstanding (client s) = Some out"
      "stream d (serverRevision (client s)) t (inbox s)" "wf_operation oper" "fits oper t0"
      "leads t0 hs t" "rebase oper hs = Inr out" "aligned (history d) (hs @ remotes (inbox s))"
      "at + int (length hs) = serverRevision (client s)"
    using assms(1,2) by (auto simp: in_flight_def)
  let ?ops = "hs @ remotes (inbox s)"
  have len: "at + int (length ?ops) = revision d"
    using f by (simp add: stream_def)
  then have "length ?ops \<le> length (history d)" "nat (at - historyBase d) = length (history d) - length ?ops"
    using assms(3) unfolding revision_def by linarith+
  then have "drop (nat (at - historyBase d)) (history d) = ?ops"
    using aligned_drop [OF f(7)] by presburger
  moreover have "leads t0 ?ops (doc_text d)"
    using f by (auto simp: leads_append stream_def flow_def)
  ultimately show ?thesis
    using f assms len by (auto simp: text_at_def rebase_append)
qed

lemma receive_bounds:
  "receive r oper d = Inr (a, d') \<Longrightarrow> is_safe_integer r \<and> historyBase d \<le> r \<and> r \<le> revision d"
  by (auto simp: receive_def split: if_splits)

lemma in_flight_served:
  assumes "wf_document d" and "in_flight d t s" and "outbox s = [ClientOperation at oper sel]"
    and "receive at oper d = Inr (applied, d')"
    and "client_sees (client s) t (site_text s)" and "\<not> crashed s"
  shows "wf_document d' \<and> wf_operation (applied_oper applied) \<and>
         (\<forall>ms. list_all plain ms \<longrightarrow> fatal_count ms = 0 \<longrightarrow> remotes ms = [applied_oper applied] \<longrightarrow>
            advance d ms d') \<and>
         site_ok d' (s\<lparr>outbox := [], inbox := inbox s @ [ServerAck rv]\<rparr>)"
proof -
  obtain t0 out where f: "outstanding (client s) = Some out" "wf_operation oper" "fits oper t0"
      "text_at d at t0"
      "rebase oper (drop (nat (at - historyBase d)) (history d)) = rebase out (remotes (inbox s))"
    using in_flight_text_at [OF assms(2,3)] receive_bounds [OF assms(4)] by blast
  obtain rebased where r:
      "rebase oper (drop (nat (at - historyBase d)) (history d)) = Inr rebased"
      "wf_operation rebased" "fits rebased (doc_text d)"
      "receive at oper d = Inr (\<lparr>applied_revision = revision d + 1, applied_oper = rebased\<rparr>,
         append_history rebased (d\<lparr>doc_text := effect rebased (doc_text d)\<rparr>))"
    using receive_law [OF assms(1) f(4) _ f(2,3)] receive_bounds [OF assms(4)] by blast
  have d': "d' = append_history rebased (d\<lparr>doc_text := effect rebased (doc_text d)\<rparr>)"
      "applied_oper applied = rebased"
    using r(4) assms(4) by auto
  have rev': "revision d' = revision d + 1"
    unfolding d' using assms(1) by (simp add: wf_document_def) (simp add: revision_def)
  have "stream d (serverRevision (client s)) t (inbox s)"
    using assms(2) by (auto simp: in_flight_def)
  then have "stream d' (serverRevision (client s) + int (length (remotes (inbox s))) + 1)
      (effect rebased (doc_text d)) []" "flow t (inbox s) (doc_text d)"
    using rev' by (simp_all add: stream_def d')
  moreover have "quiet s" using assms(2) by (auto simp: in_flight_def)
  ultimately have "acked d' t (s\<lparr>outbox := [], inbox := inbox s @ [ServerAck rv]\<rparr>)"
    unfolding acked_def using f r
    by (intro exI [of _ out] exI [of _ "inbox s"] exI [of _ rv] exI [of _ "[]"] exI [of _ "doc_text d"]
        exI [of _ rebased]) (simp add: quiet_def)
  then show ?thesis
    using assms d' r advance_append_history [OF assms(1) r(2,3)] append_history_wf [OF assms(1) r(2,3)]
    by (auto simp: site_ok_def)
qed

definition heard :: "string \<Rightarrow> (audience \<times> server_message) list \<Rightarrow> server_message list" where
  "heard j ms = map snd (filter (\<lambda>(a, m). hears a j) ms)"

lemma heard_simps [simp]:
  "heard j [] = []"
  "heard j ((a, m) # ms) = (if hears a j then m # heard j ms else heard j ms)"
  "heard j (ms @ ns) = heard j ms @ heard j ns"
  by (simp_all add: heard_def)

lemma post_heard: "post ms ss j = map_option (\<lambda>s. s\<lparr>inbox := inbox s @ heard j ms\<rparr>) (ss j)"
  by (simp add: post_def heard_def)

text \<open>What serving one frame of \<open>i\<close> does to the room, to \<open>i\<close> and to everybody else.\<close>

definition served :: "string \<Rightarrow> site \<Rightarrow> collab_room \<Rightarrow> (audience \<times> server_message) list \<Rightarrow> collab_room \<Rightarrow> bool" where
  "served i s r ms r' \<longleftrightarrow>
     wf_document (room_document r') \<and>
     (\<forall>k. map_of (members r) k \<noteq> None \<longrightarrow> map_of (members r') k \<noteq> None) \<and>
     (\<forall>j. j \<noteq> i \<longrightarrow> advance (room_document r) (heard j ms) (room_document r')) \<and>
     site_ok (room_document r') (s\<lparr>inbox := inbox s @ heard i ms\<rparr>)"

lemma touch_simps [simp]:
  "room_document (touch now r) = room_document r" "members (touch now r) = members r"
  "agents (touch now r) = agents r" "room_scope (touch now r) = room_scope r"
  by (simp_all add: touch_def)

lemma map_of_none_keys: "map fst xs = map fst ys \<Longrightarrow> map_of xs k = None \<longleftrightarrow> map_of ys k = None"
  by (metis map_of_eq_None_iff set_map)

lemma room_receive_InrD:
  assumes "room_receive i at oper sel r = Inr (applied, r')"
  shows "receive at oper (room_document r) = Inr (applied, room_document r')"
    and "map_of (members r) k \<noteq> None \<Longrightarrow> map_of (members r') k \<noteq> None"
proof -
  obtain sender d where s: "map_of (members r) i = Some sender"
      "receive at oper (room_document r) = Inr (applied, d)"
    using assms
    by (auto simp: room_receive_def res_bind_eq_Inr_conv Let_def split: option.splits)
  note eq = room_receive_eq [OF s, of sel]
  then show "receive at oper (room_document r) = Inr (applied, room_document r')"
    using assms s by simp
  show "map_of (members r) k \<noteq> None \<Longrightarrow> map_of (members r') k \<noteq> None"
    using eq assms map_of_none_keys [OF keys_carry_others, of i "applied_oper applied" "members r" k]
    by (auto simp: update_conv split: option.splits)
qed

lemma serve_ok:
  assumes wf: "wf_document (room_document r)" and ok: "site_ok (room_document r) s"
    and out: "outbox s = m # rest" and h: "hub_handle now i m r = (ms, r')"
  shows "served i (s\<lparr>outbox := rest\<rparr>) r ms r'"
proof -
  let ?d = "room_document r"
  obtain t where t: "client_sees (client s) t (site_text s)" "\<not> crashed s"
      "in_flight ?d t s \<or> lost ?d t s"
    using ok out by (auto simp: site_ok_def idle_def acked_def welcomed_def)
  from t(3) show ?thesis
  proof
    assume fl: "in_flight ?d t s"
    then obtain oper at sel where m: "m = ClientOperation at oper sel" "rest = []"
      using out by (auto simp: in_flight_def)
    note refused = refused_ok [OF fl t(1,2)]
    show ?thesis
    proof (cases "int (length (doc_text ?d)) + max (targetLength oper - baseLength oper) 0 > max_document_units")
      case True
      then have "ms = [(Only i, ServerError ''document_too_large'' False)]" "r' = touch now r"
        using h m by (auto simp: Let_def)
      then show ?thesis
        using refused wf m by (simp add: served_def advance_refl)
    next
      case False
      show ?thesis
      proof (cases "room_receive i at oper sel (touch now r)")
        case (Inl e)
        then have "ms = [(Only i, ServerError (error_code e) True)]" "r' = touch now r"
          using h m False by (auto simp: Let_def)
        then show ?thesis
          using refused wf m by (simp add: served_def advance_refl)
      next
        case (Inr p)
        then obtain applied r1 where p: "room_receive i at oper sel (touch now r) = Inr (applied, r1)"
          by (cases p) simp
        define tail where "tail = (case map_of (members r1) i of
                      Some sender \<Rightarrow>
                        (case part_selection sender of
                           Some s \<Rightarrow> [(Except i, ServerSelection i s)]
                         | None \<Rightarrow> [])
                    | None \<Rightarrow> [])"
        have ms: "ms = [(Only i, ServerAck (applied_revision applied)),
            (Except i, ServerOperation (applied_revision applied) (components (applied_oper applied)) i)] @ tail"
            and r1: "r' = r1"
          using h m False p by (auto simp: Let_def tail_def)
        have tail: "heard i tail = []" "list_all plain (heard j tail)" "fatal_count (heard j tail) = 0"
            "remotes (heard j tail) = []" for j
          by (auto simp: tail_def split: option.splits)
        have rec: "receive at oper ?d = Inr (applied, room_document r1)"
          using room_receive_InrD(1) [OF p] by simp
        from in_flight_served [OF wf fl _ rec t(1,2)] out m
        have sv: "wf_document (room_document r1)" "wf_operation (applied_oper applied)"
            "\<And>ms. list_all plain ms \<Longrightarrow> fatal_count ms = 0 \<Longrightarrow> remotes ms = [applied_oper applied] \<Longrightarrow>
              advance ?d ms (room_document r1)"
            "site_ok (room_document r1) (s\<lparr>outbox := [], inbox := inbox s @ [ServerAck (applied_revision applied)]\<rparr>)"
          by auto
        then show ?thesis
          using tail room_receive_InrD(2) [OF p] m
          by (auto simp: served_def ms r1 createOperation_components)
      qed
    qed
  next
    assume l: "lost ?d t s"
    then have m: "m = ClientResync" "rest = []"
      using out by (auto simp: lost_def)
    then have h': "ms = [(Only i, welcome_frame i (touch now r))]" "r' = touch now r"
      using h by (auto simp: Let_def)
    have "welcomed ?d t (s\<lparr>outbox := [], inbox := inbox s @ [welcome_frame i (touch now r)]\<rparr>)"
    proof -
      have "outstanding (client s) \<noteq> None" "quiet s" "flow t (inbox s) (doc_text ?d)"
        using l out m by (auto simp: lost_def stream_def)
      then show ?thesis
        unfolding welcomed_def welcome_frame_def
        by (intro exI) (auto simp: quiet_def stream_def)
    qed
    then show ?thesis
      using t wf m by (auto simp: served_def h' advance_refl site_ok_def)
  qed
qed

section \<open>Every session\<close>

inductive_cases session_stepE: "session_step S S'"

lemma session_ok_site:
  "session_ok S \<Longrightarrow> sites S i = Some s \<Longrightarrow>
   wf_document (room_document (room S)) \<and> site_ok (room_document (room S)) s \<and> map_of (members (room S)) i \<noteq> None"
  by (simp add: session_ok_def)

lemma put_site_ok [step_rules]:
  "session_ok S \<Longrightarrow> sites S i = Some s \<Longrightarrow> site_ok (room_document (room S)) s' \<Longrightarrow> session_ok (put_site i s' S)"
  by (simp add: session_ok_def put_site_def)

lemma session_serve_ok [step_rules]:
  assumes "session_ok S" and "sites S i = Some s" and "outbox s = m # rest"
  shows "session_ok (session_serve now i m rest s S)"
proof -
  obtain ms r' where h: "hub_handle now i m (room S) = (ms, r')" by fastforce
  have sv: "served i (s\<lparr>outbox := rest\<rparr>) (room S) ms r'"
    using serve_ok [OF _ _ assms(3) h] session_ok_site [OF assms(1,2)] by blast
  have S': "session_serve now i m rest s S = S\<lparr>room := r', sites := post ms ((sites S)(i \<mapsto> s\<lparr>outbox := rest\<rparr>))\<rparr>"
    by (simp add: session_serve_def h)
  have "site_ok (room_document r') (u\<lparr>inbox := inbox u @ heard j ms\<rparr>)"
    if "sites S j = Some u" "j \<noteq> i" for j u
    using sv that advance_ok session_ok_site [OF assms(1) that(1)] by (auto simp: served_def)
  moreover have "map_of (members r') j \<noteq> None" if "sites S j \<noteq> None" for j
    using sv that session_ok_site [OF assms(1)] by (auto simp: served_def)
  ultimately show ?thesis
    using sv assms by (auto simp: S' session_ok_def post_heard served_def)
qed

text \<open>Frames that say nothing about the text can be posted to anybody at any time.\<close>

definition silent :: "(audience \<times> server_message) list \<Rightarrow> bool" where
  "silent ms \<longleftrightarrow> list_all plain (map snd ms) \<and> fatal_count (map snd ms) = 0 \<and> remotes (map snd ms) = []"

lemma silent_advance: "silent [(a, m)] \<Longrightarrow> advance d (heard j [(a, m)]) d"
  by (auto simp: silent_def advance_refl)

lemma session_post_ok:
  assumes "wf_document (room_document r)" and "silent [(a, m)]"
    and "\<And>j s. ss j = Some s \<Longrightarrow> site_ok (room_document r) s \<and> map_of (members r) j \<noteq> None"
  shows "session_ok (S\<lparr>room := r, sites := post [(a, m)] ss\<rparr>)"
  using assms(1,3) advance_ok [OF _ silent_advance [OF assms(2)]]
  by (auto simp: session_ok_def post_heard simp del: heard_simps)

lemma new_site_ok: "site_ok (room_document r) (new_site r)"
  by (auto simp: site_ok_def new_site_def client_sees_def idle_def quiet_def stream_def
      intro!: exI [of _ "doc_text (room_document r)"])

lemma session_join_ok [step_rules]:
  assumes "session_ok S" and "sites S i = None"
  shows "session_ok (session_join i userId displayName S)"
proof -
  obtain p r where j: "join i userId displayName (room S) = (p, r)" by fastforce
  then have r: "room_document r = room_document (room S)"
      "\<And>k. map_of (members r) k \<noteq> None \<longleftrightarrow> k = i \<or> map_of (members (room S)) k \<noteq> None"
    by (auto simp: join_def Let_def update_conv)
  have site: "site_ok (room_document r) s \<and> map_of (members r) k \<noteq> None"
    if "((sites S)(i \<mapsto> new_site r)) k = Some s" for k s
    using that r new_site_ok [of r] session_ok_site [OF assms(1), of k s]
    by (auto split: if_splits)
  have "session_join i userId displayName S =
      S\<lparr>room := r, sites := post [(Except i, ServerJoin p)] ((sites S)(i \<mapsto> new_site r))\<rparr>"
    by (simp add: session_join_def j)
  moreover have "wf_document (room_document r)" using assms r by (simp add: session_ok_def)
  ultimately show ?thesis
    using session_post_ok [of r _ _ "(sites S)(i \<mapsto> new_site r)", OF _ _ site] by (simp add: silent_def)
qed

lemma session_leave_ok [step_rules]: "session_ok S \<Longrightarrow> session_ok (session_leave i S)"
  unfolding session_leave_def
  by (rule session_post_ok) (auto simp: leave_def silent_def delete_conv session_ok_def split: if_splits)

lemma session_saved_ok [step_rules]: "session_ok S \<Longrightarrow> session_ok (session_saved i savedBy at written S)"
proof -
  assume ok: "session_ok S"
  obtain a m r where h: "hub_saved i savedBy at written (room S) = ([(a, m)], r)"
      "room_document r = room_document (room S)" "members r = members (room S)" "silent [(a, m)]"
    by (cases written) (auto simp: hub_saved_def markSaved_def silent_def)
  then have "session_saved i savedBy at written S = S\<lparr>room := r, sites := post [(a, m)] (sites S)\<rparr>"
    by (simp add: session_saved_def)
  moreover have "wf_document (room_document r)" using ok h by (simp add: session_ok_def)
  moreover have "site_ok (room_document r) s \<and> map_of (members r) j \<noteq> None" if "sites S j = Some s" for j s
    using session_ok_site [OF ok that] h by simp
  ultimately show ?thesis using session_post_ok [OF _ h(4)] by simp
qed

lemma session_step_ok: "session_step S S' \<Longrightarrow> session_ok S \<Longrightarrow> session_ok S'"
  by (erule session_stepE)
    (auto simp: session_ok_site intro!: step_rules dest: session_ok_site)

lemma reachable_ok: "reachable S \<Longrightarrow> session_ok S"
proof (induction rule: reachable.induct)
  case (start scope content now r)
  then show ?case by (simp add: session_ok_def wf_room_def [symmetric] wf_room_document new_room_wf)
qed (rule session_step_ok)

lemma quiescent:
  assumes "session_ok S" and "sites S i = Some s" and "inbox s = []" and "outstanding (client s) = None"
  shows "site_text s = doc_text (room_document (room S)) \<and>
         serverRevision (client s) = revision (room_document (room S))"
proof -
  obtain t where "client_sees (client s) t (site_text s)" "idle (room_document (room S)) t s"
    using session_ok_site [OF assms(1,2)] assms(4) by (auto simp: site_ok_def phase_defs)
  then show ?thesis
    using assms(3,4) client_sees_idle [of "client s" t] by (auto simp: idle_def stream_def)
qed

text \<open>
  The hub accepts the operation in flight unless its revision has left the window, is not a
  safe integer any more, or the text would grow too large.
\<close>

lemma hub_accepts:
  assumes ok: "session_ok S" and s: "sites S i = Some s" "outbox s = ClientOperation at oper sel # rest"
    and "historyBase (room_document (room S)) \<le> at" and "is_safe_integer at"
    and "int (length (doc_text (room_document (room S)))) + max (targetLength oper - baseLength oper) 0
           \<le> max_document_units"
  shows "\<exists>ms r'. hub_handle now i (ClientOperation at oper sel) (room S) =
           ((Only i, ServerAck (revision (room_document (room S)) + 1)) # ms, r')"
proof -
  let ?d = "room_document (room S)"
  obtain t where fl: "in_flight ?d t s" "rest = []"
    using session_ok_site [OF ok s(1)] s(2) by (auto simp: site_ok_def phase_defs)
  then obtain t0 where t0: "wf_operation oper" "fits oper t0" "text_at ?d at t0"
    using in_flight_text_at [OF fl(1) _ assms(4), of oper sel] s(2) by auto
  obtain rebased where r: "receive at oper ?d = Inr (\<lparr>applied_revision = revision ?d + 1, applied_oper = rebased\<rparr>,
         append_history rebased (?d\<lparr>doc_text := effect rebased (doc_text ?d)\<rparr>))"
    using receive_law [OF _ t0(3) assms(5) t0(1,2)] session_ok_site [OF ok s(1)] by blast
  obtain sender where "map_of (members (touch now (room S))) i = Some sender"
    using session_ok_site [OF ok s(1)] by auto
  then show ?thesis
    using assms(6) r by (auto simp: Let_def room_receive_eq)
qed

section \<open>Running a session\<close>

text \<open>A schedule picks what happens next; \<open>None\<close> when the step is not possible.\<close>

datatype session_event =
    Edit string "component list"
  | Deliver string
  | Handle int string
  | AskAgain string
  | Enter string utf16
  | Depart string

fun run_event :: "session_event \<Rightarrow> session \<Rightarrow> session option" where
  "run_event (Edit i cs) S =
     (case sites S i of
        Some s \<Rightarrow> if fits (createOperation cs) (site_text s)
                  then Some (put_site i (site_edit (createOperation cs) None s) S) else None
      | None \<Rightarrow> None)"
| "run_event (Deliver i) S =
     (case sites S i of
        Some s \<Rightarrow> (case inbox s of
                      m # rest \<Rightarrow> Some (put_site i (site_read m (s\<lparr>inbox := rest\<rparr>)) S)
                    | [] \<Rightarrow> None)
      | None \<Rightarrow> None)"
| "run_event (Handle now i) S =
     (case sites S i of
        Some s \<Rightarrow> (case outbox s of m # rest \<Rightarrow> Some (session_serve now i m rest s S) | [] \<Rightarrow> None)
      | None \<Rightarrow> None)"
| "run_event (AskAgain i) S =
     (case sites S i of
        Some s \<Rightarrow> if fault s
                  then Some (put_site i (s\<lparr>outbox := outbox s @ [ClientResync], fault := False\<rparr>) S)
                  else None
      | None \<Rightarrow> None)"
| "run_event (Enter i u) S =
     (case sites S i of None \<Rightarrow> Some (session_join i u u S) | Some _ \<Rightarrow> None)"
| "run_event (Depart i) S = Some (session_leave i S)"

fun run_events :: "session_event list \<Rightarrow> session \<Rightarrow> session option" where
  "run_events [] S = Some S"
| "run_events (e # es) S = (case run_event e S of Some S' \<Rightarrow> run_events es S' | None \<Rightarrow> None)"

lemma run_event_step: "run_event e S = Some S' \<Longrightarrow> session_step S S'"
  by (cases e) (auto split: option.splits list.splits if_splits intro: session_step.intros wf_createOperation)

lemma run_events_reachable: "reachable S \<Longrightarrow> run_events es S = Some S' \<Longrightarrow> reachable S'"
  by (induction es arbitrary: S) (auto split: option.splits dest: reachable.step run_event_step)

end
