(* ===== verification/Collab_Properties.thy ===== *)
theory Collab_Properties
  imports Collab_Session
begin

text \<open>
  The properties of the collaboration package: the engine, the document, the client, the
  room, the protocol and the session they run together. Each is an application of the
  component's lemmas; the witnesses evaluate the model on small texts.
\<close>

section \<open>The session\<close>

text \<open>A session of two editors who both type before either has heard of the other.\<close>

definition demo_scope :: room_scope where
  "demo_scope = \<lparr>scope_projectId = ''p'', scope_repositoryId = ''r'', scope_ownerUserId = [65],
                 scope_path = ''a.ts''\<rparr>"

definition demo_start :: session where
  "demo_start =
     \<lparr>room = \<lparr>room_scope = demo_scope,
              room_document = \<lparr>doc_text = [97, 98], history = [], historyBase = 0, historyLimit = 2000\<rparr>,
              members = [], agents = [], savedRevision = 0, lastActivityAt = 0\<rparr>,
      sites = (\<lambda>_. None)\<rparr>"

definition demo_schedule :: "session_event list" where
  "demo_schedule =
     [Enter ''x'' [65], Enter ''y'' [66], Deliver ''x'',
      Edit ''x'' [Str [88], Num 2], Edit ''y'' [Num 1, Num (-1), Str [89]],
      Handle 1 ''y'', Handle 2 ''x'', Deliver ''x'', Deliver ''x'', Deliver ''y'', Deliver ''y'']"

lemma demo_start_reachable: "reachable demo_start"
  unfolding demo_start_def
  by (rule reachable.start [where content = "[97, 98]" and scope = demo_scope and now = 0])
    (simp add: new_room_def new_document_def res_bind_def default_history_limit_def is_safe_integer_def
      max_safe_integer_def revision_def)

text \<open>What a site shows: its text, what it has to read, what it has in flight, and the server's text.\<close>

definition demo_view ::
  "session \<Rightarrow> string \<Rightarrow> (utf16 \<times> server_message list \<times> text_operation option \<times> utf16) option" where
  "demo_view S i =
     map_option (\<lambda>s. (site_text s, inbox s, outstanding (client s), doc_text (room_document (room S)))) (sites S i)"

lemma demo_run:
  "map_option (\<lambda>S. demo_view S ''y'') (run_events demo_schedule demo_start) =
   Some (Some ([88, 97, 89], [], None, [88, 97, 89]))"
  by code_simp

lemma demo_reachable:
  obtains S s where "reachable S" "sites S ''y'' = Some s" "inbox s = []" "outstanding (client s) = None"
    "site_text s = [88, 97, 89]"
  using demo_run run_events_reachable [OF demo_start_reachable, of demo_schedule]
  by (auto simp: demo_view_def)

text \<open>
  C1 Convergence. However edits, frames, rejoins and resyncs interleave, a client that has
  read everything sent to it and has nothing in flight shows exactly the server's text, and
  knows its revision. So all such clients of a room show the same text.
\<close>

theorem session_converges:
  assumes "reachable S" and "sites S i = Some s" and "inbox s = []" and "outstanding (client s) = None"
  shows "site_text s = doc_text (room_document (room S)) \<and>
         serverRevision (client s) = revision (room_document (room S))"
  using quiescent [OF reachable_ok] assms by blast

theorem session_converges_witness:
  "\<exists>S. reachable S \<and> doc_text (room_document (room S)) = [88, 97, 89]"
proof -
  obtain S s where "reachable S" "sites S ''y'' = Some s" "inbox s = []" "outstanding (client s) = None"
      "site_text s = [88, 97, 89]"
    by (rule demo_reachable)
  then show ?thesis using session_converges [of S "''y''" s] by auto
qed

text \<open>
  C2 No operation is ever lost or refused by an editor: in no reachable session does a
  client's \<open>applyLocal\<close>, \<open>applyServer\<close> or \<open>acknowledge\<close>, or the application of what it
  returns to the editor's text, throw.
\<close>

theorem session_never_throws:
  assumes "reachable S" and "sites S i = Some s"
  shows "\<not> crashed s"
  using session_ok_site [OF reachable_ok [OF assms(1)] assms(2)] by (simp add: site_ok_def)

theorem session_never_throws_witness: "\<exists>S s. reachable S \<and> sites S ''y'' = Some s \<and> \<not> crashed s"
  using demo_reachable session_never_throws by metis




section \<open>The engine\<close>

text \<open>
  C18 The transformation property. Two people edit the same text at the same time; each
  applies the other's operation, transformed, after their own. Transforming never fails and
  both end with the same text; indeed the two ways round compose to the same operation.
\<close>

theorem transform_converges:
  assumes "wf_operation first" and "wf_operation second"
    and "applyOperation t first = Inr u" and "applyOperation t second = Inr v"
  shows "\<exists>first' second' w. transformOperations first second = Inr (first', second') \<and>
           wf_operation first' \<and> wf_operation second' \<and>
           applyOperation u second' = Inr w \<and> applyOperation v first' = Inr w \<and>
           composeOperations first second' = composeOperations second first'"
proof -
  have f: "fits first t" "fits second t" "u = effect first t" "v = effect second t"
    using assms by (auto simp: applyOperation_effect split: if_splits)
  then have "baseLength first = baseLength second" by (simp add: fits_def)
  then show ?thesis
    using text_ot.transformation_ok [OF assms(1,2) f(1,2)] transform_compose_same [OF assms(1,2)] f
    by (fastforce simp: applyOperation_effect)
qed

theorem transform_converges_witness:
  "\<exists>first' second' w.
     transformOperations (createOperation [Str [88], Num 2]) (createOperation [Num 1, Num (-1)])
       = Inr (first', second') \<and>
     applyOperation [88, 97, 98] second' = Inr w \<and> applyOperation [97] first' = Inr w"
proof -
  have "applyOperation [97, 98] (createOperation [Str [88], Num 2]) = Inr [88, 97, 98]"
    "applyOperation [97, 98] (createOperation [Num 1, Num (-1)]) = Inr [97]"
    by code_simp+
  from transform_converges [OF wf_createOperation wf_createOperation this] show ?thesis by blast
qed

text \<open>
  Composition. Two operations that apply one after the other compose to one, in canonical
  form, that takes the first text to the last in one step.
\<close>

theorem compose_applies:
  assumes "wf_operation first" and "wf_operation second"
    and "applyOperation t first = Inr u" and "applyOperation u second = Inr v"
  shows "\<exists>c. composeOperations first second = Inr c \<and> wf_operation c \<and> applyOperation t c = Inr v"
  using assms text_ot.composition_ok [OF assms(1,2), of t]
  by (auto simp: applyOperation_effect split: if_splits)

theorem compose_applies_witness:
  "\<exists>c. composeOperations (createOperation [Str [88], Num 2]) (createOperation [Num 2, Num (-1)]) = Inr c \<and>
     applyOperation [97, 98] c = Inr [88, 97]"
proof -
  have "applyOperation [97, 98] (createOperation [Str [88], Num 2]) = Inr [88, 97, 98]"
    "applyOperation [88, 97, 98] (createOperation [Num 2, Num (-1)]) = Inr [88, 97]"
    by code_simp+
  from compose_applies [OF wf_createOperation wf_createOperation this] show ?thesis by blast
qed

text \<open>
  The only errors of the engine are length mismatches: composing fails exactly when the
  second operation is not written for the text the first one leaves, transforming exactly
  when the two are not written for texts of one length.
\<close>

theorem engine_errors:
  assumes "wf_operation first" and "wf_operation second"
  shows "(composeOperations first second = Inl e \<longleftrightarrow>
           e = CollabError ''compose_mismatch'' \<and> targetLength first \<noteq> baseLength second) \<and>
         (transformOperations first second = Inl e \<longleftrightarrow>
           e = CollabError ''transform_mismatch'' \<and> baseLength first \<noteq> baseLength second)"
  using composeOperations_law [OF assms] transformOperations_law [OF assms]
  by (auto simp: composeOperations_def transformOperations_def)

theorem engine_errors_witness:
  "composeOperations (createOperation [Num 2]) (createOperation [Num 3]) = Inl (CollabError ''compose_mismatch'')"
  using engine_errors [of "createOperation [Num 2]" "createOperation [Num 3]", OF wf_createOperation wf_createOperation]
  by (simp add: createOperation_def builder_retain_def new_builder_def builder_build_def)

text \<open>
  Canonical form. Operations that agree on every text are serialized identically: the
  merging in the builder, and its rule that an insertion goes before a deletion, leave one
  way to write an edit.
\<close>

theorem serialization_unique:
  assumes "wf_operation a" and "wf_operation b"
    and "\<And>t. applyOperation t a = applyOperation t b"
  shows "serializeOperation a = serializeOperation b"
proof -
  have "baseLength a = baseLength b"
    using assms(3) [of "replicate (nat (baseLength a)) 0"] wf_lengths(1) [OF assms(1)]
    by (auto simp: applyOperation_effect fits_def split: if_splits)
  moreover have "effect a t = effect b t" if "fits a t" for t
    using assms(3) [of t] that calculation by (simp add: applyOperation_effect fits_def)
  ultimately have "a = b" by (intro effect_unique assms(1,2))
  then show ?thesis by simp
qed

theorem serialization_unique_witness:
  "serializeOperation (createOperation [Num 1, Num (-1), Str [88], Num (-1)]) =
   serializeOperation (createOperation [Num 1, Str [88], Num (-2)])"
proof -
  have "createOperation [Num 1, Num (-1), Str [88], Num (-1)] = createOperation [Num 1, Str [88], Num (-2)]"
    by code_simp
  then show ?thesis by (intro serialization_unique [OF wf_createOperation wf_createOperation]) simp
qed

text \<open>
  Carets. The transformed caret separates the edited text exactly where the caret
  separated the text: two texts that agree left of the caret still do after the operation,
  and so on its right, and it never leaves the text.
\<close>

theorem caret_follows_text:
  assumes "wf_operation oper" and "applyOperation t oper = Inr u" and "applyOperation t' oper = Inr u'"
    and "0 \<le> p" and "p \<le> int (length t)"
  shows "0 \<le> transformPosition p oper \<and> transformPosition p oper \<le> int (length u) \<and>
         (take (nat p) t = take (nat p) t' \<longrightarrow>
          take (nat (transformPosition p oper)) u = take (nat (transformPosition p oper)) u') \<and>
         (drop (nat p) t = drop (nat p) t' \<longrightarrow>
          drop (nat (transformPosition p oper)) u = drop (nat (transformPosition p oper)) u')"
proof -
  have f: "fits oper t" "fits oper t'" "u = effect oper t" "u' = effect oper t'"
    using assms by (auto simp: applyOperation_effect split: if_splits)
  then have p': "p \<le> int (length t')" "p \<le> baseLength oper" using assms by (simp_all add: fits_def)
  note sep = caret_separates [OF assms(1) f(1) assms(4,5)] caret_separates [OF assms(1) f(2) assms(4) p'(1)]
  have post: "\<exists>post. drop (nat (transformPosition p oper)) u = run post (drop (nat p) t) \<and>
      drop (nat (transformPosition p oper)) u' = run post (drop (nat p) t')"
    using sep(2,4) f by (metis same_append_eq)
  show ?thesis
    using transformPosition_bounds [OF assms(1,4) p'(2)] effect_length [OF assms(1) f(1)] f sep(1,3) post
    by auto
qed

theorem caret_follows_text_witness:
  "transformPosition 1 (createOperation [Str [88], Num 2]) \<le> 3"
proof -
  have "applyOperation [97, 98] (createOperation [Str [88], Num 2]) = Inr [88, 97, 98]"
    by code_simp
  from caret_follows_text [OF wf_createOperation this this, of 1] show ?thesis by simp
qed

section \<open>The document\<close>

definition demo_document :: collab_document where
  "demo_document = \<lparr>doc_text = [97, 88], history = [createOperation [Num 1, Str [88]]],
                    historyBase = 3, historyLimit = 1\<rparr>"

lemma demo_document_wf: "wf_document demo_document"
proof -
  have "leads [97] (history demo_document) (doc_text demo_document)" by code_simp
  then show ?thesis by (auto simp: wf_document_def demo_document_def)
qed

text \<open>
  Receiving. An operation written by a client against any revision the window still holds
  is accepted: what the document applies takes its text to the new one, the revision grows
  by one, and the invariant (the kept history leads to the current text and is no longer
  than its limit) is kept.
\<close>

theorem document_receives:
  assumes "wf_document d" and "text_at d r t" and "is_safe_integer r"
    and "wf_operation oper" and "applyOperation t oper = Inr u"
  shows "\<exists>a d'. receive r oper d = Inr (a, d') \<and> wf_document d' \<and>
           applyOperation (doc_text d) (applied_oper a) = Inr (doc_text d') \<and>
           applied_revision a = revision d + 1 \<and> revision d' = revision d + 1"
proof -
  have "fits oper t" using assms(5) by (simp add: applyOperation_effect split: if_splits)
  then obtain a d' where "receive r oper d = Inr (a, d')"
    using receive_law [OF assms(1,2,3,4)] by metis
  then show ?thesis using receive_wf [OF assms(1,4)] by blast
qed

theorem document_receives_witness:
  "\<exists>a d'. receive 3 (createOperation [Str [89], Num 1]) demo_document = Inr (a, d') \<and>
     applyOperation [97, 88] (applied_oper a) = Inr (doc_text d') \<and> revision d' = 5"
proof -
  have "text_at demo_document 3 [97]" "is_safe_integer 3"
    "applyOperation [97] (createOperation [Str [89], Num 1]) = Inr [89, 97]"
    "revision demo_document = 4" "doc_text demo_document = [97, 88]"
    by code_simp+
  then show ?thesis
    using document_receives [OF demo_document_wf, of 3 "[97]" "createOperation [Str [89], Num 1]" "[89, 97]"]
      wf_createOperation by auto
qed

text \<open>
  Replacing. A change made outside the editors becomes one operation: the document ends
  with the new content, the invariant holds, clients can apply what they are told, and
  nothing is recorded when the content did not change.
\<close>

theorem document_replaces:
  assumes "wf_document d"
  shows "\<exists>a d'. replace_content content d = Inr (a, d') \<and> wf_document d' \<and> doc_text d' = content \<and>
           (a = None \<longleftrightarrow> content = doc_text d) \<and>
           (\<forall>x. a = Some x \<longrightarrow> applyOperation (doc_text d) (applied_oper x) = Inr content \<and>
              applied_revision x = revision d + 1)"
proof (cases "content = doc_text d")
  case True
  then show ?thesis using assms by (simp add: replace_content_def)
next
  case False
  note law = diffOperation_law [of "doc_text d" content]
  show ?thesis
    using replace_content_law [OF assms False] append_history_wf [OF assms, of "diffOperation (doc_text d) content"]
      law False by (auto simp: applyOperation_effect)
qed

theorem document_replaces_witness:
  "\<exists>a d'. replace_content [97, 98] demo_document = Inr (a, d') \<and> doc_text d' = [97, 98]"
  using document_replaces [OF demo_document_wf, of "[97, 98]"] by auto

text \<open>
  Catching up. For every revision the window holds the composed catch-up takes the text
  a client saw there to the current text in one operation; outside the window there is none.
\<close>

theorem document_catches_up:
  assumes "wf_document d"
  shows "(text_at d r t \<longrightarrow>
            (\<exists>c. since r d = Inr (Some c) \<and> applyOperation t c = Inr (doc_text d))) \<and>
         (since r d = Inr None \<longleftrightarrow> r < historyBase d \<or> revision d < r)"
proof -
  have "since r d \<noteq> Inr None" if "historyBase d \<le> r" "r \<le> revision d"
    using text_at_exists [OF assms that] since_law by fastforce
  then show ?thesis
    using since_law [of d r t] by (auto simp: since_def applyOperation_effect)
qed

theorem document_catches_up_witness:
  "\<exists>c. since 3 demo_document = Inr (Some c) \<and> applyOperation [97] c = Inr [97, 88]"
proof -
  have "text_at demo_document 3 [97]" "doc_text demo_document = [97, 88]" by code_simp+
  then show ?thesis using document_catches_up [OF demo_document_wf, of 3 "[97]"] by auto
qed

section \<open>The room and the protocol\<close>

definition demo_room :: collab_room where
  "demo_room = \<lparr>room_scope = demo_scope, room_document = demo_document,
     members = [(''x'', \<lparr>part_id = ''x'', part_userId = [65], part_displayName = [65], part_color = ''c'',
                        part_owner = True, part_selection = Some \<lparr>anchor = 2, head = 2\<rparr>\<rparr>),
                (''y'', \<lparr>part_id = ''y'', part_userId = [66], part_displayName = [66], part_color = ''c'',
                        part_owner = False, part_selection = Some \<lparr>anchor = 1, head = 2\<rparr>\<rparr>)],
     agents = [], savedRevision = 4, lastActivityAt = 0\<rparr>"

lemma demo_room_wf: "wf_room demo_room"
proof -
  have "distinct (map fst (members demo_room))"
    "list_all (\<lambda>(k, p). part_id p = k \<and> (case part_selection p of None \<Rightarrow> True
        | Some s \<Rightarrow> in_text (int (length (doc_text (room_document demo_room)))) s)) (members demo_room)"
    by code_simp+
  moreover have "room_document demo_room = demo_document" by (simp add: demo_room_def)
  ultimately show ?thesis
    using demo_document_wf by (auto simp: wf_room_def caret_ok_def list_all_iff)
qed

text \<open>
  Carets of a room. When an operation arrives with the sender's caret, or from a sender
  without one, every caret of the room lies inside the new text afterwards, the participants
  are the same, and the document is the one \<open>receive\<close> made.
\<close>

theorem room_carets_stay_inside:
  assumes "wf_room r" and "wf_operation oper" and "room_receive i at oper sel r = Inr (a, r')"
    and "sel \<noteq> None \<or> (\<forall>p. map_of (members r) i = Some p \<longrightarrow> part_selection p = None)"
  shows "wf_room r' \<and> map fst (members r') = map fst (members r) \<and>
         receive at oper (room_document r) = Inr (a, room_document r')"
  using room_receive_wf [OF assms] .

theorem room_carets_stay_inside_witness:
  "\<exists>a r'. room_receive ''x'' 4 (createOperation [Num (-2)]) (Some \<lparr>anchor = 9, head = 0\<rparr>) demo_room = Inr (a, r') \<and>
     wf_room r'"
proof -
  have "case room_receive ''x'' 4 (createOperation [Num (-2)]) (Some \<lparr>anchor = 9, head = 0\<rparr>) demo_room of
      Inr _ \<Rightarrow> True | Inl _ \<Rightarrow> False" by code_simp
  then obtain a r' where r:
      "room_receive ''x'' 4 (createOperation [Num (-2)]) (Some \<lparr>anchor = 9, head = 0\<rparr>) demo_room = Inr (a, r')"
    by (auto split: sum.splits)
  then show ?thesis
    using room_carets_stay_inside [OF demo_room_wf wf_createOperation r] by auto
qed

text \<open>
  A stale caret. The caret of a sender is not carried across its own operation: when the
  operation comes without a selection (the field is optional) and shrinks the text, the hub
  leaves the sender's caret behind the end of the text and broadcasts it.
\<close>

theorem sender_caret_left_outside:
  "\<exists>r ms r'. wf_room r \<and>
     hub_handle 1 ''x'' (ClientOperation 4 (createOperation [Num (-2)]) None) r = (ms, r') \<and>
     doc_text (room_document r') = [] \<and>
     (Except ''x'', ServerSelection ''x'' \<lparr>anchor = 2, head = 2\<rparr>) \<in> set ms"
proof -
  have e: "(\<lambda>(ms, r'). doc_text (room_document r') = [] \<and>
      list_ex (\<lambda>m. m = (Except ''x'', ServerSelection ''x'' \<lparr>anchor = 2, head = 2\<rparr>)) ms)
     (hub_handle 1 ''x'' (ClientOperation 4 (createOperation [Num (-2)]) None) demo_room)"
    by code_simp
  obtain ms r' where "hub_handle 1 ''x'' (ClientOperation 4 (createOperation [Num (-2)]) None) demo_room = (ms, r')"
    by fastforce
  then show ?thesis using e demo_room_wf by (auto simp: list_ex_iff)
qed

text \<open>
  Rooms are not mixed up: two scopes whose ids and paths contain no NUL have the same
  registry key only if they are equal, so a room created for one scope is found for that
  scope and does not replace another's.
\<close>

theorem registry_keeps_rooms_apart:
  assumes "nul_free s" and "nul_free s'" and "registry_create s content now g = Inr (r, g')"
  shows "registry_get s' g' = (if s' = s then Some r else registry_get s' g)"
  using assms roomKey_inject [of s' s]
  by (auto simp: registry_create_def registry_get_def res_bind_eq_Inr_conv update_conv)

theorem registry_keeps_rooms_apart_witness:
  "\<exists>r g'. registry_create demo_scope [97] 0 [] = Inr (r, g') \<and>
     registry_get demo_scope g' = Some r"
proof -
  have "case registry_create demo_scope [97] 0 [] of Inr _ \<Rightarrow> True | Inl _ \<Rightarrow> False" by code_simp
  then obtain r g' where r: "registry_create demo_scope [97] 0 [] = Inr (r, g')"
    by (auto split: sum.splits)
  moreover have "nul_free demo_scope" by (simp add: nul_free_def demo_scope_def)
  ultimately show ?thesis using registry_keeps_rooms_apart [OF _ _ r, of demo_scope] by simp
qed



text \<open>
  Round trip: an operation within the protocol's limits, serialized and parsed on the
  other side, is the same operation with the same lengths.
\<close>

theorem operation_round_trip:
  assumes "wf_operation oper" and "sendable oper"
  shows "parseOperation (operation_json oper) = Inr oper"
  using assms parse_entries_components [of "components oper" 0]
  by (simp add: parseOperation_def operation_json_def serializeOperation_def sendable_def
      wf_operation_def [of oper] canonical_def createOperation_components)

theorem operation_round_trip_witness:
  "parseOperation (operation_json (createOperation [Num 2, Str [88], Num (-1)]))
     = Inr (createOperation [Num 2, Str [88], Num (-1)])"
proof -
  have "sendable (createOperation [Num 2, Str [88], Num (-1)])"
    by (simp add: sendable_def createOperation_def builder_retain_def builder_insert_def builder_delete_def
        new_builder_def builder_build_def insert_parts_def max_operation_components_def
        max_operation_insert_units_def is_safe_integer_def max_safe_integer_def)
  from operation_round_trip [OF wf_createOperation this] show ?thesis .
qed

end
