(* ===== verification/Path_Names.thy ===== *)
theory Path_Names
  imports Prelude
begin

text \<open>
  Names and paths of \<open>packages/shared-types/src/index.ts\<close>: \<open>normalizeRepositoryPath\<close>,
  \<open>repositoryPathFromGit\<close>, \<open>uniqueRepositoryPaths\<close>, \<open>uniqueStrings\<close> and
  \<open>planResourceKey\<close>, with what they use of the standard library (\<open>trim\<close>, \<open>toLowerCase\<close>,
  \<open>split\<close>, \<open>path.posix.normalize\<close>). A \<open>string\<close> holds characters up to U+00FF, and the
  library functions are written out for exactly those.
\<close>

section \<open>The standard library\<close>

definition is_js_space :: "char \<Rightarrow> bool" where
  "is_js_space c \<longleftrightarrow> (of_char c :: nat) \<in> set [9, 10, 11, 12, 13, 32, 160]"

definition js_trim :: "string \<Rightarrow> string" where
  "js_trim s = rev (dropWhile is_js_space (rev (dropWhile is_js_space s)))"

definition lower_char :: "char \<Rightarrow> char" where
  "lower_char c =
     (let n = (of_char c :: nat)
      in if 65 \<le> n \<and> n \<le> 90 \<or> 192 \<le> n \<and> n \<le> 222 \<and> n \<noteq> 215 then char_of (n + 32) else c)"

definition js_lower :: "string \<Rightarrow> string" where
  "js_lower s = map lower_char s"

fun split_on :: "char \<Rightarrow> string \<Rightarrow> string list" where
  "split_on c [] = [[]]"
| "split_on c (x # xs) =
     (if x = c then [] # split_on c xs
      else (case split_on c xs of [] \<Rightarrow> [[x]] | s # ss \<Rightarrow> (x # s) # ss))"

fun join_with :: "char \<Rightarrow> string list \<Rightarrow> string" where
  "join_with c [] = []"
| "join_with c [s] = s"
| "join_with c (s # t # ss) = s @ c # join_with c (t # ss)"

text \<open>\<open>path.posix.normalize\<close> of a path that is not absolute: the loop over the segments.\<close>

definition push_segment :: "string list \<Rightarrow> string \<Rightarrow> string list" where
  "push_segment out seg =
     (if seg = '''' \<or> seg = ''.'' then out
      else if seg = ''..'' then
        (if out \<noteq> [] \<and> last out \<noteq> ''..'' then butlast out else out @ [''..''])
      else out @ [seg])"

definition posix_normalize :: "string \<Rightarrow> string" where
  "posix_normalize p =
     (if p = '''' then ''.''
      else
        (let body = join_with CHR ''/'' (foldl push_segment [] (split_on CHR ''/'' p));
             trailing = (last p = CHR ''/'')
         in if body = '''' then (if trailing then ''./'' else ''.'')
            else if trailing then body @ ''/'' else body))"

section \<open>Repository paths\<close>

datatype path_error = InvalidPath | EscapesRepository

definition absolute :: "string \<Rightarrow> bool" where
  "absolute p \<longleftrightarrow> (case p of c # _ \<Rightarrow> c = CHR ''/'' | [] \<Rightarrow> False)"

definition ascii_letter :: "char \<Rightarrow> bool" where
  "ascii_letter c \<longleftrightarrow>
     (let n = (of_char c :: nat) in 65 \<le> n \<and> n \<le> 90 \<or> 97 \<le> n \<and> n \<le> 122)"

text \<open>The regular expression for a drive letter, a colon and a slash at the start.\<close>

fun drive_prefix :: "string \<Rightarrow> bool" where
  "drive_prefix (l # c # s # _) \<longleftrightarrow> ascii_letter l \<and> c = CHR '':'' \<and> s = CHR ''/''"
| "drive_prefix _ \<longleftrightarrow> False"

definition escapes :: "string \<Rightarrow> bool" where
  "escapes p \<longleftrightarrow> p = ''.'' \<or> p = ''..'' \<or> take 3 p = ''../''"

definition forward_slashes :: "string \<Rightarrow> string" where
  "forward_slashes s = map (\<lambda>c. if c = CHR 0x5C then CHR ''/'' else c) s"

definition normalizeRepositoryPath :: "string \<Rightarrow> path_error + string" where
  "normalizeRepositoryPath v =
     (let candidate = forward_slashes v
      in if candidate = '''' \<or> CHR 0x00 \<in> set candidate \<or> absolute candidate \<or> drive_prefix candidate
         then Inl InvalidPath
         else
           (let normalized = posix_normalize candidate
            in if escapes normalized then Inl EscapesRepository else Inr normalized))"

definition repositoryPathFromGit :: "string \<Rightarrow> path_error + string" where
  "repositoryPathFromGit v =
     (if v = '''' \<or> CHR 0x00 \<in> set v \<or> absolute v then Inl InvalidPath
      else
        (let normalized = posix_normalize v
         in if escapes normalized then Inl EscapesRepository else Inr normalized))"

definition uniqueRepositoryPaths :: "string list \<Rightarrow> path_error + string list" where
  "uniqueRepositoryPaths vs =
     res_bind (res_map normalizeRepositoryPath vs) (\<lambda>ps. Inr (sorted_unique ps))"

definition uniqueStrings :: "string list \<Rightarrow> string list" where
  "uniqueStrings vs = sorted_unique (filter (\<lambda>s. s \<noteq> []) (map js_trim vs))"

section \<open>Segments\<close>

lemma split_on_not_Nil [simp]: "split_on c s \<noteq> []"
  by (induction s) (auto split: list.splits)

lemma join_split [simp]: "join_with c (split_on c s) = s"
proof (induction s)
  case (Cons x xs)
  obtain t ts where "split_on c xs = t # ts" by (cases "split_on c xs") auto
  then show ?case using Cons by (cases ts) auto
qed simp

lemma split_on_member: "seg \<in> set (split_on c s) \<Longrightarrow> c \<notin> set seg \<and> set seg \<subseteq> set s"
proof (induction s arbitrary: seg)
  case (Cons x xs)
  obtain t ts where "split_on c xs = t # ts" by (cases "split_on c xs") auto
  then show ?case using Cons by (auto split: if_splits) blast+
qed simp

lemma split_on_plain: "c \<notin> set s \<Longrightarrow> split_on c s = [s]"
  by (induction s) auto

lemma split_on_append: "c \<notin> set s \<Longrightarrow> split_on c (s @ c # t) = s # split_on c t"
  by (induction s) auto

lemma split_join: "ss \<noteq> [] \<Longrightarrow> \<forall>s \<in> set ss. c \<notin> set s \<Longrightarrow> split_on c (join_with c ss) = ss"
  by (induction c ss rule: join_with.induct) (auto simp: split_on_plain split_on_append)

lemma join_snoc: "ss \<noteq> [] \<Longrightarrow> join_with c (ss @ [t]) = join_with c ss @ c # t"
  by (induction c ss rule: join_with.induct) auto

text \<open>A segment that names something, and the shape of the loop's stack.\<close>

definition named :: "string \<Rightarrow> bool" where
  "named s \<longleftrightarrow> s \<noteq> '''' \<and> s \<noteq> ''.'' \<and> s \<noteq> ''..'' \<and> CHR ''/'' \<notin> set s"

definition climbs :: "string list \<Rightarrow> bool" where
  "climbs out \<longleftrightarrow> (\<exists>k ns. out = replicate k ''..'' @ ns \<and> list_all named ns)"

lemma climbsI: "out = replicate k ''..'' @ ns \<Longrightarrow> list_all named ns \<Longrightarrow> climbs out"
  by (auto simp: climbs_def)

lemma climbs_push:
  assumes "climbs out" and "CHR ''/'' \<notin> set seg"
  shows "climbs (push_segment out seg)"
proof -
  obtain k ns where out: "out = replicate k ''..'' @ ns" "list_all named ns"
    using assms(1) by (auto simp: climbs_def)
  consider "seg = '''' \<or> seg = ''.''" | "seg = ''..''" "ns = []" | m ms where "seg = ''..''" "ns = ms @ [m]"
    | "named seg" "push_segment out seg = out @ [seg]"
    using assms(2) by (cases ns rule: rev_cases) (auto simp: named_def push_segment_def)
  then show ?thesis
  proof cases
    case 1
    then show ?thesis using assms(1) by (auto simp: push_segment_def)
  next
    case 2
    then have "push_segment out seg = replicate (Suc k) ''..'' @ []"
      using out by (auto simp: push_segment_def replicate_append_same)
    then show ?thesis by (rule climbsI) simp
  next
    case 3
    then have "push_segment out seg = replicate k ''..'' @ ms"
      using out by (simp add: push_segment_def named_def butlast_append)
    then show ?thesis by (rule climbsI) (use out 3 in simp)
  next
    case 4
    then show ?thesis using out by (intro climbsI [of _ k "ns @ [seg]"]) simp_all
  qed
qed

lemma climbs_fold: "climbs out \<Longrightarrow> \<forall>s \<in> set ss. CHR ''/'' \<notin> set s \<Longrightarrow> climbs (foldl push_segment out ss)"
  by (induction ss arbitrary: out) (simp_all add: climbs_push)

lemma fold_named: "list_all named ns \<Longrightarrow> foldl push_segment out ns = out @ ns"
  by (induction ns arbitrary: out) (auto simp: push_segment_def named_def)

lemma push_members: "set (foldl push_segment out ss) \<subseteq> set out \<union> set ss \<union> {''..''}"
proof (induction ss arbitrary: out)
  case (Cons s ss)
  have "set (push_segment out s) \<subseteq> set out \<union> {s, ''..''}"
    by (auto simp: push_segment_def dest: in_set_butlastD)
  then show ?case using Cons [of "push_segment out s"] by auto
qed auto

section \<open>Normalised paths\<close>

text \<open>
  A path inside the repository: named segments joined by slashes, perhaps with a trailing
  slash, or \<open>./\<close>, which the check lets through.
\<close>

definition inside :: "string \<Rightarrow> bool" where
  "inside p \<longleftrightarrow> p = ''./'' \<or>
     (\<exists>ns. ns \<noteq> [] \<and> list_all named ns \<and> (p = join_with CHR ''/'' ns \<or> p = join_with CHR ''/'' ns @ ''/''))"

lemma join_eq_Nil: "list_all (\<lambda>s. s \<noteq> []) ss \<Longrightarrow> join_with c ss = [] \<longleftrightarrow> ss = []"
  by (induction c ss rule: join_with.induct) auto

lemma climbs_nonempty: "climbs ss \<Longrightarrow> list_all (\<lambda>s. s \<noteq> []) ss"
proof -
  assume "climbs ss"
  then obtain k ns where "ss = replicate k ''..'' @ ns" "list_all named ns" by (auto simp: climbs_def)
  moreover have "list_all (\<lambda>s. s \<noteq> []) (replicate k ''..'')" by (induction k) simp_all
  moreover have "list_all (\<lambda>s. s \<noteq> []) ns"
    by (rule list.pred_mono_strong [OF \<open>list_all named ns\<close>]) (simp add: named_def)
  ultimately show ?thesis by simp
qed

lemma posix_normalize_stack:
  assumes "p \<noteq> ''''"
  defines "out \<equiv> foldl push_segment [] (split_on CHR ''/'' p)"
  shows "climbs out" and "set out \<subseteq> set (split_on CHR ''/'' p) \<union> {''..''}"
    and "out = [] \<and> posix_normalize p \<in> {''.'', ''./''} \<or>
     out \<noteq> [] \<and> posix_normalize p \<in> {join_with CHR ''/'' out, join_with CHR ''/'' out @ ''/''}"
proof -
  have "climbs []" by (auto simp: climbs_def)
  then show c: "climbs out" unfolding out_def using split_on_member by (intro climbs_fold) blast+
  show "set out \<subseteq> set (split_on CHR ''/'' p) \<union> {''..''}"
    unfolding out_def using push_members [of "[]"] by auto
  have e: "join_with CHR ''/'' out = [] \<longleftrightarrow> out = []"
    by (rule join_eq_Nil [OF climbs_nonempty [OF c]])
  have n: "posix_normalize p =
      (if join_with CHR ''/'' out = [] then (if last p = CHR ''/'' then ''./'' else ''.'')
       else if last p = CHR ''/'' then join_with CHR ''/'' out @ ''/'' else join_with CHR ''/'' out)"
    unfolding posix_normalize_def out_def [symmetric] Let_def using assms(1) by (rule if_not_P)
  show "out = [] \<and> posix_normalize p \<in> {''.'', ''./''} \<or>
     out \<noteq> [] \<and> posix_normalize p \<in> {join_with CHR ''/'' out, join_with CHR ''/'' out @ ''/''}"
    unfolding n e by simp
qed

lemma posix_normalize_shape:
  assumes "p \<noteq> ''''"
  obtains out where "climbs out" "set out \<subseteq> set (split_on CHR ''/'' p) \<union> {''..''}"
    "out = [] \<and> posix_normalize p \<in> {''.'', ''./''} \<or>
     out \<noteq> [] \<and> posix_normalize p \<in> {join_with CHR ''/'' out, join_with CHR ''/'' out @ ''/''}"
  using posix_normalize_stack [OF assms] that by blast

lemma escapes_climb: "escapes (join_with CHR ''/'' (''..'' # ss))" "escapes (join_with CHR ''/'' (''..'' # ss) @ ''/'')"
  by (cases ss; simp add: escapes_def)+

lemma join_chars: "set (join_with c ss) \<subseteq> insert c (\<Union>(set ` set ss))"
  by (induction c ss rule: join_with.induct) auto

lemma split_chars: "seg \<in> set (split_on c s) \<Longrightarrow> set seg \<subseteq> set s"
  using split_on_member by blast

lemma posix_normalize_chars: "p \<noteq> '''' \<Longrightarrow> set (posix_normalize p) \<subseteq> set p \<union> {CHR ''/'', CHR ''.''}"
proof (erule posix_normalize_shape)
  fix out assume out: "set out \<subseteq> set (split_on CHR ''/'' p) \<union> {''..''}"
    and *: "out = [] \<and> posix_normalize p \<in> {''.'', ''./''} \<or>
     out \<noteq> [] \<and> posix_normalize p \<in> {join_with CHR ''/'' out, join_with CHR ''/'' out @ ''/''}"
  have "set s \<subseteq> set p \<union> {CHR ''.''}" if "s \<in> set out" for s
    using that out split_chars by fastforce
  then have "set (join_with CHR ''/'' out) \<subseteq> set p \<union> {CHR ''/'', CHR ''.''}"
    using join_chars [of "CHR ''/''" out] by fastforce
  then show ?thesis using * by auto
qed

lemma posix_normalize_inside:
  assumes "p \<noteq> ''''" and "\<not> escapes (posix_normalize p)"
  shows "inside (posix_normalize p)"
proof -
  obtain out where out: "climbs out"
    "out = [] \<and> posix_normalize p \<in> {''.'', ''./''} \<or>
     out \<noteq> [] \<and> posix_normalize p \<in> {join_with CHR ''/'' out, join_with CHR ''/'' out @ ''/''}"
    using posix_normalize_shape [OF assms(1)] by metis
  show ?thesis
  proof (cases "out = []")
    case True
    then show ?thesis using out(2) assms(2) by (auto simp: inside_def escapes_def)
  next
    case False
    obtain k ns where k: "out = replicate k ''..'' @ ns" "list_all named ns"
      using out(1) by (auto simp: climbs_def)
    have "k = 0"
    proof (rule ccontr)
      assume "k \<noteq> 0"
      then obtain ss where "out = ''..'' # ss" using k by (cases k) auto
      then show False using False out(2) assms(2) escapes_climb [of ss] by auto
    qed
    then show ?thesis using False out(2) k by (auto simp: inside_def)
  qed
qed

lemma named_join_first:
  assumes "ns \<noteq> []" and "list_all named ns"
  shows "\<exists>c cs. join_with CHR ''/'' ns = c # cs \<and> c \<noteq> CHR ''/''"
proof -
  obtain n ms where ns: "ns = n # ms" using assms(1) by (cases ns) auto
  then obtain c cs where "n = c # cs" "c \<noteq> CHR ''/''" using assms(2) by (cases n) (auto simp: named_def)
  then show ?thesis using ns by (cases ms) auto
qed

lemma named_join_last:
  "ns \<noteq> [] \<Longrightarrow> list_all named ns \<Longrightarrow> join_with CHR ''/'' ns \<noteq> [] \<and> last (join_with CHR ''/'' ns) \<noteq> CHR ''/''"
proof (induction "CHR ''/''" ns rule: join_with.induct)
  case (2 s)
  then have "s \<noteq> []" "CHR ''/'' \<notin> set s" by (auto simp: named_def)
  then have "last s \<noteq> CHR ''/''" using last_in_set by metis
  then show ?case using \<open>s \<noteq> []\<close> by simp
qed auto

lemma split_named:
  assumes "ns \<noteq> []" and "list_all named ns"
  shows "split_on CHR ''/'' (join_with CHR ''/'' ns) = ns"
    and "split_on CHR ''/'' (join_with CHR ''/'' ns @ ''/'') = ns @ ['''']"
proof -
  have free: "\<forall>s \<in> set ns. CHR ''/'' \<notin> set s" using assms(2) by (auto simp: list_all_iff named_def)
  then show "split_on CHR ''/'' (join_with CHR ''/'' ns) = ns" using assms(1) by (intro split_join)
  have "split_on CHR ''/'' (join_with CHR ''/'' (ns @ [''''])) = ns @ ['''']"
    using free by (intro split_join) auto
  then show "split_on CHR ''/'' (join_with CHR ''/'' ns @ ''/'') = ns @ ['''']"
    using assms(1) by (simp add: join_snoc)
qed

lemma inside_not_escaping: "inside p \<Longrightarrow> \<not> escapes p \<and> \<not> absolute p \<and> p \<noteq> ''''"
proof -
  assume "inside p"
  moreover have "\<not> escapes q \<and> \<not> absolute q \<and> q \<noteq> ''''"
    if ns: "ns \<noteq> []" "list_all named ns" and q: "q = join_with CHR ''/'' ns \<or> q = join_with CHR ''/'' ns @ ''/''" for ns q
  proof -
    note sp = split_named [OF ns]
    obtain c cs where c: "join_with CHR ''/'' ns = c # cs" "c \<noteq> CHR ''/''"
      using named_join_first [OF ns] by blast
    have hd: "hd (split_on CHR ''/'' q) = hd ns"
      using q sp ns(1) by (elim disjE) simp_all
    have "named (hd ns)" using ns by (cases ns) simp_all
    note hd = hd this
    have "take 3 q \<noteq> ''../''"
    proof
      assume "take 3 q = ''../''"
      then have "q = ''..'' @ CHR ''/'' # drop 3 q" by (metis append_Cons append_Nil append_take_drop_id)
      then have "hd (split_on CHR ''/'' q) = ''..''"
        using split_on_append [of "CHR ''/''" "''..''" "drop 3 q"] by simp
      then show False using hd by (simp add: named_def)
    qed
    moreover have "q \<noteq> ''.''" "q \<noteq> ''..''" using hd by (auto simp: named_def)
    ultimately show ?thesis using q c by (auto simp: escapes_def absolute_def)
  qed
  ultimately show ?thesis by (auto simp: inside_def escapes_def absolute_def)
qed

lemma posix_normalize_inside_id: "inside p \<Longrightarrow> posix_normalize p = p"
proof -
  assume "inside p"
  then consider "p = ''./''"
    | ns where "ns \<noteq> []" "list_all named ns" "p = join_with CHR ''/'' ns"
    | ns where "ns \<noteq> []" "list_all named ns" "p = join_with CHR ''/'' ns @ ''/''"
    by (auto simp: inside_def)
  then show ?thesis
  proof cases
    case 1
    then show ?thesis by (simp add: posix_normalize_def push_segment_def)
  next
    case 2
    then show ?thesis
      using named_join_last [of ns] fold_named [of ns "[]"] split_named(1) [of ns]
      by (simp add: posix_normalize_def Let_def)
  next
    case 3
    then show ?thesis
      using named_join_last [of ns] fold_named [of ns "[]"] split_named(2) [of ns]
      by (simp add: posix_normalize_def Let_def push_segment_def)
  qed
qed

lemma normalizeRepositoryPath_inside:
  assumes "normalizeRepositoryPath v = Inr p"
  shows "inside p \<and> CHR 0x00 \<notin> set p \<and> CHR 0x5C \<notin> set p"
proof -
  let ?c = "forward_slashes v"
  have v: "?c \<noteq> ''''" "CHR 0x00 \<notin> set ?c" "p = posix_normalize ?c" "\<not> escapes p"
    using assms by (auto simp: normalizeRepositoryPath_def Let_def split: if_splits)
  have "CHR 0x5C \<notin> set ?c" by (auto simp: forward_slashes_def)
  then show ?thesis
    using v posix_normalize_inside [of ?c] posix_normalize_chars [of ?c] by auto
qed

lemma normalizeRepositoryPath_id:
  assumes "inside p" and "CHR 0x00 \<notin> set p" and "CHR 0x5C \<notin> set p" and "\<not> drive_prefix p"
  shows "normalizeRepositoryPath p = Inr p"
proof -
  have "forward_slashes p = p"
    unfolding forward_slashes_def using assms(3) by (intro map_idI) auto
  then show ?thesis
    using assms inside_not_escaping [of p] posix_normalize_inside_id [of p]
    by (simp add: normalizeRepositoryPath_def)
qed

section \<open>Sets of names\<close>

lemma dropWhile_idem [simp]: "dropWhile P (dropWhile P xs) = dropWhile P xs"
  by (induction xs) auto

lemma js_trim_idem [simp]: "js_trim (js_trim s) = js_trim s"
proof -
  define t where "t = dropWhile is_js_space s"
  define w where "w = dropWhile is_js_space (rev t)"
  have "dropWhile is_js_space (rev w) = rev w"
  proof (cases "rev w")
    case (Cons c cs)
    obtain ys where "rev t = ys @ w" using w_def suffix_dropWhile unfolding suffix_def by blast
    then have "t = rev w @ rev ys" by (metis rev_append rev_rev_ident)
    then obtain ds where "t = c # ds" using Cons by simp
    then have "\<not> is_js_space c" using hd_dropWhile [of is_js_space s] by (metis list.discI list.sel(1) t_def)
    then show ?thesis using Cons by simp
  qed simp
  moreover have "dropWhile is_js_space w = w" by (simp add: w_def)
  ultimately show ?thesis by (simp add: js_trim_def t_def [symmetric] w_def [symmetric])
qed

lemma set_uniqueStrings: "set (uniqueStrings vs) = {s. s \<noteq> [] \<and> s \<in> js_trim ` set vs}"
  by (auto simp: uniqueStrings_def)

lemma uniqueStrings_idem [simp]: "uniqueStrings (uniqueStrings vs) = uniqueStrings vs"
proof -
  have "map js_trim (uniqueStrings vs) = uniqueStrings vs"
    by (rule map_idI) (auto simp: set_uniqueStrings)
  moreover have "filter (\<lambda>s. s \<noteq> []) (uniqueStrings vs) = uniqueStrings vs"
    by (rule filter_True) (auto simp: set_uniqueStrings)
  ultimately show ?thesis by (subst uniqueStrings_def) (simp add: uniqueStrings_def)
qed

lemma uniqueRepositoryPaths_law:
  assumes "uniqueRepositoryPaths vs = Inr ps"
  shows "sorted ps \<and> distinct ps \<and> (\<forall>p \<in> set ps. inside p) \<and>
         set ps = {p. \<exists>v \<in> set vs. normalizeRepositoryPath v = Inr p}"
proof -
  obtain qs where qs: "res_map normalizeRepositoryPath vs = Inr qs" "ps = sorted_unique qs"
    using assms by (auto simp: uniqueRepositoryPaths_def res_bind_eq_Inr_conv)
  have "list_all2 (\<lambda>v p. normalizeRepositoryPath v = Inr p) vs qs"
    using qs(1) by (simp add: res_map_Inr_iff)
  then have s: "set qs = {p. \<exists>v \<in> set vs. normalizeRepositoryPath v = Inr p}"
    by (induction rule: list_all2_induct) auto
  then show ?thesis using qs(2) normalizeRepositoryPath_inside by auto
qed

text \<open>Paths already normal are kept, and only ordered.\<close>

definition settled_path :: "string \<Rightarrow> bool" where
  "settled_path p \<longleftrightarrow> normalizeRepositoryPath p = Inr p"

lemma uniqueRepositoryPaths_settled:
  "list_all settled_path ps \<Longrightarrow> uniqueRepositoryPaths ps = Inr (sorted_unique ps)"
proof -
  assume "list_all settled_path ps"
  then have "res_map normalizeRepositoryPath ps = Inr (map id ps)"
    by (intro res_map_pure) (simp add: list_all_iff settled_path_def)
  then show ?thesis by (simp add: uniqueRepositoryPaths_def)
qed

section \<open>Resource keys\<close>

datatype resource_type = File | Symbol | Api | Schema | Configuration | Test | Service

fun type_name :: "resource_type \<Rightarrow> string" where
  "type_name File = ''file''"
| "type_name Symbol = ''symbol''"
| "type_name Api = ''api''"
| "type_name Schema = ''schema''"
| "type_name Configuration = ''configuration''"
| "type_name Test = ''test''"
| "type_name Service = ''service''"

definition planResourceKey :: "resource_type \<Rightarrow> string \<Rightarrow> string" where
  "planResourceKey t i = type_name t @ CHR 0x00 # js_lower (js_trim i)"

lemma type_name_inject: "type_name t = type_name u \<longleftrightarrow> t = u"
  by (cases t; cases u) simp_all

lemma type_name_nul_free: "CHR 0x00 \<notin> set (type_name t)"
  by (cases t) simp_all

lemma planResourceKey_inject [simp]:
  "planResourceKey t i = planResourceKey u j \<longleftrightarrow> t = u \<and> js_lower (js_trim i) = js_lower (js_trim j)"
  using split_at_separator [OF type_name_nul_free type_name_nul_free, of t "js_lower (js_trim i)" u]
    type_name_inject by (auto simp: planResourceKey_def)

end
