(* ===== verification/Line_Ranges.thy ===== *)
theory Line_Ranges
  imports Prelude "HOL-Library.Product_Lexorder"
begin

text \<open>
  \<open>services/coordinator/src/ranges.ts\<close>: arithmetic on the line spans a claim on a file is
  made of, 1-based and inclusive. \<open>lines_of\<close> is the set of lines a list of spans stands for;
  \<open>separated\<close> is the normal form, in which two lists stand for the same lines only if they
  are equal.
\<close>

section \<open>Operations\<close>

record line_range =
  startLine :: int
  endLine :: int

definition whole_file :: line_range where
  "whole_file = \<lparr>startLine = 1, endLine = max_safe_integer\<rparr>"

definition rangesOverlap :: "line_range \<Rightarrow> line_range \<Rightarrow> bool" where
  "rangesOverlap first second \<longleftrightarrow>
     startLine first \<le> endLine second \<and> startLine second \<le> endLine first"

definition usable_range :: "line_range \<Rightarrow> bool" where
  "usable_range r \<longleftrightarrow>
     is_safe_integer (startLine r) \<and> is_safe_integer (endLine r) \<and> startLine r \<le> endLine r"

definition clamp_range :: "line_range \<Rightarrow> line_range" where
  "clamp_range r = \<lparr>startLine = max 1 (startLine r), endLine = max 1 (endLine r)\<rparr>"

text \<open>One round of the merging loop, on the spans merged so far.\<close>

definition merge_range :: "line_range list \<Rightarrow> line_range \<Rightarrow> line_range list" where
  "merge_range merged r =
     (case at_last merged of
        Some l \<Rightarrow>
          if startLine r \<le> endLine l + 1
          then butlast merged @ [l\<lparr>endLine := max (endLine l) (endLine r)\<rparr>]
          else merged @ [r]
      | None \<Rightarrow> merged @ [r])"

definition range_order :: "line_range \<Rightarrow> int \<times> int" where
  "range_order r = (startLine r, endLine r)"

definition normalizeRanges :: "line_range list \<Rightarrow> line_range list" where
  "normalizeRanges rs =
     foldl merge_range [] (sort_key range_order (map clamp_range (filter usable_range rs)))"

definition rangesIntersect :: "line_range list \<Rightarrow> line_range list \<Rightarrow> bool" where
  "rangesIntersect first second \<longleftrightarrow>
     list_ex (\<lambda>left. list_ex (\<lambda>right. rangesOverlap left right) second) first"

text \<open>The inner loop of \<open>subtractRanges\<close>: the spans kept, and where the rest begins.\<close>

fun cut_range :: "int \<Rightarrow> int \<Rightarrow> line_range list \<Rightarrow> line_range list \<times> int" where
  "cut_range start stop [] = ([], start)"
| "cut_range start stop (c # cuts) =
     (if endLine c < start \<or> startLine c > stop then cut_range start stop cuts
      else
        (let (kept, rest) = cut_range (max start (endLine c + 1)) stop cuts
         in (if startLine c > start
             then \<lparr>startLine = start, endLine = startLine c - 1\<rparr> # kept else kept, rest)))"

definition keep_outside :: "line_range list \<Rightarrow> line_range \<Rightarrow> line_range list" where
  "keep_outside cuts r =
     (let (kept, start) = cut_range (startLine r) (endLine r) cuts
      in if start \<le> endLine r then kept @ [\<lparr>startLine = start, endLine = endLine r\<rparr>] else kept)"

definition subtractRanges :: "line_range list \<Rightarrow> line_range list \<Rightarrow> line_range list" where
  "subtractRanges from removed =
     (let cuts = normalizeRanges removed in concat (map (keep_outside cuts) (normalizeRanges from)))"

section \<open>The lines spans stand for\<close>

definition span :: "line_range \<Rightarrow> int set" where
  "span r = {startLine r .. endLine r}"

definition lines_of :: "line_range list \<Rightarrow> int set" where
  "lines_of rs = (\<Union>r \<in> set rs. span r)"

definition good_range :: "line_range \<Rightarrow> bool" where
  "good_range r \<longleftrightarrow> 1 \<le> startLine r \<and> startLine r \<le> endLine r"

definition separated :: "line_range list \<Rightarrow> bool" where
  "separated rs \<longleftrightarrow> list_all good_range rs \<and> successively (\<lambda>a b. endLine a + 1 < startLine b) rs"

lemma lines_of_simps [simp]:
  "lines_of [] = {}" "lines_of (r # rs) = span r \<union> lines_of rs" "lines_of (rs @ ss) = lines_of rs \<union> lines_of ss"
  by (auto simp: lines_of_def)

lemma rangesOverlap_commute: "rangesOverlap a b \<longleftrightarrow> rangesOverlap b a"
  by (auto simp: rangesOverlap_def)

lemma rangesIntersect_commute: "rangesIntersect as bs \<longleftrightarrow> rangesIntersect bs as"
  by (auto simp: rangesIntersect_def list_ex_iff rangesOverlap_def)

text \<open>For spans that are not empty, overlapping is having a line in common.\<close>

lemma rangesOverlap_span:
  "startLine a \<le> endLine a \<Longrightarrow> startLine b \<le> endLine b \<Longrightarrow> rangesOverlap a b \<longleftrightarrow> span a \<inter> span b \<noteq> {}"
  by (auto simp: rangesOverlap_def span_def)

lemma rangesOverlap_spanI: "span a \<inter> span b \<noteq> {} \<Longrightarrow> rangesOverlap a b"
  by (auto simp: rangesOverlap_def span_def)

lemma rangesIntersect_lines:
  assumes "list_all good_range as" and "list_all good_range bs"
  shows "rangesIntersect as bs \<longleftrightarrow> lines_of as \<inter> lines_of bs \<noteq> {}"
proof -
  have "rangesOverlap a b \<longleftrightarrow> span a \<inter> span b \<noteq> {}" if "a \<in> set as" "b \<in> set bs" for a b
    using that assms by (intro rangesOverlap_span) (auto simp: list_all_iff good_range_def)
  then have "rangesIntersect as bs \<longleftrightarrow> (\<exists>a \<in> set as. \<exists>b \<in> set bs. span a \<inter> span b \<noteq> {})"
    by (auto simp: rangesIntersect_def list_ex_iff)
  also have "\<dots> \<longleftrightarrow> lines_of as \<inter> lines_of bs \<noteq> {}"
    by (auto simp: lines_of_def)
  finally show ?thesis .
qed

lemma rangesIntersect_linesI: "lines_of as \<inter> lines_of bs \<noteq> {} \<Longrightarrow> rangesIntersect as bs"
  using rangesOverlap_spanI by (fastforce simp: rangesIntersect_def list_ex_iff lines_of_def)

section \<open>Normalising\<close>

lemma good_clamp: "usable_range r \<Longrightarrow> good_range (clamp_range r)"
  by (auto simp: usable_range_def good_range_def clamp_range_def)

text \<open>The loop invariant: separated, the lines so far, and every later span starts later.\<close>

lemma merge_range_separated:
  assumes "separated ms" and "good_range r" and "list_all (\<lambda>m. startLine m \<le> startLine r) ms"
  shows "separated (merge_range ms r) \<and> lines_of (merge_range ms r) = lines_of ms \<union> span r \<and>
         (\<forall>m \<in> set (merge_range ms r). startLine m \<le> startLine r)"
proof (cases "at_last ms")
  case None
  then have "ms = []" by (rule at_last_NoneD)
  then show ?thesis using assms by (simp add: merge_range_def separated_def)
next
  case (Some l)
  obtain ns where ms: "ms = ns @ [l]" using at_last_SomeD [OF Some] by blast
  show ?thesis
  proof (cases "startLine r \<le> endLine l + 1")
    case True
    let ?l = "l\<lparr>endLine := max (endLine l) (endLine r)\<rparr>"
    have m: "merge_range (ns @ [l]) r = ns @ [?l]" using Some True ms by (simp add: merge_range_def)
    have "startLine l \<le> startLine r" "startLine l \<le> endLine l" "1 \<le> startLine l" "startLine r \<le> endLine r"
      using assms ms by (simp_all add: separated_def good_range_def)
    then have "span ?l = span l \<union> span r" "good_range ?l" "startLine ?l = startLine l"
      using True by (auto simp: span_def good_range_def)
    then show ?thesis
      using assms ms by (auto simp: m separated_def list_all_iff successively_append_iff)
  next
    case False
    then have m: "merge_range (ns @ [l]) r = ns @ [l, r]" using Some ms by (simp add: merge_range_def)
    show ?thesis
      using assms ms False by (auto simp: m separated_def list_all_iff successively_append_iff)
  qed
qed

lemma merge_fold:
  assumes "separated ms" and "list_all good_range rs" and "sorted (map startLine rs)"
    and "\<forall>m \<in> set ms. \<forall>r \<in> set rs. startLine m \<le> startLine r"
  shows "separated (foldl merge_range ms rs) \<and> lines_of (foldl merge_range ms rs) = lines_of ms \<union> lines_of rs"
  using assms
proof (induction rs arbitrary: ms)
  case (Cons r rs)
  have step: "separated (merge_range ms r)" "lines_of (merge_range ms r) = lines_of ms \<union> span r"
      "\<forall>m \<in> set (merge_range ms r). startLine m \<le> startLine r"
    using merge_range_separated [of ms r] Cons.prems by (auto simp: list_all_iff)
  have "\<forall>m \<in> set (merge_range ms r). \<forall>r' \<in> set rs. startLine m \<le> startLine r'"
    using step(3) Cons.prems(3) by fastforce
  then show ?case using Cons.IH [OF step(1)] step(2) Cons.prems by auto
qed simp

lemma sorted_fst: "sorted ps \<Longrightarrow> sorted (map fst (ps :: (int \<times> int) list))"
  by (induction ps) (auto simp: less_eq_prod_def)

lemma sorted_starts: "sorted (map startLine (sort_key range_order rs))"
proof -
  have "sorted (map range_order (sort_key range_order rs))" by simp
  then have "sorted (map fst (map range_order (sort_key range_order rs)))" by (rule sorted_fst)
  moreover have "fst \<circ> range_order = startLine" by (auto simp: range_order_def)
  ultimately show ?thesis by simp
qed

text \<open>The lines the caller meant: unusable spans mean nothing, a span starts at line 1 at the earliest.\<close>

definition meant :: "line_range list \<Rightarrow> int set" where
  "meant rs = lines_of (map clamp_range (filter usable_range rs))"

lemma normalizeRanges_law:
  "separated (normalizeRanges rs) \<and> lines_of (normalizeRanges rs) = meant rs"
proof -
  let ?us = "map clamp_range (filter usable_range rs)"
  have "list_all good_range (sort_key range_order ?us)"
    by (auto simp: list_all_iff intro: good_clamp)
  then have "separated (foldl merge_range [] (sort_key range_order ?us)) \<and>
      lines_of (foldl merge_range [] (sort_key range_order ?us)) = lines_of [] \<union> lines_of (sort_key range_order ?us)"
    using sorted_starts by (intro merge_fold) (auto simp: separated_def)
  then show ?thesis
    by (simp add: normalizeRanges_def meant_def) (simp add: lines_of_def)
qed

lemmas normalized [simp] = conjunct1 [OF normalizeRanges_law] conjunct2 [OF normalizeRanges_law]

lemma meant_lines: "list_all good_range rs \<Longrightarrow> list_all usable_range rs \<Longrightarrow> meant rs = lines_of rs"
proof -
  assume g: "list_all good_range rs" and u: "list_all usable_range rs"
  have "filter usable_range rs = rs" using u by (simp add: list_all_iff)
  moreover have "span (clamp_range r) = span r" if "r \<in> set rs" for r
    using g that by (auto simp: list_all_iff good_range_def clamp_range_def span_def)
  ultimately show ?thesis by (simp add: meant_def lines_of_def)
qed

section \<open>The normal form is unique\<close>

lemma separated_Cons:
  "separated (r # rs) \<longleftrightarrow> good_range r \<and> separated rs \<and> (\<forall>s \<in> set rs. endLine r + 1 < startLine s)"
proof (induction rs arbitrary: r)
  case (Cons s rs)
  have "good_range s \<Longrightarrow> startLine s \<le> endLine s" by (simp add: good_range_def)
  then show ?case
    using Cons [of s] by (fastforce simp: separated_def)
qed (simp add: separated_def)

lemma separated_append:
  "separated (rs @ ss) \<longleftrightarrow>
     separated rs \<and> separated ss \<and> (\<forall>r \<in> set rs. \<forall>s \<in> set ss. endLine r + 1 < startLine s)"
  by (induction rs) (auto simp: separated_Cons separated_def [of "[]"])

lemma separated_good: "separated rs \<Longrightarrow> list_all good_range rs"
  by (simp add: separated_def)

lemma separated_head:
  assumes "separated (r # rs)"
  shows "startLine r \<in> lines_of (r # rs)" and "\<forall>l \<in> lines_of (r # rs). startLine r \<le> l"
    and "{startLine r .. endLine r} \<subseteq> lines_of (r # rs)" and "endLine r + 1 \<notin> lines_of (r # rs)"
    and "lines_of rs = lines_of (r # rs) - span r"
proof -
  have r: "startLine r \<le> endLine r" and far: "\<forall>l \<in> lines_of rs. endLine r + 1 < l"
    using assms by (fastforce simp: separated_Cons good_range_def lines_of_def span_def)+
  show "startLine r \<in> lines_of (r # rs)" "{startLine r .. endLine r} \<subseteq> lines_of (r # rs)"
    using r by (auto simp: span_def)
  show "\<forall>l \<in> lines_of (r # rs). startLine r \<le> l" "endLine r + 1 \<notin> lines_of (r # rs)"
    "lines_of rs = lines_of (r # rs) - span r"
    using r far by (fastforce simp: span_def)+
qed

lemma separated_unique: "separated as \<Longrightarrow> separated bs \<Longrightarrow> lines_of as = lines_of bs \<Longrightarrow> as = bs"
proof (induction as arbitrary: bs)
  case Nil
  then show ?case by (cases bs) (auto dest: separated_head(1))
next
  case (Cons a as)
  note a = separated_head [OF Cons.prems(1)]
  obtain b bs' where bs: "bs = b # bs'" using Cons.prems(3) a(1) by (cases bs) auto
  note b = separated_head [OF Cons.prems(2) [unfolded bs]]
  have same: "lines_of (a # as) = lines_of (b # bs')" using Cons.prems(3) bs by simp
  have start: "startLine a = startLine b" using a(1,2) b(1,2) same by (metis order_antisym)
  have good: "startLine a \<le> endLine a" "startLine b \<le> endLine b"
    using Cons.prems bs by (auto simp: separated_Cons good_range_def)
  have "endLine b + 1 \<notin> {startLine a .. endLine a}" "endLine a + 1 \<notin> {startLine b .. endLine b}"
    using a(3,4) b(3,4) same by blast+
  then have "endLine a = endLine b" using start good by auto
  then have "a = b" using start by simp
  moreover have "as = bs'"
  proof (rule Cons.IH)
    show "separated as" "separated bs'" using Cons.prems bs by (simp_all add: separated_Cons)
    show "lines_of as = lines_of bs'" using a(5) b(5) same \<open>a = b\<close> by metis
  qed
  ultimately show ?case using bs by simp
qed

section \<open>Subtracting\<close>

text \<open>What one span leaves outside the cuts, as one list.\<close>

definition pieces :: "int \<Rightarrow> int \<Rightarrow> line_range list \<Rightarrow> line_range list" where
  "pieces start stop cuts =
     (let (kept, rest) = cut_range start stop cuts
      in if rest \<le> stop then kept @ [\<lparr>startLine = rest, endLine = stop\<rparr>] else kept)"

lemma pieces_simps:
  "pieces start stop [] = (if start \<le> stop then [\<lparr>startLine = start, endLine = stop\<rparr>] else [])"
  "pieces start stop (c # cuts) =
     (if endLine c < start \<or> startLine c > stop then pieces start stop cuts
      else (if startLine c > start then [\<lparr>startLine = start, endLine = startLine c - 1\<rparr>] else []) @
           pieces (max start (endLine c + 1)) stop cuts)"
  by (auto simp: pieces_def split: prod.splits)

lemma keep_outside_pieces: "keep_outside cuts r = pieces (startLine r) (endLine r) cuts"
  by (simp add: keep_outside_def pieces_def)

lemma pieces_within: "p \<in> set (pieces start stop cuts) \<Longrightarrow> start \<le> startLine p \<and> startLine p \<le> endLine p \<and> endLine p \<le> stop"
  by (induction cuts arbitrary: start) (fastforce simp: pieces_simps split: if_splits)+

lemma pieces_separated:
  "1 \<le> start \<Longrightarrow> list_all good_range cuts \<Longrightarrow> separated (pieces start stop cuts)"
proof (induction cuts arbitrary: start)
  case Nil
  then show ?case by (simp add: pieces_simps separated_def good_range_def)
next
  case (Cons c cuts)
  have "startLine c \<le> endLine c" using Cons.prems by (simp add: good_range_def)
  moreover have "startLine c \<le> startLine p \<and> endLine c < startLine p"
    if "p \<in> set (pieces (max start (endLine c + 1)) stop cuts)" for p
    using pieces_within [OF that] calculation by simp
  moreover have "separated (pieces start stop cuts)" "separated (pieces (max start (endLine c + 1)) stop cuts)"
    using Cons by (simp_all add: max_def)
  ultimately show ?case
    using Cons.prems(1) by (fastforce simp: pieces_simps separated_Cons good_range_def)
qed

lemma lines_of_pieces:
  "separated cuts \<Longrightarrow> lines_of (pieces start stop cuts) = {start..stop} - lines_of cuts"
proof (induction cuts arbitrary: start)
  case Nil
  then show ?case by (auto simp: pieces_simps span_def)
next
  case (Cons c cuts)
  then have sep: "separated cuts" and c: "startLine c \<le> endLine c"
    and far: "\<And>l. l \<in> lines_of cuts \<Longrightarrow> endLine c + 1 < l"
    by (fastforce simp: separated_Cons good_range_def lines_of_def span_def)+
  show ?case
    using Cons.IH [OF sep] c far by (auto simp: pieces_simps span_def) (force dest: far)+
qed

lemma subtractRanges_law:
  "separated (subtractRanges from removed) \<and> lines_of (subtractRanges from removed) = meant from - meant removed"
proof -
  let ?cuts = "normalizeRanges removed"
  have "separated (concat (map (keep_outside ?cuts) rs)) \<and>
        lines_of (concat (map (keep_outside ?cuts) rs)) = lines_of rs - lines_of ?cuts"
    if "separated rs" for rs
    using that
  proof (induction rs)
    case (Cons r rs)
    then have r: "good_range r" "separated rs" and far: "\<And>s. s \<in> set rs \<Longrightarrow> endLine r + 1 < startLine s"
      by (auto simp: separated_Cons)
    have later: "endLine r + 1 < startLine p" if "p \<in> set (concat (map (keep_outside ?cuts) rs))" for p
      using that far pieces_within by (fastforce simp: keep_outside_pieces)
    have "separated (keep_outside ?cuts r)"
      using r(1) separated_good [of ?cuts] by (auto simp: keep_outside_pieces good_range_def intro: pieces_separated)
    moreover have "endLine p \<le> endLine r" if "p \<in> set (keep_outside ?cuts r)" for p
      using pieces_within that by (simp add: keep_outside_pieces)
    moreover have "lines_of (keep_outside ?cuts r) = span r - lines_of ?cuts"
      by (simp add: keep_outside_pieces lines_of_pieces span_def del: normalized(2))
    ultimately show ?case
      using Cons.IH [OF r(2)] later by (fastforce simp: separated_append)
  qed (simp add: separated_def)
  from this [of "normalizeRanges from"] show ?thesis by (simp add: subtractRanges_def Let_def)
qed

end
