(* ===== verification/Plans.thy ===== *)
theory Plans
  imports Path_Names Line_Ranges
begin

text \<open>
  Agent plans, from \<open>packages/shared-types/src/index.ts\<close>: the record a plan is, the assertion
  that normalises it, widening (\<open>mergePlanScope\<close>), narrowing (\<open>reducePlanScope\<close>), claims on
  paths, and what of a plan crosses branches (\<open>interfaceScopeOf\<close>). A field that may be
  \<open>undefined\<close> is an option.
\<close>

section \<open>Plans\<close>

datatype risk_level = LowRisk | MediumRisk | HighRisk | CriticalRisk

record validation_command =
  executable :: string
  command_args :: "string list"
  command_label :: string

record plan_declarations =
  decl_symbols :: "string list option"
  decl_dependencies :: "string list option"
  decl_apis :: "string list option"
  decl_schemas :: "string list option"
  decl_configKeys :: "string list option"
  decl_tests :: "string list option"
  decl_services :: "string list option"

datatype grounding_confidence = Verified | Grounded | Ungrounded

record grounded_file_reference =
  file_declared :: string
  file_resolved :: string

record grounded_symbol_reference =
  symbol_declared :: string
  symbol_resolved :: string
  symbol_files :: "string list"

record plan_grounding =
  confidence :: grounding_confidence
  grounded_revision :: string
  missingFiles :: "string list"
  unresolvedSymbols :: "string list"
  fileReferents :: "grounded_file_reference list"
  symbolReferents :: "grounded_symbol_reference list"
  grounding_notes :: "string list"

datatype plan_claim =
    Blanket string "string list option"
  | FrozenClaim "string list" string "(string \<times> line_range list) list option"
  | DeclaredClaim string "string list"

record agent_plan =
  taskId :: string
  objective :: string
  expectedFiles :: "string list"
  expectedSymbols :: "string list"
  declared :: "plan_declarations option"
  expectedApis :: "string list option"
  expectedSchemas :: "string list option"
  expectedConfigKeys :: "string list option"
  expectedTests :: "string list option"
  expectedServices :: "string list option"
  dependencies :: "string list"
  commands :: "validation_command list"
  externalAccess :: "string list"
  riskLevel :: risk_level
  intent :: "string option"
  grounding :: "plan_grounding option"
  claim :: "plan_claim option"
  dependenciesUnknown :: "bool option"

record plan_resource =
  resourceType :: resource_type
  resourceId :: string

record scope_request =
  additionalFiles :: "string list"
  additionalSymbols :: "string list"
  additionalApis :: "string list"
  additionalSchemas :: "string list"
  additionalConfigKeys :: "string list"
  additionalTests :: "string list"
  additionalServices :: "string list"

record release_request =
  releasedFiles :: "string list"
  releasedSymbols :: "string list"
  releasedApis :: "string list"
  releasedSchemas :: "string list"
  releasedConfigKeys :: "string list"
  releasedTests :: "string list"
  releasedServices :: "string list"

text \<open>\<open>xs ?? []\<close>\<close>

definition or_empty :: "'a list option \<Rightarrow> 'a list" where
  "or_empty xs = (case xs of None \<Rightarrow> [] | Some ys \<Rightarrow> ys)"

lemma or_empty_simps [simp]: "or_empty None = []" "or_empty (Some xs) = xs"
  by (simp_all add: or_empty_def)

section \<open>The assertion\<close>

datatype plan_error = PathError path_error | SchemaMismatch

fun lift_path :: "path_error + 'a \<Rightarrow> plan_error + 'a" where
  "lift_path (Inl e) = Inl (PathError e)"
| "lift_path (Inr x) = Inr x"

definition isValidationCommand :: "validation_command \<Rightarrow> bool" where
  "isValidationCommand c \<longleftrightarrow> js_trim (executable c) \<noteq> [] \<and> js_trim (command_label c) \<noteq> []"

definition isTouchedFileRanges :: "(string \<times> line_range list) list \<Rightarrow> bool" where
  "isTouchedFileRanges touched \<longleftrightarrow>
     list_all (\<lambda>(file, ranges). file \<noteq> [] \<and>
       list_all (\<lambda>r. 1 \<le> startLine r \<and> startLine r \<le> endLine r) ranges) touched"

fun isPlanClaim :: "plan_claim \<Rightarrow> bool" where
  "isPlanClaim (DeclaredClaim at held) = True"
| "isPlanClaim (Blanket at released) = True"
| "isPlanClaim (FrozenClaim directories at touched) \<longleftrightarrow>
     list_all (\<lambda>d. suffix ''/'' d) directories \<and>
     (case touched of None \<Rightarrow> True | Some t \<Rightarrow> isTouchedFileRanges t)"

definition matches_schema :: "agent_plan \<Rightarrow> bool" where
  "matches_schema p \<longleftrightarrow>
     taskId p \<noteq> [] \<and> js_trim (objective p) \<noteq> [] \<and> list_all isValidationCommand (commands p) \<and>
     (case intent p of None \<Rightarrow> True | Some s \<Rightarrow> js_trim s \<noteq> []) \<and>
     (case claim p of None \<Rightarrow> True | Some c \<Rightarrow> isPlanClaim c)"

definition normal_declarations :: "plan_declarations \<Rightarrow> plan_declarations" where
  "normal_declarations d =
     \<lparr>decl_symbols = map_option uniqueStrings (decl_symbols d),
      decl_dependencies = map_option uniqueStrings (decl_dependencies d),
      decl_apis = map_option uniqueStrings (decl_apis d),
      decl_schemas = map_option uniqueStrings (decl_schemas d),
      decl_configKeys = map_option uniqueStrings (decl_configKeys d),
      decl_tests = map_option uniqueStrings (decl_tests d),
      decl_services = map_option uniqueStrings (decl_services d)\<rparr>"

definition assertAgentPlan :: "agent_plan \<Rightarrow> plan_error + agent_plan" where
  "assertAgentPlan p =
     (if \<not> matches_schema p then Inl SchemaMismatch
      else res_bind (lift_path (uniqueRepositoryPaths (expectedFiles p))) (\<lambda>files.
        Inr (p\<lparr>expectedFiles := files,
               expectedSymbols := uniqueStrings (expectedSymbols p),
               declared := map_option normal_declarations (declared p),
               dependencies := uniqueStrings (dependencies p),
               externalAccess := uniqueStrings (externalAccess p),
               expectedApis := map_option uniqueStrings (expectedApis p),
               expectedSchemas := map_option uniqueStrings (expectedSchemas p),
               expectedConfigKeys := map_option uniqueStrings (expectedConfigKeys p),
               expectedTests := map_option uniqueStrings (expectedTests p),
               expectedServices := map_option uniqueStrings (expectedServices p),
               intent := map_option js_trim (intent p)\<rparr>)))"

definition completeAgentPlan :: "agent_plan \<Rightarrow> agent_plan" where
  "completeAgentPlan p =
     p\<lparr>expectedApis := Some (or_empty (expectedApis p)),
       expectedSchemas := Some (or_empty (expectedSchemas p)),
       expectedConfigKeys := Some (or_empty (expectedConfigKeys p)),
       expectedTests := Some (or_empty (expectedTests p)),
       expectedServices := Some (or_empty (expectedServices p)),
       intent := Some (case intent p of Some s \<Rightarrow> s | None \<Rightarrow> objective p)\<rparr>"

section \<open>Reading a plan\<close>

definition planGroundingConfidence :: "agent_plan \<Rightarrow> grounding_confidence" where
  "planGroundingConfidence p = (case grounding p of None \<Rightarrow> Verified | Some g \<Rightarrow> confidence g)"

definition arbitrationFiles :: "agent_plan \<Rightarrow> path_error + string list" where
  "arbitrationFiles p =
     (case grounding p of
        None \<Rightarrow> Inr (expectedFiles p)
      | Some g \<Rightarrow> uniqueRepositoryPaths
          (expectedFiles p @ map file_resolved (fileReferents g) @ concat (map symbol_files (symbolReferents g))))"

definition declared_symbols :: "agent_plan \<Rightarrow> string list" where
  "declared_symbols p =
     (case declared p of
        Some d \<Rightarrow> (case decl_symbols d of Some s \<Rightarrow> s | None \<Rightarrow> expectedSymbols p)
      | None \<Rightarrow> expectedSymbols p)"

definition arbitrationSymbols :: "agent_plan \<Rightarrow> string list" where
  "arbitrationSymbols p =
     (case grounding p of
        None \<Rightarrow> declared_symbols p
      | Some g \<Rightarrow>
          (let own = set (map js_lower (declared_symbols p))
           in uniqueStrings (declared_symbols p @
                map symbol_resolved (filter (\<lambda>e. js_lower (symbol_declared e) \<in> own) (symbolReferents g)))))"

definition isBlanketClaim :: "agent_plan \<Rightarrow> bool" where
  "isBlanketClaim p \<longleftrightarrow> (case claim p of Some (Blanket _ _) \<Rightarrow> True | _ \<Rightarrow> False)"

definition claimedDirectories :: "agent_plan \<Rightarrow> string list" where
  "claimedDirectories p = (case claim p of Some (FrozenClaim ds _ _) \<Rightarrow> ds | _ \<Rightarrow> [])"

definition claimCoversPath :: "agent_plan \<Rightarrow> string \<Rightarrow> path_error + bool" where
  "claimCoversPath p file =
     (case claim p of
        None \<Rightarrow> Inr False
      | Some (Blanket _ released) \<Rightarrow> Inr (file \<notin> set (or_empty released))
      | Some (DeclaredClaim _ held) \<Rightarrow>
          res_bind (uniqueRepositoryPaths held) (\<lambda>fs. Inr (file \<in> set fs))
      | Some (FrozenClaim ds _ _) \<Rightarrow> Inr (list_ex (\<lambda>d. prefix d file) ds))"

definition claimOccupiesPath :: "agent_plan \<Rightarrow> string \<Rightarrow> path_error + bool" where
  "claimOccupiesPath p file =
     (case claim p of
        None \<Rightarrow> Inr False
      | Some (Blanket _ released) \<Rightarrow>
          res_bind (uniqueRepositoryPaths (or_empty released)) (\<lambda>fs. Inr (file \<notin> set fs))
      | Some (DeclaredClaim _ held) \<Rightarrow>
          res_bind (uniqueRepositoryPaths held) (\<lambda>fs. Inr (file \<in> set fs))
      | Some (FrozenClaim _ _ _) \<Rightarrow>
          res_bind (uniqueRepositoryPaths (expectedFiles p)) (\<lambda>fs. Inr (file \<in> set fs)))"

section \<open>Widening and narrowing\<close>

definition mergePlanScope :: "agent_plan \<Rightarrow> scope_request \<Rightarrow> plan_error + agent_plan" where
  "mergePlanScope p r =
     res_bind (lift_path (uniqueRepositoryPaths (expectedFiles p @ additionalFiles r))) (\<lambda>files.
     assertAgentPlan
       (p\<lparr>expectedFiles := files,
          expectedSymbols := uniqueStrings (expectedSymbols p @ additionalSymbols r),
          expectedApis := Some (uniqueStrings (or_empty (expectedApis p) @ additionalApis r)),
          expectedSchemas := Some (uniqueStrings (or_empty (expectedSchemas p) @ additionalSchemas r)),
          expectedConfigKeys := Some (uniqueStrings (or_empty (expectedConfigKeys p) @ additionalConfigKeys r)),
          expectedTests := Some (uniqueStrings (or_empty (expectedTests p) @ additionalTests r)),
          expectedServices := Some (uniqueStrings (or_empty (expectedServices p) @ additionalServices r)),
          declared :=
            (case declared p of
               None \<Rightarrow> None
             | Some d \<Rightarrow>
                 (case decl_symbols d of
                    None \<Rightarrow> Some d
                  | Some [] \<Rightarrow> Some d
                  | Some s \<Rightarrow> Some (d\<lparr>decl_symbols := Some (uniqueStrings (s @ additionalSymbols r))\<rparr>)))\<rparr>))"

definition resource_key :: "plan_resource \<Rightarrow> string" where
  "resource_key r = planResourceKey (resourceType r) (resourceId r)"

definition kept :: "plan_resource list \<Rightarrow> resource_type \<Rightarrow> string \<Rightarrow> bool" where
  "kept removed t v \<longleftrightarrow> planResourceKey t v \<notin> set (map resource_key removed)"

definition reduce_declarations :: "plan_resource list \<Rightarrow> plan_declarations \<Rightarrow> plan_declarations" where
  "reduce_declarations removed d =
     d\<lparr>decl_symbols := map_option (filter (kept removed Symbol)) (decl_symbols d),
       decl_apis := map_option (filter (kept removed Api)) (decl_apis d),
       decl_schemas := map_option (filter (kept removed Schema)) (decl_schemas d),
       decl_configKeys := map_option (filter (kept removed Configuration)) (decl_configKeys d),
       decl_tests := map_option (filter (kept removed Test)) (decl_tests d),
       decl_services := map_option (filter (kept removed Service)) (decl_services d)\<rparr>"

definition reduce_grounding :: "plan_resource list \<Rightarrow> plan_grounding \<Rightarrow> plan_grounding" where
  "reduce_grounding removed g =
     g\<lparr>missingFiles := filter (kept removed File) (missingFiles g),
       unresolvedSymbols := filter (kept removed Symbol) (unresolvedSymbols g),
       fileReferents := filter (\<lambda>e. kept removed File (file_declared e)) (fileReferents g),
       symbolReferents := filter (\<lambda>e. kept removed Symbol (symbol_declared e)) (symbolReferents g)\<rparr>"

definition reducePlanScope :: "agent_plan \<Rightarrow> plan_resource list \<Rightarrow> plan_error + agent_plan" where
  "reducePlanScope p removed =
     assertAgentPlan
       (p\<lparr>expectedFiles := filter (kept removed File) (expectedFiles p),
          expectedSymbols := filter (kept removed Symbol) (expectedSymbols p),
          expectedApis := map_option (filter (kept removed Api)) (expectedApis p),
          expectedSchemas := map_option (filter (kept removed Schema)) (expectedSchemas p),
          expectedConfigKeys := map_option (filter (kept removed Configuration)) (expectedConfigKeys p),
          expectedTests := map_option (filter (kept removed Test)) (expectedTests p),
          expectedServices := map_option (filter (kept removed Service)) (expectedServices p),
          declared := map_option (reduce_declarations removed) (declared p),
          grounding := map_option (reduce_grounding removed) (grounding p)\<rparr>)"

definition refs :: "resource_type \<Rightarrow> string list \<Rightarrow> plan_resource list" where
  "refs t ids = map (\<lambda>i. \<lparr>resourceType = t, resourceId = i\<rparr>) ids"

definition scopeReleaseResources :: "release_request \<Rightarrow> plan_resource list" where
  "scopeReleaseResources r =
     refs File (releasedFiles r) @ refs Symbol (releasedSymbols r) @ refs Api (releasedApis r) @
     refs Schema (releasedSchemas r) @ refs Configuration (releasedConfigKeys r) @
     refs Test (releasedTests r) @ refs Service (releasedServices r)"

section \<open>What crosses branches\<close>

definition interface_manifests :: "string list" where
  "interface_manifests =
     [''package.json'', ''package-lock.json'', ''pnpm-lock.yaml'', ''pnpm-workspace.yaml'', ''yarn.lock'',
      ''npm-shrinkwrap.json'', ''cargo.toml'', ''cargo.lock'', ''go.mod'', ''go.sum'', ''requirements.txt'',
      ''pyproject.toml'', ''poetry.lock'', ''pipfile'', ''pipfile.lock'', ''gemfile'', ''gemfile.lock'',
      ''composer.json'', ''composer.lock'', ''build.gradle'', ''build.gradle.kts'', ''pom.xml'', ''mix.exs'',
      ''pubspec.yaml'', ''pubspec.lock'']"

text \<open>
  The first regular expression asks for a whole directory segment called migration,
  migrations or migrate; its fourth alternative, db/migrate, is an instance of the third.
\<close>

definition isInterfaceFile :: "string \<Rightarrow> bool" where
  "isInterfaceFile filePath \<longleftrightarrow>
     (let normalised = forward_slashes (js_lower (js_trim filePath));
          segments = split_on CHR ''/'' normalised;
          name = last segments
      in name \<in> set interface_manifests \<or>
         list_ex (\<lambda>s. s \<in> set [''migration'', ''migrations'', ''migrate'']) (butlast segments) \<or>
         list_ex (\<lambda>x. suffix x name) [''.csproj'', ''.vbproj'', ''.fsproj''])"

record symbol_visibility =
  exported :: "string set"
  known :: "string set"

definition symbolVisibilityKey :: "string \<Rightarrow> string" where
  "symbolVisibilityKey name = js_lower (js_trim name)"

definition symbolVisibility :: "string list \<Rightarrow> string list \<Rightarrow> symbol_visibility" where
  "symbolVisibility ex kn =
     \<lparr>exported = set (map symbolVisibilityKey ex), known = set (map symbolVisibilityKey kn)\<rparr>"

definition crossesBranches :: "symbol_visibility \<Rightarrow> plan_resource \<Rightarrow> bool" where
  "crossesBranches v r =
     (case resourceType r of
        Api \<Rightarrow> True | Schema \<Rightarrow> True | Configuration \<Rightarrow> True
      | File \<Rightarrow> isInterfaceFile (resourceId r)
      | Symbol \<Rightarrow>
          (let key = symbolVisibilityKey (resourceId r) in key \<in> exported v \<or> key \<notin> known v)
      | Test \<Rightarrow> False | Service \<Rightarrow> False)"

definition plan_refs :: "agent_plan \<Rightarrow> plan_resource list" where
  "plan_refs p =
     refs File (expectedFiles p) @ refs Symbol (expectedSymbols p) @ refs Api (or_empty (expectedApis p)) @
     refs Schema (or_empty (expectedSchemas p)) @ refs Configuration (or_empty (expectedConfigKeys p)) @
     refs Test (or_empty (expectedTests p)) @ refs Service (or_empty (expectedServices p))"

definition declared_refs :: "plan_declarations option \<Rightarrow> plan_resource list" where
  "declared_refs d =
     (case d of
        None \<Rightarrow> []
      | Some d \<Rightarrow>
          refs Symbol (or_empty (decl_symbols d)) @ refs Api (or_empty (decl_apis d)) @
          refs Schema (or_empty (decl_schemas d)) @ refs Configuration (or_empty (decl_configKeys d)) @
          refs Test (or_empty (decl_tests d)) @ refs Service (or_empty (decl_services d)))"

definition interfaceScopeOf :: "agent_plan \<Rightarrow> symbol_visibility \<Rightarrow> plan_error + agent_plan option" where
  "interfaceScopeOf p v =
     (let local = filter (\<lambda>r. \<not> crossesBranches v r) (plan_refs p @ declared_refs (declared p))
      in res_bind (reducePlanScope p local) (\<lambda>reduced.
        let claims = length (expectedFiles reduced) + length (expectedSymbols reduced) +
              length (or_empty (expectedApis reduced)) + length (or_empty (expectedSchemas reduced)) +
              length (or_empty (expectedConfigKeys reduced))
        in Inr (if claims = 0 then None else Some reduced)))"

section \<open>Normal plans\<close>

text \<open>A plan the assertion leaves as it is; every plan it returns is one, unless a path got a drive letter.\<close>

definition normal_plan :: "agent_plan \<Rightarrow> bool" where
  "normal_plan p \<longleftrightarrow> assertAgentPlan p = Inr p"

definition normal_strings :: "string list \<Rightarrow> bool" where
  "normal_strings xs \<longleftrightarrow> uniqueStrings xs = xs"

definition normal_option :: "string list option \<Rightarrow> bool" where
  "normal_option xs \<longleftrightarrow> (\<forall>ys. xs = Some ys \<longrightarrow> normal_strings ys)"

lemma normal_strings_iff:
  "normal_strings xs \<longleftrightarrow> sorted xs \<and> distinct xs \<and> (\<forall>x \<in> set xs. x \<noteq> [] \<and> js_trim x = x)"
proof
  assume "normal_strings xs"
  then have e: "uniqueStrings xs = xs" by (simp add: normal_strings_def)
  have "sorted (uniqueStrings xs)" "distinct (uniqueStrings xs)"
    "\<forall>x \<in> set (uniqueStrings xs). x \<noteq> [] \<and> js_trim x = x"
    by (simp_all add: uniqueStrings_def [of xs]) auto
  then show "sorted xs \<and> distinct xs \<and> (\<forall>x \<in> set xs. x \<noteq> [] \<and> js_trim x = x)" by (simp add: e)
next
  assume r: "sorted xs \<and> distinct xs \<and> (\<forall>x \<in> set xs. x \<noteq> [] \<and> js_trim x = x)"
  then have "map js_trim xs = xs" "filter (\<lambda>s. s \<noteq> []) xs = xs" by (auto intro: map_idI filter_True)
  then show "normal_strings xs"
    using r by (simp add: normal_strings_def uniqueStrings_def sorted_unique_def distinct_remdups_id sorted_sort_id)
qed

lemma normal_strings_filter: "normal_strings xs \<Longrightarrow> normal_strings (filter P xs)"
  by (auto simp: normal_strings_iff sorted_filter [where f = id, simplified])

lemma normal_strings_unique [simp]: "normal_strings (uniqueStrings xs)"
  by (simp add: normal_strings_def)

definition normal_paths :: "string list \<Rightarrow> bool" where
  "normal_paths ps \<longleftrightarrow> sorted ps \<and> distinct ps \<and> list_all settled_path ps"

lemma normal_paths_iff: "normal_paths ps \<longleftrightarrow> uniqueRepositoryPaths ps = Inr ps"
proof
  assume "normal_paths ps"
  then show "uniqueRepositoryPaths ps = Inr ps"
    using uniqueRepositoryPaths_settled [of ps]
    by (simp add: normal_paths_def sorted_unique_def distinct_remdups_id sorted_sort_id)
next
  assume u: "uniqueRepositoryPaths ps = Inr ps"
  note law = uniqueRepositoryPaths_law [OF u]
  obtain qs where qs: "res_map normalizeRepositoryPath ps = Inr qs" "ps = sorted_unique qs"
    using u by (auto simp: uniqueRepositoryPaths_def res_bind_eq_Inr_conv)
  have "settled_path p" if p: "p \<in> set ps" for p
  proof -
    have len: "length qs = length ps" using res_map_length [OF qs(1)] .
    then have "distinct qs" using qs(2) by (metis card_distinct distinct_card law set_sorted_unique)
    obtain v where "v \<in> set ps" "normalizeRepositoryPath v = Inr p" using law p by auto
    then have "inside p \<and> CHR 0x00 \<notin> set p \<and> CHR 0x5C \<notin> set p" using normalizeRepositoryPath_inside by blast
    moreover have "\<not> drive_prefix p"
    proof
      assume d: "drive_prefix p"
      obtain q where q: "normalizeRepositoryPath p = Inr q"
        using qs(1) p unfolding res_map_Inr_iff list_all2_conv_all_nth by (auto simp: in_set_conv_nth)
      have "forward_slashes p = p"
        unfolding forward_slashes_def using calculation by (intro map_idI) auto
      then show False using q d by (auto simp: normalizeRepositoryPath_def Let_def split: if_splits)
    qed
    ultimately show ?thesis using normalizeRepositoryPath_id by (simp add: settled_path_def)
  qed
  then show "normal_paths ps" using law by (simp add: normal_paths_def list_all_iff)
qed

lemma normal_paths_filter: "normal_paths ps \<Longrightarrow> normal_paths (filter P ps)"
  by (auto simp: normal_paths_def list_all_iff sorted_filter [where f = id, simplified])

lemma map_option_fix: "map_option f x = x \<longleftrightarrow> (\<forall>y. x = Some y \<longrightarrow> f y = y)"
  by (cases x) auto

lemma normal_option_fix: "map_option uniqueStrings x = x \<longleftrightarrow> normal_option x"
  by (simp add: map_option_fix normal_option_def normal_strings_def)

definition normal_declared :: "plan_declarations \<Rightarrow> bool" where
  "normal_declared d \<longleftrightarrow>
     normal_option (decl_symbols d) \<and> normal_option (decl_dependencies d) \<and> normal_option (decl_apis d) \<and>
     normal_option (decl_schemas d) \<and> normal_option (decl_configKeys d) \<and> normal_option (decl_tests d) \<and>
     normal_option (decl_services d)"

lemma normal_declared_fix: "normal_declarations d = d \<longleftrightarrow> normal_declared d"
  by (cases d) (simp add: normal_declarations_def normal_declared_def normal_option_fix)

definition normal_fields :: "agent_plan \<Rightarrow> bool" where
  "normal_fields p \<longleftrightarrow>
     normal_paths (expectedFiles p) \<and> normal_strings (expectedSymbols p) \<and>
     (\<forall>d. declared p = Some d \<longrightarrow> normal_declared d) \<and>
     normal_strings (dependencies p) \<and> normal_strings (externalAccess p) \<and>
     normal_option (expectedApis p) \<and> normal_option (expectedSchemas p) \<and>
     normal_option (expectedConfigKeys p) \<and> normal_option (expectedTests p) \<and>
     normal_option (expectedServices p) \<and> (\<forall>s. intent p = Some s \<longrightarrow> js_trim s = s)"

lemma lift_path_eq_Inr: "lift_path m = Inr x \<longleftrightarrow> m = Inr x"
  by (cases m) auto

lemma normal_plan_iff: "normal_plan p \<longleftrightarrow> matches_schema p \<and> normal_fields p"
proof -
  have "normal_plan p \<longleftrightarrow> matches_schema p \<and> (\<exists>fs. uniqueRepositoryPaths (expectedFiles p) = Inr fs \<and>
      fs = expectedFiles p \<and> uniqueStrings (expectedSymbols p) = expectedSymbols p \<and>
      map_option normal_declarations (declared p) = declared p \<and>
      uniqueStrings (dependencies p) = dependencies p \<and> uniqueStrings (externalAccess p) = externalAccess p \<and>
      map_option uniqueStrings (expectedApis p) = expectedApis p \<and>
      map_option uniqueStrings (expectedSchemas p) = expectedSchemas p \<and>
      map_option uniqueStrings (expectedConfigKeys p) = expectedConfigKeys p \<and>
      map_option uniqueStrings (expectedTests p) = expectedTests p \<and>
      map_option uniqueStrings (expectedServices p) = expectedServices p \<and>
      map_option js_trim (intent p) = intent p)"
    by (cases p) (auto simp: normal_plan_def assertAgentPlan_def res_bind_eq_Inr_conv lift_path_eq_Inr)
  then show ?thesis
    unfolding normal_fields_def normal_paths_iff normal_option_fix [symmetric] normal_strings_def
      map_option_fix normal_declared_fix [symmetric] by (safe; simp)
qed

lemma assertAgentPlan_normal: "matches_schema p \<Longrightarrow> normal_fields p \<Longrightarrow> assertAgentPlan p = Inr p"
  using normal_plan_iff by (simp add: normal_plan_def)

section \<open>What narrowing leaves\<close>

definition reduced_plan :: "agent_plan \<Rightarrow> plan_resource list \<Rightarrow> agent_plan" where
  "reduced_plan p removed =
     p\<lparr>expectedFiles := filter (kept removed File) (expectedFiles p),
       expectedSymbols := filter (kept removed Symbol) (expectedSymbols p),
       expectedApis := map_option (filter (kept removed Api)) (expectedApis p),
       expectedSchemas := map_option (filter (kept removed Schema)) (expectedSchemas p),
       expectedConfigKeys := map_option (filter (kept removed Configuration)) (expectedConfigKeys p),
       expectedTests := map_option (filter (kept removed Test)) (expectedTests p),
       expectedServices := map_option (filter (kept removed Service)) (expectedServices p),
       declared := map_option (reduce_declarations removed) (declared p),
       grounding := map_option (reduce_grounding removed) (grounding p)\<rparr>"

lemma normal_option_filter: "normal_option xs \<Longrightarrow> normal_option (map_option (filter P) xs)"
  by (auto simp: normal_option_def normal_strings_filter)

lemma normal_declared_reduce: "normal_declared d \<Longrightarrow> normal_declared (reduce_declarations removed d)"
  by (simp add: normal_declared_def reduce_declarations_def normal_option_filter)

lemma reducePlanScope_normal:
  assumes "normal_plan p"
  shows "reducePlanScope p removed = Inr (reduced_plan p removed) \<and> normal_plan (reduced_plan p removed)"
proof -
  have n: "matches_schema p" "normal_fields p" using assms normal_plan_iff by blast+
  have "matches_schema (reduced_plan p removed)"
    using n(1) by (simp add: matches_schema_def reduced_plan_def)
  moreover have "normal_fields (reduced_plan p removed)"
    using n(2)
    by (auto simp: normal_fields_def reduced_plan_def normal_paths_filter normal_strings_filter
        normal_option_filter normal_declared_reduce)
  ultimately have "assertAgentPlan (reduced_plan p removed) = Inr (reduced_plan p removed)"
    by (rule assertAgentPlan_normal)
  then show ?thesis by (simp add: reducePlanScope_def reduced_plan_def normal_plan_def)
qed

lemma or_empty_filter [simp]: "or_empty (map_option (filter P) xs) = filter P (or_empty xs)"
  by (cases xs) simp_all

definition survives :: "plan_resource list \<Rightarrow> plan_resource \<Rightarrow> bool" where
  "survives removed r \<longleftrightarrow> resource_key r \<notin> set (map resource_key removed)"

lemma refs_filter: "refs t (filter (kept removed t) ids) = filter (survives removed) (refs t ids)"
  by (induction ids) (simp_all add: refs_def kept_def survives_def resource_key_def)

lemma reduced_refs:
  "plan_refs (reduced_plan p removed) = filter (survives removed) (plan_refs p)"
  "declared_refs (declared (reduced_plan p removed)) = filter (survives removed) (declared_refs (declared p))"
  by (simp_all add: plan_refs_def reduced_plan_def refs_filter declared_refs_def reduce_declarations_def
      split: option.split)

text \<open>What narrowing leaves alone.\<close>

lemma reduced_rest:
  "taskId (reduced_plan p removed) = taskId p" "objective (reduced_plan p removed) = objective p"
  "dependencies (reduced_plan p removed) = dependencies p" "claim (reduced_plan p removed) = claim p"
  "riskLevel (reduced_plan p removed) = riskLevel p" "commands (reduced_plan p removed) = commands p"
  by (simp_all add: reduced_plan_def)

section \<open>What another branch sees\<close>

lemma crossesBranches_key:
  "resource_key r = resource_key s \<Longrightarrow> crossesBranches v r = crossesBranches v s"
  by (auto simp: resource_key_def crossesBranches_def symbolVisibilityKey_def isInterfaceFile_def Let_def
      split: resource_type.splits)

lemma survives_local:
  assumes "set rs \<subseteq> set all"
  shows "filter (survives (filter (\<lambda>r. \<not> crossesBranches v r) all)) rs = filter (crossesBranches v) rs"
proof (rule filter_cong [OF refl])
  fix r assume "r \<in> set rs"
  then show "survives (filter (\<lambda>r. \<not> crossesBranches v r) all) r \<longleftrightarrow> crossesBranches v r"
    using assms by (auto simp: survives_def dest!: crossesBranches_key [of _ _ v])
qed

definition local_refs :: "agent_plan \<Rightarrow> symbol_visibility \<Rightarrow> plan_resource list" where
  "local_refs p v = filter (\<lambda>r. \<not> crossesBranches v r) (plan_refs p @ declared_refs (declared p))"

lemma refs_length: "length (refs t ids) = length ids"
  by (simp add: refs_def)

lemma local_kinds: "filter (crossesBranches v) (refs Test ids) = []" "filter (crossesBranches v) (refs Service ids) = []"
  by (auto simp: refs_def crossesBranches_def filter_empty_conv)

lemma interfaceScopeOf_law:
  fixes v :: symbol_visibility
  assumes "normal_plan p"
  defines "q \<equiv> reduced_plan p (local_refs p v)"
  shows "interfaceScopeOf p v = Inr (if filter (crossesBranches v) (plan_refs p) = [] then None else Some q)"
    and "normal_plan q" and "plan_refs q = filter (crossesBranches v) (plan_refs p)"
    and "declared_refs (declared q) = filter (crossesBranches v) (declared_refs (declared p))"
proof -
  show r: "plan_refs q = filter (crossesBranches v) (plan_refs p)"
    "declared_refs (declared q) = filter (crossesBranches v) (declared_refs (declared p))"
    unfolding q_def reduced_refs local_refs_def by (rule survives_local; simp)+
  show "normal_plan q" using reducePlanScope_normal [OF assms(1)] by (simp add: q_def)
  let ?n = "length (expectedFiles q) + length (expectedSymbols q) + length (or_empty (expectedApis q)) +
     length (or_empty (expectedSchemas q)) + length (or_empty (expectedConfigKeys q))"
  have "filter (crossesBranches v) (plan_refs q) = plan_refs q" by (simp add: r(1))
  then have "\<forall>x \<in> set (plan_refs q). crossesBranches v x" by (simp add: filter_id_conv)
  then have "\<forall>x \<in> set (refs Test (or_empty (expectedTests q)) @ refs Service (or_empty (expectedServices q))). crossesBranches v x"
    by (simp add: plan_refs_def)
  then have "filter (crossesBranches v) (refs Test (or_empty (expectedTests q))) = refs Test (or_empty (expectedTests q))"
      "filter (crossesBranches v) (refs Service (or_empty (expectedServices q))) = refs Service (or_empty (expectedServices q))"
    by (simp_all add: filter_id_conv)
  then have "refs Test (or_empty (expectedTests q)) = []" "refs Service (or_empty (expectedServices q)) = []"
    by (simp_all only: local_kinds)
  then have "or_empty (expectedTests q) = [] \<and> or_empty (expectedServices q) = []"
    by (simp add: refs_def)
  then have "?n = 0 \<longleftrightarrow> plan_refs q = []"
    by (auto simp: plan_refs_def refs_def)
  then show "interfaceScopeOf p v = Inr (if filter (crossesBranches v) (plan_refs p) = [] then None else Some q)"
    using reducePlanScope_normal [OF assms(1), of "local_refs p v"] r(1)
    unfolding interfaceScopeOf_def Let_def local_refs_def [symmetric] q_def [symmetric] by simp
qed

section \<open>What widening adds\<close>

definition widened_declared :: "agent_plan \<Rightarrow> scope_request \<Rightarrow> plan_declarations option" where
  "widened_declared p r =
     (case declared p of
        None \<Rightarrow> None
      | Some d \<Rightarrow>
          (case decl_symbols d of
             None \<Rightarrow> Some d
           | Some [] \<Rightarrow> Some d
           | Some s \<Rightarrow> Some (d\<lparr>decl_symbols := Some (uniqueStrings (s @ additionalSymbols r))\<rparr>)))"

definition widened_plan :: "agent_plan \<Rightarrow> scope_request \<Rightarrow> string list \<Rightarrow> agent_plan" where
  "widened_plan p r files =
     p\<lparr>expectedFiles := files,
       expectedSymbols := uniqueStrings (expectedSymbols p @ additionalSymbols r),
       expectedApis := Some (uniqueStrings (or_empty (expectedApis p) @ additionalApis r)),
       expectedSchemas := Some (uniqueStrings (or_empty (expectedSchemas p) @ additionalSchemas r)),
       expectedConfigKeys := Some (uniqueStrings (or_empty (expectedConfigKeys p) @ additionalConfigKeys r)),
       expectedTests := Some (uniqueStrings (or_empty (expectedTests p) @ additionalTests r)),
       expectedServices := Some (uniqueStrings (or_empty (expectedServices p) @ additionalServices r)),
       declared := widened_declared p r\<rparr>"

lemma widened_declared_normal:
  assumes "\<forall>d. declared p = Some d \<longrightarrow> normal_declared d" and "widened_declared p r = Some e"
  shows "normal_declared e"
  using assms by (auto simp: widened_declared_def normal_declared_def normal_option_def split: option.splits list.splits)

text \<open>
  Widening succeeds whenever the requested paths are normal already; the plan that comes
  back is normal.
\<close>

lemma mergePlanScope_normal:
  assumes "normal_plan p" and "list_all settled_path (additionalFiles r)"
  defines "files \<equiv> sorted_unique (expectedFiles p @ additionalFiles r)"
  shows "mergePlanScope p r = Inr (widened_plan p r files) \<and> normal_plan (widened_plan p r files)"
proof -
  have n: "matches_schema p" "normal_fields p" using assms(1) normal_plan_iff by blast+
  have settled: "list_all settled_path (expectedFiles p @ additionalFiles r)"
    using n(2) assms(2) by (simp add: normal_fields_def normal_paths_def)
  then have "normal_paths files"
    by (auto simp: files_def normal_paths_def list_all_iff)
  moreover have "\<forall>e. widened_declared p r = Some e \<longrightarrow> normal_declared e"
    using n(2) widened_declared_normal [of p r] unfolding normal_fields_def by blast
  moreover have "normal_option (Some (uniqueStrings xs))" for xs by (simp add: normal_option_def)
  ultimately have "normal_fields (widened_plan p r files)"
    using n(2) by (simp add: normal_fields_def widened_plan_def)
  moreover have "matches_schema (widened_plan p r files)"
    using n(1) by (simp add: matches_schema_def widened_plan_def)
  ultimately have "assertAgentPlan (widened_plan p r files) = Inr (widened_plan p r files)"
    by (intro assertAgentPlan_normal)
  then show ?thesis
    using uniqueRepositoryPaths_settled [OF settled]
    by (simp add: mergePlanScope_def widened_plan_def files_def widened_declared_def normal_plan_def)
qed

lemma trimmed_append:
  "normal_strings xs \<Longrightarrow> set (uniqueStrings (xs @ ys)) = set xs \<union> set (uniqueStrings ys)"
  by (force simp: set_uniqueStrings normal_strings_iff)

lemma widened_refs:
  assumes "normal_fields p"
  shows "set (plan_refs (widened_plan p r files)) =
     set (refs File files) \<union> {x \<in> set (plan_refs p). resourceType x \<noteq> File} \<union>
     set (refs Symbol (uniqueStrings (additionalSymbols r)) @ refs Api (uniqueStrings (additionalApis r)) @
          refs Schema (uniqueStrings (additionalSchemas r)) @
          refs Configuration (uniqueStrings (additionalConfigKeys r)) @
          refs Test (uniqueStrings (additionalTests r)) @ refs Service (uniqueStrings (additionalServices r)))"
proof -
  have o: "normal_option xs \<Longrightarrow> set (uniqueStrings (or_empty xs @ ys)) = set (or_empty xs) \<union> set (uniqueStrings ys)"
    for xs ys
    by (cases xs) (auto simp: normal_option_def trimmed_append)
  have u: "set (refs t xs) = (\<lambda>i. \<lparr>resourceType = t, resourceId = i\<rparr>) ` set xs" for t xs
    by (simp add: refs_def)
  show ?thesis
    using assms by (simp add: plan_refs_def widened_plan_def u o trimmed_append normal_fields_def image_Un) auto
qed

end
