(* ===== verification/Patches.thy ===== *)
theory Patches
  imports Path_Names Line_Ranges
begin

text \<open>
  \<open>services/repository-service/src/patch.ts\<close> and \<open>services/coordinator/src/hunks.ts\<close>: taking a
  unified diff apart, putting some of its hunks back together, and reading which base lines a
  diff changes. The abstract side is an edit script (keep, drop or add a line): the lemmas
  relate the text the code handles to the script it stands for.
\<close>

section \<open>Numbers and hunk headers\<close>

definition is_digit :: "char \<Rightarrow> bool" where
  "is_digit c \<longleftrightarrow> 48 \<le> (of_char c :: nat) \<and> (of_char c :: nat) \<le> 57"

text \<open>\<open>Number.parseInt(ds, 10)\<close> of a run of digits, and \<open>String(n)\<close>.\<close>

definition digits_value :: "string \<Rightarrow> nat" where
  "digits_value ds = foldl (\<lambda>n c. n * 10 + (of_char c - 48)) 0 ds"

fun show_nat :: "nat \<Rightarrow> string" where
  "show_nat n = (if n < 10 then [char_of (48 + n)] else show_nat (n div 10) @ [char_of (48 + n mod 10)])"

declare show_nat.simps [simp del]

definition show_int :: "int \<Rightarrow> string" where
  "show_int i = (if i < 0 then CHR ''-'' # show_nat (nat (- i)) else show_nat (nat i))"

fun strip :: "string \<Rightarrow> string \<Rightarrow> string option" where
  "strip [] s = Some s"
| "strip (p # ps) [] = None"
| "strip (p # ps) (x # s) = (if p = x then strip ps s else None)"

definition read_digits :: "string \<Rightarrow> (string \<times> string) option" where
  "read_digits s =
     (if takeWhile is_digit s = [] then None else Some (takeWhile is_digit s, dropWhile is_digit s))"

text \<open>\<open>(?:,(\d+))?\<close>\<close>

definition read_count :: "string \<Rightarrow> string option \<times> string" where
  "read_count s =
     (case s of
        c # t \<Rightarrow>
          if c = CHR '',''
          then (case read_digits t of Some (ds, u) \<Rightarrow> (Some ds, u) | None \<Rightarrow> (None, s))
          else (None, s)
      | [] \<Rightarrow> (None, s))"

text \<open>The two groups \<open>HUNK_HEADER\<close> captures at the start of a line.\<close>

definition hunk_header :: "string \<Rightarrow> (string \<times> string option) option" where
  "hunk_header line =
     Option.bind (strip ''@@ -'' line) (\<lambda>s.
     Option.bind (read_digits s) (\<lambda>(start, s1).
     Option.bind (strip '' +'' (snd (read_count s1))) (\<lambda>s2.
     Option.bind (read_digits s2) (\<lambda>(new_start, s3).
     Option.bind (strip '' @@'' (snd (read_count s3))) (\<lambda>s4.
     Some (start, fst (read_count s1)))))))"

fun index_of :: "string \<Rightarrow> string \<Rightarrow> nat option" where
  "index_of pat [] = (if pat = [] then Some 0 else None)"
| "index_of pat (x # s) = (if prefix pat (x # s) then Some 0 else map_option Suc (index_of pat s))"

text \<open>\<open>line.slice(line.indexOf("@@", 2) + 2)\<close>\<close>

definition heading_of :: "string \<Rightarrow> string" where
  "heading_of line =
     (case index_of ''@@'' (drop 2 line) of
        Some i \<Rightarrow> drop (i + 4) line
      | None \<Rightarrow> drop 1 line)"

definition starts_with :: "char \<Rightarrow> string \<Rightarrow> bool" where
  "starts_with c s \<longleftrightarrow> (case s of x # _ \<Rightarrow> x = c | [] \<Rightarrow> False)"

definition header_start :: "string \<times> string option \<Rightarrow> int" where
  "header_start m = int (digits_value (fst m))"

definition header_count :: "string \<times> string option \<Rightarrow> int" where
  "header_count m = (case snd m of None \<Rightarrow> 1 | Some ds \<Rightarrow> int (digits_value ds))"

section \<open>Taking a patch apart\<close>

record parsed_hunk =
  oldStart :: int
  oldCount :: int
  newCount :: int
  heading :: string
  body :: "string list"

record parsed_patch =
  preamble :: "string list"
  hunks :: "parsed_hunk list"
  trailingNewline :: bool

definition body_start :: "string \<Rightarrow> bool" where
  "body_start line \<longleftrightarrow> starts_with CHR '' '' line \<or> starts_with CHR ''+'' line \<or> starts_with CHR ''-'' line \<or> line = []"

text \<open>The loop over the lines. The hunk being read is the last one pushed.\<close>

fun parse_lines :: "string list \<Rightarrow> string list \<Rightarrow> parsed_hunk list \<Rightarrow> (string list \<times> parsed_hunk list) option" where
  "parse_lines [] pre hs = Some (pre, hs)"
| "parse_lines (line # lines) pre hs =
     (case hunk_header line of
        Some m \<Rightarrow>
          if \<not> is_safe_integer (header_start m) \<or> \<not> is_safe_integer (header_count m) then None
          else parse_lines lines pre
            (hs @ [\<lparr>oldStart = header_start m, oldCount = header_count m, newCount = 0,
                   heading = heading_of line, body = []\<rparr>])
      | None \<Rightarrow>
          if hs = [] then parse_lines lines (pre @ [line]) hs
          else if starts_with CHR 0x5C line then None
          else if \<not> body_start line then None
          else parse_lines lines pre (butlast hs @ [(last hs)\<lparr>body := body (last hs) @ [line]\<rparr>]))"

definition old_lines :: "string list \<Rightarrow> int" where
  "old_lines ls = int (length (filter (\<lambda>l. \<not> starts_with CHR ''+'' l) ls))"

definition new_lines :: "string list \<Rightarrow> int" where
  "new_lines ls = int (length (filter (\<lambda>l. \<not> starts_with CHR ''-'' l) ls))"

definition parseUnifiedPatch :: "string \<Rightarrow> parsed_patch option" where
  "parseUnifiedPatch patch =
     (let trailing = (patch \<noteq> [] \<and> last patch = CHR 0x0A);
          lines = split_on CHR 0x0A (if trailing then butlast patch else patch)
      in Option.bind (parse_lines lines [] []) (\<lambda>(pre, hs).
         if hs = [] then None
         else if \<not> list_all (\<lambda>h. old_lines (body h) = oldCount h) hs then None
         else Some \<lparr>preamble = pre, hunks = map (\<lambda>h. h\<lparr>newCount := new_lines (body h)\<rparr>) hs,
                     trailingNewline = trailing\<rparr>))"

section \<open>Putting hunks together\<close>

definition new_start :: "int \<Rightarrow> parsed_hunk \<Rightarrow> int" where
  "new_start delta h =
     (if oldCount h = 0 then oldStart h + delta + 1
      else if newCount h = 0 then max 0 (oldStart h + delta - 1)
      else oldStart h + delta)"

definition emit_header :: "int \<Rightarrow> parsed_hunk \<Rightarrow> string" where
  "emit_header delta h =
     ''@@ -'' @ show_int (oldStart h) @ '','' @ show_int (oldCount h) @ '' +'' @
     show_int (new_start delta h) @ '','' @ show_int (newCount h) @ '' @@'' @ heading h"

fun emit_hunks :: "int \<Rightarrow> parsed_hunk list \<Rightarrow> string list" where
  "emit_hunks delta [] = []"
| "emit_hunks delta (h # hs) =
     emit_header delta h # body h @ emit_hunks (delta + newCount h - oldCount h) hs"

definition emitPatch :: "parsed_patch \<Rightarrow> parsed_hunk list \<Rightarrow> string" where
  "emitPatch p hs =
     (let out = join_with CHR 0x0A (preamble p @ emit_hunks 0 hs)
      in if trailingNewline p then out @ [CHR 0x0A] else out)"

section \<open>Which base lines a patch changes\<close>

text \<open>The loop of \<open>patchedLineRanges\<close>: whether a hunk is being read, and the next base line.\<close>

fun walk_lines :: "string list \<Rightarrow> bool \<Rightarrow> int \<Rightarrow> line_range list" where
  "walk_lines [] inHunk oldLine = []"
| "walk_lines (line # lines) inHunk oldLine =
     (case hunk_header line of
        Some m \<Rightarrow>
          walk_lines lines (is_safe_integer (header_start m) \<and> is_safe_integer (header_count m))
            (if header_count m = 0 then header_start m + 1 else header_start m)
      | None \<Rightarrow>
          if \<not> inHunk \<or> starts_with CHR 0x5C line then walk_lines lines inHunk oldLine
          else if starts_with CHR ''-'' line then
            \<lparr>startLine = oldLine, endLine = oldLine\<rparr> # walk_lines lines inHunk (oldLine + 1)
          else if starts_with CHR ''+'' line then
            \<lparr>startLine = max 1 (oldLine - 1), endLine = max 1 oldLine\<rparr> # walk_lines lines inHunk oldLine
          else if starts_with CHR '' '' line \<or> line = [] then walk_lines lines inHunk (oldLine + 1)
          else walk_lines lines False oldLine)"

definition patchedLineRanges :: "string \<Rightarrow> line_range list" where
  "patchedLineRanges patch = walk_lines (split_on CHR 0x0A patch) False 0"

record patch_division =
  granted_part :: "string option"
  deferred_part :: "string option"
  grantedHunks :: nat
  deferredHunks :: nat

definition hunk_reaches :: "parsed_patch \<Rightarrow> line_range list \<Rightarrow> parsed_hunk \<Rightarrow> bool" where
  "hunk_reaches parsed withheld h \<longleftrightarrow>
     list_ex (\<lambda>r. list_ex (\<lambda>held. rangesOverlap r held) withheld)
       (patchedLineRanges (emitPatch (parsed\<lparr>preamble := [], trailingNewline := False\<rparr>) [h]))"

definition dividePatchByRanges :: "string \<Rightarrow> line_range list \<Rightarrow> patch_division option" where
  "dividePatchByRanges patch withheld =
     (if withheld = [] then None
      else Option.bind (parseUnifiedPatch patch) (\<lambda>parsed.
        let grant = filter (\<lambda>h. \<not> hunk_reaches parsed withheld h) (hunks parsed);
            defer_hunks = filter (hunk_reaches parsed withheld) (hunks parsed)
        in Some \<lparr>granted_part = (if grant = [] then None else Some (emitPatch parsed grant)),
                 deferred_part = (if defer_hunks = [] then None else Some (emitPatch parsed defer_hunks)),
                 grantedHunks = length grant, deferredHunks = length defer_hunks\<rparr>))"

type_synonym named_range = "string \<times> line_range"

definition namesTouchedByPatch :: "string \<Rightarrow> named_range list option \<Rightarrow> string list \<Rightarrow> string list" where
  "namesTouchedByPatch patch ranges candidates =
     (case ranges of
        None \<Rightarrow> sorted_unique candidates
      | Some rs \<Rightarrow>
          (let touched = patchedLineRanges patch
           in sorted_unique (map fst (filter (\<lambda>(name, r). name \<in> set candidates \<and>
                list_ex (\<lambda>h. rangesOverlap h r) touched) rs))))"

end
