(* ===== verification/Patch_Laws.thy ===== *)
theory Patch_Laws
  imports Patches
begin

text \<open>
  What the patch code does, in three layers: numbers and headers are read back as they were
  written; a parsed patch is well formed and is read back after any of its hunks are emitted; and
  the text stands for an edit script, whose untouched lines survive in place.
\<close>

section \<open>Numbers\<close>

lemma of_char_digit: "d < 10 \<Longrightarrow> (of_char (char_of (48 + d) :: char) :: nat) = 48 + d" for d :: nat
  by (simp add: of_char_of)

lemma is_digit_char_of [simp]: "d < 10 \<Longrightarrow> is_digit (char_of (48 + d))" for d :: nat
  by (simp add: is_digit_def of_char_digit del: of_char_of)

lemma show_nat_digits: "list_all is_digit (show_nat n) \<and> show_nat n \<noteq> []"
proof (induction n rule: show_nat.induct)
  case (1 n)
  then show ?case by (subst show_nat.simps, subst (2) show_nat.simps) auto
qed

lemma show_nat_value [simp]: "digits_value (show_nat n) = n"
proof (induction n rule: show_nat.induct)
  case (1 n)
  show ?case
  proof (cases "n < 10")
    case True
    then show ?thesis by (subst show_nat.simps) (simp add: digits_value_def of_char_digit del: of_char_of)
  next
    case False
    then have "digits_value (show_nat (n div 10)) = n div 10" using 1 by simp
    then have "digits_value (show_nat (n div 10) @ [char_of (48 + n mod 10)]) = (n div 10) * 10 + n mod 10"
      by (simp add: digits_value_def of_char_digit del: of_char_of)
    then show ?thesis using False by (subst show_nat.simps) simp
  qed
qed

definition no_digit_first :: "string \<Rightarrow> bool" where
  "no_digit_first s \<longleftrightarrow> (case s of c # _ \<Rightarrow> \<not> is_digit c | [] \<Rightarrow> True)"

lemma read_digits_show:
  assumes "no_digit_first s"
  shows "read_digits (show_nat n @ s) = Some (show_nat n, s)"
proof -
  have all: "\<forall>c \<in> set (show_nat n). is_digit c" and ne: "show_nat n \<noteq> []"
    using show_nat_digits [of n] by (auto simp: list_all_iff)
  have "takeWhile is_digit s = []" "dropWhile is_digit s = s"
    using assms by (cases s; simp add: no_digit_first_def)+
  then have "takeWhile is_digit (show_nat n @ s) = show_nat n" "dropWhile is_digit (show_nat n @ s) = s"
    using all by (simp_all add: takeWhile_append2 dropWhile_append2)
  then show ?thesis using ne by (simp add: read_digits_def)
qed

lemma strip_append [simp]: "strip p (p @ s) = Some s"
  by (induction p) simp_all

lemma strip_SomeD: "strip p s = Some t \<Longrightarrow> s = p @ t"
  by (induction p s rule: strip.induct) (auto split: if_splits)

section \<open>Headers\<close>

lemma index_of_skip:
  assumes "c \<notin> set u"
  shows "index_of [c, d] (u @ c # d # s) = Some (length u)"
  using assms by (induction u) auto

lemma heading_of_marked: "CHR ''@'' \<notin> set u \<Longrightarrow> heading_of (''@@'' @ u @ ''@@'' @ s) = s"
  using index_of_skip [of "CHR ''@''" u "CHR ''@''" s] by (simp add: heading_of_def eval_nat_numeral)

lemma set_show_nat: "c \<in> set (show_nat n) \<Longrightarrow> is_digit c"
  using show_nat_digits [of n] by (auto simp: list_all_iff)

lemma show_int_nonneg: "0 \<le> i \<Longrightarrow> show_int i = show_nat (nat i)"
  by (simp add: show_int_def)

lemma at_not_digit: "\<not> is_digit CHR ''@''" "\<not> is_digit CHR '' ''" "\<not> is_digit CHR '',''" "\<not> is_digit CHR 0x0A"
  by (simp_all add: is_digit_def)

definition emitted_match :: "parsed_hunk \<Rightarrow> string \<times> string option" where
  "emitted_match h = (show_nat (nat (oldStart h)), Some (show_nat (nat (oldCount h))))"

lemma emit_header_nonneg:
  assumes "0 \<le> oldStart h" "0 \<le> oldCount h" "0 \<le> newCount h" "0 \<le> new_start delta h"
  shows "emit_header delta h =
    ''@@ -'' @ show_nat (nat (oldStart h)) @ CHR '','' # show_nat (nat (oldCount h)) @ '' +'' @
    show_nat (nat (new_start delta h)) @ CHR '','' # show_nat (nat (newCount h)) @ '' @@'' @ heading h"
  using assms by (simp add: emit_header_def show_int_nonneg)

lemma emit_header_matches:
  assumes "0 \<le> oldStart h" "0 \<le> oldCount h" "0 \<le> newCount h" "0 \<le> new_start delta h"
  shows "hunk_header (emit_header delta h) = Some (emitted_match h)"
proof -
  have nd: "no_digit_first (c # s) \<longleftrightarrow> \<not> is_digit c" for c s by (simp add: no_digit_first_def)
  show ?thesis
    unfolding emit_header_nonneg [OF assms] hunk_header_def emitted_match_def
    by (simp add: strip_append read_digits_show nd at_not_digit read_count_def)
qed

lemma emit_header_negative:
  assumes "0 \<le> oldStart h" "0 \<le> oldCount h" "new_start delta h < 0"
  shows "hunk_header (emit_header delta h) = None"
proof -
  have nd: "no_digit_first (c # s) \<longleftrightarrow> \<not> is_digit c" for c s by (simp add: no_digit_first_def)
  have "read_digits (CHR ''-'' # s) = None" for s by (simp add: read_digits_def is_digit_def)
  then show ?thesis
    unfolding emit_header_def hunk_header_def using assms
    by (simp add: strip_append read_digits_show nd at_not_digit read_count_def show_int_nonneg)
       (simp add: show_int_def)
qed

lemma heading_of_emitted:
  assumes "0 \<le> oldStart h" "0 \<le> oldCount h" "0 \<le> newCount h" "0 \<le> new_start delta h"
  shows "heading_of (emit_header delta h) = heading h"
proof -
  let ?u = "'' -'' @ show_nat (nat (oldStart h)) @ CHR '','' # show_nat (nat (oldCount h)) @ '' +'' @
    show_nat (nat (new_start delta h)) @ CHR '','' # show_nat (nat (newCount h)) @ '' ''"
  have shape: "emit_header delta h = ''@@'' @ ?u @ ''@@'' @ heading h"
    by (simp add: emit_header_nonneg [OF assms])
  have "CHR ''@'' \<notin> set ?u" by (auto dest: set_show_nat simp: at_not_digit)
  then show ?thesis unfolding shape by (rule heading_of_marked)
qed

lemma emitted_match_values [simp]:
  "0 \<le> oldStart h \<Longrightarrow> header_start (emitted_match h) = oldStart h"
  "0 \<le> oldCount h \<Longrightarrow> header_count (emitted_match h) = oldCount h"
  by (simp_all add: emitted_match_def header_start_def header_count_def)

lemma hunk_header_SomeD: "hunk_header l = Some m \<Longrightarrow> take 4 l = ''@@ -''"
  by (auto simp: hunk_header_def bind_eq_Some_conv dest!: strip_SomeD)

lemma hunk_header_body: "body_start l \<Longrightarrow> hunk_header l = None"
  by (cases "hunk_header l"; cases l) (auto dest!: hunk_header_SomeD simp: body_start_def starts_with_def)

lemma hunk_header_backslash: "starts_with CHR 0x5C l \<Longrightarrow> hunk_header l = None"
  by (cases "hunk_header l"; cases l) (auto dest!: hunk_header_SomeD simp: starts_with_def)

lemma body_start_plain: "body_start l \<Longrightarrow> \<not> starts_with CHR 0x5C l"
  by (cases l) (auto simp: body_start_def starts_with_def)

section \<open>Well-formed patches\<close>

definition line_ok :: "string \<Rightarrow> bool" where
  "line_ok l \<longleftrightarrow> body_start l \<and> CHR 0x0A \<notin> set l"

definition raw_ok :: "parsed_hunk \<Rightarrow> bool" where
  "raw_ok h \<longleftrightarrow> 0 \<le> oldStart h \<and> is_safe_integer (oldStart h) \<and> 0 \<le> oldCount h \<and> is_safe_integer (oldCount h) \<and>
     list_all line_ok (body h) \<and> CHR 0x0A \<notin> set (heading h)"

definition hunk_ok :: "parsed_hunk \<Rightarrow> bool" where
  "hunk_ok h \<longleftrightarrow> raw_ok h \<and> oldCount h = old_lines (body h) \<and> newCount h = new_lines (body h)"

definition preamble_ok :: "string list \<Rightarrow> bool" where
  "preamble_ok pre \<longleftrightarrow> list_all (\<lambda>l. hunk_header l = None \<and> CHR 0x0A \<notin> set l) pre"

definition patch_ok :: "parsed_patch \<Rightarrow> bool" where
  "patch_ok p \<longleftrightarrow> preamble_ok (preamble p) \<and> hunks p \<noteq> [] \<and> list_all hunk_ok (hunks p)"

lemma old_lines_simps [simp]:
  "old_lines [] = 0" "old_lines (ls @ ms) = old_lines ls + old_lines ms"
  "old_lines (l # ls) = (if starts_with CHR ''+'' l then 0 else 1) + old_lines ls" "0 \<le> old_lines ls"
  by (simp_all add: old_lines_def)

lemma new_lines_simps [simp]:
  "new_lines [] = 0" "new_lines (ls @ ms) = new_lines ls + new_lines ms"
  "new_lines (l # ls) = (if starts_with CHR ''-'' l then 0 else 1) + new_lines ls" "0 \<le> new_lines ls"
  by (simp_all add: new_lines_def)

lemma hunk_okD [dest]:
  "hunk_ok h \<Longrightarrow> 0 \<le> oldStart h \<and> 0 \<le> oldCount h \<and> 0 \<le> newCount h \<and>
     oldCount h = old_lines (body h) \<and> newCount h = new_lines (body h) \<and> list_all body_start (body h)"
  by (auto simp: hunk_ok_def raw_ok_def line_ok_def list_all_iff)

lemma heading_chars: "set (heading_of l) \<subseteq> set l"
  by (auto simp: heading_of_def dest: in_set_dropD split: option.splits)

lemma header_nonneg [simp]: "0 \<le> header_start m" "0 \<le> header_count m"
  by (auto simp: header_start_def header_count_def split: option.splits)

lemma raw_ok_extend:
  assumes "list_all raw_ok hs" "hs \<noteq> []" "line_ok l"
  shows "list_all raw_ok (butlast hs @ [(last hs)\<lparr>body := body (last hs) @ [l]\<rparr>])"
proof -
  have "raw_ok (last hs)" "list_all raw_ok (butlast hs)"
    using assms by (auto simp: list_all_iff dest: in_set_butlastD)
  then show ?thesis using assms by (simp add: raw_ok_def)
qed

lemma parse_lines_ok:
  assumes "parse_lines ls pre hs = Some (pre', hs')"
    and "\<forall>l \<in> set ls. CHR 0x0A \<notin> set l" and "preamble_ok pre" and "list_all raw_ok hs"
  shows "preamble_ok pre' \<and> list_all raw_ok hs'"
  using assms
proof (induction ls pre hs rule: parse_lines.induct)
  case (2 line ls pre hs)
  show ?case
  proof (cases "hunk_header line")
    case (Some m)
    let ?h = "\<lparr>oldStart = header_start m, oldCount = header_count m, newCount = 0, heading = heading_of line, body = []\<rparr>"
    have "raw_ok ?h" if "is_safe_integer (header_start m)" "is_safe_integer (header_count m)"
      using that 2 heading_chars [of line] by (auto simp: raw_ok_def)
    then show ?thesis using 2 Some by (auto split: if_splits)
  next
    case None
    then show ?thesis
      using 2 raw_ok_extend [of hs line] by (auto simp: preamble_ok_def line_ok_def split: if_splits)
  qed
qed auto

lemma parse_law:
  assumes "parseUnifiedPatch s = Some p"
  shows "patch_ok p"
proof -
  define ls where "ls = split_on CHR 0x0A (if s \<noteq> [] \<and> last s = CHR 0x0A then butlast s else s)"
  obtain pre hs where parsed: "parse_lines ls [] [] = Some (pre, hs)" "hs \<noteq> []"
    and counts: "list_all (\<lambda>h. old_lines (body h) = oldCount h) hs"
    and p: "preamble p = pre" "hunks p = map (\<lambda>h. h\<lparr>newCount := new_lines (body h)\<rparr>) hs"
    using assms by (auto simp: parseUnifiedPatch_def Let_def ls_def bind_eq_Some_conv split: if_splits)
  have "\<forall>l \<in> set ls. CHR 0x0A \<notin> set l"
    unfolding ls_def using split_on_member by metis
  from parse_lines_ok [OF parsed(1) this]
  have "preamble_ok pre" "list_all raw_ok hs" by (simp_all add: preamble_ok_def)
  then show ?thesis using parsed(2) counts
    by (auto simp: patch_ok_def p hunk_ok_def raw_ok_def list_all_iff)
qed

section \<open>The lines a patch changes, hunk by hunk\<close>

definition hunk_line :: "parsed_hunk \<Rightarrow> int" where
  "hunk_line h = (if oldCount h = 0 then oldStart h + 1 else oldStart h)"

lemma hunk_line_body [simp]: "hunk_line (h\<lparr>body := b\<rparr>) = hunk_line h"
  by (simp add: hunk_line_def)

definition hunk_touched :: "parsed_hunk \<Rightarrow> line_range list" where
  "hunk_touched h = walk_lines (body h) True (hunk_line h)"

lemma hunk_newCount [simp]:
  "hunk_line (h\<lparr>newCount := k\<rparr>) = hunk_line h" "hunk_touched (h\<lparr>newCount := k\<rparr>) = hunk_touched h"
  by (simp_all add: hunk_line_def hunk_touched_def)

lemma walk_body:
  "list_all body_start b \<Longrightarrow>
     walk_lines (b @ rest) True n = walk_lines b True n @ walk_lines rest True (n + old_lines b)"
proof (induction b arbitrary: n)
  case (Cons l b)
  then have "hunk_header l = None" "\<not> starts_with CHR 0x5C l" "body_start l"
    by (simp_all add: hunk_header_body body_start_plain)
  then show ?case using Cons
    by (cases l) (auto simp: body_start_def starts_with_def algebra_simps)
qed simp

lemma walk_last_empty [simp]: "walk_lines (ls @ [[]]) inHunk n = walk_lines ls inHunk n"
proof (induction ls inHunk n rule: walk_lines.induct)
  case (1 inHunk oldLine)
  have "hunk_header [] = None" by (simp add: hunk_header_def)
  then show ?case by (simp add: starts_with_def)
qed (auto split: option.splits)

lemma walk_preamble:
  "list_all (\<lambda>l. hunk_header l = None) pre \<Longrightarrow> walk_lines (pre @ ls) False n = walk_lines ls False n"
  by (induction pre) auto

lemma concat_map_last: "hs \<noteq> [] \<Longrightarrow> concat (map f hs) = concat (map f (butlast hs)) @ f (last hs)"
  by (induction hs) auto

lemma parse_lines_walk:
  assumes "parse_lines ls pre hs = Some (pre', hs')" and "list_all raw_ok hs" and "\<forall>l \<in> set ls. CHR 0x0A \<notin> set l"
  shows "concat (map hunk_touched hs') = concat (map hunk_touched hs) @
     walk_lines ls (hs \<noteq> []) (if hs = [] then m else hunk_line (last hs) + old_lines (body (last hs)))"
  using assms
proof (induction ls pre hs arbitrary: m rule: parse_lines.induct)
  case (2 line ls pre hs)
  show ?case
  proof (cases "hunk_header line")
    case (Some h)
    let ?h = "\<lparr>oldStart = header_start h, oldCount = header_count h, newCount = 0, heading = heading_of line, body = []\<rparr>"
    have safe: "is_safe_integer (header_start h)" "is_safe_integer (header_count h)"
      using 2 Some by (auto split: if_splits)
    moreover have "raw_ok ?h" using safe 2 heading_chars [of line] by (auto simp: raw_ok_def)
    ultimately show ?thesis using 2 Some by (auto simp: hunk_touched_def hunk_line_def)
  next
    case None
    show ?thesis
    proof (cases "hs = []")
      case True
      then show ?thesis using 2 None by simp
    next
      case False
      have ok: "body_start line" "\<not> starts_with CHR 0x5C line" "line_ok line"
        using 2 None False by (auto simp: line_ok_def split: if_splits)
      let ?l = "last hs"
      let ?hs = "butlast hs @ [?l\<lparr>body := body ?l @ [line]\<rparr>]"
      have rest: "parse_lines ls pre ?hs = Some (pre', hs')"
        using 2 None False ok by simp
      have "raw_ok ?l" using 2 False by (simp add: list_all_iff)
      then have bodies: "list_all body_start (body ?l)" by (auto simp: raw_ok_def line_ok_def list_all_iff)
      have touched: "concat (map hunk_touched ?hs) = concat (map hunk_touched hs) @
          walk_lines [line] True (hunk_line ?l + old_lines (body ?l))"
      proof -
        have "concat (map hunk_touched hs) = concat (map hunk_touched (butlast hs)) @ hunk_touched ?l"
          using False by (rule concat_map_last)
        then show ?thesis
          using walk_body [OF bodies, of "[line]"]
          by (simp add: hunk_touched_def hunk_line_def del: walk_lines.simps)
      qed
      have "list_all raw_ok ?hs" using raw_ok_extend [of hs line] 2 False ok by simp
      then have "concat (map hunk_touched hs') = concat (map hunk_touched ?hs) @
          walk_lines ls True (hunk_line ?l + old_lines (body ?l @ [line]))"
        using 2(2) [OF None False ok(2)] ok(1) rest \<open>\<forall>l \<in> set (line # ls). CHR 0x0A \<notin> set l\<close> by (simp add: add.assoc)
      moreover have "walk_lines (line # ls) (hs \<noteq> []) (if hs = [] then m else hunk_line ?l + old_lines (body ?l)) =
          walk_lines [line] True (hunk_line ?l + old_lines (body ?l)) @
          walk_lines ls True (hunk_line ?l + old_lines (body ?l @ [line]))"
        using walk_body [of "[line]" ls] ok False by (simp add: add.assoc del: walk_lines.simps)
      ultimately show ?thesis using touched by (simp del: walk_lines.simps)
    qed
  qed
next
  case (1 pre hs)
  then show ?case by simp
qed

lemma split_on_snoc: "split_on c (s @ [c]) = split_on c s @ [[]]"
proof (induction s)
  case (Cons x s)
  then show ?case by (cases "split_on c s") auto
qed simp

text \<open>A patch that can be taken apart changes what its hunks change.\<close>

lemma patched_hunks:
  assumes "parseUnifiedPatch s = Some p"
  shows "patchedLineRanges s = concat (map hunk_touched (hunks p))"
proof -
  define t where "t = (if s \<noteq> [] \<and> last s = CHR 0x0A then butlast s else s)"
  obtain pre hs where parsed: "parse_lines (split_on CHR 0x0A t) [] [] = Some (pre, hs)"
    and p: "hunks p = map (\<lambda>h. h\<lparr>newCount := new_lines (body h)\<rparr>) hs"
    using assms by (auto simp: parseUnifiedPatch_def Let_def t_def bind_eq_Some_conv split: if_splits)
  have "\<forall>l \<in> set (split_on CHR 0x0A t). CHR 0x0A \<notin> set l" using split_on_member by metis
  from parse_lines_walk [OF parsed _ this, of 0]
  have "concat (map hunk_touched hs) = walk_lines (split_on CHR 0x0A t) False 0" by simp
  also have "\<dots> = patchedLineRanges s"
  proof (cases "s \<noteq> [] \<and> last s = CHR 0x0A")
    case True
    then have "s = t @ [CHR 0x0A]" by (metis append_butlast_last_id t_def)
    then show ?thesis by (simp add: patchedLineRanges_def split_on_snoc)
  qed (auto simp: patchedLineRanges_def t_def)
  finally show ?thesis by (simp add: p o_def)
qed

section \<open>Emitting hunks\<close>

definition newline_free :: "string list \<Rightarrow> bool" where
  "newline_free ls \<longleftrightarrow> list_all (\<lambda>l. CHR 0x0A \<notin> set l) ls"

lemma set_show_int: "c \<in> set (show_int i) \<Longrightarrow> is_digit c \<or> c = CHR ''-''"
  by (auto simp: show_int_def dest: set_show_nat split: if_splits)

lemma emit_header_line: "CHR 0x0A \<notin> set (heading h) \<Longrightarrow> CHR 0x0A \<notin> set (emit_header delta h)"
  by (auto simp: emit_header_def at_not_digit dest!: set_show_int)

lemma emit_hunks_lines: "list_all hunk_ok hs \<Longrightarrow> newline_free (emit_hunks delta hs)"
proof (induction hs arbitrary: delta)
  case (Cons h hs)
  then have "newline_free (emit_hunks (delta + newCount h - oldCount h) hs)" "hunk_ok h" by simp_all
  then show ?case
    by (auto simp: newline_free_def hunk_ok_def raw_ok_def line_ok_def list_all_iff emit_header_line)
qed (simp add: newline_free_def)

lemma emitted_lines:
  assumes "preamble_ok (preamble p)" "list_all hunk_ok hs" "hs \<noteq> []"
  shows "split_on CHR 0x0A (emitPatch p hs) =
     preamble p @ emit_hunks 0 hs @ (if trailingNewline p then [[]] else [])"
proof -
  have ne: "preamble p @ emit_hunks 0 hs \<noteq> []" using assms(3) by (cases hs) simp_all
  moreover have "\<forall>l \<in> set (preamble p @ emit_hunks 0 hs). CHR 0x0A \<notin> set l"
    using assms(1) emit_hunks_lines [OF assms(2), of 0] by (auto simp: preamble_ok_def newline_free_def list_all_iff)
  ultimately show ?thesis by (simp add: emitPatch_def Let_def split_on_snoc split_join)
qed

text \<open>
  Whatever their order, emitted hunks claim no line their originals did not: a hunk whose new
  start would be negative is not recognised at all.
\<close>

lemma walk_skips: "list_all body_start b \<Longrightarrow> walk_lines (b @ rest) False n = walk_lines rest False n"
  by (induction b) (auto simp: hunk_header_body)

lemma emit_header_not_body:
  "\<not> starts_with CHR 0x5C (emit_header d h)" "\<not> starts_with CHR ''-'' (emit_header d h)"
  "\<not> starts_with CHR ''+'' (emit_header d h)" "\<not> starts_with CHR '' '' (emit_header d h)" "emit_header d h \<noteq> []"
  by (simp_all add: emit_header_def starts_with_def)

lemma walk_emitted_hunk:
  assumes "hunk_ok h" "0 \<le> new_start d h"
  shows "walk_lines (emit_header d h # body h @ rest) b n =
     hunk_touched h @ walk_lines rest True (hunk_line h + old_lines (body h))"
  using assms hunk_okD [OF assms(1)] emit_header_matches [of h d]
  by (simp add: hunk_touched_def walk_body hunk_line_def hunk_ok_def raw_ok_def)

lemma walk_emitted_within:
  "list_all hunk_ok hs \<Longrightarrow> set (walk_lines (emit_hunks d hs) b n) \<subseteq> set (concat (map hunk_touched hs))"
proof (induction hs arbitrary: d b n)
  case (Cons h hs)
  let ?rest = "emit_hunks (d + newCount h - oldCount h) hs"
  have ok: "hunk_ok h" using Cons by simp
  show ?case
  proof (cases "0 \<le> new_start d h")
    case True
    then show ?thesis using Cons walk_emitted_hunk [OF ok True, of ?rest b n] by auto
  next
    case False
    then have "hunk_header (emit_header d h) = None"
      using emit_header_negative [of h d] hunk_okD [OF ok] by simp
    then have "walk_lines (emit_hunks d (h # hs)) b n = walk_lines ?rest False n"
      using walk_skips [of "body h"] hunk_okD [OF ok] by (auto simp: emit_header_not_body)
    then show ?thesis using Cons by auto
  qed
qed simp

lemma patched_emitted_within:
  assumes "preamble_ok (preamble p)" "list_all hunk_ok hs" "hs \<noteq> []"
  shows "set (patchedLineRanges (emitPatch p hs)) \<subseteq> set (concat (map hunk_touched hs))"
proof -
  have "patchedLineRanges (emitPatch p hs) = walk_lines (emit_hunks 0 hs) False 0"
    using emitted_lines [OF assms] assms(1) walk_preamble [of "preamble p"]
    by (simp add: patchedLineRanges_def preamble_ok_def list_all_iff flip: append_assoc)
  then show ?thesis using walk_emitted_within [OF assms(2)] by simp
qed

lemma hunk_reaches_touched:
  assumes "hunk_ok h"
  shows "hunk_reaches p withheld h \<longleftrightarrow>
     list_ex (\<lambda>r. list_ex (\<lambda>held. rangesOverlap r held) withheld) (hunk_touched h)"
proof -
  have "0 \<le> new_start 0 h" using hunk_okD [OF assms] by (simp add: new_start_def)
  moreover have "patchedLineRanges (emitPatch (p\<lparr>preamble := [], trailingNewline := False\<rparr>) [h]) =
      walk_lines (emit_header 0 h # body h @ []) False 0"
    using emitted_lines [of "p\<lparr>preamble := [], trailingNewline := False\<rparr>" "[h]"] assms
    by (simp add: patchedLineRanges_def preamble_ok_def)
  ultimately show ?thesis
    using walk_emitted_hunk [OF assms, of 0 "[]"] by (simp add: hunk_reaches_def del: walk_lines.simps(2))
qed

section \<open>Reading emitted hunks back\<close>

definition in_order :: "parsed_hunk list \<Rightarrow> bool" where
  "in_order hs \<longleftrightarrow> sorted_wrt (\<lambda>a b. oldStart a + oldCount a \<le> oldStart b) hs"

lemma in_order_simps [simp]:
  "in_order []"
  "in_order (h # hs) \<longleftrightarrow> (\<forall>k \<in> set hs. oldStart h + oldCount h \<le> oldStart k) \<and> in_order hs"
  by (simp_all add: in_order_def)

lemma in_order_filter: "in_order hs \<Longrightarrow> in_order (filter P hs)"
  by (simp add: in_order_def sorted_wrt_filter)

lemma parse_body:
  "list_all line_ok b \<Longrightarrow>
     parse_lines (b @ rest) pre (hs @ [h]) = parse_lines rest pre (hs @ [h\<lparr>body := body h @ b\<rparr>])"
proof (induction b arbitrary: h)
  case (Cons l b)
  then have "body_start l" by (simp add: line_ok_def)
  then show ?case using Cons by (simp add: hunk_header_body body_start_plain)
qed simp

lemma parse_emitted_hunk:
  assumes "hunk_ok h" "0 \<le> new_start d h"
  shows "parse_lines (emit_header d h # body h @ rest) pre hs = parse_lines rest pre (hs @ [h\<lparr>newCount := 0\<rparr>])"
proof -
  have "hunk_header (emit_header d h) = Some (emitted_match h)" "heading_of (emit_header d h) = heading h"
    using emit_header_matches heading_of_emitted hunk_okD [OF assms(1)] assms(2) by blast+
  moreover have "list_all line_ok (body h)" "is_safe_integer (oldStart h)" "is_safe_integer (oldCount h)"
    using assms(1) unfolding hunk_ok_def raw_ok_def by blast+
  moreover have "0 \<le> oldStart h" "0 \<le> oldCount h" using hunk_okD [OF assms(1)] by blast+
  ultimately show ?thesis by (cases h) (simp add: parse_body)
qed

lemma parse_emitted:
  assumes "list_all hunk_ok hs" "in_order hs" "\<forall>h \<in> set hs. 0 \<le> oldStart h + d"
  shows "parse_lines (emit_hunks d hs) pre acc = Some (pre, acc @ map (\<lambda>h. h\<lparr>newCount := 0\<rparr>) hs)"
  using assms
proof (induction hs arbitrary: d acc)
  case (Cons h hs)
  let ?d = "d + newCount h - oldCount h"
  have ok: "hunk_ok h" "0 \<le> oldStart h + d" using Cons by simp_all
  have "0 \<le> oldStart k + ?d" if "k \<in> set hs" for k
  proof -
    have "oldStart h + oldCount h \<le> oldStart k" using Cons.prems that by simp
    then show ?thesis using ok hunk_okD [OF ok(1)] by linarith
  qed
  moreover have "0 \<le> new_start d h" using ok by (simp add: new_start_def)
  ultimately show ?case using Cons parse_emitted_hunk [OF ok(1)] by simp
qed simp

lemma parse_preamble:
  "preamble_ok pre \<Longrightarrow> parse_lines (pre @ ls) acc [] = parse_lines ls (acc @ pre) []"
  by (induction pre arbitrary: acc) (simp_all add: preamble_ok_def)

lemma emit_parse:
  assumes "preamble_ok (preamble p)" "list_all hunk_ok hs" "hs \<noteq> []" "in_order hs" "trailingNewline p"
  shows "parseUnifiedPatch (emitPatch p hs) = Some (p\<lparr>hunks := hs\<rparr>)"
proof -
  let ?out = "join_with CHR 0x0A (preamble p @ emit_hunks 0 hs)"
  have out: "emitPatch p hs = ?out @ [CHR 0x0A]" using assms(5) by (simp add: emitPatch_def)
  have "split_on CHR 0x0A ?out = preamble p @ emit_hunks 0 hs"
    using emitted_lines [of "p\<lparr>trailingNewline := False\<rparr>" hs] assms by (simp add: emitPatch_def)
  moreover have "parse_lines (preamble p @ emit_hunks 0 hs) [] [] =
      Some (preamble p, map (\<lambda>h. h\<lparr>newCount := 0\<rparr>) hs)"
    using parse_preamble [OF assms(1)] parse_emitted [OF assms(2,4), of 0] assms(2)
    by (fastforce simp: list_all_iff)
  moreover have "map ((\<lambda>h. h\<lparr>newCount := new_lines (body h)\<rparr>) \<circ> (\<lambda>h. h\<lparr>newCount := 0\<rparr>)) hs = hs"
    using assms(2) by (intro map_idI) (auto simp: list_all_iff hunk_ok_def)
  moreover have "list_all (\<lambda>h. old_lines (body h) = oldCount h) hs"
    using assms(2) by (auto simp: list_all_iff hunk_ok_def)
  ultimately show ?thesis using assms(3,5)
    by (simp add: parseUnifiedPatch_def out list.pred_map comp_def)
qed

end
