(* ===== verification/Edit_Scripts.thy ===== *)
theory Edit_Scripts
  imports Patch_Laws
begin

text \<open>
  What a patch means. An edit script walks a file and keeps, drops or adds lines; a list of hunks
  stands for the script that keeps everything between them. The lemmas show that the ranges the
  code reads off a patch are those its script changes, that lines outside them survive in place,
  and where the text of a hunk lands.
\<close>

section \<open>Scripts\<close>

datatype edit = Keep string | Drop string | Add string

fun base_side :: "edit list \<Rightarrow> string list" where
  "base_side [] = []"
| "base_side (Keep l # s) = l # base_side s"
| "base_side (Drop l # s) = l # base_side s"
| "base_side (Add l # s) = base_side s"

fun new_side :: "edit list \<Rightarrow> string list" where
  "new_side [] = []"
| "new_side (Keep l # s) = l # new_side s"
| "new_side (Drop l # s) = new_side s"
| "new_side (Add l # s) = l # new_side s"

text \<open>The base lines a script changes from line \<open>n\<close> on: an addition touches both its neighbours.\<close>

fun script_touched :: "int \<Rightarrow> edit list \<Rightarrow> line_range list" where
  "script_touched n [] = []"
| "script_touched n (Keep l # s) = script_touched (n + 1) s"
| "script_touched n (Drop l # s) = \<lparr>startLine = n, endLine = n\<rparr> # script_touched (n + 1) s"
| "script_touched n (Add l # s) =
     \<lparr>startLine = max 1 (n - 1), endLine = max 1 n\<rparr> # script_touched n s"

definition edit_of :: "string \<Rightarrow> edit" where
  "edit_of l =
     (if starts_with CHR ''-'' l then Drop (tl l)
      else if starts_with CHR ''+'' l then Add (tl l)
      else Keep (drop 1 l))"

text \<open>The script of some hunks on the lines from \<open>n\<close> on: none when a hunk does not fit them.\<close>

fun fill :: "int \<Rightarrow> string list \<Rightarrow> parsed_hunk list \<Rightarrow> edit list option" where
  "fill n base [] = Some (map Keep base)"
| "fill n base (h # hs) =
     (let k = nat (hunk_line h - n); s = map edit_of (body h); m = length (base_side s)
      in if hunk_line h < n \<or> length base < k \<or> take m (drop k base) \<noteq> base_side s then None
         else map_option (\<lambda>t. map Keep (take k base) @ s @ t)
           (fill (hunk_line h + int m) (drop m (drop k base)) hs))"

definition apply_hunks :: "string list \<Rightarrow> parsed_hunk list \<Rightarrow> string list option" where
  "apply_hunks base hs = map_option new_side (fill 1 base hs)"

section \<open>Walking scripts\<close>

lemma side_append [simp]:
  "base_side (s @ t) = base_side s @ base_side t"
  "new_side (s @ t) = new_side s @ new_side t"
  "script_touched n (s @ t) = script_touched n s @ script_touched (n + int (length (base_side s))) t"
proof -
  show "base_side (s @ t) = base_side s @ base_side t"
    by (induction s rule: base_side.induct) simp_all
  show "new_side (s @ t) = new_side s @ new_side t"
    by (induction s rule: new_side.induct) simp_all
  show "script_touched n (s @ t) = script_touched n s @ script_touched (n + int (length (base_side s))) t"
    by (induction n s rule: script_touched.induct) (simp_all add: algebra_simps)
qed

lemma side_keep [simp]:
  "base_side (map Keep ls) = ls" "new_side (map Keep ls) = ls" "script_touched n (map Keep ls) = []"
  by (induction ls arbitrary: n) simp_all

lemma body_touched: "list_all body_start b \<Longrightarrow> walk_lines b True n = script_touched n (map edit_of b)"
proof (induction b arbitrary: n)
  case (Cons l b)
  then have "hunk_header l = None" "\<not> starts_with CHR 0x5C l" "body_start l"
    by (simp_all add: hunk_header_body body_start_plain)
  then show ?case using Cons by (auto simp: edit_of_def body_start_def)
qed simp

lemma body_sides:
  "old_lines b = int (length (base_side (map edit_of b)))"
  "new_lines b = int (length (new_side (map edit_of b)))"
proof (induction b)
  case (Cons l b)
  have "\<not> (starts_with CHR ''-'' l \<and> starts_with CHR ''+'' l)" by (cases l) (auto simp: starts_with_def)
  { case 1 then show ?case using Cons \<open>\<not> (_ \<and> _)\<close> by (auto simp: edit_of_def) }
  { case 2 then show ?case using Cons \<open>\<not> (_ \<and> _)\<close> by (auto simp: edit_of_def) }
qed simp_all

lemma fill_law:
  assumes "fill n base hs = Some s" "list_all hunk_ok hs"
  shows "base_side s = base \<and> script_touched n s = concat (map hunk_touched hs)"
  using assms
proof (induction hs arbitrary: n base s)
  case (Cons h hs)
  let ?k = "nat (hunk_line h - n)" and ?b = "map edit_of (body h)"
  let ?m = "length (base_side ?b)"
  obtain t where t: "fill (hunk_line h + int ?m) (drop ?m (drop ?k base)) hs = Some t"
    and s: "s = map Keep (take ?k base) @ ?b @ t"
    and fits: "n \<le> hunk_line h" "?k \<le> length base" "take ?m (drop ?k base) = base_side ?b"
    using Cons.prems(1) by (auto simp: Let_def split: if_splits)
  have ok: "hunk_ok h" "list_all hunk_ok hs" using Cons.prems(2) by simp_all
  have ih: "base_side t = drop ?m (drop ?k base)"
    "script_touched (hunk_line h + int ?m) t = concat (map hunk_touched hs)"
    using Cons.IH [OF t ok(2)] by simp_all
  have "base_side s = take ?k base @ take ?m (drop ?k base) @ drop ?m (drop ?k base)"
    unfolding s fits(3) by (simp add: ih(1))
  then have "base_side s = base" by (simp only: append_take_drop_id)
  moreover have "n + int (length (take ?k base)) = hunk_line h" using fits by simp
  moreover have "hunk_touched h = script_touched (hunk_line h) ?b"
    using body_touched hunk_okD [OF ok(1)] by (simp add: hunk_touched_def)
  ultimately show ?case by (simp add: s ih(2) del: length_take)
qed auto

section \<open>Untouched lines survive\<close>

definition untouched :: "line_range list \<Rightarrow> line_range \<Rightarrow> bool" where
  "untouched touched held \<longleftrightarrow> \<not> list_ex (\<lambda>r. rangesOverlap r held) touched"

lemma keep_run:
  assumes "1 \<le> n" "untouched (script_touched n s) \<lparr>startLine = n, endLine = n + int m - 1\<rparr>"
    and "m \<le> length (base_side s)"
  shows "\<exists>t. s = map Keep (take m (base_side s)) @ t"
  using assms
proof (induction m arbitrary: n s)
  case (Suc m)
  then obtain e t where s: "s = e # t" by (cases s) auto
  show ?case
  proof (cases e)
    case (Keep l)
    have "untouched (script_touched (n + 1) t) \<lparr>startLine = n + 1, endLine = n + 1 + int m - 1\<rparr>"
      using Suc.prems(2) by (auto simp: untouched_def s Keep rangesOverlap_def list_ex_iff)
    then have "\<exists>u. t = map Keep (take m (base_side t)) @ u"
      using Suc.IH [of "n + 1" t] Suc.prems by (simp add: s Keep)
    then show ?thesis by (simp add: s Keep)
  qed (use Suc.prems in \<open>auto simp: untouched_def s rangesOverlap_def\<close>)
qed simp

lemma script_split:
  "j \<le> length (base_side s) \<Longrightarrow> \<exists>u v. s = u @ v \<and> length (base_side u) = j"
proof (induction s arbitrary: j rule: base_side.induct)
  case (2 l s)
  show ?case
  proof (cases j)
    case (Suc i)
    then obtain u v where "s = u @ v" "length (base_side u) = i" using 2 by (metis Suc_le_mono base_side.simps(2) length_Cons)
    then show ?thesis using Suc by (intro exI [of _ "Keep l # u"] exI [of _ v]) simp
  next
    case 0
    then show ?thesis by (intro exI [of _ "[]"] exI [of _ "Keep l # s"]) simp
  qed
next
  case (3 l s)
  show ?case
  proof (cases j)
    case (Suc i)
    then obtain u v where "s = u @ v" "length (base_side u) = i" using 3 by (metis Suc_le_mono base_side.simps(3) length_Cons)
    then show ?thesis using Suc by (intro exI [of _ "Drop l # u"] exI [of _ v]) simp
  next
    case 0
    then show ?thesis by (intro exI [of _ "[]"] exI [of _ "Drop l # s"]) simp
  qed
next
  case (4 l s)
  then obtain u v where "s = u @ v" "length (base_side u) = j" by (metis base_side.simps(4))
  then show ?case by (intro exI [of _ "Add l # u"] exI [of _ v]) simp
qed simp

definition base_lines :: "string list \<Rightarrow> line_range \<Rightarrow> string list" where
  "base_lines ls r = take (nat (endLine r - startLine r + 1)) (drop (nat (startLine r - 1)) ls)"

lemma script_survives:
  assumes "untouched (script_touched 1 s) r" "1 \<le> startLine r" "startLine r \<le> endLine r + 1"
    and "endLine r \<le> int (length (base_side s))"
  shows "\<exists>pre post. new_side s = pre @ base_lines (base_side s) r @ post"
proof -
  let ?j = "nat (startLine r - 1)" and ?m = "nat (endLine r - startLine r + 1)"
  obtain u v where s: "s = u @ v" and u: "length (base_side u) = ?j"
  proof -
    have "?j \<le> length (base_side s)" using assms by linarith
    then show ?thesis using script_split that by blast
  qed
  have "1 + int (length (base_side u)) = startLine r" using u assms(2) by simp
  then have "script_touched 1 s = script_touched 1 u @ script_touched (startLine r) v"
    unfolding s by (simp only: side_append)
  moreover have "\<lparr>startLine = startLine r, endLine = startLine r + int ?m - 1\<rparr> = r"
    using assms(3) by (cases r) simp
  ultimately have "untouched (script_touched (startLine r) v) \<lparr>startLine = startLine r, endLine = startLine r + int ?m - 1\<rparr>"
    using assms(1) by (simp add: untouched_def)
  moreover have "?m \<le> length (base_side v)" using assms(2,4) u by (simp add: s)
  ultimately obtain t where v: "v = map Keep (take ?m (base_side v)) @ t"
    using keep_run [OF assms(2)] by blast
  have "base_lines (base_side s) r = take ?m (base_side v)" using u by (simp add: base_lines_def s)
  moreover have "new_side s = new_side u @ take ?m (base_side v) @ new_side t"
    using arg_cong [OF v, of new_side] by (simp add: s)
  ultimately show ?thesis by metis
qed

section \<open>Where a hunk lands\<close>

definition delta_of :: "parsed_hunk list \<Rightarrow> int" where
  "delta_of hs = sum_list (map (\<lambda>h. newCount h - oldCount h) hs)"

lemma emit_hunks_append:
  "emit_hunks d (hs @ h # ks) =
     emit_hunks d hs @ emit_header (d + delta_of hs) h # body h @
     emit_hunks (d + delta_of hs + newCount h - oldCount h) ks"
  by (induction hs arbitrary: d) (simp_all add: delta_of_def algebra_simps)

lemma fill_lands:
  assumes "fill n base (hs @ h # ks) = Some s" "list_all hunk_ok (hs @ h # ks)"
  shows "\<exists>u v. s = u @ map edit_of (body h) @ v \<and> int (length (base_side u)) = hunk_line h - n \<and>
    int (length (new_side u)) = hunk_line h - n + delta_of hs"
  using assms
proof (induction hs arbitrary: n base s)
  case Nil
  then obtain t where "s = map Keep (take (nat (hunk_line h - n)) base) @ map edit_of (body h) @ t"
    and "n \<le> hunk_line h" "nat (hunk_line h - n) \<le> length base"
    by (auto simp: Let_def split: if_splits)
  then show ?case by (intro exI [of _ "map Keep (take (nat (hunk_line h - n)) base)"] exI [of _ t]) (simp add: delta_of_def)
next
  case (Cons g hs)
  let ?k = "nat (hunk_line g - n)" and ?b = "map edit_of (body g)"
  let ?m = "length (base_side ?b)"
  obtain t where t: "fill (hunk_line g + int ?m) (drop ?m (drop ?k base)) (hs @ h # ks) = Some t"
    and s: "s = map Keep (take ?k base) @ ?b @ t"
    and fits: "n \<le> hunk_line g" "?k \<le> length base"
    using Cons.prems(1) by (auto simp: Let_def split: if_splits)
  obtain u v where "t = u @ map edit_of (body h) @ v"
    "int (length (base_side u)) = hunk_line h - (hunk_line g + int ?m)"
    "int (length (new_side u)) = hunk_line h - (hunk_line g + int ?m) + delta_of hs"
    using Cons.IH [OF t] Cons.prems(2) by auto
  moreover have "newCount g = int (length (new_side ?b))" "oldCount g = int ?m"
    using Cons.prems(2) hunk_okD [of g] body_sides [of "body g"] by auto
  ultimately show ?case using fits
    by (intro exI [of _ "map Keep (take ?k base) @ ?b @ u"] exI [of _ v]) (simp add: s delta_of_def)
qed

section \<open>Dividing a patch\<close>

definition clear_of :: "line_range list \<Rightarrow> line_range list \<Rightarrow> bool" where
  "clear_of touched withheld \<longleftrightarrow> \<not> list_ex (\<lambda>r. list_ex (\<lambda>held. rangesOverlap r held) withheld) touched"

lemma clear_of_iff: "clear_of touched withheld \<longleftrightarrow> (\<forall>held \<in> set withheld. untouched touched held)"
  by (auto simp: clear_of_def untouched_def list_ex_iff)

lemma clear_of_subset: "clear_of touched withheld \<Longrightarrow> set some \<subseteq> set touched \<Longrightarrow> clear_of some withheld"
  by (auto simp: clear_of_def list_ex_iff)

lemma divide_law:
  assumes "dividePatchByRanges s withheld = Some d"
  obtains p where "parseUnifiedPatch s = Some p" "withheld \<noteq> []"
    "granted_part d = (let hs = filter (\<lambda>h. clear_of (hunk_touched h) withheld) (hunks p)
                       in if hs = [] then None else Some (emitPatch p hs))"
    "deferred_part d = (let hs = filter (\<lambda>h. \<not> clear_of (hunk_touched h) withheld) (hunks p)
                        in if hs = [] then None else Some (emitPatch p hs))"
    "grantedHunks d + deferredHunks d = length (hunks p)"
proof -
  obtain p where p: "parseUnifiedPatch s = Some p" "withheld \<noteq> []"
    and d: "d = \<lparr>granted_part = (if filter (\<lambda>h. \<not> hunk_reaches p withheld h) (hunks p) = [] then None
                  else Some (emitPatch p (filter (\<lambda>h. \<not> hunk_reaches p withheld h) (hunks p)))),
                deferred_part = (if filter (hunk_reaches p withheld) (hunks p) = [] then None
                  else Some (emitPatch p (filter (hunk_reaches p withheld) (hunks p)))),
                grantedHunks = length (filter (\<lambda>h. \<not> hunk_reaches p withheld h) (hunks p)),
                deferredHunks = length (filter (hunk_reaches p withheld) (hunks p))\<rparr>"
    using assms by (auto simp: dividePatchByRanges_def Let_def bind_eq_Some_conv split: if_splits)
  have ok: "\<forall>h \<in> set (hunks p). hunk_ok h"
    using parse_law [OF p(1)] by (simp add: patch_ok_def list_all_iff)
  then have "filter (\<lambda>h. \<not> hunk_reaches p withheld h) (hunks p) = filter (\<lambda>h. clear_of (hunk_touched h) withheld) (hunks p)"
    "filter (hunk_reaches p withheld) (hunks p) = filter (\<lambda>h. \<not> clear_of (hunk_touched h) withheld) (hunks p)"
    by (auto simp: hunk_reaches_touched clear_of_def intro: filter_cong)
  then show thesis
    using that [OF p] sum_length_filter_compl [of "hunk_reaches p withheld" "hunks p"] by (simp add: d Let_def)
qed

lemma patch_okD:
  assumes "parseUnifiedPatch s = Some p"
  shows "preamble_ok (preamble p)" and "list_all hunk_ok (filter P (hunks p))"
  using parse_law [OF assms] by (auto simp: patch_ok_def list_all_iff)

lemma divide_granted_clear:
  assumes "dividePatchByRanges s withheld = Some d" "granted_part d = Some g"
  shows "clear_of (patchedLineRanges g) withheld"
proof -
  obtain p where p: "parseUnifiedPatch s = Some p"
    and g: "granted_part d = (let hs = filter (\<lambda>h. clear_of (hunk_touched h) withheld) (hunks p)
                       in if hs = [] then None else Some (emitPatch p hs))"
    using divide_law [OF assms(1)] by metis
  let ?hs = "filter (\<lambda>h. clear_of (hunk_touched h) withheld) (hunks p)"
  have "?hs \<noteq> []" "g = emitPatch p ?hs" using g assms(2) by (auto simp: Let_def split: if_splits)
  then have "set (patchedLineRanges g) \<subseteq> set (concat (map hunk_touched ?hs))"
    using patched_emitted_within [OF patch_okD [OF p]] by simp
  moreover have "clear_of (concat (map hunk_touched ?hs)) withheld"
    by (auto simp: clear_of_def list_ex_iff)
  ultimately show ?thesis using clear_of_subset by blast
qed

lemma clear_patch_survives:
  assumes "parseUnifiedPatch g = Some p" "clear_of (patchedLineRanges g) withheld"
    and "apply_hunks base (hunks p) = Some out"
    and "held \<in> set withheld" "1 \<le> startLine held" "startLine held \<le> endLine held" "endLine held \<le> int (length base)"
  shows "\<exists>pre post. out = pre @ base_lines base held @ post"
proof -
  obtain s where s: "fill 1 base (hunks p) = Some s" "out = new_side s"
    using assms(3) by (auto simp: apply_hunks_def)
  have "list_all hunk_ok (hunks p)" using parse_law [OF assms(1)] by (simp add: patch_ok_def)
  from fill_law [OF s(1) this] have "base_side s = base" "script_touched 1 s = patchedLineRanges g"
    by (simp_all add: patched_hunks [OF assms(1)])
  then show ?thesis using script_survives [of s held] assms(2,4-) s(2) by (simp add: clear_of_iff)
qed

lemma hunk_lands:
  assumes "apply_hunks base (hs @ h # ks) = Some out" "list_all hunk_ok (hs @ h # ks)"
  shows "\<exists>pre post. out = pre @ new_side (map edit_of (body h)) @ post \<and>
    int (length pre) = new_start (delta_of hs) h - (if newCount h = 0 \<and> oldCount h \<noteq> 0 then 0 else 1)"
proof -
  obtain s where s: "fill 1 base (hs @ h # ks) = Some s" "out = new_side s"
    using assms(1) by (auto simp: apply_hunks_def)
  obtain u v where u: "s = u @ map edit_of (body h) @ v"
    "int (length (new_side u)) = hunk_line h - 1 + delta_of hs"
    using fill_lands [OF s(1) assms(2)] by blast
  have "int (length (new_side u)) = new_start (delta_of hs) h - (if newCount h = 0 \<and> oldCount h \<noteq> 0 then 0 else 1)"
    using u(2) by (auto simp: new_start_def hunk_line_def)
  then show ?thesis using u(1) s(2) by (intro exI [of _ "new_side u"] exI [of _ "new_side v"]) simp
qed

end
