(* ===== verification/Partial_Admission.thy ===== *)
theory Partial_Admission
  imports Plans Edit_Scripts "HOL-Library.AList"
begin

text \<open>
  What happens to a changeset produced under a partial admission:
  \<open>services/coordinator/src/partial-admission.ts\<close> and \<open>scope-validator.ts\<close>, with the admission
  and changeset records of \<open>packages/shared-types/src/index.ts\<close>. The index of symbols is the
  argument \<open>symbolRangesInFile\<close>, an id made by \<open>createId\<close> the argument \<open>new_id\<close>.
\<close>

section \<open>Admissions and changesets\<close>

datatype admission_status = Approved | ApprovedWithConstraints | Blocked | Sequenced

record resource_location =
  location_file :: string
  location_lines :: line_range

record deferred_resource = plan_resource +
  heldBy :: "string list"
  deferred_reason :: string
  implied :: "bool option"
  locations :: "resource_location list option"

text \<open>Of an admission, what the split reads: its status and what it withheld.\<close>

record plan_admission =
  admission_status :: admission_status
  deferredResources :: "deferred_resource list option"

definition planAdmissionApproved :: "'a plan_admission_scheme \<Rightarrow> bool" where
  "planAdmissionApproved a \<longleftrightarrow> admission_status a = Approved \<or> admission_status a = ApprovedWithConstraints"

definition planAdmissionPartial :: "'a plan_admission_scheme \<Rightarrow> bool" where
  "planAdmissionPartial a \<longleftrightarrow> planAdmissionApproved a \<and> or_empty (deferredResources a) \<noteq> []"

definition deferredFilePaths :: "'a plan_admission_scheme \<Rightarrow> path_error + string list" where
  "deferredFilePaths a =
     uniqueRepositoryPaths (map resourceId (filter (\<lambda>r. resourceType r = File) (or_empty (deferredResources a))))"

datatype file_patch_status = Added | Modified | Deleted

record file_patch =
  patch_path :: string
  patch_status :: file_patch_status
  patch_text :: string

record 'rest change_set =
  changeset_id :: string
  patches :: "file_patch list"
  changeset_rest :: 'rest

record changed_file_summary =
  summary_path :: string
  summary_status :: file_patch_status
  added_lines :: nat
  removed_lines :: nat

definition summariseChangedFiles :: "file_patch list \<Rightarrow> changed_file_summary list" where
  "summariseChangedFiles ps =
     map (\<lambda>p. let lines = split_on CHR 0x0A (patch_text p) in
       \<lparr>summary_path = patch_path p, summary_status = patch_status p,
        added_lines = length (filter (\<lambda>l. starts_with CHR ''+'' l \<and> \<not> prefix ''+++'' l) lines),
        removed_lines = length (filter (\<lambda>l. starts_with CHR ''-'' l \<and> \<not> prefix ''---'' l) lines)\<rparr>) ps"

section \<open>Scope of a whole plan\<close>

datatype scope_error = ScopePath path_error | ScopeExpansion "string list"

text \<open>\<open>approved.has(file) || claimCoversPath(plan, file)\<close>\<close>

definition within_scope :: "string list \<Rightarrow> agent_plan \<Rightarrow> string \<Rightarrow> path_error + bool" where
  "within_scope approved plan file = (if file \<in> set approved then Inr True else claimCoversPath plan file)"

definition assertChangeSetWithinPlan :: "agent_plan \<Rightarrow> 'r change_set \<Rightarrow> scope_error + unit" where
  "assertChangeSetWithinPlan plan cs =
     (case res_map (within_scope (expectedFiles plan) plan) (map patch_path (patches cs)) of
        Inl e \<Rightarrow> Inl (ScopePath e)
      | Inr oks \<Rightarrow>
          (let unexpected = sorted_unique (map fst (filter (\<lambda>(f, ok). \<not> ok) (zip (map patch_path (patches cs)) oks)))
           in if unexpected = [] then Inr () else Inl (ScopeExpansion unexpected)))"

section \<open>Splitting a changeset\<close>

record divided_patch =
  divided_path :: string
  divided_granted :: nat
  divided_deferred :: nat
  divided_symbols :: "string list"

record change_set_split =
  granted_patches :: "file_patch list"
  deferred_patches :: "file_patch list"
  escaped :: "string list"
  withheldSymbols :: "(string \<times> string list) list"
  divided :: "divided_patch list"

definition withheld_symbols :: "plan_admission \<Rightarrow> deferred_resource list" where
  "withheld_symbols a = filter (\<lambda>r. resourceType r = Symbol) (or_empty (deferredResources a))"

definition withheld_names :: "plan_admission \<Rightarrow> string list" where
  "withheld_names a = map resourceId (withheld_symbols a)"

text \<open>The entry of \<open>locatedRanges\<close> for a file: absent when no location names it.\<close>

definition located_ranges :: "plan_admission \<Rightarrow> string \<Rightarrow> named_range list option" where
  "located_ranges a file =
     (let found = concat (map (\<lambda>r. map (\<lambda>l. (resourceId r, location_lines l))
                    (filter (\<lambda>l. location_file l = file) (or_empty (locations r)))) (withheld_symbols a))
      in if found = [] then None else Some found)"

definition withheld_named_ranges ::
  "plan_admission \<Rightarrow> (string \<Rightarrow> named_range list option) option \<Rightarrow> string \<Rightarrow> named_range list option" where
  "withheld_named_ranges a symbolRangesInFile file =
     (case located_ranges a file of
        Some rs \<Rightarrow> Some rs
      | None \<Rightarrow> (case symbolRangesInFile of Some look \<Rightarrow> look file | None \<Rightarrow> None))"

definition withheld_ranges_in ::
  "plan_admission \<Rightarrow> (string \<Rightarrow> named_range list option) option \<Rightarrow> string \<Rightarrow> line_range list" where
  "withheld_ranges_in a look file =
     map snd (filter (\<lambda>(name, r). name \<in> set (withheld_names a)) (or_empty (withheld_named_ranges a look file)))"

datatype patch_fate =
    Granted
  | HeldFile
  | Escaped
  | HeldWhole "string list"
  | Divided "string list" string string nat nat

text \<open>One round of the loop: where a patch goes.\<close>

definition patch_fate ::
  "string list \<Rightarrow> string list \<Rightarrow> agent_plan \<Rightarrow> plan_admission \<Rightarrow>
   (string \<Rightarrow> named_range list option) option \<Rightarrow> file_patch \<Rightarrow> path_error + patch_fate" where
  "patch_fate granted deferred plan a look p =
     (if patch_path p \<in> set deferred then Inr HeldFile
      else res_bind (within_scope granted plan (patch_path p)) (\<lambda>ok.
        if \<not> ok then Inr Escaped
        else
          (let reached = (if withheld_names a = [] then []
                          else namesTouchedByPatch (patch_text p)
                            (withheld_named_ranges a look (patch_path p)) (withheld_names a));
               division = (if patch_status p = Modified
                           then dividePatchByRanges (patch_text p) (withheld_ranges_in a look (patch_path p))
                           else None)
           in if reached = [] then Inr Granted
              else
                (case division of
                   None \<Rightarrow> Inr (HeldWhole reached)
                 | Some d \<Rightarrow>
                     (case (granted_part d, deferred_part d) of
                        (Some g, Some w) \<Rightarrow> Inr (Divided reached g w (grantedHunks d) (deferredHunks d))
                      | _ \<Rightarrow> Inr (HeldWhole reached))))))"

text \<open>Its effect on what was sorted so far.\<close>

fun place :: "file_patch \<Rightarrow> patch_fate \<Rightarrow> change_set_split \<Rightarrow> change_set_split" where
  "place p Granted s = s\<lparr>granted_patches := granted_patches s @ [p]\<rparr>"
| "place p HeldFile s = s\<lparr>deferred_patches := deferred_patches s @ [p]\<rparr>"
| "place p Escaped s = s\<lparr>escaped := escaped s @ [patch_path p]\<rparr>"
| "place p (HeldWhole names) s =
     s\<lparr>withheldSymbols := AList.update (patch_path p) names (withheldSymbols s),
       deferred_patches := deferred_patches s @ [p]\<rparr>"
| "place p (Divided names g w ng nw) s =
     s\<lparr>withheldSymbols := AList.update (patch_path p) names (withheldSymbols s),
       granted_patches := granted_patches s @ [p\<lparr>patch_text := g\<rparr>],
       deferred_patches := deferred_patches s @ [p\<lparr>patch_text := w\<rparr>],
       divided := divided s @ [\<lparr>divided_path = patch_path p, divided_granted = ng,
                                divided_deferred = nw, divided_symbols = names\<rparr>]\<rparr>"

fun split_patches ::
  "(file_patch \<Rightarrow> path_error + patch_fate) \<Rightarrow> file_patch list \<Rightarrow> change_set_split \<Rightarrow> path_error + change_set_split" where
  "split_patches fate [] s = Inr s"
| "split_patches fate (p # ps) s = res_bind (fate p) (\<lambda>f. split_patches fate ps (place p f s))"

definition empty_split :: change_set_split where
  "empty_split = \<lparr>granted_patches = [], deferred_patches = [], escaped = [], withheldSymbols = [], divided = []\<rparr>"

text \<open>
  The split and the granted changeset. A changeset nothing was held back from is passed on as
  it is, with its escaped patches.
\<close>

definition splitChangeSet ::
  "string \<Rightarrow> agent_plan \<Rightarrow> plan_admission \<Rightarrow> (string \<Rightarrow> named_range list option) option \<Rightarrow>
   'r change_set \<Rightarrow> path_error + 'r change_set \<times> change_set_split" where
  "splitChangeSet new_id plan a look cs =
     res_bind (uniqueRepositoryPaths (expectedFiles plan)) (\<lambda>granted.
     res_bind (deferredFilePaths a) (\<lambda>deferred.
     res_bind (split_patches (patch_fate granted deferred plan a look) (patches cs) empty_split) (\<lambda>s.
       Inr (if deferred_patches s = [] then cs
            else cs\<lparr>changeset_id := new_id, patches := granted_patches s\<rparr>,
            s\<lparr>escaped := sorted_unique (escaped s)\<rparr>))))"

section \<open>Keeping what was withheld\<close>

record withheld_patch =
  withheld_path :: string
  withheld_status :: file_patch_status
  withheld_text :: string
  omitted :: bool

record withheld_patch_record =
  withheld_patches :: "withheld_patch list"
  truncated :: bool
  withheld_bytes :: nat

definition WITHHELD_PATCH_BUDGET_BYTES :: nat where
  "WITHHELD_PATCH_BUDGET_BYTES = 64 * 1024"

text \<open>\<open>Buffer.byteLength(s, "utf8")\<close>: one byte for an ASCII character, two for another of Latin-1.\<close>

definition utf8_bytes :: "string \<Rightarrow> nat" where
  "utf8_bytes s = sum_list (map (\<lambda>c. if (of_char c :: nat) < 128 then 1 else 2) s)"

definition keep_patch :: "nat \<Rightarrow> withheld_patch_record \<Rightarrow> file_patch \<Rightarrow> withheld_patch_record" where
  "keep_patch budget r p =
     (if withheld_bytes r + utf8_bytes (patch_text p) > budget
      then r\<lparr>truncated := True,
             withheld_patches := withheld_patches r @
               [\<lparr>withheld_path = patch_path p, withheld_status = patch_status p, withheld_text = [], omitted = True\<rparr>]\<rparr>
      else r\<lparr>withheld_bytes := withheld_bytes r + utf8_bytes (patch_text p),
             withheld_patches := withheld_patches r @
               [\<lparr>withheld_path = patch_path p, withheld_status = patch_status p,
                 withheld_text = patch_text p, omitted = False\<rparr>]\<rparr>)"

definition withheldPatchRecord :: "nat \<Rightarrow> file_patch list \<Rightarrow> withheld_patch_record" where
  "withheldPatchRecord budget ps =
     foldl (keep_patch budget) \<lparr>withheld_patches = [], truncated = False, withheld_bytes = 0\<rparr> ps"

section \<open>Where the patches of a changeset go\<close>

definition granted_of :: "(file_patch \<Rightarrow> path_error + patch_fate) \<Rightarrow> file_patch \<Rightarrow> file_patch list" where
  "granted_of fate p =
     (case fate p of
        Inr Granted \<Rightarrow> [p]
      | Inr (Divided names g w ng nw) \<Rightarrow> [p\<lparr>patch_text := g\<rparr>]
      | _ \<Rightarrow> [])"

definition held_of :: "(file_patch \<Rightarrow> path_error + patch_fate) \<Rightarrow> file_patch \<Rightarrow> file_patch list" where
  "held_of fate p =
     (case fate p of
        Inr HeldFile \<Rightarrow> [p]
      | Inr (HeldWhole names) \<Rightarrow> [p]
      | Inr (Divided names g w ng nw) \<Rightarrow> [p\<lparr>patch_text := w\<rparr>]
      | _ \<Rightarrow> [])"

definition escaped_of :: "(file_patch \<Rightarrow> path_error + patch_fate) \<Rightarrow> file_patch \<Rightarrow> string list" where
  "escaped_of fate p = (case fate p of Inr Escaped \<Rightarrow> [patch_path p] | _ \<Rightarrow> [])"

lemma split_patches_law:
  assumes "split_patches fate ps s = Inr s'"
  shows "granted_patches s' = granted_patches s @ concat (map (granted_of fate) ps) \<and>
         deferred_patches s' = deferred_patches s @ concat (map (held_of fate) ps) \<and>
         escaped s' = escaped s @ concat (map (escaped_of fate) ps) \<and>
         (\<forall>p \<in> set ps. \<exists>f. fate p = Inr f)"
  using assms
proof (induction ps arbitrary: s)
  case (Cons p ps)
  then obtain f where f: "fate p = Inr f" "split_patches fate ps (place p f s) = Inr s'"
    by (auto simp: res_bind_eq_Inr_conv)
  show ?case
    using Cons.IH [OF f(2)] f(1) by (cases f) (simp_all add: granted_of_def held_of_def escaped_of_def)
qed simp

lemma splitChangeSet_law:
  assumes "splitChangeSet new_id plan a look cs = Inr (gr, s)"
  obtains granted deferred fate where
    "uniqueRepositoryPaths (expectedFiles plan) = Inr granted" "deferredFilePaths a = Inr deferred"
    "fate = patch_fate granted deferred plan a look"
    "granted_patches s = concat (map (granted_of fate) (patches cs))"
    "deferred_patches s = concat (map (held_of fate) (patches cs))"
    "set (escaped s) = set (concat (map (escaped_of fate) (patches cs)))"
    "\<forall>p \<in> set (patches cs). \<exists>f. fate p = Inr f"
    "gr = (if deferred_patches s = [] then cs else cs\<lparr>changeset_id := new_id, patches := granted_patches s\<rparr>)"
proof -
  obtain granted deferred r where r: "uniqueRepositoryPaths (expectedFiles plan) = Inr granted"
    "deferredFilePaths a = Inr deferred"
    "split_patches (patch_fate granted deferred plan a look) (patches cs) empty_split = Inr r"
    "s = r\<lparr>escaped := sorted_unique (escaped r)\<rparr>"
    "gr = (if deferred_patches r = [] then cs else cs\<lparr>changeset_id := new_id, patches := granted_patches r\<rparr>)"
    using assms by (auto simp: splitChangeSet_def res_bind_eq_Inr_conv)
  from split_patches_law [OF r(3)] show thesis
    by (intro that [OF r(1,2) refl]) (simp_all add: r(4,5) empty_split_def)
qed

text \<open>What the code demands of a patch before it reaches canonical.\<close>

definition promotable ::
  "string list \<Rightarrow> string list \<Rightarrow> agent_plan \<Rightarrow> plan_admission \<Rightarrow>
   (string \<Rightarrow> named_range list option) option \<Rightarrow> file_patch \<Rightarrow> bool" where
  "promotable granted deferred plan a look q \<longleftrightarrow>
     patch_path q \<notin> set deferred \<and> within_scope granted plan (patch_path q) = Inr True \<and>
     namesTouchedByPatch (patch_text q) (withheld_named_ranges a look (patch_path q)) (withheld_names a) = []"

lemma namesTouched_none [simp]: "namesTouchedByPatch s ranges [] = []"
  by (auto simp: namesTouchedByPatch_def split: option.splits)

lemma namesTouched_clear:
  assumes "clear_of (patchedLineRanges g) (map snd (filter (\<lambda>(n, r). n \<in> set names) rs))"
  shows "namesTouchedByPatch g (Some rs) names = []"
  using assms by (force simp: namesTouchedByPatch_def Let_def clear_of_def list_ex_iff filter_empty_conv)

lemma fate_Granted:
  assumes "patch_fate granted deferred plan a look p = Inr Granted"
  shows "promotable granted deferred plan a look p"
  using assms
  by (auto simp: patch_fate_def promotable_def res_bind_eq_Inr_conv Let_def split: if_splits option.splits)

lemma fate_Divided:
  assumes "patch_fate granted deferred plan a look p = Inr (Divided names g w ng nw)"
  obtains d where "dividePatchByRanges (patch_text p) (withheld_ranges_in a look (patch_path p)) = Some d"
    "granted_part d = Some g" "deferred_part d = Some w"
    "patch_path p \<notin> set deferred" "within_scope granted plan (patch_path p) = Inr True"
  using assms
  by (auto simp: patch_fate_def res_bind_eq_Inr_conv Let_def split: if_splits option.splits)

lemma divided_promotable:
  assumes "patch_fate granted deferred plan a look p = Inr (Divided names g w ng nw)"
  shows "promotable granted deferred plan a look (p\<lparr>patch_text := g\<rparr>)"
proof -
  obtain d where d: "dividePatchByRanges (patch_text p) (withheld_ranges_in a look (patch_path p)) = Some d"
    "granted_part d = Some g" and scope: "patch_path p \<notin> set deferred" "within_scope granted plan (patch_path p) = Inr True"
    using fate_Divided [OF assms] by metis
  have "withheld_ranges_in a look (patch_path p) \<noteq> []" using d(1) by (auto simp: dividePatchByRanges_def)
  then obtain rs where rs: "withheld_named_ranges a look (patch_path p) = Some rs"
    by (cases "withheld_named_ranges a look (patch_path p)") (simp_all add: withheld_ranges_in_def)
  have "clear_of (patchedLineRanges g) (map snd (filter (\<lambda>(n, r). n \<in> set (withheld_names a)) rs))"
    using divide_granted_clear [OF d] by (simp add: withheld_ranges_in_def rs)
  then show ?thesis using namesTouched_clear scope by (simp add: promotable_def rs)
qed

lemma granted_of_promotable:
  "q \<in> set (granted_of (patch_fate granted deferred plan a look) p) \<Longrightarrow> promotable granted deferred plan a look q"
proof -
  let ?fate = "patch_fate granted deferred plan a look"
  assume q: "q \<in> set (granted_of ?fate p)"
  show ?thesis
  proof (cases "?fate p")
    case (Inr f)
    then show ?thesis using q fate_Granted divided_promotable by (cases f) (auto simp: granted_of_def)
  qed (use q in \<open>simp add: granted_of_def\<close>)
qed

lemma split_promotable:
  assumes "splitChangeSet new_id plan a look cs = Inr (gr, s)" "escaped s = []"
    and "uniqueRepositoryPaths (expectedFiles plan) = Inr granted" "deferredFilePaths a = Inr deferred"
  shows "\<forall>q \<in> set (patches gr). promotable granted deferred plan a look q"
proof -
  let ?fate = "patch_fate granted deferred plan a look"
  have s: "granted_patches s = concat (map (granted_of ?fate) (patches cs))"
    "deferred_patches s = concat (map (held_of ?fate) (patches cs))"
    "set (escaped s) = set (concat (map (escaped_of ?fate) (patches cs)))"
    "\<forall>p \<in> set (patches cs). \<exists>f. ?fate p = Inr f"
    "gr = (if deferred_patches s = [] then cs else cs\<lparr>changeset_id := new_id, patches := granted_patches s\<rparr>)"
    using splitChangeSet_law [OF assms(1)] assms(3,4) by (metis sum.inject(2))+
  show ?thesis
  proof (cases "deferred_patches s = []")
    case True
    have "?fate p = Inr Granted" if p: "p \<in> set (patches cs)" for p
    proof -
      obtain f where f: "?fate p = Inr f" using s(4) p by auto
      moreover have "held_of ?fate p = []" using True s(2) p by simp
      moreover have "escaped_of ?fate p = []" using assms(2) s(3) p by auto
      ultimately show ?thesis by (cases f) (simp_all add: held_of_def escaped_of_def)
    qed
    then show ?thesis using True s(5) fate_Granted by auto
  next
    case False
    then show ?thesis using s(1,5) granted_of_promotable by auto
  qed
qed

text \<open>Nothing is lost: what becomes of each patch.\<close>

definition accounted :: "file_patch \<Rightarrow> change_set_split \<Rightarrow> bool" where
  "accounted p s \<longleftrightarrow>
     p \<in> set (granted_patches s) \<or> p \<in> set (deferred_patches s) \<or> patch_path p \<in> set (escaped s) \<or>
     (\<exists>parsed hold. parseUnifiedPatch (patch_text p) = Some parsed \<and>
        p\<lparr>patch_text := emitPatch parsed (filter (\<lambda>h. \<not> hold h) (hunks parsed))\<rparr> \<in> set (granted_patches s) \<and>
        p\<lparr>patch_text := emitPatch parsed (filter hold (hunks parsed))\<rparr> \<in> set (deferred_patches s))"

lemma split_accounts:
  assumes "splitChangeSet new_id plan a look cs = Inr (gr, s)" "p \<in> set (patches cs)"
  shows "accounted p s"
proof -
  obtain granted deferred fate where fate: "fate = patch_fate granted deferred plan a look"
    and s: "granted_patches s = concat (map (granted_of fate) (patches cs))"
      "deferred_patches s = concat (map (held_of fate) (patches cs))"
      "set (escaped s) = set (concat (map (escaped_of fate) (patches cs)))"
      "\<forall>p \<in> set (patches cs). \<exists>f. fate p = Inr f"
    using splitChangeSet_law [OF assms(1)] by metis
  obtain f where f: "fate p = Inr f" using s(4) assms(2) by auto
  have sub: "set (granted_of fate p) \<subseteq> set (granted_patches s)" "set (held_of fate p) \<subseteq> set (deferred_patches s)"
    "set (escaped_of fate p) \<subseteq> set (escaped s)"
    using assms(2) by (auto simp: s(1-3))
  show ?thesis
  proof (cases f)
    case (Divided names g w ng nw)
    obtain d where d: "dividePatchByRanges (patch_text p) (withheld_ranges_in a look (patch_path p)) = Some d"
      "granted_part d = Some g" "deferred_part d = Some w"
      using fate_Divided f Divided fate by metis
    let ?clear = "\<lambda>h. clear_of (hunk_touched h) (withheld_ranges_in a look (patch_path p))"
    obtain parsed where parsed: "parseUnifiedPatch (patch_text p) = Some parsed"
      and parts: "granted_part d = (let hs = filter ?clear (hunks parsed) in if hs = [] then None else Some (emitPatch parsed hs))"
        "deferred_part d = (let hs = filter (\<lambda>h. \<not> ?clear h) (hunks parsed) in if hs = [] then None else Some (emitPatch parsed hs))"
      using divide_law [OF d(1)] by metis
    have gw: "g = emitPatch parsed (filter ?clear (hunks parsed))" "w = emitPatch parsed (filter (\<lambda>h. \<not> ?clear h) (hunks parsed))"
      using parts d(2,3) by (simp_all add: Let_def split: if_splits)
    have "p\<lparr>patch_text := g\<rparr> \<in> set (granted_patches s)" "p\<lparr>patch_text := w\<rparr> \<in> set (deferred_patches s)"
      using sub f Divided by (auto simp: granted_of_def held_of_def)
    then show ?thesis
      unfolding accounted_def using parsed gw
      by (intro disjI2 exI [of _ parsed] exI [of _ "\<lambda>h. \<not> ?clear h"]) simp
  qed (use sub f in \<open>auto simp: accounted_def granted_of_def held_of_def escaped_of_def\<close>)
qed

section \<open>The withheld record\<close>

definition kept_as :: "nat \<Rightarrow> nat \<Rightarrow> file_patch \<Rightarrow> withheld_patch \<Rightarrow> bool" where
  "kept_as budget spent p w \<longleftrightarrow>
     withheld_path w = patch_path p \<and> withheld_status w = patch_status p \<and>
     withheld_text w = (if omitted w then [] else patch_text p) \<and>
     (omitted w \<longrightarrow> budget < spent + utf8_bytes (patch_text p))"

definition record_ok :: "nat \<Rightarrow> withheld_patch_record \<Rightarrow> file_patch list \<Rightarrow> bool" where
  "record_ok budget r ps \<longleftrightarrow>
     withheld_bytes r \<le> budget \<and>
     withheld_bytes r = sum_list (map (\<lambda>w. utf8_bytes (withheld_text w)) (withheld_patches r)) \<and>
     truncated r = list_ex omitted (withheld_patches r) \<and>
     list_all2 (kept_as budget (withheld_bytes r)) ps (withheld_patches r)"

lemma keep_patch_ok:
  assumes "record_ok budget r ps"
  shows "record_ok budget (keep_patch budget r p) (ps @ [p])"
proof -
  have old: "list_all2 (kept_as budget (withheld_bytes r)) ps (withheld_patches r)"
    using assms unfolding record_ok_def by blast
  have later: "list_all2 (kept_as budget (withheld_bytes r + n)) ps (withheld_patches r)" for n
    by (rule list_all2_mono [OF old]) (auto simp: kept_as_def)
  show ?thesis
  proof (cases "withheld_bytes r + utf8_bytes (patch_text p) > budget")
    case True
    then have "kept_as budget (withheld_bytes r) p (last (withheld_patches (keep_patch budget r p)))"
      by (simp add: keep_patch_def kept_as_def)
    then have "list_all2 (kept_as budget (withheld_bytes (keep_patch budget r p))) (ps @ [p]) (withheld_patches (keep_patch budget r p))"
      using True old by (simp add: keep_patch_def list_all2_appendI)
    moreover have "withheld_bytes (keep_patch budget r p) \<le> budget \<and>
        withheld_bytes (keep_patch budget r p) =
          sum_list (map (\<lambda>w. utf8_bytes (withheld_text w)) (withheld_patches (keep_patch budget r p))) \<and>
        truncated (keep_patch budget r p) = list_ex omitted (withheld_patches (keep_patch budget r p))"
      using assms True by (simp add: record_ok_def keep_patch_def utf8_bytes_def)
    ultimately show ?thesis unfolding record_ok_def by blast
  next
    case False
    then have "kept_as budget b p (last (withheld_patches (keep_patch budget r p)))" for b
      by (simp add: keep_patch_def kept_as_def)
    then have "list_all2 (kept_as budget (withheld_bytes (keep_patch budget r p))) (ps @ [p]) (withheld_patches (keep_patch budget r p))"
      using False later by (simp add: keep_patch_def list_all2_appendI)
    moreover have "withheld_bytes (keep_patch budget r p) \<le> budget \<and>
        withheld_bytes (keep_patch budget r p) =
          sum_list (map (\<lambda>w. utf8_bytes (withheld_text w)) (withheld_patches (keep_patch budget r p))) \<and>
        truncated (keep_patch budget r p) = list_ex omitted (withheld_patches (keep_patch budget r p))"
      using assms False by (simp add: record_ok_def keep_patch_def utf8_bytes_def)
    ultimately show ?thesis unfolding record_ok_def by blast
  qed
qed

lemma withheld_record_ok: "record_ok budget (withheldPatchRecord budget ps) ps"
proof -
  have "record_ok budget (foldl (keep_patch budget) r qs) (ps @ qs)" if "record_ok budget r ps" for r ps qs
    using that
  proof (induction qs arbitrary: r ps)
    case (Cons q qs)
    from Cons.IH [OF keep_patch_ok [OF Cons.prems], of q] show ?case by simp
  qed simp
  moreover have "record_ok budget \<lparr>withheld_patches = [], truncated = False, withheld_bytes = 0\<rparr> []"
    by (simp add: record_ok_def)
  ultimately show ?thesis unfolding withheldPatchRecord_def by (metis append_Nil)
qed

end
