(* ===== verification/Intent_Words.thy ===== *)
theory Intent_Words
  imports Patches
begin

text \<open>
  The words of prose and of identifiers: \<open>packages/intent-analysis/src/lemmas.ts\<close>,
  \<open>identifierTokens\<close> of \<open>services/code-intelligence/src/plan-grounding.ts\<close>, and
  \<open>likelySymbolsIn\<close> of \<open>services/coordinator/src/scope-estimation.ts\<close>. A global regular expression
  is a matcher that reads one match at the front of a string, tried at every position from the left.
  The dictionary of the package \<open>wink-lemmatizer\<close> is an argument.
\<close>

section \<open>Regular expressions\<close>

text \<open>\<open>text.matchAll(r)\<close>, the matches of \<open>m\<close>: where it reads nothing, one character is skipped.\<close>

function match_all :: "(string \<Rightarrow> (string \<times> string) option) \<Rightarrow> string \<Rightarrow> string list" where
  "match_all m [] = []"
| "match_all m (c # cs) =
     (case m (c # cs) of
        Some (t, rest) \<Rightarrow> if length rest < length (c # cs) then t # match_all m rest else match_all m cs
      | None \<Rightarrow> match_all m cs)"
  by pat_completeness auto
termination
  by (relation "measure (\<lambda>(m, s). length s)") auto

text \<open>\<open>text.split(r)\<close> for a run of separators.\<close>

function split_runs :: "(char \<Rightarrow> bool) \<Rightarrow> string \<Rightarrow> string list" where
  "split_runs sep s =
     takeWhile (\<lambda>c. \<not> sep c) s #
     (case dropWhile (\<lambda>c. \<not> sep c) s of [] \<Rightarrow> [] | c # cs \<Rightarrow> split_runs sep (dropWhile sep cs))"
  by pat_completeness auto
termination
proof (relation "measure (\<lambda>(sep, s). length s)", goal_cases)
  case (2 sep s c cs)
  have "length (dropWhile sep cs) \<le> length cs" by (rule length_dropWhile_le)
  also have "length cs < length s" using length_dropWhile_le [of "\<lambda>c. \<not> sep c" s] 2 by simp
  finally show ?case by simp
qed simp

declare split_runs.simps [simp del]

text \<open>\<open>s.replace(/[chars]+$/u, "")\<close>\<close>

definition strip_end :: "string \<Rightarrow> string \<Rightarrow> string" where
  "strip_end chars s = rev (dropWhile (\<lambda>c. c \<in> set chars) (rev s))"

text \<open>\<open>[...new Set(xs)]\<close>: the first occurrence of each.\<close>

definition js_set :: "'a list \<Rightarrow> 'a list" where
  "js_set xs = rev (remdups (rev xs))"

lemma set_js_set [simp]: "set (js_set xs) = set xs"
  by (simp add: js_set_def)

lemma distinct_js_set [simp]: "distinct (js_set xs)"
  by (simp add: js_set_def)

definition ascii_upper :: "char \<Rightarrow> bool" where
  "ascii_upper c \<longleftrightarrow> (let n = (of_char c :: nat) in 65 \<le> n \<and> n \<le> 90)"

definition ascii_lower :: "char \<Rightarrow> bool" where
  "ascii_lower c \<longleftrightarrow> (let n = (of_char c :: nat) in 97 \<le> n \<and> n \<le> 122)"

definition lower_alnum :: "char \<Rightarrow> bool" where
  "lower_alnum c \<longleftrightarrow> ascii_lower c \<or> is_digit c"

section \<open>Lemmas\<close>

text \<open>What \<open>wink-lemmatizer\<close> offers.\<close>

record lemmatizer =
  lemma_noun :: "string \<Rightarrow> string"
  lemma_verb :: "string \<Rightarrow> string"
  lemma_adjective :: "string \<Rightarrow> string"

definition lemmaOf :: "lemmatizer \<Rightarrow> string \<Rightarrow> string" where
  "lemmaOf lem token =
     (let word = js_lower token;
          candidates = filter (\<lambda>c. c \<noteq> []) [lemma_noun lem word, lemma_verb lem word, lemma_adjective lem word]
      in foldl (\<lambda>best c. if length c < length best then c else best) word candidates)"

definition INTENT_STOP_WORDS :: "string list" where
  "INTENT_STOP_WORDS =
    [''a'', ''an'', ''and'', ''any'', ''are'', ''as'', ''at'', ''be'', ''been'', ''but'', ''by'', ''do'',
     ''does'', ''each'', ''either'', ''every'', ''for'', ''from'', ''has'', ''have'', ''in'', ''into'', ''is'',
     ''it'', ''its'', ''not'', ''of'', ''on'', ''only'', ''or'', ''other'', ''over'', ''per'', ''so'',
     ''than'', ''that'', ''the'', ''their'', ''them'', ''there'', ''these'', ''they'', ''this'', ''those'',
     ''to'', ''up'', ''was'', ''were'', ''what'', ''when'', ''where'', ''which'', ''while'', ''who'', ''will'',
     ''with'', ''within'', ''without'', ''add'', ''additional'', ''adjust'', ''allow'', ''apply'',
     ''behavior'', ''behaviour'', ''capture'', ''change'', ''coverage'', ''current'', ''currently'',
     ''ensure'', ''enable'', ''existing'', ''expand'', ''implement'', ''include'', ''introduce'', ''keep'',
     ''leave'', ''maintain'', ''make'', ''modify'', ''new'', ''preserve'', ''provide'', ''record'',
     ''regression'', ''remain'', ''retain'', ''return'', ''set'', ''support'', ''test'', ''tests'', ''update'',
     ''use'', ''value'']"

definition WEAK_TERMS :: "string list" where
  "WEAK_TERMS =
    [''case'', ''data'', ''default'', ''detail'', ''feature'', ''field'', ''function'', ''item'', ''logic'',
     ''method'', ''module'', ''name'', ''number'', ''option'', ''output'', ''part'', ''path'', ''result'',
     ''rule'', ''state'', ''step'', ''thing'', ''time'', ''type'', ''way'', ''work'']"

text \<open>The groups of \<open>WORD\<close> after its first run: a hyphen or underscore and a run, repeated.\<close>

function word_groups :: "string \<Rightarrow> string \<times> string" where
  "word_groups (j # c # s) =
     (if (j = CHR ''-'' \<or> j = CHR ''_'') \<and> lower_alnum c
      then (let (more, rest) = word_groups (dropWhile lower_alnum (c # s))
            in (j # takeWhile lower_alnum (c # s) @ more, rest))
      else ([], j # c # s))"
| "word_groups [j] = ([], [j])"
| "word_groups [] = ([], [])"
  by pat_completeness auto
termination
  by (relation "measure length") (auto simp: less_Suc_eq_le intro: le_trans [OF length_dropWhile_le])

fun intent_word :: "string \<Rightarrow> (string \<times> string) option" where
  "intent_word (c # s) =
     (if ascii_lower c
      then (let (more, rest) = word_groups (dropWhile lower_alnum s)
            in Some (c # takeWhile lower_alnum s @ more, rest))
      else None)"
| "intent_word [] = None"

text \<open>\<open>expand\<close>: a compound and its parts.\<close>

definition expand_token :: "string \<Rightarrow> string list" where
  "expand_token token =
     (let parts = filter (\<lambda>p. p \<noteq> []) (concat (map (split_on CHR ''_'') (split_on CHR ''-'' token)))
      in if 1 < length parts then token # parts else [token])"

record intent_terms =
  intent_lemmas :: "string list"
  strong_terms :: "string list"

definition content_lemma :: "lemmatizer \<Rightarrow> string \<Rightarrow> string option" where
  "content_lemma lem token =
     (if length token < 3 \<or> token \<in> set INTENT_STOP_WORDS then None
      else
        (let l = lemmaOf lem token
         in if length l < 3 \<or> l \<in> set INTENT_STOP_WORDS then None else Some l))"

definition intentTerms :: "lemmatizer \<Rightarrow> string \<Rightarrow> intent_terms" where
  "intentTerms lem s =
     (let found = List.map_filter (content_lemma lem) (concat (map expand_token (match_all intent_word (js_lower s))))
      in \<lparr>intent_lemmas = js_set found, strong_terms = js_set (filter (\<lambda>l. l \<notin> set WEAK_TERMS) found)\<rparr>)"

section \<open>Identifiers\<close>

text \<open>
  \<open>[A-Z]+(?![a-z])\<close>: the longest run of capitals, or all but its last when a small letter follows;
  then \<open>[A-Z]?[a-z]+\<close>; then \<open>[0-9]+\<close>.
\<close>

definition identifier_part :: "string \<Rightarrow> (string \<times> string) option" where
  "identifier_part s =
     (let capitals = takeWhile ascii_upper s;
          rest = dropWhile ascii_upper s;
          small_follows = (case rest of c # _ \<Rightarrow> ascii_lower c | [] \<Rightarrow> False)
      in if capitals \<noteq> [] \<and> \<not> small_follows then Some (capitals, rest)
         else if 1 < length capitals then Some (butlast capitals, last capitals # rest)
         else if small_follows
         then Some (capitals @ takeWhile ascii_lower rest, dropWhile ascii_lower rest)
         else if takeWhile is_digit s \<noteq> [] then Some (takeWhile is_digit s, dropWhile is_digit s)
         else None)"

definition identifierTokens :: "string \<Rightarrow> string list" where
  "identifierTokens name = map js_lower (match_all identifier_part name)"

section \<open>Which declarations an objective is about\<close>

definition SYMBOL_STOP_WORDS :: "string list" where
  "SYMBOL_STOP_WORDS =
    [''a'', ''about'', ''above'', ''across'', ''after'', ''again'', ''all'', ''already'', ''also'', ''always'',
     ''an'', ''and'', ''any'', ''anything'', ''are'', ''around'', ''as'', ''at'', ''back'', ''be'',
     ''because'', ''been'', ''before'', ''behind'', ''being'', ''below'', ''best'', ''better'', ''between'',
     ''both'', ''but'', ''by'', ''can'', ''cannot'', ''could'', ''current'', ''currently'', ''do'', ''does'',
     ''doing'', ''done'', ''down'', ''due'', ''during'', ''each'', ''either'', ''else'', ''even'', ''every'',
     ''everything'', ''first'', ''for'', ''from'', ''full'', ''further'', ''has'', ''have'', ''here'', ''how'',
     ''however'', ''if'', ''in'', ''instead'', ''into'', ''is'', ''it'', ''its'', ''just'', ''kind'',
     ''known'', ''last'', ''let'', ''like'', ''many'', ''may'', ''might'', ''more'', ''most'', ''much'',
     ''must'', ''no'', ''not'', ''now'', ''of'', ''off'', ''on'', ''once'', ''one'', ''only'', ''onto'',
     ''or'', ''other'', ''our'', ''out'', ''over'', ''own'', ''per'', ''possible'', ''properly'', ''same'',
     ''side'', ''similar'', ''simple'', ''since'', ''so'', ''some'', ''something'', ''still'', ''such'',
     ''sure'', ''than'', ''that'', ''the'', ''their'', ''them'', ''then'', ''there'', ''these'', ''they'',
     ''thing'', ''this'', ''those'', ''through'', ''time'', ''to'', ''too'', ''top'', ''two'', ''under'',
     ''until'', ''up'', ''upon'', ''very'', ''was'', ''way'', ''we'', ''well'', ''were'', ''what'', ''when'',
     ''where'', ''whether'', ''which'', ''while'', ''who'', ''why'', ''will'', ''with'', ''within'',
     ''without'', ''would'', ''you'', ''your'', ''add'', ''adding'', ''allow'', ''api'', ''app'', ''apply'',
     ''base'', ''break'', ''call'', ''case'', ''change'', ''changes'', ''clean'', ''cleanup'', ''code'',
     ''common'', ''component'', ''consider'', ''correct'', ''drop'', ''enable'', ''ensure'', ''exist'',
     ''existing'', ''expect'', ''fail'', ''fix'', ''fixed'', ''function'', ''generate'', ''generating'',
     ''get'', ''give'', ''go'', ''good'', ''handle'', ''help'', ''helper'', ''implement'', ''improve'',
     ''include'', ''init'', ''issue'', ''keep'', ''logic'', ''make'', ''makes'', ''method'', ''module'',
     ''need'', ''needs'', ''new'', ''note'', ''part'', ''pass'', ''please'', ''point'', ''prevent'',
     ''problem'', ''provide'', ''put'', ''reason'', ''remove'', ''replace'', ''require'', ''return'', ''see'',
     ''setup'', ''should'', ''step'', ''support'', ''system'', ''take'', ''test'', ''tests'', ''todo'',
     ''try'', ''use'', ''used'', ''using'', ''util'', ''utils'', ''want'', ''work'']"

definition symbolTokens :: "lemmatizer \<Rightarrow> string \<Rightarrow> nat \<Rightarrow> bool \<Rightarrow> string list" where
  "symbolTokens lem word minLength stopped =
     filter (\<lambda>t. minLength \<le> length t \<and> \<not> (t \<noteq> [] \<and> list_all is_digit t) \<and>
               \<not> (stopped \<and> t \<in> set SYMBOL_STOP_WORDS))
       (map (lemmaOf lem) (identifierTokens word))"

definition name_char :: "char \<Rightarrow> bool" where
  "name_char c \<longleftrightarrow> ascii_letter c \<or> is_digit c \<or> c = CHR ''_''"

text \<open>How much of a name the objective accounts for; \<open>None\<close> when nothing, so it is not scored.\<close>

definition name_score :: "lemmatizer \<Rightarrow> string \<Rightarrow> string list \<Rightarrow> string list \<Rightarrow> nat \<Rightarrow> string \<Rightarrow> (string \<times> int) option" where
  "name_score lem lowered words names minLength name =
     (if sublist (js_lower name) lowered then Some (name, max_safe_integer)
      else
        (let tokens = (\<lambda>n. js_set (symbolTokens lem n minLength False));
             frequency = (\<lambda>t. length (filter (\<lambda>n. t \<in> set (tokens n)) names));
             ceiling = max 3 ((length names + 10) div 20);
             matched = length (filter (\<lambda>t. t \<in> set words \<and> 0 < frequency t \<and> frequency t < length names \<and>
                                          frequency t \<le> ceiling) (tokens name))
         in if 0 < matched then Some (name, int matched) else None))"

definition likelySymbolsIn :: "lemmatizer \<Rightarrow> string \<Rightarrow> string list \<Rightarrow> nat option \<Rightarrow> string list" where
  "likelySymbolsIn lem objective_text names minTokenLength =
     (let minLength = (case minTokenLength of None \<Rightarrow> 3 | Some n \<Rightarrow> n);
          lowered = js_lower objective_text;
          words = concat (map (\<lambda>w. symbolTokens lem w minLength True) (split_runs (\<lambda>c. \<not> name_char c) lowered))
      in if words = [] \<or> names = [] then []
         else
           (let scored = List.map_filter (name_score lem lowered words names minLength) names;
                best = foldl (\<lambda>top e. max top (snd e)) 0 scored
            in sort (map fst (filter (\<lambda>e. snd e = best) scored))))"

section \<open>What the guess may name\<close>

text \<open>Only names it was offered.\<close>

lemma name_score_name: "name_score lem lowered ws names k name = Some e \<Longrightarrow> fst e = name"
  by (auto simp: name_score_def Let_def split: if_splits)

lemma likelySymbolsIn_offered: "set (likelySymbolsIn lem s names n) \<subseteq> set names"
proof
  fix x
  assume "x \<in> set (likelySymbolsIn lem s names n)"
  then obtain e lowered ws k where "e \<in> set (List.map_filter (name_score lem lowered ws names k) names)" "x = fst e"
    unfolding likelySymbolsIn_def Let_def by (fastforce split: if_split_asm)
  then obtain name where "name \<in> set names" "name_score lem lowered ws names k name = Some e"
    by (auto simp: map_filter_def)
  then show "x \<in> set names" using name_score_name \<open>x = fst e\<close> by metis
qed

lemma split_runs_member:
  "t \<in> set (split_runs sep s) \<Longrightarrow> c \<in> set t \<Longrightarrow> \<not> sep c"
proof (induction sep s arbitrary: t rule: split_runs.induct)
  case (1 sep s)
  from 1(2) consider "t = takeWhile (\<lambda>c. \<not> sep c) s"
    | d ds where "dropWhile (\<lambda>c. \<not> sep c) s = d # ds" "t \<in> set (split_runs sep (dropWhile sep ds))"
    unfolding split_runs.simps [of sep s] by (cases "dropWhile (\<lambda>c. \<not> sep c) s") auto
  then show ?case
  proof cases
    case 1
    then show ?thesis using \<open>c \<in> set t\<close> by (auto dest: set_takeWhileD)
  next
    case 2
    then show ?thesis using "1.IH" \<open>c \<in> set t\<close> by blast
  qed
qed

end
