(* ===== verification/Approvals.thy ===== *)
theory Approvals
  imports Partial_Admission Intent_Words
begin

text \<open>
  \<open>services/coordinator/src/approval-service.ts\<close> with the table of approvals of
  \<open>services/persistence/src/sqlite-store.ts\<close>: the policy that says what stops for a person, and the gate
  that waits for one. A table is the list of its rows in the order of their row ids; timestamps are the
  ISO strings the code compares. The clock, fresh ids and \<open>render\<close>, the rendering of a time, are arguments.
\<close>

section \<open>Protected paths\<close>

text \<open>
  \<open>globRegex\<close> writes a regular expression; here it is the list of its parts. A dot matches no line
  terminator (of the characters of a \<open>string\<close>: line feed and carriage return).
\<close>

datatype glob_part = AnyPath | AnySegment | Exactly char

fun globRegex :: "string \<Rightarrow> glob_part list" where
  "globRegex [] = []"
| "globRegex [c] = [if c = CHR ''*'' then AnySegment else Exactly c]"
| "globRegex (c # d # cs) =
     (if c = CHR ''*''
      then (if d = CHR ''*'' then AnyPath # globRegex cs else AnySegment # globRegex (d # cs))
      else Exactly c # globRegex (d # cs))"

definition dot_matches :: "char \<Rightarrow> bool" where
  "dot_matches c \<longleftrightarrow> c \<noteq> CHR 0x0A \<and> c \<noteq> CHR 0x0D"

fun regex_test :: "glob_part list \<Rightarrow> string \<Rightarrow> bool" where
  "regex_test [] s \<longleftrightarrow> s = []"
| "regex_test (Exactly c # ps) s \<longleftrightarrow> (case s of [] \<Rightarrow> False | x # xs \<Rightarrow> x = c \<and> regex_test ps xs)"
| "regex_test (AnyPath # ps) [] \<longleftrightarrow> regex_test ps []"
| "regex_test (AnyPath # ps) (x # xs) \<longleftrightarrow> regex_test ps (x # xs) \<or> dot_matches x \<and> regex_test (AnyPath # ps) xs"
| "regex_test (AnySegment # ps) [] \<longleftrightarrow> regex_test ps []"
| "regex_test (AnySegment # ps) (x # xs) \<longleftrightarrow>
     regex_test ps (x # xs) \<or> x \<noteq> CHR ''/'' \<and> regex_test (AnySegment # ps) xs"

section \<open>The policy\<close>

record approval_policy_options =
  opt_enabled :: "bool option"
  opt_requireSchemaReview :: "bool option"
  opt_requireChangesetReview :: "bool option"
  opt_riskLevels :: "risk_level list option"
  opt_pathPatterns :: "string list option"
  opt_approvalTimeoutMs :: "int option"
  opt_requireRemotePlanReview :: "bool option"
  opt_requireRollbackReview :: "bool option"

record approval_policy =
  enabled :: bool
  riskLevels :: "risk_level list"
  pathPatterns :: "(string \<times> glob_part list) list"
  timeoutMs :: int
  requireSchemaReview :: bool
  requireChangesetReview :: bool
  requireRemotePlanReview :: bool
  requireRollbackReview :: bool

definition DEFAULT_PATH_PATTERNS :: "string list" where
  "DEFAULT_PATH_PATTERNS =
     [''.github/workflows/**'', ''authentication/**'', ''database/migrations/**'',
      ''infrastructure/production/**'', ''package.json'', ''secrets/**'']"

definition given :: "'a option \<Rightarrow> 'a \<Rightarrow> 'a" where
  "given x d = (case x of None \<Rightarrow> d | Some y \<Rightarrow> y)"

datatype policy_error = TimeoutTooShort

definition new_policy :: "approval_policy_options \<Rightarrow> policy_error + approval_policy" where
  "new_policy o' =
     (let timeout = given (opt_approvalTimeoutMs o') (24 * 60 * 60 * 1000)
      in if \<not> is_safe_integer timeout \<or> timeout < 1000 then Inl TimeoutTooShort
         else Inr
           \<lparr>enabled = given (opt_enabled o') False,
            riskLevels = given (opt_riskLevels o') [HighRisk, CriticalRisk],
            pathPatterns = map (\<lambda>p. (p, globRegex p)) (given (opt_pathPatterns o') DEFAULT_PATH_PATTERNS),
            timeoutMs = timeout,
            requireSchemaReview = given (opt_requireSchemaReview o') True,
            requireChangesetReview = given (opt_requireChangesetReview o') False,
            requireRemotePlanReview = given (opt_requireRemotePlanReview o') False,
            requireRollbackReview = given (opt_requireRollbackReview o') True\<rparr>)"

text \<open>A reason, without the wording around what it names.\<close>

datatype review_reason =
    RiskLevel risk_level
  | ChangesSchemas
  | ProtectedPath string string
  | RiskIncreased risk_level
  | EveryChangeset
  | ScopeChangesSchemas
  | DiscardsWork

definition pathReasons :: "approval_policy \<Rightarrow> string list \<Rightarrow> review_reason list" where
  "pathReasons pol files =
     js_set (List.map_filter (\<lambda>file.
       map_option (\<lambda>e. ProtectedPath file (fst e)) (find (\<lambda>e. regex_test (snd e) file) (pathPatterns pol))) files)"

definition reasons :: "approval_policy \<Rightarrow> agent_plan \<Rightarrow> string list \<Rightarrow> review_reason list" where
  "reasons pol p files =
     js_set
       ((if riskLevel p \<in> set (riskLevels pol) then [RiskLevel (riskLevel p)] else []) @
        (if requireSchemaReview pol \<and> 0 < length (or_empty (expectedSchemas p)) then [ChangesSchemas] else []) @
        pathReasons pol files)"

definition planReasons :: "approval_policy \<Rightarrow> agent_plan \<Rightarrow> review_reason list" where
  "planReasons pol p = (if \<not> enabled pol then [] else reasons pol p (expectedFiles p))"

definition remotePlanReasons :: "approval_policy \<Rightarrow> agent_plan \<Rightarrow> review_reason list" where
  "remotePlanReasons pol p = (if requireRemotePlanReview pol then planReasons pol p else [])"

definition rollbackReasons :: "approval_policy \<Rightarrow> review_reason list" where
  "rollbackReasons pol = (if requireRollbackReview pol then [DiscardsWork] else [])"

definition escalatedChangesetReasons :: "approval_policy \<Rightarrow> agent_plan \<Rightarrow> risk_level \<Rightarrow> review_reason list" where
  "escalatedChangesetReasons pol p assessed =
     (if assessed \<noteq> riskLevel p \<and> assessed \<in> set (riskLevels pol) then [RiskIncreased assessed] else [])"

text \<open>Of the change set: its patches and the level of its own risk assessment.\<close>

definition changesetReasons ::
  "approval_policy \<Rightarrow> agent_plan \<Rightarrow> file_patch list \<Rightarrow> risk_level \<Rightarrow> bool option \<Rightarrow> review_reason list" where
  "changesetReasons pol p ps assessed planWasReviewed =
     (if \<not> enabled pol then []
      else js_set
        ((if planWasReviewed = Some True then escalatedChangesetReasons pol p assessed
          else reasons pol p (map patch_path ps)) @
         (if requireChangesetReview pol then [EveryChangeset] else [])))"

definition scopeReasons :: "approval_policy \<Rightarrow> scope_request \<Rightarrow> review_reason list" where
  "scopeReasons pol r =
     (if \<not> enabled pol then []
      else js_set
        ((if requireSchemaReview pol \<and> 0 < length (additionalSchemas r) then [ScopeChangesSchemas] else []) @
         pathReasons pol (additionalFiles r)))"

section \<open>The table\<close>

datatype approval_kind = ChangesetApproval | ScopeChangeApproval | PolicyOverride

datatype approval_status = Pending | ApprovalGiven | Rejected | Cancelled | Expired

datatype approval_role = ReviewerRole | AdminRole | OwnerRole

record approval_input =
  organizationId :: "string option"
  projectId :: "string option"
  repositoryId :: string
  runId :: string
  approval_task :: string
  approval_kind :: approval_kind
  requestedBy :: string
  requiredRole :: approval_role
  approval_reasons :: "review_reason list"
  changeSetId :: "string option"
  scopeChangeId :: "string option"
  expires_at :: string

record approval_request = approval_input +
  approval_id :: string
  approval_status :: approval_status
  requestedAt :: string
  decidedAt :: "string option"
  decidedBy :: "string option"
  decisionComment :: "string option"

record approval_decision =
  decided_approval :: string
  decision_approves :: bool
  decision_by :: string
  decision_comment :: string
  decision_at :: string

type_synonym approval_table = "approval_request list"

datatype approval_error =
    DuplicateApproval
  | UnknownApproval
  | CannotBeDecided approval_status

definition getApproval :: "string \<Rightarrow> approval_table \<Rightarrow> approval_request option" where
  "getApproval i table = find (\<lambda>r. approval_id r = i) table"

definition requested :: "approval_input \<Rightarrow> string \<Rightarrow> string \<Rightarrow> approval_request" where
  "requested input new_id now =
     approval_input.extend input
       \<lparr>approval_id = new_id, approval_status = Pending, requestedAt = now, decidedAt = None, decidedBy = None,
        decisionComment = None\<rparr>"

text \<open>The primary key refuses an id that is taken.\<close>

definition createApproval ::
  "approval_input \<Rightarrow> string \<Rightarrow> string \<Rightarrow> approval_table \<Rightarrow> approval_error + approval_request \<times> approval_table" where
  "createApproval input new_id now table =
     (if getApproval new_id table \<noteq> None then Inl DuplicateApproval
      else Inr (requested input new_id now, table @ [requested input new_id now]))"

record approval_filter =
  filter_organization :: "string option"
  filter_project :: "string option"
  filter_repository :: "string option"
  filter_run :: "string option"
  filter_task :: "string option"
  filter_status :: "approval_status option"

text \<open>\<open>column = ?\<close>, which no row with \<open>NULL\<close> in the column satisfies.\<close>

definition column_is :: "'a option \<Rightarrow> 'a option \<Rightarrow> bool" where
  "column_is wanted v \<longleftrightarrow> (wanted = None \<or> v = wanted)"

definition listApprovals :: "approval_filter \<Rightarrow> approval_table \<Rightarrow> approval_request list" where
  "listApprovals f table =
     rev (sort_key requestedAt (filter (\<lambda>r.
       column_is (filter_organization f) (organizationId r) \<and> column_is (filter_project f) (projectId r) \<and>
       column_is (filter_repository f) (Some (repositoryId r)) \<and> column_is (filter_run f) (Some (runId r)) \<and>
       column_is (filter_task f) (Some (approval_task r)) \<and>
       column_is (filter_status f) (Some (approval_status r))) table))"

definition decided_row :: "approval_decision \<Rightarrow> approval_request \<Rightarrow> approval_request" where
  "decided_row d r =
     r\<lparr>approval_status := (if decision_approves d then ApprovalGiven else Rejected),
       decidedAt := Some (decision_at d), decidedBy := Some (decision_by d), decisionComment := Some (decision_comment d)\<rparr>"

definition decidable :: "approval_decision \<Rightarrow> approval_request \<Rightarrow> bool" where
  "decidable d r \<longleftrightarrow> approval_id r = decided_approval d \<and> approval_status r = Pending"

definition decideApproval ::
  "approval_decision \<Rightarrow> approval_table \<Rightarrow> (approval_error + approval_request) \<times> approval_table" where
  "decideApproval d table =
     (let table' = map (\<lambda>r. if decidable d r then decided_row d r else r) table
      in if list_ex (decidable d) table
         then (case getApproval (decided_approval d) table' of
                 None \<Rightarrow> (Inl UnknownApproval, table')
               | Some r \<Rightarrow> (Inr r, table'))
         else (case getApproval (decided_approval d) table of
                 None \<Rightarrow> (Inl UnknownApproval, table)
               | Some r \<Rightarrow> (Inl (CannotBeDecided (approval_status r)), table)))"

definition overdue :: "string \<Rightarrow> approval_request \<Rightarrow> bool" where
  "overdue now r \<longleftrightarrow> approval_status r = Pending \<and> expires_at r \<le> now"

definition expireApprovals :: "string \<Rightarrow> approval_table \<Rightarrow> nat \<times> approval_table" where
  "expireApprovals now table =
     (length (filter (overdue now) table),
      map (\<lambda>r. if overdue now r then r\<lparr>approval_status := Expired, decidedAt := Some now\<rparr> else r) table)"

section \<open>The gate\<close>

text \<open>
  The loop of \<open>review\<close>, once its request is created: between two accesses to the store others act.
\<close>

datatype review_outcome =
    Reviewed approval_request bool
  | ReviewCancelled
  | RequestDisappeared

datatype review_phase =
    Polling
  | Sleeping
  | Expiring approval_request
  | Reporting approval_request
  | Finished review_outcome

definition review_step ::
  "string \<Rightarrow> string \<Rightarrow> bool \<Rightarrow> approval_table \<Rightarrow> review_phase \<Rightarrow> review_phase \<times> approval_table" where
  "review_step i now aborted table phase =
     (case phase of
        Polling \<Rightarrow>
          if aborted then (Finished ReviewCancelled, table)
          else
            (case getApproval i table of
               None \<Rightarrow> (Finished RequestDisappeared, table)
             | Some r \<Rightarrow>
                 if approval_status r = ApprovalGiven \<or> approval_status r = Rejected
                 then (Finished (Reviewed r (approval_status r = ApprovalGiven)), table)
                 else if approval_status r = Expired \<or> approval_status r = Cancelled \<or> expires_at r \<le> now
                 then (Expiring r, table)
                 else (Sleeping, table))
      | Sleeping \<Rightarrow> (if aborted then Finished ReviewCancelled else Polling, table)
      | Expiring r \<Rightarrow> (Reporting r, snd (expireApprovals now table))
      | Reporting r \<Rightarrow> (Finished (Reviewed (given (getApproval i table) r) False), table)
      | Finished o' \<Rightarrow> (phase, table))"

definition review_request :: "(int \<Rightarrow> string) \<Rightarrow> int \<Rightarrow> int \<Rightarrow> approval_input \<Rightarrow> approval_input" where
  "review_request render now timeout input = input\<lparr>requiredRole := AdminRole, expires_at := render (now + timeout)\<rparr>"

definition begin_review ::
  "(int \<Rightarrow> string) \<Rightarrow> int \<Rightarrow> int \<Rightarrow> approval_input \<Rightarrow> string \<Rightarrow> approval_table
   \<Rightarrow> approval_error + approval_request \<times> approval_table" where
  "begin_review render now timeout input new_id table =
     createApproval (review_request render now timeout input) new_id (render now) table"

text \<open>\<open>AutoApprovalController.review\<close>, in one go.\<close>

definition auto_review ::
  "(int \<Rightarrow> string) \<Rightarrow> int \<Rightarrow> string \<Rightarrow> string \<Rightarrow> approval_input \<Rightarrow> string \<Rightarrow> approval_table
   \<Rightarrow> (approval_error + approval_request) \<times> approval_table" where
  "auto_review render now reviewer comment input new_id table =
     (case begin_review render now 60000 input new_id table of
        Inl e \<Rightarrow> (Inl e, table)
      | Inr (r, created) \<Rightarrow>
          decideApproval
            \<lparr>decided_approval = approval_id r, decision_approves = True, decision_by = reviewer,
             decision_comment = comment, decision_at = render now\<rparr> created)"

end
