(* ===== verification/Approval_Laws.thy ===== *)
theory Approval_Laws
  imports Approvals
begin

text \<open>
  What a pattern of the policy matches, and the life of an approval: a row is decided once and keeps its
  decision, whoever acts in whatever order, and a review that waits for it ends once it is decided or
  overdue.
\<close>

section \<open>Patterns\<close>

fun part_matches :: "glob_part \<Rightarrow> string \<Rightarrow> bool" where
  "part_matches AnyPath s \<longleftrightarrow> list_all dot_matches s"
| "part_matches AnySegment s \<longleftrightarrow> CHR ''/'' \<notin> set s"
| "part_matches (Exactly c) s \<longleftrightarrow> s = [c]"

definition glob_means :: "glob_part list \<Rightarrow> string \<Rightarrow> bool" where
  "glob_means ps s \<longleftrightarrow> (\<exists>ss. list_all2 part_matches ps ss \<and> concat ss = s)"

lemma glob_means_Nil [simp]: "glob_means [] s \<longleftrightarrow> s = []"
  by (auto simp: glob_means_def)

lemma glob_means_Cons:
  "glob_means (p # ps) s \<longleftrightarrow> (\<exists>u v. s = u @ v \<and> part_matches p u \<and> glob_means ps v)"
proof
  assume "glob_means (p # ps) s"
  then obtain ss where "list_all2 part_matches (p # ps) ss" "concat ss = s" by (auto simp: glob_means_def)
  then show "\<exists>u v. s = u @ v \<and> part_matches p u \<and> glob_means ps v"
    by (cases ss) (auto simp: glob_means_def)
next
  assume "\<exists>u v. s = u @ v \<and> part_matches p u \<and> glob_means ps v"
  then obtain u v ss where s: "s = u @ v" "part_matches p u" "list_all2 part_matches ps ss" "concat ss = v"
    by (auto simp: glob_means_def)
  then show "glob_means (p # ps) s" unfolding glob_means_def by (intro exI [of _ "u # ss"]) simp
qed

lemma glob_star:
  assumes "\<And>u. part_matches p u \<longleftrightarrow> list_all ok u"
  shows "glob_means (p # ps) [] \<longleftrightarrow> glob_means ps []"
    and "glob_means (p # ps) (x # xs) \<longleftrightarrow> glob_means ps (x # xs) \<or> ok x \<and> glob_means (p # ps) xs"
proof -
  show "glob_means (p # ps) [] \<longleftrightarrow> glob_means ps []" by (simp add: glob_means_Cons assms)
  show "glob_means (p # ps) (x # xs) \<longleftrightarrow> glob_means ps (x # xs) \<or> ok x \<and> glob_means (p # ps) xs"
  proof
    assume "glob_means (p # ps) (x # xs)"
    then obtain u v where u: "x # xs = u @ v" "list_all ok u" "glob_means ps v" by (auto simp: glob_means_Cons assms)
    show "glob_means ps (x # xs) \<or> ok x \<and> glob_means (p # ps) xs"
    proof (cases u)
      case Nil
      then show ?thesis using u by simp
    next
      case (Cons y w)
      then show ?thesis using u unfolding glob_means_Cons assms by auto
    qed
  next
    assume "glob_means ps (x # xs) \<or> ok x \<and> glob_means (p # ps) xs"
    then show "glob_means (p # ps) (x # xs)"
    proof
      assume "glob_means ps (x # xs)"
      then show ?thesis unfolding glob_means_Cons assms by (intro exI [of _ "[]"] exI [of _ "x # xs"]) simp
    next
      assume "ok x \<and> glob_means (p # ps) xs"
      then obtain u v where "ok x" "xs = u @ v" "list_all ok u" "glob_means ps v" by (auto simp: glob_means_Cons assms)
      then show ?thesis unfolding glob_means_Cons assms by (intro exI [of _ "x # u"] exI [of _ v]) simp
    qed
  qed
qed

lemma regex_test_means: "regex_test ps s \<longleftrightarrow> glob_means ps s"
proof (induction ps s rule: regex_test.induct)
  case (2 c ps s)
  then show ?case by (cases s) (auto simp: glob_means_Cons)
next
  case (3 ps)
  then show ?case using glob_star(1) [of AnyPath dot_matches] by simp
next
  case (4 ps x xs)
  then show ?case using glob_star(2) [of AnyPath dot_matches] by simp
next
  case (5 ps)
  then show ?case using glob_star(1) [of AnySegment "\<lambda>c. c \<noteq> CHR ''/''"] by (simp add: list_all_iff) metis
next
  case (6 ps x xs)
  then show ?case using glob_star(2) [of AnySegment "\<lambda>c. c \<noteq> CHR ''/''"] by (simp add: list_all_iff) metis
qed simp

lemma globRegex_plain:
  "CHR ''*'' \<notin> set d \<Longrightarrow> globRegex (d @ ''/**'') = map Exactly (d @ ''/'') @ [AnyPath]"
proof (induction d rule: globRegex.induct)
  case (3 c d cs)
  then show ?case by (auto split: if_splits)
qed simp_all

lemma exactly_means:
  "glob_means (map Exactly d @ ps) s \<longleftrightarrow> (\<exists>v. s = d @ v \<and> glob_means ps v)"
  by (induction d arbitrary: s) (auto simp: glob_means_Cons)

lemma directory_pattern:
  assumes "CHR ''*'' \<notin> set d"
  shows "regex_test (globRegex (d @ ''/**'')) s \<longleftrightarrow> (\<exists>rest. s = d @ ''/'' @ rest \<and> list_all dot_matches rest)"
  unfolding globRegex_plain [OF assms] regex_test_means exactly_means by (auto simp: glob_means_Cons)

section \<open>The table\<close>

definition keyed_rows :: "approval_table \<Rightarrow> bool" where
  "keyed_rows table \<longleftrightarrow> distinct (map approval_id table)"

lemma getApproval_Some: "getApproval i table = Some r \<Longrightarrow> r \<in> set table \<and> approval_id r = i"
  by (auto simp: getApproval_def find_Some_iff)

lemma getApproval_map:
  "(\<And>r. approval_id (f r) = approval_id r) \<Longrightarrow> getApproval i (map f table) = map_option f (getApproval i table)"
  by (induction table) (auto simp: getApproval_def)

lemma getApproval_append:
  "getApproval i (table @ [r]) =
     (case getApproval i table of Some s \<Rightarrow> Some s | None \<Rightarrow> if approval_id r = i then Some r else None)"
  by (induction table) (auto simp: getApproval_def)

lemma keyed_get: "keyed_rows table \<Longrightarrow> r \<in> set table \<Longrightarrow> getApproval (approval_id r) table = Some r"
  by (induction table) (auto simp: getApproval_def keyed_rows_def)

lemma decided_row_simps [simp]:
  "approval_id (decided_row d r) = approval_id r"
  "approval_status (decided_row d r) = (if decision_approves d then ApprovalGiven else Rejected)"
  "expires_at (decided_row d r) = expires_at r"
  "decidedBy (decided_row d r) = Some (decision_by d)" "decidedAt (decided_row d r) = Some (decision_at d)"
  by (simp_all add: decided_row_def)

lemma requested_simps [simp]:
  "approval_id (requested input i now) = i" "approval_status (requested input i now) = Pending"
  "expires_at (requested input i now) = expires_at input" "decidedBy (requested input i now) = None"
  by (cases input; simp add: requested_def approval_input.defs)+

lemma decideApproval_row:
  "getApproval i (snd (decideApproval d table)) =
     map_option (\<lambda>r. if decidable d r then decided_row d r else r) (getApproval i table)"
proof (cases "list_ex (decidable d) table")
  case True
  then have "snd (decideApproval d table) = map (\<lambda>r. if decidable d r then decided_row d r else r) table"
    by (simp add: decideApproval_def Let_def split: option.splits)
  then show ?thesis by (simp add: getApproval_map)
next
  case False
  then have "snd (decideApproval d table) = table" by (simp add: decideApproval_def Let_def split: option.splits)
  moreover have "\<not> decidable d r" if "getApproval i table = Some r" for r
    using False getApproval_Some [OF that] by (auto simp: list_ex_iff)
  ultimately show ?thesis by (cases "getApproval i table") simp_all
qed

lemma expireApprovals_row:
  "getApproval i (snd (expireApprovals now table)) =
     map_option (\<lambda>r. if overdue now r then r\<lparr>approval_status := Expired, decidedAt := Some now\<rparr> else r)
       (getApproval i table)"
  by (simp add: expireApprovals_def getApproval_map)

section \<open>Everybody who acts on the table\<close>

datatype approval_act =
    Creates approval_input string string
  | Decides approval_decision
  | Sweeps string

fun act :: "approval_act \<Rightarrow> approval_table \<Rightarrow> approval_table" where
  "act (Creates input i now) table =
     (case createApproval input i now table of Inl _ \<Rightarrow> table | Inr (_, table') \<Rightarrow> table')"
| "act (Decides d) table = snd (decideApproval d table)"
| "act (Sweeps now) table = snd (expireApprovals now table)"

text \<open>A row is only ever touched while it is pending, and only its decision changes.\<close>

lemma act_row:
  assumes "getApproval i table = Some r"
  shows "\<exists>r'. getApproval i (act a table) = Some r' \<and> expires_at r' = expires_at r \<and>
    (approval_status r \<noteq> Pending \<longrightarrow> r' = r) \<and>
    (approval_status r' = ApprovalGiven \<and> r' \<noteq> r \<longrightarrow> decidedBy r' \<noteq> None)"
proof (cases a)
  case (Creates input j now)
  then show ?thesis using assms
    by (cases "createApproval input j now table")
       (auto simp: createApproval_def getApproval_append split: if_splits)
next
  case (Decides d)
  then show ?thesis using assms by (simp add: decideApproval_row decidable_def)
next
  case (Sweeps now)
  then show ?thesis using assms by (simp add: expireApprovals_row overdue_def)
qed

definition table_ok :: "approval_table \<Rightarrow> bool" where
  "table_ok table \<longleftrightarrow> keyed_rows table \<and> (\<forall>r \<in> set table. approval_status r = ApprovalGiven \<longrightarrow> decidedBy r \<noteq> None)"

lemma act_decided:
  assumes "getApproval i table = Some r" and "approval_status r \<noteq> Pending"
  shows "getApproval i (fold act acts table) = Some r"
  using assms(1)
proof (induction acts arbitrary: table)
  case (Cons a acts)
  then show ?case using act_row [OF Cons.prems, of a] assms(2) by auto
qed simp

lemma keyed_map: "(\<And>r. approval_id (f r) = approval_id r) \<Longrightarrow> keyed_rows (map f table) = keyed_rows table"
  by (simp add: keyed_rows_def comp_def)

lemma getApproval_None: "getApproval i table = None \<longleftrightarrow> i \<notin> approval_id ` set table"
  by (auto simp: getApproval_def find_None_iff)

lemma act_table_ok: "table_ok table \<Longrightarrow> table_ok (act a table)"
proof (cases a)
  case (Creates input i now)
  assume "table_ok table"
  then show ?thesis unfolding Creates
    by (auto simp: createApproval_def table_ok_def keyed_rows_def getApproval_None)
next
  case (Decides d)
  assume t: "table_ok table"
  have "snd (decideApproval d table) = table \<or>
      snd (decideApproval d table) = map (\<lambda>r. if decidable d r then decided_row d r else r) table"
    by (simp add: decideApproval_def Let_def split: option.splits)
  moreover have "table_ok (map (\<lambda>r. if decidable d r then decided_row d r else r) table)"
    using t by (auto simp: table_ok_def keyed_map split: if_splits)
  ultimately show ?thesis using t Decides by auto
next
  case (Sweeps now)
  assume t: "table_ok table"
  then show ?thesis unfolding Sweeps by (auto simp: expireApprovals_def table_ok_def keyed_map split: if_splits)
qed

section \<open>A review among others\<close>

record review_world =
  table :: approval_table
  clock :: string
  phase :: review_phase

definition review_acts :: "string \<Rightarrow> bool \<Rightarrow> review_world \<Rightarrow> review_world" where
  "review_acts i aborted w =
     (let (p, t) = review_step i (clock w) aborted (table w) (phase w) in w\<lparr>table := t, phase := p\<rparr>)"

inductive review_run :: "string \<Rightarrow> review_world \<Rightarrow> bool" for i where
  begins: "table_ok t \<Longrightarrow> createApproval input i now t = Inr (r, t') \<Longrightarrow>
    review_run i \<lparr>table = t', clock = now, phase = Polling\<rparr>"
| others: "review_run i w \<Longrightarrow> review_run i (w\<lparr>table := act a (table w)\<rparr>)"
| ticks: "review_run i w \<Longrightarrow> clock w \<le> c \<Longrightarrow> review_run i (w\<lparr>clock := c\<rparr>)"
| goes_on: "review_run i w \<Longrightarrow> review_run i (review_acts i aborted w)"

fun phase_ok :: "string \<Rightarrow> approval_table \<Rightarrow> review_phase \<Rightarrow> bool" where
  "phase_ok i t (Expiring r) \<longleftrightarrow> approval_id r = i"
| "phase_ok i t (Reporting r) \<longleftrightarrow> approval_id r = i"
| "phase_ok i t (Finished (Reviewed r ok)) \<longleftrightarrow>
     approval_id r = i \<and> (ok \<longrightarrow> getApproval i t = Some r \<and> approval_status r = ApprovalGiven)"
| "phase_ok i t (Finished RequestDisappeared) \<longleftrightarrow> False"
| "phase_ok i t p \<longleftrightarrow> True"

definition world_ok :: "string \<Rightarrow> review_world \<Rightarrow> bool" where
  "world_ok i w \<longleftrightarrow> table_ok (table w) \<and> getApproval i (table w) \<noteq> None \<and> phase_ok i (table w) (phase w)"

lemma phase_ok_act:
  assumes "phase_ok i t p"
  shows "phase_ok i (act a t) p"
proof (cases "\<exists>r. p = Finished (Reviewed r True)")
  case True
  then show ?thesis using assms act_row [of i t _ a] by fastforce
next
  case False
  then show ?thesis using assms by (cases "(i, t, p)" rule: phase_ok.cases) auto
qed

lemma world_ok_step:
  assumes "world_ok i w"
  shows "world_ok i (review_acts i aborted w)"
proof -
  obtain r where r: "getApproval i (table w) = Some r" "approval_id r = i"
    using assms getApproval_Some by (auto simp: world_ok_def)
  show ?thesis
  proof (cases "phase w")
    case (Expiring s)
    have "table_ok (act (Sweeps (clock w)) (table w))" using assms act_table_ok unfolding world_ok_def by blast
    moreover have "getApproval i (act (Sweeps (clock w)) (table w)) \<noteq> None" using act_row [OF r(1), of "Sweeps (clock w)"] by auto
    ultimately show ?thesis using assms Expiring by (simp add: world_ok_def review_acts_def review_step_def)
  next
    case (Finished o')
    then show ?thesis using assms by (simp add: world_ok_def review_acts_def review_step_def)
  qed (use assms r in \<open>auto simp: world_ok_def review_acts_def review_step_def given_def\<close>)
qed

lemma review_run_ok: "review_run i w \<Longrightarrow> world_ok i w"
proof (induction rule: review_run.induct)
  case (begins t input now r t')
  then have "act (Creates input i now) t = t'" by simp
  then have "table_ok t'" using act_table_ok [OF begins(1), of "Creates input i now"] by simp
  moreover have "getApproval i t' \<noteq> None"
    using begins(2) by (auto simp: createApproval_def getApproval_append split: if_splits option.splits)
  ultimately show ?case by (simp add: world_ok_def)
next
  case (others w a)
  then obtain r where "getApproval i (table w) = Some r" by (auto simp: world_ok_def)
  then show ?case using others act_table_ok phase_ok_act act_row by (fastforce simp: world_ok_def)
next
  case (ticks w c)
  then show ?case by (simp add: world_ok_def)
next
  case (goes_on w aborted)
  then show ?case by (simp add: world_ok_step)
qed

text \<open>Waiting ends: nothing undoes that a request is due, and every step of the gate then leads on.\<close>

definition due :: "string \<Rightarrow> review_world \<Rightarrow> bool" where
  "due i w \<longleftrightarrow> (\<exists>r. getApproval i (table w) = Some r \<and> (approval_status r \<noteq> Pending \<or> expires_at r \<le> clock w))"

fun steps_left :: "review_phase \<Rightarrow> nat" where
  "steps_left Sleeping = 4"
| "steps_left Polling = 3"
| "steps_left (Expiring r) = 2"
| "steps_left (Reporting r) = 1"
| "steps_left (Finished o') = 0"

lemma due_others: "due i w \<Longrightarrow> due i (w\<lparr>table := act a (table w)\<rparr>)"
  unfolding due_def using act_row by fastforce

lemma due_ticks: "due i w \<Longrightarrow> clock w \<le> c \<Longrightarrow> due i (w\<lparr>clock := c\<rparr>)"
  by (auto simp: due_def)

lemma due_goes_on:
  assumes "due i w"
  shows "due i (review_acts i aborted w) \<and>
    (steps_left (phase (review_acts i aborted w)) < steps_left (phase w) \<or> (\<exists>o'. phase w = Finished o'))"
proof -
  have "table (review_acts i aborted w) = table w \<or> table (review_acts i aborted w) = act (Sweeps (clock w)) (table w)"
    by (auto simp: review_acts_def review_step_def Let_def split: review_phase.splits option.splits)
  then have "due i (review_acts i aborted w)"
    using assms due_others [OF assms, of "Sweeps (clock w)"]
    by (auto simp: due_def review_acts_def split: prod.splits)
  moreover obtain r where r: "getApproval i (table w) = Some r" "approval_status r \<noteq> Pending \<or> expires_at r \<le> clock w"
    using assms by (auto simp: due_def)
  have "steps_left (phase (review_acts i aborted w)) < steps_left (phase w) \<or> (\<exists>o'. phase w = Finished o')"
    using r by (cases "phase w"; cases "approval_status r") (simp_all add: review_acts_def review_step_def)
  ultimately show ?thesis ..
qed

text \<open>The review and the others, as a list of moves.\<close>

datatype review_move = Own bool | Others approval_act | Ticks string

definition is_own :: "review_move \<Rightarrow> bool" where
  "is_own m = (case m of Own _ \<Rightarrow> True | _ \<Rightarrow> False)"

lemma is_own_simps [simp]: "is_own (Own b)" "\<not> is_own (Others a)" "\<not> is_own (Ticks c)"
  by (simp_all add: is_own_def)

fun do_move :: "string \<Rightarrow> review_move \<Rightarrow> review_world \<Rightarrow> review_world" where
  "do_move i (Own aborted) w = review_acts i aborted w"
| "do_move i (Others a) w = w\<lparr>table := act a (table w)\<rparr>"
| "do_move i (Ticks c) w = w\<lparr>clock := max (clock w) c\<rparr>"

lemma move_run: "review_run i w \<Longrightarrow> review_run i (do_move i m w)"
  by (cases m) (simp_all add: review_run.goes_on review_run.others review_run.ticks)

lemma moves_run: "review_run i w \<Longrightarrow> review_run i (fold (do_move i) ms w)"
  by (induction ms arbitrary: w) (simp_all add: move_run)

lemma steps_bound: "steps_left p \<le> 4"
  by (cases p) simp_all

lemma moves_end:
  "due i w \<Longrightarrow> steps_left (phase (fold (do_move i) ms w)) \<le> steps_left (phase w) - length (filter is_own ms)"
proof (induction ms arbitrary: w)
  case (Cons m ms)
  have d: "due i (do_move i m w)" using Cons.prems due_goes_on due_others due_ticks by (cases m) auto
  have "steps_left (phase (do_move i m w)) \<le> steps_left (phase w) - (if is_own m then 1 else 0)"
  proof (cases m)
    case (Own aborted)
    show ?thesis
    proof (cases "\<exists>o'. phase w = Finished o'")
      case True
      then show ?thesis unfolding Own by (auto simp: review_acts_def review_step_def)
    next
      case False
      then have "steps_left (phase (review_acts i aborted w)) < steps_left (phase w)"
        using due_goes_on [OF Cons.prems, of aborted] by blast
      then show ?thesis unfolding Own by simp
    qed
  qed simp_all
  then show ?case using Cons.IH [OF d] by (cases "is_own m") auto
qed simp

lemma js_set_Nil_iff [simp]: "js_set xs = [] \<longleftrightarrow> xs = []"
  by (simp add: js_set_def)

lemma acts_table_ok: "table_ok rows \<Longrightarrow> table_ok (fold act acts rows)"
  by (induction acts arbitrary: rows) (simp_all add: act_table_ok)

lemma decidable_row:
  "table_ok rows \<Longrightarrow> list_ex (decidable d) rows \<Longrightarrow> \<exists>r. getApproval (decided_approval d) rows = Some r \<and> approval_status r = Pending"
  using keyed_get by (fastforce simp: table_ok_def list_ex_iff decidable_def)

end
