(* ===== verification/Approval_Properties.thy ===== *)
theory Approval_Properties
  imports Approval_Laws
begin

text \<open>
  The properties of approvals: what the policy stops, that a decision is final, and what a review that
  waits for one reports and when.
\<close>

section \<open>The policy\<close>

text \<open>
  What stops for a person. A plan is stopped by a policy exactly when the policy is enabled and the
  plan's risk is one of its levels, or it changes a schema and schemas are reviewed, or one of its files
  is matched by a pattern: a double star for any run of characters on one line, a star for any run
  without a slash, any other character for itself. A policy nobody configured stops no plan and no
  change, and still stops a rollback.
\<close>

theorem policy_stops:
  "(planReasons pol p \<noteq> [] \<longleftrightarrow> enabled pol \<and>
      (riskLevel p \<in> set (riskLevels pol) \<or> requireSchemaReview pol \<and> or_empty (expectedSchemas p) \<noteq> [] \<or>
       (\<exists>file \<in> set (expectedFiles p). \<exists>e \<in> set (pathPatterns pol). glob_means (snd e) file))) \<and>
   (\<exists>unset. new_policy \<lparr>opt_enabled = None, opt_requireSchemaReview = None, opt_requireChangesetReview = None,
        opt_riskLevels = None, opt_pathPatterns = None, opt_approvalTimeoutMs = None,
        opt_requireRemotePlanReview = None, opt_requireRollbackReview = None\<rparr> = Inr unset \<and>
      planReasons unset p = [] \<and> changesetReasons unset p ps level reviewed = [] \<and> rollbackReasons unset = [DiscardsWork])"
proof
  have path: "pathReasons pol files = [] \<longleftrightarrow> \<not> (\<exists>file \<in> set files. \<exists>e \<in> set (pathPatterns pol). glob_means (snd e) file)" for files
    by (fastforce simp: pathReasons_def map_filter_def filter_empty_conv find_None_iff regex_test_means)
  show "planReasons pol p \<noteq> [] \<longleftrightarrow> enabled pol \<and>
      (riskLevel p \<in> set (riskLevels pol) \<or> requireSchemaReview pol \<and> or_empty (expectedSchemas p) \<noteq> [] \<or>
       (\<exists>file \<in> set (expectedFiles p). \<exists>e \<in> set (pathPatterns pol). glob_means (snd e) file))"
    using path [of "expectedFiles p"] by (auto simp: planReasons_def reasons_def)
qed (simp add: new_policy_def given_def is_safe_integer_def max_safe_integer_def planReasons_def changesetReasons_def
    rollbackReasons_def)

section \<open>Decisions\<close>

text \<open>
  A decision is final. Once a row of the table is approved, rejected, expired or cancelled, no sequence of
  requests, decisions and sweeps changes it, and every further decision on it is refused with the status
  it has.
\<close>


theorem decision_is_final:
  assumes "table_ok rows" and "getApproval i rows = Some r" and "approval_status r \<noteq> Pending" and "decided_approval d = i"
  shows "getApproval i (fold act acts rows) = Some r \<and>
    decideApproval d (fold act acts rows) = (Inl (CannotBeDecided (approval_status r)), fold act acts rows)"
proof -
  have g: "getApproval i (fold act acts rows) = Some r" by (rule act_decided [OF assms(2,3)])
  have "table_ok (fold act acts rows)" by (rule acts_table_ok [OF assms(1)])
  then have "\<not> list_ex (decidable d) (fold act acts rows)"
    using decidable_row g assms(3,4) by fastforce
  then show ?thesis using g assms(4) by (simp add: decideApproval_def)
qed

definition demo_request :: approval_input where
  "demo_request =
     \<lparr>organizationId = None, projectId = None, repositoryId = ''R'', runId = ''x'', approval_task = ''t'',
      approval_kind = PolicyOverride, requestedBy = ''u'', requiredRole = AdminRole, approval_reasons = [],
      changeSetId = None, scopeChangeId = None, expires_at = ''2''\<rparr>"

definition demo_row :: approval_request where
  "demo_row = requested demo_request ''i'' ''1''"

definition approves :: "string \<Rightarrow> approval_decision" where
  "approves stamp = \<lparr>decided_approval = ''i'', decision_approves = True, decision_by = ''v'', decision_comment = [], decision_at = stamp\<rparr>"

lemma demo_created: "createApproval demo_request ''i'' ''1'' [] = Inr (demo_row, [demo_row])"
  by (simp add: createApproval_def getApproval_def demo_row_def)

lemma demo_decidable: "decidable (approves stamp) demo_row" "expires_at demo_row = ''2''" "approval_id demo_row = ''i''"
  "approval_status demo_row = Pending"
  by (simp_all add: decidable_def approves_def demo_row_def demo_request_def)

theorem decision_is_final_witness:
  "decideApproval (approves ''3'') (fold act [Sweeps ''9''] [decided_row (approves ''2'') demo_row]) =
     (Inl (CannotBeDecided ApprovalGiven), [decided_row (approves ''2'') demo_row])"
proof -
  let ?r = "decided_row (approves ''2'') demo_row"
  have a: "decision_approves (approves ''2'')" "decided_approval (approves ''3'') = ''i''" by (simp_all add: approves_def)
  then have "table_ok [?r]" by (simp add: table_ok_def keyed_rows_def)
  moreover have "getApproval ''i'' [?r] = Some ?r" by (simp add: getApproval_def demo_decidable)
  moreover have "approval_status ?r = ApprovalGiven" using a by simp
  moreover have "fold act [Sweeps ''9''] [?r] = [?r]" by (simp add: expireApprovals_def overdue_def)
  ultimately show ?thesis using a(2) decision_is_final [of "[?r]" "''i''" ?r "approves ''3''" "[Sweeps ''9'']"] by simp
qed

section \<open>Reviews\<close>


definition waiting :: review_world where
  "waiting = \<lparr>table = [demo_row], clock = ''1'', phase = Polling\<rparr>"

lemma waiting_run: "review_run ''i'' waiting"
  unfolding waiting_def by (rule review_run.begins [OF _ demo_created]) (simp add: table_ok_def keyed_rows_def)

definition late :: review_world where
  "late = waiting\<lparr>clock := ''3''\<rparr>"

lemma late_run: "review_run ''i'' late"
  unfolding late_def by (rule review_run.ticks [OF waiting_run]) (simp add: waiting_def)

lemma late_world: "late = \<lparr>table = [demo_row], clock = ''3'', phase = Polling\<rparr>"
  by (simp add: late_def waiting_def)

lemma approve_demo: "act (Decides (approves stamp)) [demo_row] = [decided_row (approves stamp) demo_row]"
proof -
  have "decided_approval (approves stamp) = ''i''" by (simp add: approves_def)
  then show ?thesis by (simp add: decideApproval_def demo_decidable getApproval_def Let_def)
qed

lemma approve_status: "approval_status (decided_row (approves stamp) demo_row) = ApprovalGiven"
  by (simp add: approves_def)

definition approved_late :: review_world where
  "approved_late = review_acts ''i'' False (late\<lparr>table := act (Decides (approves ''3'')) (table late)\<rparr>)"

lemma approved_late_world:
  "approved_late = \<lparr>table = [decided_row (approves ''3'') demo_row], clock = ''3'',
     phase = Finished (Reviewed (decided_row (approves ''3'') demo_row) True)\<rparr>"
  using approve_demo [of "''3''"] approve_status [of "''3''"]
  by (simp add: approved_late_def late_world review_acts_def review_step_def getApproval_def demo_decidable
      del: act.simps decided_row_simps(2))

lemma approved_late_run: "review_run ''i'' approved_late"
  unfolding approved_late_def by (rule review_run.goes_on [OF review_run.others [OF late_run]])




text \<open>
  Nobody checks the clock when a decision arrives. A decision given after a request expired is accepted
  as long as nothing swept the table, and the review lets the work through; and one that arrives between
  the gate's look at the clock and its sweep is accepted and recorded, and the review still says no.
\<close>

theorem decision_after_expiry:
  "(\<exists>w r. review_run ''i'' w \<and> phase w = Finished (Reviewed r True) \<and> expires_at r < the (decidedAt r)) \<and>
   (\<exists>w r. review_run ''i'' w \<and> phase w = Finished (Reviewed r False) \<and> approval_status r = ApprovalGiven)"
proof
  let ?r = "decided_row (approves ''3'') demo_row"
  have "expires_at ?r < the (decidedAt ?r)" by (simp add: demo_decidable approves_def)
  then show "\<exists>w r. review_run ''i'' w \<and> phase w = Finished (Reviewed r True) \<and> expires_at r < the (decidedAt r)"
    using approved_late_run approved_late_world by (metis review_world.select_convs(3))
  let ?a = "review_acts ''i'' False late"
  let ?b = "?a\<lparr>table := act (Decides (approves ''3'')) (table ?a)\<rparr>"
  let ?c = "review_acts ''i'' False ?b" and ?d = "review_acts ''i'' False (review_acts ''i'' False ?b)"
  have a: "?a = \<lparr>table = [demo_row], clock = ''3'', phase = Expiring demo_row\<rparr>"
    by (simp add: late_world review_acts_def review_step_def getApproval_def demo_decidable)
  have b: "?b = \<lparr>table = [?r], clock = ''3'', phase = Expiring demo_row\<rparr>"
    using approve_demo by (simp add: a del: act.simps)
  have c: "?c = \<lparr>table = [?r], clock = ''3'', phase = Reporting demo_row\<rparr>"
    unfolding b by (simp add: review_acts_def review_step_def expireApprovals_def overdue_def)
  have "?d = \<lparr>table = [?r], clock = ''3'', phase = Finished (Reviewed ?r False)\<rparr>"
    unfolding c by (simp add: review_acts_def review_step_def getApproval_def demo_decidable given_def)
  moreover have "review_run ''i'' ?d" by (intro review_run.goes_on review_run.others late_run)
  ultimately show "\<exists>w r. review_run ''i'' w \<and> phase w = Finished (Reviewed r False) \<and> approval_status r = ApprovalGiven"
    using approve_status by (metis review_world.select_convs(3))
qed

end
