(* ===== verification/Ownership.thy ===== *)
theory Ownership
  imports Plans "HOL-Library.AList"
begin

text \<open>
  \<open>services/coordinator/src/ownership-service.ts\<close>: leases on resources. The table is a
  \<open>Map\<close> from resource keys to lists of leases, here an association list in insertion order;
  times are milliseconds. Every operation takes the clock and returns the table it leaves
  behind, also when it throws: \<open>acquire\<close> expires old leases before it looks.

  The invariant is that two leases of different tasks on one resource never clash: their
  modes are compatible, or both say which lines they mean and the lines do not meet.
\<close>

section \<open>Leases and the policy\<close>

datatype ownership_mode = Observe | Shared | Intent | Exclusive | ApprovalRequired

fun mode_name :: "ownership_mode \<Rightarrow> string" where
  "mode_name Observe = ''observe''"
| "mode_name Shared = ''shared''"
| "mode_name Intent = ''intent''"
| "mode_name Exclusive = ''exclusive''"
| "mode_name ApprovalRequired = ''approval_required''"

record resource_lease =
  leaseId :: string
  lease_type :: resource_type
  lease_resource :: string
  principalId :: string
  lease_task :: string
  lease_mode :: ownership_mode
  baseVersion :: int
  expiresAt :: int
  lease_ranges :: "line_range list option"

record planned_resource =
  planned_type :: resource_type
  planned_id :: string
  planned_mode :: ownership_mode
  planned_ranges :: "line_range list option"

record plan_file_claim =
  claim_file :: string
  claim_ranges :: "line_range list option"

definition fileMode :: "string \<Rightarrow> ownership_mode" where
  "fileMode i =
     (if list_ex (\<lambda>x. suffix x (js_lower i)) [''.md'', ''.mdx'', ''.txt''] then Shared else Exclusive)"

text \<open>\<open>new Map(claims.map(...))\<close>: the last claim on a file wins, in the place of the first.\<close>

definition claim_map :: "plan_file_claim list \<Rightarrow> (string \<times> plan_file_claim) list" where
  "claim_map cs = foldl (\<lambda>m c. AList.update (claim_file c) c m) [] cs"

definition planned :: "resource_type \<Rightarrow> ownership_mode \<Rightarrow> string list \<Rightarrow> planned_resource list" where
  "planned t m ids =
     map (\<lambda>i. \<lparr>planned_type = t, planned_id = i, planned_mode = m, planned_ranges = None\<rparr>) ids"

text \<open>The first resource of each type, id and mode.\<close>

definition planned_identity :: "planned_resource \<Rightarrow> string" where
  "planned_identity r =
     type_name (planned_type r) @ CHR 0x00 # planned_id r @ CHR 0x00 # mode_name (planned_mode r)"

fun first_of_each :: "string list \<Rightarrow> planned_resource list \<Rightarrow> planned_resource list" where
  "first_of_each seen [] = []"
| "first_of_each seen (r # rs) =
     (if planned_identity r \<in> set seen then first_of_each seen rs
      else r # first_of_each (planned_identity r # seen) rs)"

definition file_resources :: "agent_plan \<Rightarrow> plan_file_claim list \<Rightarrow> planned_resource list" where
  "file_resources p fileClaims =
     (let claims = claim_map fileClaims;
          ids = expectedFiles p @ sort (filter (\<lambda>f. f \<notin> set (expectedFiles p)) (map fst claims))
      in map (\<lambda>i. \<lparr>planned_type = File, planned_id = i, planned_mode = fileMode i,
                   planned_ranges = (case map_of claims i of None \<Rightarrow> None | Some c \<Rightarrow> claim_ranges c)\<rparr>) ids)"

definition symbol_resources :: "agent_plan \<Rightarrow> planned_resource list" where
  "symbol_resources p =
     (let own = set (map js_lower (declared_symbols p))
      in map (\<lambda>i. \<lparr>planned_type = Symbol, planned_id = i,
                   planned_mode = (if js_lower i \<in> own then Exclusive else Observe),
                   planned_ranges = None\<rparr>) (expectedSymbols p))"

definition resourcesForPlan :: "agent_plan \<Rightarrow> plan_file_claim list \<Rightarrow> planned_resource list" where
  "resourcesForPlan p fileClaims =
     (let complete = completeAgentPlan p
      in first_of_each []
           (file_resources complete fileClaims @ symbol_resources complete @
            planned Api Intent (or_empty (expectedApis complete)) @
            planned Schema ApprovalRequired (or_empty (expectedSchemas complete)) @
            planned Configuration Intent (or_empty (expectedConfigKeys complete)) @
            planned Test Shared (or_empty (expectedTests complete)) @
            planned Service Intent (or_empty (expectedServices complete))))"

section \<open>Clashes\<close>

definition compatible :: "ownership_mode \<Rightarrow> ownership_mode \<Rightarrow> bool" where
  "compatible first second \<longleftrightarrow>
     first = Observe \<or> second = Observe \<or> first = Intent \<and> second = Intent \<or>
     first = Shared \<and> second = Shared"

definition blocks :: "resource_lease \<Rightarrow> planned_resource \<Rightarrow> bool" where
  "blocks existing r \<longleftrightarrow>
     (if compatible (lease_mode existing) (planned_mode r) then False
      else (case (lease_ranges existing, planned_ranges r) of
              (Some held, Some wanted) \<Rightarrow> rangesIntersect held wanted
            | _ \<Rightarrow> True))"

section \<open>The table\<close>

type_synonym lease_table = "(string \<times> resource_lease list) list"

datatype ownership_error =
    OwnershipConflict string resource_lease
  | OwnershipApprovalRequired resource_type string

definition lease_key :: "resource_type \<Rightarrow> string \<Rightarrow> string" where
  "lease_key t i = type_name t @ CHR 0x00 # i"

definition held_on :: "lease_table \<Rightarrow> string \<Rightarrow> resource_lease list" where
  "held_on table k = or_empty (map_of table k)"

text \<open>Keep the leases that satisfy a test, drop keys without leases.\<close>

definition retain_leases :: "(resource_lease \<Rightarrow> bool) \<Rightarrow> lease_table \<Rightarrow> lease_table" where
  "retain_leases keep table =
     filter (\<lambda>(k, ls). ls \<noteq> []) (map (\<lambda>(k, ls). (k, filter keep ls)) table)"

definition expireLeases :: "int \<Rightarrow> lease_table \<Rightarrow> lease_table" where
  "expireLeases now table = retain_leases (\<lambda>l. expiresAt l > now) table"

fun check_resources ::
  "lease_table \<Rightarrow> string \<Rightarrow> string set \<Rightarrow> planned_resource list \<Rightarrow> ownership_error + planned_resource list"
where
  "check_resources table task approved [] = Inr []"
| "check_resources table task approved (r # rs) =
     (let k = lease_key (planned_type r) (planned_id r);
          existing = held_on table k
      in if list_ex (\<lambda>l. lease_task l = task) existing then check_resources table task approved rs
         else if planned_mode r = ApprovalRequired \<and> k \<notin> approved
         then Inl (OwnershipApprovalRequired (planned_type r) (planned_id r))
         else (case find (\<lambda>l. lease_task l \<noteq> task \<and> blocks l r) existing of
                 Some blocker \<Rightarrow> Inl (OwnershipConflict (planned_id r) blocker)
               | None \<Rightarrow> res_bind (check_resources table task approved rs) (\<lambda>pending. Inr (r # pending))))"

text \<open>\<open>newId\<close> stands for \<open>createId\<close>, which draws random identifiers.\<close>

definition new_lease ::
  "(nat \<Rightarrow> string) \<Rightarrow> string \<Rightarrow> string \<Rightarrow> int \<Rightarrow> int \<Rightarrow> nat \<Rightarrow> planned_resource \<Rightarrow> resource_lease" where
  "new_lease newId who task version expires n r =
     \<lparr>leaseId = newId n, lease_type = planned_type r, lease_resource = planned_id r,
      principalId = who, lease_task = task, lease_mode = planned_mode r,
      baseVersion = version, expiresAt = expires,
      lease_ranges = map_option normalizeRanges (planned_ranges r)\<rparr>"

definition add_lease :: "lease_table \<Rightarrow> resource_lease \<Rightarrow> lease_table" where
  "add_lease table l =
     (let k = lease_key (lease_type l) (lease_resource l)
      in AList.update k (held_on table k @ [l]) table)"

definition acquire ::
  "(nat \<Rightarrow> string) \<Rightarrow> int \<Rightarrow> int \<Rightarrow> agent_plan \<Rightarrow> string \<Rightarrow> int \<Rightarrow> plan_file_claim list \<Rightarrow> string set
   \<Rightarrow> lease_table \<Rightarrow> (ownership_error + resource_lease list) \<times> lease_table"
where
  "acquire newId now ttl p who version fileClaims approved table0 =
     (let table = expireLeases now table0;
          resources = resourcesForPlan p fileClaims
      in case check_resources table (taskId p) approved resources of
           Inl e \<Rightarrow> (Inl e, table)
         | Inr pending \<Rightarrow>
             (let acquired = map (\<lambda>(n, r). new_lease newId who (taskId p) version (now + ttl) n r)
                               (enumerate 0 pending)
              in (Inr acquired, foldl add_lease table acquired)))"

definition releaseResources ::
  "string \<Rightarrow> plan_resource list \<Rightarrow> lease_table \<Rightarrow> resource_lease list \<times> lease_table" where
  "releaseResources task resources table =
     (let wanted = set (map (\<lambda>r. lease_key (resourceType r) (resourceId r)) resources)
      in (concat (map (\<lambda>(k, ls). if k \<in> wanted then filter (\<lambda>l. lease_task l = task) ls else []) table),
          filter (\<lambda>(k, ls). k \<notin> wanted \<or> ls \<noteq> [])
            (map (\<lambda>(k, ls). (k, if k \<in> wanted then filter (\<lambda>l. lease_task l \<noteq> task) ls else ls)) table)))"

definition releaseTask :: "string \<Rightarrow> lease_table \<Rightarrow> resource_lease list \<times> lease_table" where
  "releaseTask task table =
     (concat (map (\<lambda>(k, ls). filter (\<lambda>l. lease_task l = task) ls) table),
      retain_leases (\<lambda>l. lease_task l \<noteq> task) table)"

definition activeLeases :: "int \<Rightarrow> lease_table \<Rightarrow> resource_lease list \<times> lease_table" where
  "activeLeases now table0 = (let table = expireLeases now table0 in (concat (map snd table), table))"

definition renewActive :: "int \<Rightarrow> int \<Rightarrow> lease_table \<Rightarrow> resource_lease list \<times> lease_table" where
  "renewActive now ttl table0 =
     (let table = expireLeases now table0;
          renewed = map (\<lambda>(k, ls). (k, map (\<lambda>l. l\<lparr>expiresAt := now + ttl\<rparr>) ls)) table
      in (concat (map snd renewed), renewed))"

definition blockersFor ::
  "int \<Rightarrow> agent_plan \<Rightarrow> plan_file_claim list \<Rightarrow> lease_table \<Rightarrow> resource_lease list \<times> lease_table" where
  "blockersFor now p fileClaims table0 =
     (let table = expireLeases now table0
      in (concat (map (\<lambda>r. filter (\<lambda>l. lease_task l \<noteq> taskId p \<and> blocks l r)
                       (held_on table (lease_key (planned_type r) (planned_id r))))
             (resourcesForPlan p fileClaims)), table))"

definition valid_ttl :: "int \<Rightarrow> bool" where
  "valid_ttl ttl \<longleftrightarrow> is_safe_integer ttl \<and> 1000 \<le> ttl"

definition renewalIntervalMs :: "int \<Rightarrow> int" where
  "renewalIntervalMs ttl = max 250 (ttl div 3)"

section \<open>Claims that keep the peace\<close>

text \<open>
  What the table needs of its notion of a clash: it is symmetric. Then dropping claims,
  adding one that clashes with nobody else's, and changing what does not matter to a clash
  all keep claims of different owners from clashing.
\<close>

locale claim_law =
  fixes clash :: "'l \<Rightarrow> 'l \<Rightarrow> bool" and owner :: "'l \<Rightarrow> 'o"
  assumes clash_sym: "clash a b \<Longrightarrow> clash b a"
begin

definition peaceful :: "'l list \<Rightarrow> bool" where
  "peaceful ls \<longleftrightarrow> (\<forall>a \<in> set ls. \<forall>b \<in> set ls. owner a \<noteq> owner b \<longrightarrow> \<not> clash a b)"

lemma peaceful_Nil [simp]: "peaceful []"
  by (simp add: peaceful_def)

lemma peaceful_filter: "peaceful ls \<Longrightarrow> peaceful (filter P ls)"
  by (auto simp: peaceful_def)

lemma peaceful_snoc:
  assumes "peaceful ls" and "\<And>a. a \<in> set ls \<Longrightarrow> owner a \<noteq> owner l \<Longrightarrow> \<not> clash a l"
  shows "peaceful (ls @ [l])"
proof -
  have "\<not> clash l b" if "b \<in> set ls" "owner b \<noteq> owner l" for b
    using assms(2) [OF that] clash_sym by blast
  then show ?thesis using assms by (fastforce simp: peaceful_def)
qed

lemma peaceful_map:
  assumes "peaceful ls" and "\<And>a b. clash (f a) (f b) = clash a b" and "\<And>a. owner (f a) = owner a"
  shows "peaceful (map f ls)"
  using assms by (auto simp: peaceful_def)

lemma peacefulD: "peaceful ls \<Longrightarrow> a \<in> set ls \<Longrightarrow> b \<in> set ls \<Longrightarrow> owner a \<noteq> owner b \<Longrightarrow> \<not> clash a b"
  by (simp add: peaceful_def)

end

definition lease_clash :: "resource_lease \<Rightarrow> resource_lease \<Rightarrow> bool" where
  "lease_clash a b \<longleftrightarrow>
     \<not> compatible (lease_mode a) (lease_mode b) \<and>
     (case (lease_ranges a, lease_ranges b) of
        (Some held, Some wanted) \<Rightarrow> rangesIntersect held wanted
      | _ \<Rightarrow> True)"

lemma compatible_commute: "compatible m n \<longleftrightarrow> compatible n m"
  by (auto simp: compatible_def)

interpretation leases: claim_law lease_clash lease_task
proof
  fix a b :: resource_lease
  assume "lease_clash a b"
  then show "lease_clash b a"
    by (auto simp: lease_clash_def compatible_commute rangesIntersect_commute split: option.splits)
qed

section \<open>The invariant of the table\<close>

definition good_lease :: "string \<Rightarrow> resource_lease \<Rightarrow> bool" where
  "good_lease k l \<longleftrightarrow> lease_key (lease_type l) (lease_resource l) = k \<and>
     (\<forall>rs. lease_ranges l = Some rs \<longrightarrow> separated rs)"

definition good_leases :: "string \<Rightarrow> resource_lease list \<Rightarrow> bool" where
  "good_leases k ls \<longleftrightarrow> list_all (good_lease k) ls \<and> leases.peaceful ls"

definition table_ok :: "lease_table \<Rightarrow> bool" where
  "table_ok table \<longleftrightarrow> distinct (map fst table) \<and> (\<forall>(k, ls) \<in> set table. good_leases k ls)"

lemma good_leases_Nil [simp]: "good_leases k []"
  by (simp add: good_leases_def)

lemma good_leases_filter: "good_leases k ls \<Longrightarrow> good_leases k (filter P ls)"
  by (auto simp: good_leases_def list_all_iff leases.peaceful_filter)

lemma table_ok_held: "table_ok table \<Longrightarrow> good_leases k (held_on table k)"
  by (cases "map_of table k") (auto simp: held_on_def table_ok_def dest: map_of_SomeD)

lemma map_keys: "map fst (map (\<lambda>(k, ls). (k, f k ls)) table) = map fst table"
  by (induction table) auto

text \<open>Every operation but \<open>acquire\<close> rewrites the lists and then drops some keys.\<close>

lemma table_ok_rewrite:
  assumes "table_ok table" and "\<And>k ls. good_leases k ls \<Longrightarrow> good_leases k (f k ls)"
  shows "table_ok (filter P (map (\<lambda>(k, ls). (k, f k ls)) table))"
proof -
  let ?t = "map (\<lambda>(k, ls). (k, f k ls)) table"
  have "distinct (map fst (filter P ?t))"
    using assms(1) by (intro distinct_map_filter) (subst map_keys, simp add: table_ok_def)
  moreover have "good_leases k ls" if m: "(k, ls) \<in> set (filter P ?t)" for k ls
  proof -
    obtain ls' where "(k, ls') \<in> set table" "ls = f k ls'" using m by auto
    then show ?thesis using assms(1) assms(2) [of k ls'] by (auto simp: table_ok_def)
  qed
  ultimately show ?thesis by (auto simp: table_ok_def)
qed

lemma retain_leases_ok [wf_rules]: "table_ok table \<Longrightarrow> table_ok (retain_leases keep table)"
  unfolding retain_leases_def by (rule table_ok_rewrite) (auto intro: good_leases_filter)

lemma expireLeases_ok [wf_rules]: "table_ok table \<Longrightarrow> table_ok (expireLeases now table)"
  unfolding expireLeases_def by (rule retain_leases_ok)

lemma releaseTask_ok [wf_rules]: "table_ok table \<Longrightarrow> table_ok (snd (releaseTask task table))"
  by (simp add: releaseTask_def retain_leases_ok)

lemma releaseResources_ok [wf_rules]: "table_ok table \<Longrightarrow> table_ok (snd (releaseResources task rs table))"
  unfolding releaseResources_def Let_def snd_conv
  by (rule table_ok_rewrite) (auto intro: good_leases_filter)

lemma good_leases_renew:
  assumes "good_leases k ls"
  shows "good_leases k (map (\<lambda>l. l\<lparr>expiresAt := t\<rparr>) ls)"
proof -
  have "leases.peaceful (map (\<lambda>l. l\<lparr>expiresAt := t\<rparr>) ls)"
    using assms by (intro leases.peaceful_map) (auto simp: good_leases_def lease_clash_def)
  then show ?thesis using assms by (auto simp: good_leases_def good_lease_def list_all_iff)
qed

lemma renewActive_ok [wf_rules]:
  assumes "table_ok table"
  shows "table_ok (snd (renewActive now ttl table))"
proof -
  have "table_ok (filter (\<lambda>_. True) (map (\<lambda>(k, ls). (k, map (\<lambda>l. l\<lparr>expiresAt := now + ttl\<rparr>) ls))
      (expireLeases now table)))"
    using expireLeases_ok [OF assms] by (rule table_ok_rewrite) (rule good_leases_renew)
  then show ?thesis by (simp add: renewActive_def Let_def)
qed

section \<open>Acquiring\<close>

definition own_key :: "resource_lease \<Rightarrow> string" where
  "own_key l = lease_key (lease_type l) (lease_resource l)"

lemma held_on_add: "held_on (add_lease table l) k = (if k = own_key l then held_on table k @ [l] else held_on table k)"
  by (auto simp: add_lease_def held_on_def own_key_def Let_def update_conv)

lemma held_on_adds: "held_on (foldl add_lease table ls) k = held_on table k @ filter (\<lambda>l. own_key l = k) ls"
  by (induction ls arbitrary: table) (auto simp: held_on_add)

lemma set_update_subset: "set (AList.update k v al) \<subseteq> insert (k, v) (set al)"
  by (induction al) auto

lemma add_lease_ok:
  assumes "table_ok table" and "good_lease (own_key l) l"
    and "\<And>a. a \<in> set (held_on table (own_key l)) \<Longrightarrow> lease_task a \<noteq> lease_task l \<Longrightarrow> \<not> lease_clash a l"
  shows "table_ok (add_lease table l)"
proof -
  have g: "good_leases (own_key l) (held_on table (own_key l) @ [l])"
    using table_ok_held [OF assms(1), of "own_key l"] assms(2) leases.peaceful_snoc [OF _ assms(3)]
    by (auto simp: good_leases_def)
  have "good_leases k ls" if "(k, ls) \<in> set (add_lease table l)" for k ls
    using that assms(1) g set_update_subset [of "own_key l" "held_on table (own_key l) @ [l]" table]
    by (auto simp: add_lease_def Let_def own_key_def [symmetric] table_ok_def)
  moreover have "distinct (map fst (add_lease table l))"
    using assms(1) by (simp add: add_lease_def Let_def table_ok_def distinct_update)
  ultimately show ?thesis by (auto simp: table_ok_def)
qed

lemma add_leases_ok:
  assumes "table_ok table" and "\<And>l. l \<in> set ls \<Longrightarrow> lease_task l = task \<and> good_lease (own_key l) l"
    and "\<And>l a. l \<in> set ls \<Longrightarrow> a \<in> set (held_on table (own_key l)) \<Longrightarrow> lease_task a \<noteq> task \<Longrightarrow> \<not> lease_clash a l"
  shows "table_ok (foldl add_lease table ls)"
  using assms
proof (induction ls arbitrary: table)
  case (Cons l ls)
  have "table_ok (add_lease table l)" using Cons.prems by (intro add_lease_ok) auto
  moreover have "\<not> lease_clash a l'"
    if "l' \<in> set ls" "a \<in> set (held_on (add_lease table l) (own_key l'))" "lease_task a \<noteq> task" for l' a
    using that Cons.prems by (auto simp: held_on_add split: if_splits)
  ultimately show ?case using Cons.IH [of "add_lease table l"] Cons.prems(2) by auto
qed simp

text \<open>What a client may ask for: spans that are spans, from line 1 on.\<close>

definition proper_spans :: "line_range list option \<Rightarrow> bool" where
  "proper_spans rs \<longleftrightarrow> (\<forall>xs. rs = Some xs \<longrightarrow> list_all good_range xs \<and> list_all usable_range xs)"

definition proper_claims :: "plan_file_claim list \<Rightarrow> bool" where
  "proper_claims cs \<longleftrightarrow> (\<forall>c \<in> set cs. proper_spans (claim_ranges c))"

lemma clash_new_lease:
  assumes "proper_spans (planned_ranges r)" and "good_lease k a" and "\<not> blocks a r"
  shows "\<not> lease_clash a (new_lease newId who task version expires n r)"
proof (cases "lease_ranges a"; cases "planned_ranges r")
  fix held wanted assume h: "lease_ranges a = Some held" and w: "planned_ranges r = Some wanted"
  have "separated held" "list_all good_range wanted" "list_all usable_range wanted"
    using assms h w by (auto simp: good_lease_def proper_spans_def)
  then have "rangesIntersect held (normalizeRanges wanted) \<Longrightarrow> rangesIntersect held wanted"
    using rangesIntersect_lines [of held "normalizeRanges wanted"] rangesIntersect_linesI [of held wanted]
    by (simp add: separated_good meant_lines)
  then show ?thesis
    using assms(3) h w by (auto simp: blocks_def lease_clash_def new_lease_def split: if_splits)
qed (use assms(3) in \<open>auto simp: blocks_def lease_clash_def new_lease_def split: if_splits\<close>)

lemma claim_map_members: "\<forall>(k, c) \<in> set (claim_map cs). c \<in> set cs"
proof -
  have "\<forall>(k, c) \<in> set (foldl (\<lambda>m c. AList.update (claim_file c) c m) m cs). c \<in> set cs \<or> (k, c) \<in> set m" for m
  proof (induction cs arbitrary: m)
    case (Cons c cs)
    then show ?case using set_update_subset [of "claim_file c" c m] by fastforce
  qed auto
  from this [of "[]"] show ?thesis by (auto simp: claim_map_def)
qed

lemma first_of_each_subset: "set (first_of_each seen rs) \<subseteq> set rs"
  by (induction seen rs rule: first_of_each.induct) auto

lemma resources_proper:
  assumes "proper_claims cs" and "r \<in> set (resourcesForPlan p cs)"
  shows "proper_spans (planned_ranges r)"
proof -
  have "proper_spans (planned_ranges x)" if "x \<in> set (file_resources q cs)" for x q
  proof -
    have "proper_spans (case map_of (claim_map cs) i of None \<Rightarrow> None | Some c \<Rightarrow> claim_ranges c)" for i
      using assms(1) claim_map_members [of cs]
      by (cases "map_of (claim_map cs) i") (auto simp: proper_claims_def proper_spans_def dest!: map_of_SomeD)
    then show ?thesis using that by (auto simp: file_resources_def Let_def)
  qed
  moreover have "proper_spans None" by (simp add: proper_spans_def)
  ultimately show ?thesis
    using assms(2) first_of_each_subset
    by (fastforce simp: resourcesForPlan_def Let_def symbol_resources_def planned_def)
qed

text \<open>What the loop over the wanted resources lets through.\<close>

definition wanted_key :: "planned_resource \<Rightarrow> string" where
  "wanted_key r = lease_key (planned_type r) (planned_id r)"

definition holds :: "lease_table \<Rightarrow> string \<Rightarrow> string \<Rightarrow> bool" where
  "holds table task k \<longleftrightarrow> (\<exists>l \<in> set (held_on table k). lease_task l = task)"

definition blocked :: "lease_table \<Rightarrow> string \<Rightarrow> planned_resource \<Rightarrow> bool" where
  "blocked table task r \<longleftrightarrow> (\<exists>l \<in> set (held_on table (wanted_key r)). lease_task l \<noteq> task \<and> blocks l r)"

lemma check_resources_Inr:
  "check_resources table task approved rs = Inr pending \<longleftrightarrow>
     pending = filter (\<lambda>r. \<not> holds table task (wanted_key r)) rs \<and>
     (\<forall>r \<in> set pending. \<not> blocked table task r \<and> (planned_mode r = ApprovalRequired \<longrightarrow> wanted_key r \<in> approved))"
proof (induction rs arbitrary: pending)
  case (Cons r rs)
  have h: "list_ex (\<lambda>l. lease_task l = task) (held_on table (wanted_key r)) \<longleftrightarrow> holds table task (wanted_key r)"
    by (auto simp: list_ex_iff holds_def)
  have b: "find (\<lambda>l. lease_task l \<noteq> task \<and> blocks l r) (held_on table (wanted_key r)) = None \<longleftrightarrow> \<not> blocked table task r"
    by (auto simp: find_None_iff blocked_def)
  show ?case
    using Cons h b
    by (auto simp: wanted_key_def [symmetric] Let_def res_bind_eq_Inr_conv split: option.splits)
qed auto

definition leases_for ::
  "(nat \<Rightarrow> string) \<Rightarrow> int \<Rightarrow> agent_plan \<Rightarrow> string \<Rightarrow> int \<Rightarrow> planned_resource list \<Rightarrow> resource_lease list" where
  "leases_for newId expires p who version pending =
     map (\<lambda>(n, r). new_lease newId who (taskId p) version expires n r) (enumerate 0 pending)"

lemma leases_for_keys: "map own_key (leases_for newId e p who v pending) = map wanted_key pending"
proof -
  have "map own_key (map (\<lambda>(n, r). new_lease newId who (taskId p) v e n r) (enumerate m pending)) = map wanted_key pending"
    for m
    by (induction pending arbitrary: m) (auto simp: own_key_def wanted_key_def new_lease_def)
  then show ?thesis by (simp add: leases_for_def)
qed

lemma leases_for_member:
  "l \<in> set (leases_for newId e p who v pending) \<Longrightarrow> \<exists>n. \<exists>r \<in> set pending. l = new_lease newId who (taskId p) v e n r"
proof -
  assume "l \<in> set (leases_for newId e p who v pending)"
  then obtain n r where "(n, r) \<in> set (enumerate 0 pending)" "l = new_lease newId who (taskId p) v e n r"
    by (auto simp: leases_for_def)
  moreover from this(1) have "r \<in> set pending" by (metis in_set_zipE enumerate_eq_zip)
  ultimately show ?thesis by blast
qed

lemma acquire_cases:
  "acquire newId now ttl p who v cs approved table =
     (let t = expireLeases now table in
      case check_resources t (taskId p) approved (resourcesForPlan p cs) of
        Inl e \<Rightarrow> (Inl e, t)
      | Inr pending \<Rightarrow> (Inr (leases_for newId (now + ttl) p who v pending),
                       foldl add_lease t (leases_for newId (now + ttl) p who v pending)))"
  by (simp add: acquire_def leases_for_def Let_def split: sum.split)

lemma acquire_ok [wf_rules]:
  assumes "table_ok table" and "proper_claims cs"
  shows "table_ok (snd (acquire newId now ttl p who v cs approved table))"
proof -
  let ?t = "expireLeases now table"
  have t: "table_ok ?t" by (rule expireLeases_ok [OF assms(1)])
  show ?thesis
  proof (cases "check_resources ?t (taskId p) approved (resourcesForPlan p cs)")
    case (Inl e)
    then show ?thesis using t by (simp add: acquire_cases Let_def)
  next
    case (Inr pending)
    then have pend: "\<And>r. r \<in> set pending \<Longrightarrow> r \<in> set (resourcesForPlan p cs) \<and> \<not> blocked ?t (taskId p) r"
      by (auto simp: check_resources_Inr)
    have "table_ok (foldl add_lease ?t (leases_for newId (now + ttl) p who v pending))"
    proof (rule add_leases_ok [OF t])
      fix l assume l: "l \<in> set (leases_for newId (now + ttl) p who v pending)"
      obtain n r where r: "r \<in> set pending" "l = new_lease newId who (taskId p) v (now + ttl) n r"
        using leases_for_member [OF l] by blast
      have proper: "proper_spans (planned_ranges r)" using resources_proper [OF assms(2)] pend r(1) by blast
      show "lease_task l = taskId p \<and> good_lease (own_key l) l"
        using r(2) by (auto simp: new_lease_def good_lease_def own_key_def)
      show "\<not> lease_clash a l" if "a \<in> set (held_on ?t (own_key l))" "lease_task a \<noteq> taskId p" for a
      proof -
        have k: "own_key l = wanted_key r" by (simp add: r(2) new_lease_def own_key_def wanted_key_def)
        then have "good_lease (own_key l) a"
          using that(1) table_ok_held [OF t, of "own_key l"] by (auto simp: good_leases_def list_all_iff)
        moreover have "\<not> blocks a r" using pend [OF r(1)] that k by (auto simp: blocked_def)
        ultimately show ?thesis using clash_new_lease [OF proper] r(2) by blast
      qed
    qed
    then show ?thesis using Inr by (simp add: acquire_cases Let_def)
  qed
qed

text \<open>An acquisition is all or nothing, and touches nobody else's lease.\<close>

lemma acquire_error:
  "acquire newId now ttl p who v cs approved table = (Inl e, table') \<Longrightarrow> table' = expireLeases now table"
  by (auto simp: acquire_cases Let_def split: sum.splits)

lemma acquire_success:
  assumes "acquire newId now ttl p who v cs approved table = (Inr ls, table')"
  shows "held_on table' k = held_on (expireLeases now table) k @ filter (\<lambda>l. own_key l = k) ls"
    and "\<forall>l \<in> set ls. lease_task l = taskId p \<and> expiresAt l = now + ttl"
    and "\<forall>r \<in> set (resourcesForPlan p cs). holds table' (taskId p) (wanted_key r)"
    and "map own_key ls = map wanted_key
           (filter (\<lambda>r. \<not> holds (expireLeases now table) (taskId p) (wanted_key r)) (resourcesForPlan p cs))"
proof -
  let ?t = "expireLeases now table"
  let ?pending = "filter (\<lambda>r. \<not> holds ?t (taskId p) (wanted_key r)) (resourcesForPlan p cs)"
  obtain pending where p: "check_resources ?t (taskId p) approved (resourcesForPlan p cs) = Inr pending"
    using assms by (auto simp: acquire_cases Let_def split: sum.splits)
  then have pending: "pending = ?pending" by (simp add: check_resources_Inr)
  have ls: "ls = leases_for newId (now + ttl) p who v ?pending" "table' = foldl add_lease ?t ls"
    using assms p unfolding pending by (auto simp: acquire_cases Let_def)
  show held: "held_on table' k = held_on ?t k @ filter (\<lambda>l. own_key l = k) ls" for k
    unfolding ls(2) by (rule held_on_adds)
  show task: "\<forall>l \<in> set ls. lease_task l = taskId p \<and> expiresAt l = now + ttl"
    unfolding ls(1) using leases_for_member by (fastforce simp: new_lease_def)
  show keys: "map own_key ls = map wanted_key ?pending"
    unfolding ls(1) by (rule leases_for_keys)
  show "\<forall>r \<in> set (resourcesForPlan p cs). holds table' (taskId p) (wanted_key r)"
  proof
    fix r assume r: "r \<in> set (resourcesForPlan p cs)"
    show "holds table' (taskId p) (wanted_key r)"
    proof (cases "holds ?t (taskId p) (wanted_key r)")
      case True
      then show ?thesis unfolding holds_def held by auto
    next
      case False
      then have "wanted_key r \<in> set (map own_key ls)" unfolding keys using r by auto
      then show ?thesis unfolding holds_def held using task by auto
    qed
  qed
qed

text \<open>When a task holds nothing yet, the blockers are exactly what stands in its way.\<close>

lemma acquire_iff_blockers:
  assumes "\<And>k. \<not> holds (expireLeases now table) (taskId p) k"
    and "\<forall>r \<in> set (resourcesForPlan p cs). planned_mode r = ApprovalRequired \<longrightarrow> wanted_key r \<in> approved"
  shows "(\<exists>ls table'. acquire newId now ttl p who v cs approved table = (Inr ls, table')) \<longleftrightarrow>
         fst (blockersFor now p cs table) = []"
proof -
  let ?t = "expireLeases now table"
  let ?rs = "resourcesForPlan p cs"
  have "fst (blockersFor now p cs table) = [] \<longleftrightarrow> (\<forall>r \<in> set ?rs. \<not> blocked ?t (taskId p) r)"
    by (auto simp: blockersFor_def Let_def blocked_def wanted_key_def filter_empty_conv)
  also have "\<dots> \<longleftrightarrow> check_resources ?t (taskId p) approved ?rs = Inr ?rs"
    using assms by (auto simp: check_resources_Inr)
  also have "\<dots> \<longleftrightarrow> (\<exists>pending. check_resources ?t (taskId p) approved ?rs = Inr pending)"
    using assms by (auto simp: check_resources_Inr)
  also have "\<dots> \<longleftrightarrow> (\<exists>ls table'. acquire newId now ttl p who v cs approved table = (Inr ls, table'))"
    by (auto simp: acquire_cases Let_def split: sum.splits)
  finally show ?thesis by blast
qed

section \<open>Releasing\<close>

lemma held_on_retain:
  "distinct (map fst table) \<Longrightarrow> held_on (retain_leases keep table) k = filter keep (held_on table k)"
proof (induction table)
  case (Cons e table)
  obtain j ls where e: "e = (j, ls)" by fastforce
  have "map_of (retain_leases keep table) j = None" if "k = j"
  proof -
    have "j \<notin> fst ` set table" using Cons.prems e by auto
    then have "j \<notin> fst ` set (retain_leases keep table)" by (force simp: retain_leases_def)
    then show ?thesis by (simp add: map_of_eq_None_iff)
  qed
  moreover have "map_of table j = None" using Cons.prems e by (auto simp: map_of_eq_None_iff)
  ultimately show ?case
    using Cons e by (auto simp: retain_leases_def held_on_def)
qed (simp add: retain_leases_def held_on_def)

lemma releaseTask_law:
  assumes "table_ok table"
  shows "held_on (snd (releaseTask task table)) k = filter (\<lambda>l. lease_task l \<noteq> task) (held_on table k)"
    and "set (fst (releaseTask task table)) = {l. \<exists>k. l \<in> set (held_on table k) \<and> lease_task l = task}"
proof -
  have d: "distinct (map fst table)" using assms by (simp add: table_ok_def)
  then show "held_on (snd (releaseTask task table)) k = filter (\<lambda>l. lease_task l \<noteq> task) (held_on table k)"
    by (simp add: releaseTask_def held_on_retain)
  have "(\<exists>k. l \<in> set (held_on table k)) \<longleftrightarrow> (\<exists>(k, ls) \<in> set table. l \<in> set ls)" for l
  proof
    show "\<exists>k. l \<in> set (held_on table k) \<Longrightarrow> \<exists>(k, ls) \<in> set table. l \<in> set ls"
    proof (elim exE)
      fix k assume "l \<in> set (held_on table k)"
      then obtain ls where "map_of table k = Some ls" "l \<in> set ls"
        by (cases "map_of table k") (auto simp: held_on_def)
      then show "\<exists>(k, ls) \<in> set table. l \<in> set ls" by (auto dest!: map_of_SomeD)
    qed
    show "\<exists>(k, ls) \<in> set table. l \<in> set ls \<Longrightarrow> \<exists>k. l \<in> set (held_on table k)"
    proof (elim bexE, clarsimp)
      fix k ls assume "(k, ls) \<in> set table" "l \<in> set ls"
      then show "\<exists>k. l \<in> set (held_on table k)"
        using d by (intro exI [of _ k]) (simp add: held_on_def)
    qed
  qed
  then show "set (fst (releaseTask task table)) = {l. \<exists>k. l \<in> set (held_on table k) \<and> lease_task l = task}"
    by (auto simp: releaseTask_def)
qed

section \<open>Every table the service reaches\<close>

inductive table_reachable :: "lease_table \<Rightarrow> bool" where
  empty_table: "table_reachable []"
| acquired: "table_reachable t \<Longrightarrow> proper_claims cs \<Longrightarrow>
     table_reachable (snd (acquire newId now ttl p who v cs approved t))"
| released: "table_reachable t \<Longrightarrow> table_reachable (snd (releaseResources task rs t))"
| finished: "table_reachable t \<Longrightarrow> table_reachable (snd (releaseTask task t))"
| listed: "table_reachable t \<Longrightarrow> table_reachable (snd (activeLeases now t))"
| renewed: "table_reachable t \<Longrightarrow> table_reachable (snd (renewActive now ttl t))"
| asked: "table_reachable t \<Longrightarrow> table_reachable (snd (blockersFor now p cs t))"

lemma table_reachable_ok: "table_reachable t \<Longrightarrow> table_ok t"
  by (induction rule: table_reachable.induct)
    (auto intro: wf_rules simp: activeLeases_def blockersFor_def Let_def table_ok_def [of "[]"])

end
