(* ===== verification/Plan_Properties.thy ===== *)
theory Plan_Properties
  imports Ownership
begin

text \<open>
  The properties of names, spans, plans and ownership leases, each an application of its
  component's lemmas, with witnesses evaluated on small plans.
\<close>

section \<open>Spans\<close>

text \<open>
  Normal form of spans. Two lists of spans normalise to the same list exactly when they
  mean the same lines: unusable spans mean nothing, the rest count from line 1. So equal
  claims compare equal however they were assembled.
\<close>

theorem ranges_normal_form:
  "normalizeRanges rs = normalizeRanges ss \<longleftrightarrow>
     lines_of (map clamp_range (filter usable_range rs)) = lines_of (map clamp_range (filter usable_range ss))"
  using separated_unique [of "normalizeRanges rs" "normalizeRanges ss"] normalizeRanges_law [of rs]
    normalizeRanges_law [of ss] by (metis meant_def)

text \<open>
  Subtraction of spans is subtraction of lines, with a result in normal form: sorted,
  not empty, and never adjacent. What is left does not intersect what was removed.
\<close>

theorem ranges_subtract:
  "separated (subtractRanges from removed) \<and>
   lines_of (subtractRanges from removed) = lines_of (normalizeRanges from) - lines_of (normalizeRanges removed) \<and>
   \<not> rangesIntersect (subtractRanges from removed) (normalizeRanges removed)"
proof -
  have "separated (subtractRanges from removed)" "separated (normalizeRanges removed)"
    "lines_of (subtractRanges from removed) = meant from - meant removed"
    using subtractRanges_law normalizeRanges_law by simp_all
  moreover from this have "\<not> rangesIntersect (subtractRanges from removed) (normalizeRanges removed)"
    using rangesIntersect_lines [OF separated_good separated_good] by auto
  ultimately show ?thesis by simp
qed

section \<open>Paths\<close>

text \<open>
  A path that passes normalisation stays inside the repository: it is not empty or
  absolute, has no NUL and no backslash, and is a list of segments none of which is empty,
  a dot or two dots, perhaps with a slash at the end (or it is \<open>./\<close>).
\<close>

theorem normalized_path_inside:
  assumes "normalizeRepositoryPath v = Inr p"
  shows "inside p \<and> \<not> absolute p \<and> CHR 0x00 \<notin> set p \<and> CHR 0x5C \<notin> set p \<and>
         (\<not> drive_prefix p \<longrightarrow> normalizeRepositoryPath p = Inr p)"
proof -
  note i = normalizeRepositoryPath_inside [OF assms]
  then show ?thesis using inside_not_escaping normalizeRepositoryPath_id by auto
qed

theorem normalized_path_inside_witness:
  "normalizeRepositoryPath ''src/../lib/./a.ts'' = Inr ''lib/a.ts'' \<and> inside ''lib/a.ts''"
proof -
  have e: "normalizeRepositoryPath ''src/../lib/./a.ts'' = Inr ''lib/a.ts''" by code_simp
  then show ?thesis using normalized_path_inside [OF e] by simp
qed

text \<open>
  A drive letter gets through. The check for a drive letter looks at the path before it
  is normalised, so a path that only begins with one afterwards is returned, and then
  refused by the same function; and \<open>./\<close> is returned although \<open>.\<close> is refused.
\<close>

theorem drive_letter_passes:
  "normalizeRepositoryPath ''./C:/x'' = Inr ''C:/x'' \<and> normalizeRepositoryPath ''C:/x'' = Inl InvalidPath \<and>
   normalizeRepositoryPath ''./'' = Inr ''./'' \<and> normalizeRepositoryPath ''.'' = Inl EscapesRepository"
  by code_simp

section \<open>Plans\<close>

definition demo_plan :: agent_plan where
  "demo_plan =
     \<lparr>taskId = ''a'', objective = ''o'', expectedFiles = [''A.ts'', ''a.ts''], expectedSymbols = [''f'', ''g''],
      declared = Some \<lparr>decl_symbols = Some [''g''], decl_dependencies = None, decl_apis = None,
                       decl_schemas = None, decl_configKeys = None, decl_tests = None, decl_services = None\<rparr>,
      expectedApis = None, expectedSchemas = Some [''S''], expectedConfigKeys = None, expectedTests = None,
      expectedServices = None, dependencies = [], commands = [], externalAccess = [], riskLevel = LowRisk,
      intent = None, grounding = None, claim = None, dependenciesUnknown = None\<rparr>"

lemma demo_plan_normal: "normal_plan demo_plan"
proof -
  have "assertAgentPlan demo_plan = Inr demo_plan" by code_simp
  then show ?thesis by (simp add: normal_plan_def)
qed

text \<open>
  Narrowing removes exactly the named claims. A normal plan is narrowed without error
  to a normal plan whose claims, and whose agent's own declarations, are those whose key is
  not among the removed; task, objective, dependencies and coordinator claim stay.
\<close>

theorem narrowing_exact:
  assumes "normal_plan p"
  shows "\<exists>q. reducePlanScope p removed = Inr q \<and> normal_plan q \<and>
           plan_refs q = filter (\<lambda>r. resource_key r \<notin> set (map resource_key removed)) (plan_refs p) \<and>
           declared_refs (declared q) =
             filter (\<lambda>r. resource_key r \<notin> set (map resource_key removed)) (declared_refs (declared p)) \<and>
           taskId q = taskId p \<and> objective q = objective p \<and> dependencies q = dependencies p \<and> claim q = claim p"
  using reducePlanScope_normal [OF assms, of removed] reduced_refs [of p removed] reduced_rest [of p removed]
  by (auto simp: survives_def [abs_def])

theorem narrowing_exact_witness:
  "\<exists>q. reducePlanScope demo_plan [\<lparr>resourceType = Symbol, resourceId = ''F''\<rparr>] = Inr q \<and> normal_plan q"
  using narrowing_exact [OF demo_plan_normal, of "[\<lparr>resourceType = Symbol, resourceId = ''F''\<rparr>]"] by blast

text \<open>
  Widening adds exactly what was asked for. On a normal plan, with normal paths, it
  succeeds with a normal plan that claims what the plan claimed and what was requested, and
  nothing else.
\<close>

theorem widening_exact:
  assumes "normal_plan p" and "list_all settled_path (additionalFiles r)"
  shows "\<exists>q. mergePlanScope p r = Inr q \<and> normal_plan q \<and>
           set (plan_refs q) = set (plan_refs p) \<union> set (refs File (additionalFiles r)) \<union>
             set (refs Symbol (uniqueStrings (additionalSymbols r)) @ refs Api (uniqueStrings (additionalApis r)) @
                  refs Schema (uniqueStrings (additionalSchemas r)) @
                  refs Configuration (uniqueStrings (additionalConfigKeys r)) @
                  refs Test (uniqueStrings (additionalTests r)) @ refs Service (uniqueStrings (additionalServices r)))"
proof -
  have "normal_fields p" using assms(1) normal_plan_iff by blast
  moreover have "set (refs File (sorted_unique (expectedFiles p @ additionalFiles r))) \<union>
      {x \<in> set (plan_refs p). resourceType x \<noteq> File} =
      set (plan_refs p) \<union> set (refs File (additionalFiles r))"
    by (auto simp: plan_refs_def refs_def)
  ultimately show ?thesis
    using mergePlanScope_normal [OF assms] widened_refs [of p r] by (simp del: set_append)
qed

definition demo_request :: scope_request where
  "demo_request = \<lparr>additionalFiles = [''b.ts''], additionalSymbols = [''f''], additionalApis = [],
     additionalSchemas = [], additionalConfigKeys = [], additionalTests = [], additionalServices = []\<rparr>"

theorem widening_exact_witness:
  "\<exists>q. mergePlanScope demo_plan demo_request = Inr q \<and> \<lparr>resourceType = File, resourceId = ''b.ts''\<rparr> \<in> set (plan_refs q)"
proof -
  have "normalizeRepositoryPath ''b.ts'' = Inr ''b.ts''" by code_simp
  then have "list_all settled_path (additionalFiles demo_request)"
    by (simp add: demo_request_def settled_path_def)
  moreover have "\<lparr>resourceType = File, resourceId = ''b.ts''\<rparr> \<in> set (refs File (additionalFiles demo_request))"
    by (simp add: demo_request_def refs_def)
  ultimately show ?thesis using widening_exact [OF demo_plan_normal, of demo_request] by blast
qed

text \<open>
  What another branch sees. The interface scope of a normal plan has exactly the claims
  that cross branches, in the widened lists and in the agent's own, and is absent exactly
  when no claim does.
\<close>

theorem interface_scope_exact:
  assumes "normal_plan p"
  shows "\<exists>q. interfaceScopeOf p v = Inr (if \<exists>r \<in> set (plan_refs p). crossesBranches v r then Some q else None) \<and>
           normal_plan q \<and> plan_refs q = filter (crossesBranches v) (plan_refs p) \<and>
           declared_refs (declared q) = filter (crossesBranches v) (declared_refs (declared p))"
  using interfaceScopeOf_law [OF assms, of v]
  by (intro exI [of _ "reduced_plan p (local_refs p v)"]) (auto simp: filter_empty_conv)

theorem interface_scope_exact_witness:
  "\<exists>q. interfaceScopeOf demo_plan (symbolVisibility [''G''] [''f'', ''g'']) = Inr (Some q) \<and>
     map resourceId (plan_refs q) = [''g'', ''S'']"
proof -
  let ?v = "symbolVisibility [''G''] [''f'', ''g'']"
  have "map resourceId (filter (crossesBranches ?v) (plan_refs demo_plan)) = [''g'', ''S'']"
    "list_ex (crossesBranches ?v) (plan_refs demo_plan)"
    by code_simp+
  then show ?thesis using interface_scope_exact [OF demo_plan_normal, of ?v] by (auto simp: list_ex_iff)
qed

section \<open>Ownership\<close>

text \<open>
  C20 Exclusion. In every table the service can reach, two leases of different tasks on one
  resource have compatible modes, or both say which lines they mean and share none.
\<close>

theorem leases_never_clash:
  assumes "table_reachable table" and "a \<in> set (held_on table k)" and "b \<in> set (held_on table k)"
    and "lease_task a \<noteq> lease_task b"
  shows "compatible (lease_mode a) (lease_mode b) \<or>
         (\<exists>rs ss. lease_ranges a = Some rs \<and> lease_ranges b = Some ss \<and> lines_of rs \<inter> lines_of ss = {})"
proof -
  have g: "good_leases k (held_on table k)"
    using table_ok_held [OF table_reachable_ok [OF assms(1)]] .
  then have "\<not> lease_clash a b" using leases.peacefulD assms(2-4) by (auto simp: good_leases_def)
  moreover have "good_lease k a" "good_lease k b" using g assms(2,3) by (auto simp: good_leases_def list_all_iff)
  ultimately show ?thesis
    using rangesIntersect_lines [OF separated_good separated_good]
    by (auto simp: lease_clash_def good_lease_def split: option.splits)
qed

definition demo_plan_b :: agent_plan where
  "demo_plan_b = demo_plan\<lparr>taskId := ''b'', expectedFiles := [''n.md''], expectedSymbols := [''f''],
     expectedSchemas := None, declared := None\<rparr>"

definition demo_claim :: "int \<Rightarrow> int \<Rightarrow> plan_file_claim list" where
  "demo_claim i j = [\<lparr>claim_file = ''z.ts'', claim_ranges = Some [\<lparr>startLine = i, endLine = j\<rparr>]\<rparr>]"

definition demo_table :: lease_table where
  "demo_table =
     snd (acquire (\<lambda>n. ''y'') 0 5000 demo_plan_b ''q'' 1 (demo_claim 6 9) {}
       (snd (acquire (\<lambda>n. ''x'') 0 5000 (demo_plan\<lparr>expectedSchemas := None\<rparr>) ''q'' 1 (demo_claim 1 5) {} [])))"

lemma demo_claim_proper: "proper_claims (demo_claim 1 5)" "proper_claims (demo_claim 6 9)"
  by (simp_all add: demo_claim_def proper_claims_def proper_spans_def good_range_def usable_range_def
      is_safe_integer_def max_safe_integer_def)

theorem leases_never_clash_witness:
  "\<exists>table a b. table_reachable table \<and> a \<in> set (held_on table (lease_key File ''z.ts'')) \<and>
     b \<in> set (held_on table (lease_key File ''z.ts'')) \<and> lease_task a \<noteq> lease_task b \<and>
     (compatible (lease_mode a) (lease_mode b) \<or>
      (\<exists>rs ss. lease_ranges a = Some rs \<and> lease_ranges b = Some ss \<and> lines_of rs \<inter> lines_of ss = {}))"
proof -
  have r: "table_reachable demo_table"
    unfolding demo_table_def by (intro table_reachable.intros demo_claim_proper)
  have "map lease_task (held_on demo_table (lease_key File ''z.ts'')) = [''a'', ''b'']" by code_simp
  then obtain a b where ab: "held_on demo_table (lease_key File ''z.ts'') = [a, b]" "lease_task a = ''a''" "lease_task b = ''b''"
    by auto
  then show ?thesis using leases_never_clash [OF r, of a "lease_key File ''z.ts''" b] r
    by (intro exI [of _ demo_table] exI [of _ a] exI [of _ b]) simp
qed

text \<open>
  C21 All or nothing. When an acquisition throws, the table is as it was with expired leases
  dropped. When it succeeds, the task holds a lease on every resource of its plan, the new
  leases are one for each resource it did not hold, and every other lease is untouched.
\<close>

theorem acquire_all_or_nothing:
  "case acquire newId now ttl p who v cs approved table of
     (Inl e, table') \<Rightarrow> table' = expireLeases now table
   | (Inr ls, table') \<Rightarrow>
       (\<forall>k. held_on table' k = held_on (expireLeases now table) k @ filter (\<lambda>l. own_key l = k) ls) \<and>
       (\<forall>r \<in> set (resourcesForPlan p cs). holds table' (taskId p) (wanted_key r)) \<and>
       map own_key ls =
         map wanted_key (filter (\<lambda>r. \<not> holds (expireLeases now table) (taskId p) (wanted_key r)) (resourcesForPlan p cs))"
proof (cases "acquire newId now ttl p who v cs approved table")
  case (Pair m table')
  then show ?thesis
    using acquire_error [of newId now ttl p who v cs approved table _ table']
      acquire_success [of newId now ttl p who v cs approved table _ table'] by (cases m) simp_all
qed

theorem acquire_all_or_nothing_witness:
  "case acquire (\<lambda>n. ''x'') 0 5000 demo_plan_b ''q'' 1 [] {} [] of
     (Inl e, table') \<Rightarrow> table' = []
   | (Inr ls, table') \<Rightarrow> (\<forall>k. held_on table' k = filter (\<lambda>l. own_key l = k) ls)"
  using acquire_all_or_nothing [where newId = "\<lambda>n. ''x''" and now = 0 and ttl = 5000 and p = demo_plan_b
      and who = "''q''" and v = 1 and cs = "[]" and approved = "{}" and table = "[]"]
  by (auto simp: expireLeases_def retain_leases_def held_on_def split: sum.splits prod.splits)

text \<open>
  For a task that holds nothing yet and whose approvals are in place, an acquisition
  succeeds exactly when \<open>blockersFor\<close> reports nobody.
\<close>

theorem blockers_decide:
  assumes "\<And>k. \<not> holds (expireLeases now table) (taskId p) k"
    and "\<forall>r \<in> set (resourcesForPlan p cs). planned_mode r = ApprovalRequired \<longrightarrow> wanted_key r \<in> approved"
  shows "(\<exists>ls table'. acquire newId now ttl p who v cs approved table = (Inr ls, table')) \<longleftrightarrow>
         fst (blockersFor now p cs table) = []"
  using acquire_iff_blockers [OF assms] .

theorem blockers_decide_witness:
  "(\<exists>ls table'. acquire (\<lambda>n. ''x'') 0 5000 demo_plan_b ''q'' 1 [] {} [] = (Inr ls, table')) \<longleftrightarrow>
   fst (blockersFor 0 demo_plan_b [] []) = []"
proof (rule blockers_decide)
  show "\<not> holds (expireLeases 0 []) (taskId demo_plan_b) k" for k
    by (simp add: holds_def held_on_def expireLeases_def retain_leases_def)
  have "list_all (\<lambda>r. planned_mode r \<noteq> ApprovalRequired) (resourcesForPlan demo_plan_b [])" by code_simp
  then show "\<forall>r \<in> set (resourcesForPlan demo_plan_b []).
      planned_mode r = ApprovalRequired \<longrightarrow> wanted_key r \<in> {}"
    by (auto simp: list_all_iff)
qed

text \<open>
  Releasing a task gives back exactly its leases: afterwards it holds nothing, every
  other lease stands as it was, in its order.
\<close>

theorem release_task_exact:
  assumes "table_reachable table"
  shows "held_on (snd (releaseTask task table)) k = filter (\<lambda>l. lease_task l \<noteq> task) (held_on table k) \<and>
         set (fst (releaseTask task table)) = {l. \<exists>k. l \<in> set (held_on table k) \<and> lease_task l = task}"
  using releaseTask_law [OF table_reachable_ok [OF assms]] by simp

theorem release_task_exact_witness:
  "set (fst (releaseTask ''a'' [])) = {}"
  using release_task_exact [OF empty_table, of "''a''"] by (simp add: held_on_def)

text \<open>
  An upgrade that does not happen. A task that holds a symbol only to observe it (it was
  added by enrichment) and then declares that symbol in an approved widening gets no new
  lease: the acquisition succeeds, grants nothing, and another task takes the symbol
  exclusively.
\<close>

theorem widening_skips_upgrade:
  "\<exists>p q t1 t2 t3 ls.
     mergePlanScope demo_plan demo_request = Inr q \<and> p = demo_plan \<and>
     snd (acquire (\<lambda>n. ''x'') 0 5000 p ''w'' 1 [] {lease_key Schema ''S''} []) = t1 \<and>
     (\<exists>r \<in> set (resourcesForPlan q []). planned_id r = ''f'' \<and> planned_mode r = Exclusive) \<and>
     acquire (\<lambda>n. ''y'') 0 5000 q ''w'' 1 [] {lease_key Schema ''S''} t1 = (Inr ls, t2) \<and>
     list_all (\<lambda>l. lease_resource l \<noteq> ''f'') ls \<and>
     (\<exists>m \<in> set (held_on t3 (lease_key Symbol ''f'')). lease_task m = ''b'' \<and> lease_mode m = Exclusive) \<and>
     snd (acquire (\<lambda>n. ''z'') 0 5000 demo_plan_b ''w'' 1 [] {} t2) = t3"
proof -
  let ?t1 = "snd (acquire (\<lambda>n. ''x'') 0 5000 demo_plan ''w'' 1 [] {lease_key Schema ''S''} [])"
  have E: "case mergePlanScope demo_plan demo_request of Inl _ \<Rightarrow> False
     | Inr q \<Rightarrow> list_ex (\<lambda>r. planned_id r = ''f'' \<and> planned_mode r = Exclusive) (resourcesForPlan q []) \<and>
        (case acquire (\<lambda>n. ''y'') 0 5000 q ''w'' 1 [] {lease_key Schema ''S''} ?t1 of
           (Inl _, _) \<Rightarrow> False
         | (Inr ls, t2) \<Rightarrow> list_all (\<lambda>l. lease_resource l \<noteq> ''f'') ls \<and>
             list_ex (\<lambda>m. lease_task m = ''b'' \<and> lease_mode m = Exclusive)
               (held_on (snd (acquire (\<lambda>n. ''z'') 0 5000 demo_plan_b ''w'' 1 [] {} t2)) (lease_key Symbol ''f'')))"
    by code_simp
  obtain q where q: "mergePlanScope demo_plan demo_request = Inr q"
    using E by (cases "mergePlanScope demo_plan demo_request") auto
  obtain m t2 where a: "acquire (\<lambda>n. ''y'') 0 5000 q ''w'' 1 [] {lease_key Schema ''S''} ?t1 = (m, t2)" by fastforce
  obtain ls where m: "m = Inr ls" using E q a by (cases m) auto
  show ?thesis using E q a m by (auto simp: list_ex_iff list_all_iff)
qed

text \<open>
  Two readings of one release. Plans compare resource names without regard to case, the
  ownership service with regard to it: releasing \<open>a.ts\<close> takes \<open>A.ts\<close> out of the plan as
  well, while the lease on it stays with the task.
\<close>

theorem release_readings_differ:
  "\<exists>q. reducePlanScope demo_plan [\<lparr>resourceType = File, resourceId = ''a.ts''\<rparr>] = Inr q \<and>
     ''A.ts'' \<in> set (expectedFiles demo_plan) \<and> ''A.ts'' \<notin> set (expectedFiles q) \<and>
     holds (snd (releaseResources ''a'' [\<lparr>resourceType = File, resourceId = ''a.ts''\<rparr>]
       (snd (acquire (\<lambda>n. ''x'') 0 5000 demo_plan ''w'' 1 [] {lease_key Schema ''S''} []))))
       ''a'' (lease_key File ''A.ts'')"
proof -
  have "case reducePlanScope demo_plan [\<lparr>resourceType = File, resourceId = ''a.ts''\<rparr>] of Inl _ \<Rightarrow> False
     | Inr q \<Rightarrow> ''A.ts'' \<in> set (expectedFiles demo_plan) \<and> ''A.ts'' \<notin> set (expectedFiles q)"
    "list_ex (\<lambda>l. lease_task l = ''a'') (held_on (snd (releaseResources ''a''
       [\<lparr>resourceType = File, resourceId = ''a.ts''\<rparr>]
       (snd (acquire (\<lambda>n. ''x'') 0 5000 demo_plan ''w'' 1 [] {lease_key Schema ''S''} []))))
       (lease_key File ''A.ts''))"
    by code_simp+
  then show ?thesis by (auto simp: holds_def list_ex_iff split: sum.splits)
qed

end
