(* ===== verification/Patch_Properties.thy ===== *)
theory Patch_Properties
  imports Partial_Admission Plan_Properties
begin

text \<open>
  The properties of patches and of partial admissions, with witnesses evaluated on a patch of
  two hunks.
\<close>

section \<open>Patches\<close>

definition demo_lines :: "string list" where
  "demo_lines = [''--- a/f'', ''+++ b/f'', ''@@ -1,2 +1,3 @@ fn'', ''+x'', '' a'', '' b'', ''@@ -4,1 +5,1 @@'', ''-d'', ''+y'']"

definition demo_patch :: string where
  "demo_patch = join_with CHR 0x0A demo_lines @ [CHR 0x0A]"

definition demo_hunks :: "parsed_hunk list" where
  "demo_hunks =
     [\<lparr>oldStart = 1, oldCount = 2, newCount = 3, heading = '' fn'', body = [''+x'', '' a'', '' b'']\<rparr>,
      \<lparr>oldStart = 4, oldCount = 1, newCount = 1, heading = '''', body = [''-d'', ''+y'']\<rparr>]"

definition demo_parsed :: parsed_patch where
  "demo_parsed = \<lparr>preamble = [''--- a/f'', ''+++ b/f''], hunks = demo_hunks, trailingNewline = True\<rparr>"

lemma demo_parses: "parseUnifiedPatch demo_patch = Some demo_parsed"
  by code_simp



text \<open>
  C23 The granted half of a divided patch leaves withheld lines alone. Wherever it applies to a
  base file, the lines of every withheld span stand in the result in one piece, as they were.
\<close>

theorem granted_half_safe:
  assumes "dividePatchByRanges s withheld = Some d" and "granted_part d = Some g"
    and "parseUnifiedPatch g = Some p" and "apply_hunks base (hunks p) = Some out"
    and "held \<in> set withheld" and "1 \<le> startLine held" and "startLine held \<le> endLine held"
    and "endLine held \<le> int (length base)"
  shows "\<exists>pre post. out = pre @ base_lines base held @ post"
  using clear_patch_survives [OF assms(3) divide_granted_clear [OF assms(1,2)] assms(4-8)] .

definition demo_part :: string where
  "demo_part = join_with CHR 0x0A (take 6 demo_lines) @ [CHR 0x0A]"

theorem granted_half_safe_witness:
  "\<exists>pre post. [''x'', ''a'', ''b'', ''c'', ''d''] = pre @ [''c'', ''d''] @ post"
proof -
  let ?held = "\<lparr>startLine = 3, endLine = 4\<rparr>"
  obtain d where d: "dividePatchByRanges demo_patch [?held] = Some d" "granted_part d = Some demo_part"
  proof -
    have "map_option granted_part (dividePatchByRanges demo_patch [?held]) = Some (Some demo_part)" by code_simp
    then show thesis using that by (cases "dividePatchByRanges demo_patch [?held]") auto
  qed
  have "parseUnifiedPatch demo_part = Some (demo_parsed\<lparr>hunks := take 1 demo_hunks\<rparr>)"
    "apply_hunks [''a'', ''b'', ''c'', ''d''] (hunks (demo_parsed\<lparr>hunks := take 1 demo_hunks\<rparr>)) =
       Some [''x'', ''a'', ''b'', ''c'', ''d'']"
    "base_lines [''a'', ''b'', ''c'', ''d''] ?held = [''c'', ''d'']"
    by code_simp+
  then show ?thesis using granted_half_safe [OF d, of _ "[''a'', ''b'', ''c'', ''d'']" _ ?held] by simp
qed

text \<open>
  C24 Hunks land where they are numbered. Emit any hunks of a patch and apply them: the header
  written for a hunk carries the line its new text begins at in the result, or, for a hunk that
  only deletes, the line before.
\<close>

theorem hunks_land_where_numbered:
  assumes "parseUnifiedPatch s = Some p" and "set (hs @ h # ks) \<subseteq> set (hunks p)"
    and "apply_hunks base (hs @ h # ks) = Some out"
  shows "emit_hunks 0 (hs @ h # ks) =
      emit_hunks 0 hs @ emit_header (delta_of hs) h # body h @ emit_hunks (delta_of (hs @ [h])) ks \<and>
    (\<exists>pre post. out = pre @ new_side (map edit_of (body h)) @ post \<and>
      int (length pre) = new_start (delta_of hs) h - (if newCount h = 0 \<and> oldCount h \<noteq> 0 then 0 else 1))"
proof -
  have "list_all hunk_ok (hunks p)" using parse_law [OF assms(1)] by (simp add: patch_ok_def)
  then have "list_all hunk_ok (hs @ h # ks)" unfolding list_all_iff using assms(2) by blast
  then show ?thesis
    using hunk_lands [OF assms(3)] emit_hunks_append [of 0 hs h ks] by (simp add: delta_of_def algebra_simps)
qed

theorem hunks_land_where_numbered_witness:
  "\<exists>pre post. [''x'', ''a'', ''b'', ''c'', ''y''] = pre @ [''y''] @ post \<and> int (length pre) = 5 - 1"
proof -
  let ?h = "last demo_hunks"
  have e: "apply_hunks [''a'', ''b'', ''c'', ''d''] (take 1 demo_hunks @ ?h # []) = Some [''x'', ''a'', ''b'', ''c'', ''y'']"
    "new_side (map edit_of (body ?h)) = [''y'']" "new_start (delta_of (take 1 demo_hunks)) ?h = 5" "newCount ?h = 1"
    by code_simp+
  moreover have "set (take 1 demo_hunks @ ?h # []) \<subseteq> set (hunks demo_parsed)"
    by (simp add: demo_hunks_def demo_parsed_def)
  ultimately show ?thesis using hunks_land_where_numbered [OF demo_parses _ e(1)] by simp
qed

section \<open>Partial admissions\<close>

text \<open>
  What a partial admission promotes. Splitting a changeset accounts for each of its patches:
  granted, held back, reported as escaped, or divided between the first two hunk by hunk. When
  nothing escaped, every patch of the granted changeset lies in the plan's scope, on a file that
  was not withheld, and reaches no withheld symbol.
\<close>

theorem split_sorts_patches:
  assumes "splitChangeSet new_id plan a look cs = Inr (gr, s)"
  shows "list_all (\<lambda>p. accounted p s) (patches cs) \<and>
    (escaped s = [] \<longrightarrow>
      (\<exists>granted deferred. uniqueRepositoryPaths (expectedFiles plan) = Inr granted \<and> deferredFilePaths a = Inr deferred \<and>
        list_all (promotable granted deferred plan a look) (patches gr)))"
proof -
  obtain granted deferred where
    "uniqueRepositoryPaths (expectedFiles plan) = Inr granted" "deferredFilePaths a = Inr deferred"
    using splitChangeSet_law [OF assms] by metis
  then show ?thesis
    using split_accounts [OF assms] split_promotable [OF assms] by (auto simp: list_all_iff)
qed

definition demo_admission :: plan_admission where
  "demo_admission =
     \<lparr>admission_status = Approved,
      deferredResources = Some [\<lparr>resourceType = Symbol, resourceId = ''d'', heldBy = [''t''], deferred_reason = '''', implied = None,
        locations = Some [\<lparr>location_file = ''f'', location_lines = \<lparr>startLine = 3, endLine = 4\<rparr>\<rparr>]\<rparr>]\<rparr>"

definition demo_changes :: "unit change_set" where
  "demo_changes =
     \<lparr>changeset_id = ''c'',
      patches = [\<lparr>patch_path = ''f'', patch_status = Modified, patch_text = demo_patch\<rparr>], changeset_rest = ()\<rparr>"

theorem split_sorts_patches_witness:
  "\<exists>gr s. splitChangeSet ''n'' (demo_plan\<lparr>expectedFiles := [''f'']\<rparr>) demo_admission None demo_changes = Inr (gr, s) \<and>
     map patch_text (patches gr) = [demo_part] \<and> length (deferred_patches s) = 1 \<and>
     list_all (promotable [''f''] [] (demo_plan\<lparr>expectedFiles := [''f'']\<rparr>) demo_admission None) (patches gr)"
proof -
  let ?plan = "demo_plan\<lparr>expectedFiles := [''f'']\<rparr>"
  let ?split = "splitChangeSet ''n'' ?plan demo_admission None demo_changes"
  have "case ?split of Inl e \<Rightarrow> False
    | Inr (gr, s) \<Rightarrow> map patch_text (patches gr) = [demo_part] \<and> length (deferred_patches s) = 1 \<and> escaped s = []"
    by code_simp
  then obtain gr s where gr: "?split = Inr (gr, s)" "map patch_text (patches gr) = [demo_part]"
    "length (deferred_patches s) = 1" "escaped s = []"
    by (auto split: sum.splits prod.splits)
  have "uniqueRepositoryPaths (expectedFiles ?plan) = Inr [''f'']" "deferredFilePaths demo_admission = Inr []"
    by code_simp+
  then show ?thesis using split_sorts_patches [OF gr(1)] gr by auto
qed

text \<open>
  The record of withheld work stays within its budget, and says so when it does not hold
  everything: its size is that of the patches it kept, each patch is kept whole or left out, it
  counts as truncated exactly when one was left out, and none was left out that would fit.
\<close>

theorem withheld_record_bounded:
  "withheld_bytes (withheldPatchRecord budget ps) \<le> budget \<and>
   withheld_bytes (withheldPatchRecord budget ps) =
     sum_list (map (\<lambda>w. utf8_bytes (withheld_text w)) (withheld_patches (withheldPatchRecord budget ps))) \<and>
   truncated (withheldPatchRecord budget ps) = list_ex omitted (withheld_patches (withheldPatchRecord budget ps)) \<and>
   list_all2 (kept_as budget (withheld_bytes (withheldPatchRecord budget ps))) ps
     (withheld_patches (withheldPatchRecord budget ps))"
  using withheld_record_ok [of budget ps] unfolding record_ok_def .

end
