(* ===== verification/Frame_Laws.thy ===== *)
theory Frame_Laws
  imports Ws_Frame
begin

text \<open>
  The frame reader against its stream: a decision, once made, stands when more bytes arrive, so
  chunks do not matter; frames written as a client writes them are read back; and what the reader
  holds stays within its limits.
\<close>

section \<open>More input\<close>

abbreviation more :: "byte list \<Rightarrow> frame_reader \<Rightarrow> frame_reader" where
  "more ys s \<equiv> s\<lparr>frame_input := frame_input s @ ys\<rparr>"

fun stops :: "'text frame_event \<Rightarrow> bool" where
  "stops Close = True"
| "stops (Fault code reason) = True"
| "stops e = False"

lemma frame_length_append:
  "frame_length limit xs n = r \<Longrightarrow> r \<noteq> Inl (Incomplete, []) \<Longrightarrow> frame_length limit (xs @ ys) n = r"
  by (auto simp: frame_length_def split: if_splits)

lemma frame_extent_append:
  assumes "frame_extent limit xs = r" "r \<noteq> Inl (Incomplete, [])"
  shows "frame_extent limit (xs @ ys) = r"
proof -
  obtain a b rest where xs: "xs = a # b # rest"
    using assms by (cases xs rule: remdups_adj.cases) (auto simp: frame_extent_def)
  show ?thesis
  proof (cases "frame_length limit xs (unat (b AND 0x7F)) :: (outcome \<times> 'a frame_event list) + nat \<times> nat")
    case (Inl e)
    then have "frame_length limit (xs @ ys) (unat (b AND 0x7F)) = Inl e" if "a AND 0x70 = 0"
      using frame_length_append assms that by (fastforce simp: frame_extent_def xs)
    then show ?thesis using assms Inl by (auto simp: frame_extent_def xs)
  next
    case (Inr m)
    then have "frame_length limit (xs @ ys) (unat (b AND 0x7F)) = (Inr m :: (outcome \<times> 'a frame_event list) + nat \<times> nat)"
      by (rule frame_length_append) simp
    then show ?thesis using assms Inr by (auto simp: frame_extent_def xs split: prod.splits if_splits)
  qed
qed

lemma accept_frame_more:
  "accept_frame decode limit final opcode payload (more ys s) =
     (case accept_frame decode limit final opcode payload s of (out, ev, t) \<Rightarrow> (out, ev, more ys t))"
  by (simp add: accept_frame_def Let_def)

lemma readFrame_append:
  assumes "readFrame decode limit s = (out, ev, t)" "out \<noteq> Incomplete"
  shows "readFrame decode limit (more ys s) = (out, ev, more ys t)"
proof (cases "frame_extent limit (frame_input s) :: (outcome \<times> 'a frame_event list) + bool \<times> byte \<times> nat \<times> nat")
  case (Inl e)
  then have "frame_extent limit (frame_input s @ ys) = Inl e"
    using assms by (intro frame_extent_append) (auto simp: readFrame_def)
  then show ?thesis using assms Inl by (auto simp: readFrame_def split: prod.splits)
next
  case (Inr e)
  obtain final opcode n offset where e: "e = (final, opcode, n, offset)" by (cases e) auto
  have long: "offset + 4 + n \<le> length (frame_input s)" using frame_extent_InrD Inr e by blast
  have "frame_extent limit (frame_input s @ ys) =
      (Inr e :: (outcome \<times> 'a frame_event list) + bool \<times> byte \<times> nat \<times> nat)"
    using Inr by (rule frame_extent_append) simp
  moreover have "accept_frame decode limit final opcode
      (unmask (take 4 (drop offset (frame_input s))) (take n (drop (offset + 4) (frame_input s))))
      (more ys (s\<lparr>frame_input := drop (offset + 4 + n) (frame_input s)\<rparr>)) = (out, ev, more ys t)"
    unfolding accept_frame_more using assms(1) Inr by (simp add: readFrame_def e)
  ultimately show ?thesis using long by (simp add: readFrame_def e)
qed

lemma accept_frame_events:
  assumes "accept_frame decode limit final opcode payload s = (out, ev, t)"
  shows "(out = Read \<and> \<not> list_ex stops ev) \<or> (out = Faulted \<and> list_ex stops ev)"
  using assms by (auto simp: accept_frame_def Let_def split: if_splits)

lemma frame_extent_events:
  assumes "frame_extent limit xs = Inl (out, ev)"
  shows "(out = Incomplete \<and> ev = []) \<or> (out = Faulted \<and> list_ex stops ev)"
  using assms
  by (auto simp: frame_extent_def frame_length_def res_bind_eq_Inl_conv split: list.splits if_splits)

lemma readFrame_events:
  assumes "readFrame decode limit s = (out, ev, t)"
  shows "(out = Incomplete \<and> ev = [] \<and> t = s) \<or> (out = Read \<and> \<not> list_ex stops ev) \<or> (out = Faulted \<and> list_ex stops ev)"
  using assms accept_frame_events frame_extent_events
  by (fastforce simp: readFrame_def split: sum.splits prod.splits)

text \<open>What the loop reads from a prefix, it reads from the whole.\<close>

lemma read_frames_append:
  assumes "read_frames decode limit s = (ev, t)"
  shows "read_frames decode limit (more ys s) =
    (if list_ex stops ev then (ev, more ys t)
     else (case read_frames decode limit (more ys t) of (ev', u) \<Rightarrow> (ev @ ev', u)))"
  using assms
proof (induction decode limit s arbitrary: ev t rule: read_frames.induct)
  case (1 decode limit s)
  obtain out e s' where r: "readFrame decode limit s = (out, e, s')" by (cases "readFrame decode limit s") auto
  note ev = readFrame_events [OF r]
  show ?case
  proof (cases out)
    case Read
    obtain ev' t' where rest: "read_frames decode limit s' = (ev', t')" by fastforce
    then have "ev = e @ ev'" "t = t'" using 1(2) r Read by (simp_all add: read_frames.simps [of decode limit s])
    moreover have "read_frames decode limit (more ys s') =
        (if list_ex stops ev' then (ev', more ys t')
         else (case read_frames decode limit (more ys t') of (ev'', u) \<Rightarrow> (ev' @ ev'', u)))"
      using 1(1) [OF r [symmetric] Read refl rest] .
    moreover have "readFrame decode limit (more ys s) = (Read, e, more ys s')"
      using readFrame_append [OF r] Read by simp
    ultimately show ?thesis using ev Read
      by (simp add: read_frames.simps [of decode limit "more ys s"] split: prod.splits)
  next
    case Incomplete
    then have "ev = []" "t = s" using 1(2) r ev by (simp_all add: read_frames.simps [of decode limit s])
    then show ?thesis by (simp split: prod.splits)
  next
    case Faulted
    then have "ev = e" "t = s'" using 1(2) r by (simp_all add: read_frames.simps [of decode limit s])
    moreover have "readFrame decode limit (more ys s) = (Faulted, e, more ys s')"
      using readFrame_append [OF r] Faulted by simp
    ultimately show ?thesis using ev Faulted by (simp add: read_frames.simps [of decode limit "more ys s"])
  qed
qed

section \<open>Chunks\<close>

fun push_all ::
  "(byte list \<Rightarrow> 'text) \<Rightarrow> frame_options \<Rightarrow> byte list list \<Rightarrow> frame_reader \<Rightarrow> 'text frame_event list \<times> frame_reader" where
  "push_all decode opts [] s = ([], s)"
| "push_all decode opts (c # cs) s =
     (case push decode opts c s of (ev, t) \<Rightarrow>
       (case push_all decode opts cs t of (evs, u) \<Rightarrow> (ev @ evs, u)))"

text \<open>A reader between chunks holds no whole frame.\<close>

definition settled :: "(byte list \<Rightarrow> 'text) \<Rightarrow> nat \<Rightarrow> frame_reader \<Rightarrow> bool" where
  "settled decode limit s \<longleftrightarrow> read_frames decode limit s = ([], s)"

lemma settled_new [simp]: "settled decode limit new_reader"
  by (simp add: settled_def read_frames.simps readFrame_def frame_extent_def new_reader_def)

lemma read_frames_settles:
  assumes "read_frames decode limit s = (ev, t)" "\<not> list_ex stops ev"
  shows "settled decode limit t \<and> length (frame_input t) \<le> length (frame_input s)"
  using assms
proof (induction decode limit s arbitrary: ev t rule: read_frames.induct)
  case (1 decode limit s)
  obtain out e s' where r: "readFrame decode limit s = (out, e, s')" by (cases "readFrame decode limit s") auto
  note ev = readFrame_events [OF r]
  show ?case
  proof (cases out)
    case Read
    obtain ev' t' where rest: "read_frames decode limit s' = (ev', t')" by fastforce
    then have "ev = e @ ev'" "t = t'" using 1(2) r Read by (simp_all add: read_frames.simps [of decode limit s])
    then show ?thesis using 1(1) [OF r [symmetric] Read refl rest] 1(3) readFrame_shrinks r Read by fastforce
  next
    case Incomplete
    then have "t = s" "ev = []" using 1(2) r ev by (simp_all add: read_frames.simps [of decode limit s])
    then show ?thesis using 1(2) by (simp add: settled_def)
  next
    case Faulted
    then show ?thesis using 1(2,3) r ev by (simp add: read_frames.simps [of decode limit s])
  qed
qed

lemma push_fits:
  "length (frame_input s @ c) \<le> maxBufferBytes opts \<Longrightarrow>
     push decode opts c s = read_frames decode (maxMessageBytes opts) (more c s)"
  by (simp add: push_def)

lemma push_all_chunks:
  assumes "settled decode (maxMessageBytes opts) s"
    and "length (frame_input s @ concat cs) \<le> maxBufferBytes opts"
    and "\<not> list_ex stops (fst (push decode opts (concat cs) s))"
  shows "push_all decode opts cs s = push decode opts (concat cs) s"
  using assms
proof (induction cs arbitrary: s)
  case Nil
  then show ?case by (simp add: push_fits settled_def)
next
  case (Cons c cs)
  let ?limit = "maxMessageBytes opts"
  obtain ev t where first: "read_frames decode ?limit (more c s) = (ev, t)" by fastforce
  have whole: "push decode opts (concat (c # cs)) s = read_frames decode ?limit (more (concat cs) (more c s))"
    using Cons.prems(2) by (simp add: push_fits)
  have clean: "\<not> list_ex stops ev"
    using Cons.prems(3) unfolding whole read_frames_append [OF first] by (auto split: if_splits)
  have t: "settled decode ?limit t" "length (frame_input t) \<le> length (frame_input s) + length c"
    using read_frames_settles [OF first clean] by simp_all
  have room: "length (frame_input t @ concat cs) \<le> maxBufferBytes opts"
    using t(2) Cons.prems(2) by simp
  then have rest: "push decode opts (concat cs) t = read_frames decode ?limit (more (concat cs) t)"
    by (rule push_fits)
  then have both: "push decode opts (concat (c # cs)) s =
      (case push decode opts (concat cs) t of (ev', u) \<Rightarrow> (ev @ ev', u))"
    unfolding whole read_frames_append [OF first] using clean by simp
  then have "\<not> list_ex stops (fst (push decode opts (concat cs) t))"
    using Cons.prems(3) by (auto split: prod.splits)
  then have "push_all decode opts cs t = push decode opts (concat cs) t"
    using Cons.IH [OF t(1) room] by simp
  moreover have "push decode opts c s = (ev, t)"
    using first Cons.prems(2) by (simp add: push_fits)
  ultimately show ?case unfolding both by simp
qed

section \<open>A client's frames\<close>

lemma length_be_bytes [simp]: "length (be_bytes k n) = k"
  by (induction k arbitrary: n) simp_all

lemma be_value_snoc: "be_value (bs @ [b]) = be_value bs * 256 + unat b"
  by (simp add: be_value_def)

lemma be_value_bytes: "n < 256 ^ k \<Longrightarrow> be_value (be_bytes k n) = n"
proof (induction k arbitrary: n)
  case (Suc k)
  then have "be_value (be_bytes k (n div 256)) = n div 256" by (intro Suc.IH) (simp add: less_mult_imp_div_less)
  moreover have "unat (of_nat (n mod 256) :: byte) = n mod 256" by (simp add: unat_of_nat)
  ultimately show ?case by (simp add: be_value_snoc)
qed (simp add: be_value_def)

text \<open>
  Masking as RFC 6455 has it for the client: the key is turned by one byte for every byte sent. The
  reader's indexed masking undoes it.
\<close>

fun client_mask :: "byte list \<Rightarrow> byte list \<Rightarrow> byte list" where
  "client_mask key [] = []"
| "client_mask key (b # bs) = (b XOR hd key) # client_mask (rotate1 key) bs"

lemma length_client_mask [simp]: "length (client_mask key payload) = length payload"
  by (induction key payload rule: client_mask.induct) simp_all

lemma nth_client_mask:
  "length key = 4 \<Longrightarrow> i < length payload \<Longrightarrow> client_mask key payload ! i = payload ! i XOR key ! (i mod 4)"
proof (induction key payload arbitrary: i rule: client_mask.induct)
  case (2 key b bs)
  show ?case
  proof (cases i)
    case 0
    then show ?thesis using 2 by (cases key) simp_all
  next
    case (Suc j)
    then have "client_mask (rotate1 key) bs ! j = bs ! j XOR rotate1 key ! (j mod 4)" using 2 by simp
    also have "rotate1 key ! (j mod 4) = key ! (i mod 4)"
      using 2 Suc by (subst nth_rotate1) (simp_all add: mod_Suc_eq)
    finally show ?thesis using Suc by simp
  qed
qed simp

lemma unmask_client_mask [simp]: "length key = 4 \<Longrightarrow> unmask key (client_mask key payload) = payload"
  by (rule nth_equalityI) (simp_all add: unmask_def nth_client_mask xor.assoc)

lemma length_unmask [simp]: "length (unmask key payload) = length payload"
  by (simp add: unmask_def)

text \<open>
  How a client writes a frame (RFC 6455): the server's header, with the final bit as given and the
  mask bit set, then the masking key and the masked payload. A message is a text frame and
  continuation frames, the last one final.
\<close>

definition client_frame :: "bool \<Rightarrow> byte \<Rightarrow> byte list \<Rightarrow> byte list \<Rightarrow> byte list" where
  "client_frame final opcode key payload =
     (let h = frame_header opcode (length payload)
      in (if final then h ! 0 else h ! 0 AND 0x7F) # (h ! 1 OR 0x80) # drop 2 h @ key @ client_mask key payload)"

fun client_message :: "byte \<Rightarrow> (byte list \<times> byte list) list \<Rightarrow> byte list" where
  "client_message opcode [] = []"
| "client_message opcode [(key, payload)] = client_frame True opcode key payload"
| "client_message opcode ((key, payload) # part # parts) =
     client_frame False opcode key payload @ client_message OPCODE_CONTINUATION (part # parts)"

lemma length_bits:
  assumes "n < 128"
  shows "unat ((of_nat n OR 0x80 :: byte) AND 0x7F) = n" and "(of_nat n OR 0x80 :: byte) AND 0x80 \<noteq> 0"
proof -
  have e: "(0x7F :: byte) = Bit_Operations.mask 7" by (simp add: mask_eq_exp_minus_1)
  have "take_bit 7 (0x80 :: byte) = 0" by simp
  then have "((of_nat n OR 0x80 :: byte) AND 0x7F) = take_bit 7 (of_nat n)"
    unfolding e by (simp add: take_bit_or flip: take_bit_eq_mask)
  also have "unat (take_bit 7 (of_nat n :: byte)) = take_bit 7 (unat (of_nat n :: byte))"
    by (rule unsigned_take_bit_eq)
  also have "\<dots> = n" using assms by (simp add: unat_of_nat take_bit_eq_mod)
  finally show "unat ((of_nat n OR 0x80 :: byte) AND 0x7F) = n" .
  have "(of_nat n OR 0x80 :: byte) AND 0x80 = 0x80" by (simp add: bit.conj_disj_distrib2)
  then show "(of_nat n OR 0x80 :: byte) AND 0x80 \<noteq> 0" by simp
qed

definition message_opcode :: "byte \<Rightarrow> bool" where
  "message_opcode opcode \<longleftrightarrow> opcode = OPCODE_TEXT \<or> opcode = OPCODE_CONTINUATION"

lemma first_byte:
  assumes "message_opcode opcode"
  shows "(0x80 OR opcode) AND 0x70 = 0" "(0x80 OR opcode) AND 0x80 \<noteq> 0" "(0x80 OR opcode) AND 0x0F = opcode"
    "((0x80 OR opcode) AND 0x7F) AND 0x70 = 0" "((0x80 OR opcode) AND 0x7F) AND 0x80 = 0"
    "((0x80 OR opcode) AND 0x7F) AND 0x0F = opcode"
  using assms by (auto simp: message_opcode_def OPCODE_TEXT_def OPCODE_CONTINUATION_def)

lemma client_frame_shape:
  assumes "message_opcode opcode" "n = length payload"
  shows "client_frame final opcode key payload =
    (if final then 0x80 OR opcode else (0x80 OR opcode) AND 0x7F) #
    (if n < 126 then of_nat n OR 0x80 else if n \<le> 0xFFFF then 126 OR 0x80 else 127 OR 0x80) #
    (if n < 126 then [] else if n \<le> 0xFFFF then be_bytes 2 n else be_bytes 8 n) @ key @ client_mask key payload"
  by (simp add: client_frame_def frame_header_def assms(2) Let_def del: be_bytes.simps)

lemma client_frame_extent:
  assumes "message_opcode opcode" "length key = 4" "length payload \<le> limit" "limit < 2 ^ 64"
  obtains offset where
    "frame_extent limit (client_frame final opcode key payload @ ys) =
       (Inr (final, opcode, length payload, offset) :: (outcome \<times> 'text frame_event list) + bool \<times> byte \<times> nat \<times> nat)"
    "take 4 (drop offset (client_frame final opcode key payload @ ys)) = key"
    "take (length payload) (drop (offset + 4) (client_frame final opcode key payload @ ys)) = client_mask key payload"
    "drop (offset + 4 + length payload) (client_frame final opcode key payload @ ys) = ys"
proof -
  define n where "n = length payload"
  define a where "a = (if final then 0x80 OR opcode else (0x80 OR opcode) AND 0x7F)"
  have a: "a AND 0x70 = 0" "(a AND 0x80 \<noteq> 0) = final" "a AND 0x0F = opcode"
    using first_byte [OF assms(1)] by (simp_all add: a_def)
  define ext where "ext = (if n < 126 then [] else if n \<le> 0xFFFF then be_bytes 2 n else be_bytes 8 n)"
  define b :: byte where "b = (if n < 126 then of_nat n OR 0x80 else if n \<le> 0xFFFF then 126 OR 0x80 else 127 OR 0x80)"
  have shape: "client_frame final opcode key payload @ ys = a # b # ext @ key @ client_mask key payload @ ys"
    unfolding client_frame_shape [OF assms(1) n_def] a_def b_def ext_def by simp
  have b_mask: "b AND 0x80 \<noteq> 0"
    using length_bits(2) [of n] length_bits(2) [of 126] length_bits(2) [of 127] by (simp add: b_def)
  have "unat (b AND 0x7F) = (if n < 126 then n else if n \<le> 0xFFFF then 126 else 127)"
    using length_bits(1) [of n] length_bits(1) [of 126] length_bits(1) [of 127] by (simp add: b_def)
  moreover have "be_value (be_bytes 2 n) = n" if "n \<le> 0xFFFF"
    using that by (intro be_value_bytes) simp
  moreover have "be_value (be_bytes 8 n) = n"
    using assms(3,4) by (intro be_value_bytes) (simp add: n_def)
  moreover have "n \<le> limit" using assms(3) by (simp add: n_def)
  ultimately have len: "frame_length limit (a # b # ext @ zs) (unat (b AND 0x7F)) =
      (Inr (n, 2 + length ext) :: (outcome \<times> 'text frame_event list) + nat \<times> nat)" for zs
    by (simp add: frame_length_def ext_def del: be_bytes.simps)
  show thesis
  proof (rule that [of "2 + length ext"])
    show "frame_extent limit (client_frame final opcode key payload @ ys) =
       (Inr (final, opcode, length payload, 2 + length ext) :: (outcome \<times> 'text frame_event list) + bool \<times> byte \<times> nat \<times> nat)"
      unfolding shape using a b_mask len [of "key @ client_mask key payload @ ys"] assms(2,3)
      by (simp add: frame_extent_def n_def)
    show "take 4 (drop (2 + length ext) (client_frame final opcode key payload @ ys)) = key"
      by (simp add: shape assms(2))
    have "drop (2 + length ext + 4) (client_frame final opcode key payload @ ys) = client_mask key payload @ ys"
    proof -
      have "client_frame final opcode key payload @ ys = (a # b # ext @ key) @ client_mask key payload @ ys"
        by (simp add: shape)
      moreover have "length (a # b # ext @ key) = 2 + length ext + 4" using assms(2) by simp
      ultimately show ?thesis by (metis append_eq_conv_conj)
    qed
    then show "take (length payload) (drop (2 + length ext + 4) (client_frame final opcode key payload @ ys)) = client_mask key payload"
      "drop (2 + length ext + 4 + length payload) (client_frame final opcode key payload @ ys) = ys"
      by (metis append_eq_conv_conj length_client_mask, metis add.commute append_eq_conv_conj drop_drop length_client_mask)
  qed
qed

lemma read_client_frame:
  assumes "message_opcode opcode" "length key = 4" "length payload \<le> limit" "limit < 2 ^ 64"
    and "frame_input s = client_frame final opcode key payload @ ys"
  shows "readFrame decode limit s = accept_frame decode limit final opcode payload (s\<lparr>frame_input := ys\<rparr>)"
proof -
  obtain offset where
    "frame_extent limit (frame_input s) = (Inr (final, opcode, length payload, offset) ::
       (outcome \<times> 'a frame_event list) + bool \<times> byte \<times> nat \<times> nat)"
    "take 4 (drop offset (frame_input s)) = key"
    "take (length payload) (drop (offset + 4) (frame_input s)) = client_mask key payload"
    "drop (offset + 4 + length payload) (frame_input s) = ys"
    using client_frame_extent [OF assms(1-4), of final ys] unfolding assms(5) by metis
  then show ?thesis using assms(2) by (simp add: readFrame_def)
qed

definition parts_bytes :: "(byte list \<times> byte list) list \<Rightarrow> nat" where
  "parts_bytes parts = length (concat (map snd parts))"

text \<open>From the frame a message is at to its end.\<close>

lemma read_client_message:
  assumes "parts \<noteq> []" "list_all (\<lambda>(key, payload). length key = 4) parts" "limit < 2 ^ 64"
    and "frame_input s = client_message opcode parts @ ys"
    and "fragmentBytes s = length (concat (fragments s))" "fragmentBytes s + parts_bytes parts \<le> limit"
    and "if opcode = OPCODE_TEXT then fragmentOpcode s = None
         else opcode = OPCODE_CONTINUATION \<and> fragmentOpcode s = Some OPCODE_TEXT"
  shows "read_frames decode limit s =
    (case read_frames decode limit \<lparr>frame_input = ys, fragments = [], fragmentBytes = 0, fragmentOpcode = None\<rparr> of
       (ev, t) \<Rightarrow> (TextMessage (decode (concat (fragments s) @ concat (map snd parts))) # ev, t))"
  using assms
proof (induction opcode parts arbitrary: s rule: client_message.induct)
  case (2 opcode key payload)
  have op: "message_opcode opcode" using 2(7) by (auto simp: message_opcode_def split: if_splits)
  have "readFrame decode limit s = accept_frame decode limit True opcode payload (s\<lparr>frame_input := ys\<rparr>)"
    using 2 op by (intro read_client_frame) (simp_all add: parts_bytes_def)
  also have "\<dots> = (Read, [TextMessage (decode (concat (fragments s) @ payload))],
      \<lparr>frame_input = ys, fragments = [], fragmentBytes = 0, fragmentOpcode = None\<rparr>)"
    using 2 by (cases s) (auto simp: accept_frame_def Let_def opcode_defs parts_bytes_def split: if_splits)
  finally show ?case by (simp add: read_frames.simps [of decode limit s] split: prod.splits)
next
  case (3 opcode key payload part parts)
  let ?rest = "client_message OPCODE_CONTINUATION (part # parts) @ ys"
  let ?s = "s\<lparr>frame_input := ?rest, fragmentBytes := fragmentBytes s + length payload,
              fragments := fragments s @ [payload], fragmentOpcode := Some OPCODE_TEXT\<rparr>"
  have op: "message_opcode opcode" using 3(8) by (auto simp: message_opcode_def split: if_splits)
  have "readFrame decode limit s = accept_frame decode limit False opcode payload (s\<lparr>frame_input := ?rest\<rparr>)"
    using 3 op by (intro read_client_frame) (simp_all add: parts_bytes_def)
  also have "\<dots> = (Read, [], ?s)"
    using 3 by (cases s) (auto simp: accept_frame_def Let_def opcode_defs parts_bytes_def split: if_splits)
  finally have step: "read_frames decode limit s = read_frames decode limit ?s"
    by (simp add: read_frames.simps [of decode limit s] split: prod.splits)
  have "OPCODE_CONTINUATION \<noteq> OPCODE_TEXT" by (simp add: opcode_defs)
  then show ?case unfolding step using 3(1) [of ?s] 3(3-8) by (simp add: parts_bytes_def)
qed simp

section \<open>Bounds\<close>

definition reader_ok :: "frame_options \<Rightarrow> frame_reader \<Rightarrow> bool" where
  "reader_ok opts s \<longleftrightarrow>
     length (frame_input s) \<le> maxBufferBytes opts \<and> fragmentBytes s = length (concat (fragments s)) \<and>
     fragmentBytes s \<le> maxMessageBytes opts"

definition fits_limit :: "(byte list \<Rightarrow> 'text) \<Rightarrow> nat \<Rightarrow> 'text frame_event \<Rightarrow> bool" where
  "fits_limit decode limit e \<longleftrightarrow>
     (case e of
        TextMessage t \<Rightarrow> (\<exists>m. t = decode m \<and> length m \<le> limit)
      | Ping payload \<Rightarrow> length payload \<le> limit
      | _ \<Rightarrow> True)"

lemma accept_frame_ok:
  assumes "accept_frame decode (maxMessageBytes opts) final opcode payload s = (out, ev, t)" "reader_ok opts s"
    and "length payload \<le> maxMessageBytes opts"
  shows "list_all (fits_limit decode (maxMessageBytes opts)) ev \<and> (out = Read \<longrightarrow> reader_ok opts t)"
  using assms
  by (auto simp: accept_frame_def Let_def reader_ok_def fits_limit_def
      intro!: exI [of _ "concat (fragments s) @ payload"] split: if_splits)

lemma read_frames_ok:
  assumes "read_frames decode (maxMessageBytes opts) s = (ev, t)" "reader_ok opts s"
  shows "list_all (fits_limit decode (maxMessageBytes opts)) ev \<and> (\<not> list_ex stops ev \<longrightarrow> reader_ok opts t)"
  using assms
proof (induction decode "maxMessageBytes opts" s arbitrary: ev t rule: read_frames.induct)
  case (1 decode s)
  obtain out e s' where r: "readFrame decode (maxMessageBytes opts) s = (out, e, s')"
    by (cases "readFrame decode (maxMessageBytes opts) s") auto
  have e: "list_all (fits_limit decode (maxMessageBytes opts)) e \<and> (out = Read \<longrightarrow> reader_ok opts s') \<and>
      (out = Incomplete \<longrightarrow> e = [] \<and> s' = s)"
  proof (cases "frame_extent (maxMessageBytes opts) (frame_input s) :: (outcome \<times> 'a frame_event list) + bool \<times> byte \<times> nat \<times> nat")
    case (Inl x)
    then show ?thesis using r frame_extent_events [of "maxMessageBytes opts" "frame_input s"]
      by (auto simp: readFrame_def frame_extent_def frame_length_def res_bind_eq_Inl_conv fits_limit_def
          split: list.splits if_splits prod.splits)
  next
    case (Inr x)
    obtain final opcode n offset where x: "x = (final, opcode, n, offset)" by (cases x) auto
    have "n \<le> maxMessageBytes opts" using frame_extent_InrD Inr x by blast
    moreover have "reader_ok opts (s\<lparr>frame_input := drop (offset + 4 + n) (frame_input s)\<rparr>)"
      using 1(3) by (auto simp: reader_ok_def)
    moreover have acc: "accept_frame decode (maxMessageBytes opts) final opcode
        (unmask (take 4 (drop offset (frame_input s))) (take n (drop (offset + 4) (frame_input s))))
        (s\<lparr>frame_input := drop (offset + 4 + n) (frame_input s)\<rparr>) = (out, e, s')"
      using r Inr by (simp add: readFrame_def x)
    ultimately show ?thesis using accept_frame_ok [OF acc] accept_frame_events [OF acc] by auto
  qed
  show ?case
  proof (cases out)
    case Read
    obtain ev' t' where rest: "read_frames decode (maxMessageBytes opts) s' = (ev', t')" by fastforce
    then have "ev = e @ ev'" "t = t'" using 1(2) r Read by (simp_all add: read_frames.simps [of decode _ s])
    then show ?thesis using 1(1) [OF r [symmetric] Read refl rest] e Read by auto
  next
    case Incomplete
    then show ?thesis using 1(2,3) r e by (auto simp: read_frames.simps [of decode _ s])
  next
    case Faulted
    then show ?thesis using 1(2) r e readFrame_events [OF r] by (auto simp: read_frames.simps [of decode _ s])
  qed
qed

end
