(* ===== verification/Audit_Chain.thy ===== *)
theory Audit_Chain
  imports Prelude Patches
begin

text \<open>
  The hash-chained audit log: \<open>services/persistence/src/audit-chain.ts\<close> and the audit methods of
  \<open>sqlite-store.ts\<close> (append, archive, prune, verify), with the tables as lists in sequence order.
  SHA-256 is the argument \<open>sha\<close>, from text to its hexadecimal digest. Text is UTF-16.
\<close>

section \<open>Canonical JSON\<close>

definition u16 :: "string \<Rightarrow> utf16" where
  "u16 s = map (\<lambda>c. of_nat (of_char c)) s"

definition hex_digit :: "nat \<Rightarrow> 16 word" where
  "hex_digit d = of_nat (if d < 10 then 48 + d else 87 + d)"

definition unicode_escape :: "16 word \<Rightarrow> utf16" where
  "unicode_escape w =
     u16 [CHR 0x5C, CHR ''u''] @
     map (\<lambda>k. hex_digit (unat w div 16 ^ k mod 16)) [3, 2, 1, 0]"

definition high_surrogate :: "16 word \<Rightarrow> bool" where
  "high_surrogate w \<longleftrightarrow> 0xD800 \<le> unat w \<and> unat w \<le> 0xDBFF"

definition low_surrogate :: "16 word \<Rightarrow> bool" where
  "low_surrogate w \<longleftrightarrow> 0xDC00 \<le> unat w \<and> unat w \<le> 0xDFFF"

definition escape_unit :: "16 word \<Rightarrow> utf16" where
  "escape_unit w =
     (if w = 8 then u16 [CHR 0x5C, CHR ''b'']
      else if w = 9 then u16 [CHR 0x5C, CHR ''t'']
      else if w = 10 then u16 [CHR 0x5C, CHR ''n'']
      else if w = 12 then u16 [CHR 0x5C, CHR ''f'']
      else if w = 13 then u16 [CHR 0x5C, CHR ''r'']
      else if w = 34 \<or> w = 92 then [92, w]
      else if unat w < 32 \<or> high_surrogate w \<or> low_surrogate w then unicode_escape w
      else [w])"

text \<open>\<open>JSON.stringify\<close> of a string: a surrogate pair stands, a lone surrogate is escaped.\<close>

fun escape_units :: "utf16 \<Rightarrow> utf16" where
  "escape_units [] = []"
| "escape_units [w] = escape_unit w"
| "escape_units (w # v # rest) =
     (if high_surrogate w \<and> low_surrogate v then w # v # escape_units rest
      else escape_unit w @ escape_units (v # rest))"

definition json_string :: "utf16 \<Rightarrow> utf16" where
  "json_string s = 34 # escape_units s @ [34]"

fun json_number_text :: "json_number \<Rightarrow> utf16" where
  "json_number_text (JInt i) = u16 (show_int i)"
| "json_number_text (JOther s) = u16 s"

fun join_units :: "utf16 list \<Rightarrow> utf16" where
  "join_units [] = []"
| "join_units [s] = s"
| "join_units (s # t # ss) = s @ 44 # join_units (t # ss)"

text \<open>Object members are ordered by key; a JSON value has no \<open>undefined\<close> members to drop.\<close>

fun canonicalJson :: "json \<Rightarrow> utf16" where
  "canonicalJson JNull = u16 ''null''"
| "canonicalJson (JBool b) = (if b then u16 ''true'' else u16 ''false'')"
| "canonicalJson (JNumber n) = json_number_text n"
| "canonicalJson (JString s) = json_string s"
| "canonicalJson (JArray vs) = 91 # join_units (map canonicalJson vs) @ [93]"
| "canonicalJson (JObject ms) =
     123 # join_units (map snd (sort_key fst
       (map (\<lambda>m. (fst m, json_string (u16 (fst m)) @ 58 # canonicalJson (snd m))) ms))) @ [125]"

section \<open>Hashes\<close>

record audit_event =
  event_id :: utf16
  event_type :: utf16
  event_task :: "utf16 option"
  occurredAt :: utf16
  event_data :: "(string \<times> json) list"

definition GENESIS_HASH :: utf16 where
  "GENESIS_HASH = replicate 64 48"

text \<open>The text \<open>hashAuditPayload\<close> hashes.\<close>

definition payload_text :: "audit_event \<Rightarrow> utf16" where
  "payload_text e =
     canonicalJson (JObject
       [(''id'', JString (event_id e)),
        (''type'', JString (event_type e)),
        (''taskId'', case event_task e of None \<Rightarrow> JNull | Some t \<Rightarrow> JString t),
        (''occurredAt'', JString (occurredAt e)),
        (''data'', JObject (event_data e))])"

definition hashAuditPayload :: "(utf16 \<Rightarrow> utf16) \<Rightarrow> audit_event \<Rightarrow> utf16" where
  "hashAuditPayload sha e = sha (payload_text e)"

definition chainHash :: "(utf16 \<Rightarrow> utf16) \<Rightarrow> utf16 \<Rightarrow> utf16 \<Rightarrow> utf16" where
  "chainHash sha previous payload = sha (previous @ 58 # payload)"

record chained_event =
  chained_of :: audit_event
  sequence_no :: int
  payloadHash :: utf16
  previousHash :: utf16
  chain_hash :: utf16

record audit_checkpoint =
  checkpoint_id :: utf16
  throughSequence :: int
  checkpoint_hash :: utf16
  segment_digest :: utf16
  checkpoint_events :: nat
  checkpoint_created :: utf16

fun join_colon :: "utf16 list \<Rightarrow> utf16" where
  "join_colon [] = []"
| "join_colon [s] = s"
| "join_colon (s # t # ss) = s @ 58 # join_colon (t # ss)"

definition segmentDigest :: "(utf16 \<Rightarrow> utf16) \<Rightarrow> utf16 list \<Rightarrow> utf16" where
  "segmentDigest sha hashes = sha (u16 ''segment:'' @ join_colon hashes)"

section \<open>Verification\<close>

datatype broken_reason =
    UnlinkedPrevious | ChangedPayload | UnderivedChain | SegmentEnd | SegmentDigest

datatype chain_verification =
    Valid nat nat nat
  | Broken nat int broken_reason

text \<open>The loop of \<open>verifyAuditChain\<close>; \<open>n\<close> is the number of entries it was given.\<close>

fun verify_from :: "(utf16 \<Rightarrow> utf16) \<Rightarrow> nat \<Rightarrow> utf16 \<Rightarrow> chained_event list \<Rightarrow> chain_verification" where
  "verify_from sha n previous [] = Valid n 0 0"
| "verify_from sha n previous (e # es) =
     (if previousHash e \<noteq> previous then Broken n (sequence_no e) UnlinkedPrevious
      else if hashAuditPayload sha (chained_of e) \<noteq> payloadHash e then Broken n (sequence_no e) ChangedPayload
      else if chainHash sha (previousHash e) (hashAuditPayload sha (chained_of e)) \<noteq> chain_hash e
        then Broken n (sequence_no e) UnderivedChain
      else verify_from sha n (chain_hash e) es)"

definition verifyAuditChain :: "(utf16 \<Rightarrow> utf16) \<Rightarrow> chained_event list \<Rightarrow> utf16 \<Rightarrow> chain_verification" where
  "verifyAuditChain sha entries start = verify_from sha (length entries) start entries"

record archived_segment =
  segment_checkpoint :: audit_checkpoint
  segment_entries :: "chained_event list option"

text \<open>The loop over the segments: the first break, or the hash to go on from and the counts.\<close>

fun verify_segments ::
  "(utf16 \<Rightarrow> utf16) \<Rightarrow> nat \<Rightarrow> archived_segment list \<Rightarrow> utf16 \<Rightarrow> nat \<Rightarrow> nat \<Rightarrow>
   chain_verification + utf16 \<times> nat \<times> nat" where
  "verify_segments sha live [] previous archived attested = Inr (previous, archived, attested)"
| "verify_segments sha live (g # gs) previous archived attested =
     (let c = segment_checkpoint g;
          es = (case segment_entries g of None \<Rightarrow> [] | Some es \<Rightarrow> es)
      in if es = [] then verify_segments sha live gs (checkpoint_hash c) archived (attested + 1)
         else
           (case verifyAuditChain sha es previous of
              Broken n at why \<Rightarrow> Inl (Broken (n + live) at why)
            | Valid n _ _ \<Rightarrow>
                if chain_hash (last es) \<noteq> checkpoint_hash c
                then Inl (Broken (length es + live) (throughSequence c) SegmentEnd)
                else if segmentDigest sha (map payloadHash es) \<noteq> segment_digest c
                then Inl (Broken (length es + live) (throughSequence c) SegmentDigest)
                else verify_segments sha live gs (checkpoint_hash c) (archived + length es) attested))"

definition verifyArchivedChain ::
  "(utf16 \<Rightarrow> utf16) \<Rightarrow> archived_segment list \<Rightarrow> chained_event list \<Rightarrow> chain_verification" where
  "verifyArchivedChain sha segments live =
     (case verify_segments sha (length live)
             (sort_key (\<lambda>g. throughSequence (segment_checkpoint g)) segments) GENESIS_HASH 0 0 of
        Inl broken \<Rightarrow> broken
      | Inr (previous, archived, attested) \<Rightarrow>
          (case verifyAuditChain sha live previous of
             Broken n at why \<Rightarrow> Broken n at why
           | Valid n _ _ \<Rightarrow> Valid n archived attested))"

section \<open>The stored log\<close>

text \<open>
  The tables \<open>audit_events\<close>, \<open>audit_archive\<close> and \<open>audit_checkpoints\<close>, and the counter of the
  autoincremented sequence. Archive rows carry the checkpoint they belong to.
\<close>

record audit_log =
  live_events :: "chained_event list"
  archive_rows :: "(utf16 \<times> chained_event) list"
  checkpoints :: "audit_checkpoint list"
  next_sequence :: int

definition empty_log :: audit_log where
  "empty_log = \<lparr>live_events = [], archive_rows = [], checkpoints = [], next_sequence = 1\<rparr>"

definition latestChainHash :: "audit_log \<Rightarrow> utf16" where
  "latestChainHash log =
     (case at_last (live_events log) of
        Some e \<Rightarrow> chain_hash e
      | None \<Rightarrow>
          (case at_last (checkpoints log) of
             Some c \<Rightarrow> checkpoint_hash c
           | None \<Rightarrow> GENESIS_HASH))"

definition appendAudit :: "(utf16 \<Rightarrow> utf16) \<Rightarrow> audit_event \<Rightarrow> audit_log \<Rightarrow> audit_log" where
  "appendAudit sha e log =
     (let previous = latestChainHash log; payload = hashAuditPayload sha e
      in log\<lparr>live_events := live_events log @
               [\<lparr>chained_of = e, sequence_no = next_sequence log, payloadHash = payload,
                 previousHash = previous, chain_hash = chainHash sha previous payload\<rparr>],
             next_sequence := next_sequence log + 1\<rparr>)"

definition segment_of :: "audit_log \<Rightarrow> audit_checkpoint \<Rightarrow> archived_segment" where
  "segment_of log c =
     (let rows = map snd (filter (\<lambda>r. fst r = checkpoint_id c) (archive_rows log))
      in \<lparr>segment_checkpoint = c, segment_entries = (if rows = [] then None else Some rows)\<rparr>)"

definition verifyAudit :: "(utf16 \<Rightarrow> utf16) \<Rightarrow> audit_log \<Rightarrow> chain_verification" where
  "verifyAudit sha log = verifyArchivedChain sha (map (segment_of log) (checkpoints log)) (live_events log)"

datatype archive_error = BrokenChain broken_reason | NoBoundary | Holes

definition archiveAuditEvents ::
  "(utf16 \<Rightarrow> utf16) \<Rightarrow> utf16 \<Rightarrow> utf16 \<Rightarrow> int option \<Rightarrow> utf16 option \<Rightarrow> audit_log \<Rightarrow>
   archive_error + audit_log \<times> audit_checkpoint option" where
  "archiveAuditEvents sha new_id now through before_time log =
     (case verifyAudit sha log of
        Broken n at why \<Rightarrow> Inl (BrokenChain why)
      | Valid _ _ _ \<Rightarrow>
          if through = None \<and> before_time = None then Inl NoBoundary
          else
            (let rows = filter (\<lambda>e. (case through of None \<Rightarrow> True | Some t \<Rightarrow> sequence_no e \<le> t) \<and>
                   (case before_time of None \<Rightarrow> True | Some b \<Rightarrow> occurredAt (chained_of e) < b)) (live_events log)
             in if rows = [] then Inr (log, None)
                else
                  (let boundary = sequence_no (last rows)
                   in if length (filter (\<lambda>e. sequence_no e \<le> boundary) (live_events log)) \<noteq> length rows
                      then Inl Holes
                      else
                        (let c = \<lparr>checkpoint_id = new_id, throughSequence = boundary,
                                  checkpoint_hash = chain_hash (last rows),
                                  segment_digest = segmentDigest sha (map payloadHash rows),
                                  checkpoint_events = length rows, checkpoint_created = now\<rparr>
                         in Inr (log\<lparr>checkpoints := checkpoints log @ [c],
                                     archive_rows := archive_rows log @ map (Pair new_id) rows,
                                     live_events := filter (\<lambda>e. \<not> sequence_no e \<le> boundary) (live_events log)\<rparr>,
                                 Some c)))))"

text \<open>Dropping the rows of the segments up to a checkpoint; \<open>None\<close> is the refusal.\<close>

definition pruneArchivedAuditEvents :: "int \<Rightarrow> audit_log \<Rightarrow> (audit_log \<times> nat) option" where
  "pruneArchivedAuditEvents through log =
     (let covered = filter (\<lambda>c. throughSequence c \<le> through) (checkpoints log);
          doomed = (\<lambda>r. fst r \<in> set (map checkpoint_id covered))
      in if covered = [] then None
         else Some (log\<lparr>archive_rows := filter (\<lambda>r. \<not> doomed r) (archive_rows log)\<rparr>,
                    length (filter doomed (archive_rows log))))"

end
