(* ===== verification/Audit_Laws.thy ===== *)
theory Audit_Laws
  imports Audit_Chain
begin

text \<open>
  Verification against what it stands for: a list of events is sealed when each carries its own
  hash and continues the one before. Every operation on the stored log keeps it sealed, archived
  segments and checkpoints included, and two sealed lists that end in the same hash tell the same
  story unless SHA-256 was broken.
\<close>

section \<open>Sealed lists\<close>

fun sealed :: "(utf16 \<Rightarrow> utf16) \<Rightarrow> utf16 \<Rightarrow> chained_event list \<Rightarrow> bool" where
  "sealed sha p [] = True"
| "sealed sha p (e # es) \<longleftrightarrow>
     previousHash e = p \<and> payloadHash e = hashAuditPayload sha (chained_of e) \<and>
     chain_hash e = chainHash sha p (payloadHash e) \<and> sealed sha (chain_hash e) es"

definition end_hash :: "utf16 \<Rightarrow> chained_event list \<Rightarrow> utf16" where
  "end_hash p es = (if es = [] then p else chain_hash (last es))"

lemma end_hash_simps [simp]:
  "end_hash p [] = p" "end_hash p (e # es) = end_hash (chain_hash e) es" "end_hash p (es @ [e]) = chain_hash e"
  by (simp_all add: end_hash_def)

lemma end_hash_append: "end_hash p (es @ fs) = end_hash (end_hash p es) fs"
  by (simp add: end_hash_def)

lemma sealed_append: "sealed sha p (es @ fs) \<longleftrightarrow> sealed sha p es \<and> sealed sha (end_hash p es) fs"
  by (induction es arbitrary: p) auto

lemma verify_from_valid: "sealed sha p es \<Longrightarrow> verify_from sha n p es = Valid n 0 0"
  by (induction es arbitrary: p) auto

lemma verify_from_broken: "\<not> sealed sha p es \<Longrightarrow> \<exists>at why. verify_from sha n p es = Broken n at why"
  by (induction es arbitrary: p) auto

lemma verify_sealed: "sealed sha p es \<Longrightarrow> verifyAuditChain sha es p = Valid (length es) 0 0"
  unfolding verifyAuditChain_def by (rule verify_from_valid)

lemma verify_valid_iff: "(\<exists>n a b. verifyAuditChain sha es p = Valid n a b) \<longleftrightarrow> sealed sha p es"
proof (cases "sealed sha p es")
  case True
  then show ?thesis using verify_sealed by blast
next
  case False
  then obtain at why where "verifyAuditChain sha es p = Broken (length es) at why"
    using verify_from_broken unfolding verifyAuditChain_def by blast
  then show ?thesis using False by simp
qed

section \<open>The stored log\<close>

definition rows_of :: "audit_log \<Rightarrow> audit_checkpoint \<Rightarrow> chained_event list" where
  "rows_of log c = map snd (filter (\<lambda>r. fst r = checkpoint_id c) (archive_rows log))"

text \<open>From a hash over the checkpoints: each segment is dropped, or sealed and attested.\<close>

fun attested :: "(utf16 \<Rightarrow> utf16) \<Rightarrow> (audit_checkpoint \<Rightarrow> chained_event list) \<Rightarrow> utf16 \<Rightarrow> audit_checkpoint list \<Rightarrow> bool" where
  "attested sha rows p [] = True"
| "attested sha rows p (c # cs) \<longleftrightarrow>
     (rows c = [] \<or> sealed sha p (rows c) \<and> chain_hash (last (rows c)) = checkpoint_hash c \<and>
        segmentDigest sha (map payloadHash (rows c)) = segment_digest c) \<and>
     attested sha rows (checkpoint_hash c) cs"

definition covered_hash :: "utf16 \<Rightarrow> audit_checkpoint list \<Rightarrow> utf16" where
  "covered_hash p cs = (if cs = [] then p else checkpoint_hash (last cs))"

lemma covered_hash_simps [simp]:
  "covered_hash p [] = p" "covered_hash p (c # cs) = covered_hash (checkpoint_hash c) cs"
  "covered_hash p (cs @ [c]) = checkpoint_hash c"
  by (simp_all add: covered_hash_def)

lemma attested_append: "attested sha rows p (cs @ ds) \<longleftrightarrow> attested sha rows p cs \<and> attested sha rows (covered_hash p cs) ds"
  by (induction cs arbitrary: p) auto

lemma attested_cong: "\<forall>c \<in> set cs. rows c = rows' c \<Longrightarrow> attested sha rows p cs = attested sha rows' p cs"
  by (induction cs arbitrary: p) auto

lemma verify_segments_attested:
  "attested sha (rows_of log) p cs \<Longrightarrow>
     \<exists>a b. verify_segments sha n (map (segment_of log) cs) p i j = Inr (covered_hash p cs, a, b)"
proof (induction cs arbitrary: p i j)
  case (Cons c cs)
  show ?case
  proof (cases "rows_of log c = []")
    case True
    then have "segment_of log c = \<lparr>segment_checkpoint = c, segment_entries = None\<rparr>"
      by (simp add: segment_of_def rows_of_def Let_def)
    then show ?thesis using Cons by (simp add: Let_def)
  next
    case False
    then have "segment_of log c = \<lparr>segment_checkpoint = c, segment_entries = Some (rows_of log c)\<rparr>"
      by (simp add: segment_of_def rows_of_def Let_def)
    then show ?thesis using Cons False by (simp add: Let_def verify_sealed)
  qed
qed simp

definition log_ok :: "(utf16 \<Rightarrow> utf16) \<Rightarrow> audit_log \<Rightarrow> bool" where
  "log_ok sha log \<longleftrightarrow>
     distinct (map checkpoint_id (checkpoints log)) \<and>
     fst ` set (archive_rows log) \<subseteq> checkpoint_id ` set (checkpoints log) \<and>
     sorted_wrt (<) (map throughSequence (checkpoints log)) \<and>
     attested sha (rows_of log) GENESIS_HASH (checkpoints log) \<and>
     sealed sha (covered_hash GENESIS_HASH (checkpoints log)) (live_events log) \<and>
     sorted_wrt (<) (map sequence_no (live_events log)) \<and>
     (\<forall>e \<in> set (live_events log). sequence_no e < next_sequence log) \<and>
     (\<forall>c \<in> set (checkpoints log). throughSequence c < next_sequence log \<and>
        (\<forall>e \<in> set (live_events log). throughSequence c < sequence_no e))"

lemma log_okD:
  assumes "log_ok sha log"
  shows "attested sha (rows_of log) GENESIS_HASH (checkpoints log)"
    and "sealed sha (covered_hash GENESIS_HASH (checkpoints log)) (live_events log)"
    and "sorted_wrt (<) (map throughSequence (checkpoints log))"
  by (rule assms [unfolded log_ok_def, THEN conjunct2, THEN conjunct2, THEN conjunct2, THEN conjunct1],
      rule assms [unfolded log_ok_def, THEN conjunct2, THEN conjunct2, THEN conjunct2, THEN conjunct2, THEN conjunct1],
      rule assms [unfolded log_ok_def, THEN conjunct2, THEN conjunct2, THEN conjunct1])

lemma sorted_wrt_less_sort_key: "sorted_wrt (<) (map f xs) \<Longrightarrow> sort_key f xs = xs"
  for f :: "'a \<Rightarrow> int"
  by (intro sort_key_id_if_sorted) (auto simp: strict_sorted_iff intro: sorted_wrt_mono_rel [of _ "(<)"])

lemma log_ok_verifies:
  assumes "log_ok sha log"
  shows "\<exists>a b. verifyAudit sha log = Valid (length (live_events log)) a b"
proof -
  have "sort_key (\<lambda>g. throughSequence (segment_checkpoint g)) (map (segment_of log) (checkpoints log)) =
      map (segment_of log) (checkpoints log)"
  proof (rule sorted_wrt_less_sort_key)
    have "map (\<lambda>g. throughSequence (segment_checkpoint g)) (map (segment_of log) (checkpoints log)) =
        map throughSequence (checkpoints log)"
      by (simp add: segment_of_def Let_def)
    then show "sorted_wrt (<) (map (\<lambda>g. throughSequence (segment_checkpoint g)) (map (segment_of log) (checkpoints log)))"
      using log_okD(3) [OF assms] by (simp only:)
  qed
  moreover obtain a b where
    "verify_segments sha (length (live_events log)) (map (segment_of log) (checkpoints log)) GENESIS_HASH 0 0 =
       Inr (covered_hash GENESIS_HASH (checkpoints log), a, b)"
    using verify_segments_attested [OF log_okD(1) [OF assms]] by blast
  moreover have "verifyAuditChain sha (live_events log) (covered_hash GENESIS_HASH (checkpoints log)) =
      Valid (length (live_events log)) 0 0"
    using log_okD(2) [OF assms] by (rule verify_sealed)
  ultimately show ?thesis by (simp add: verifyAudit_def verifyArchivedChain_def)
qed

lemma latestChainHash_end:
  "latestChainHash log = end_hash (covered_hash GENESIS_HASH (checkpoints log)) (live_events log)"
  by (simp add: latestChainHash_def end_hash_def covered_hash_def at_last_def)

lemma log_ok_empty: "log_ok sha empty_log"
  by (simp add: log_ok_def empty_log_def)

lemma rows_of_live [simp]:
  "rows_of (log\<lparr>live_events := es\<rparr>) = rows_of log" "rows_of (log\<lparr>next_sequence := k\<rparr>) = rows_of log"
  by (simp_all add: rows_of_def fun_eq_iff)

lemma log_ok_append:
  assumes "log_ok sha log"
  shows "log_ok sha (appendAudit sha e log)"
  using assms
  by (auto simp: log_ok_def appendAudit_def Let_def sealed_append latestChainHash_end sorted_wrt_append)

text \<open>Rows that are counted in full are a prefix of the log.\<close>

lemma filter_same_length:
  assumes "\<forall>x \<in> set (filter P xs). Q x" "length (filter Q xs) = length (filter P xs)"
  shows "filter P xs = filter Q xs"
proof -
  have "filter P xs = filter P (filter Q xs)"
    using assms(1) by (auto intro!: filter_cong simp: conj_commute)
  moreover have "length (filter P (filter Q xs)) = length (filter Q xs)" using assms(2) calculation by simp
  ultimately show ?thesis by (metis filter_True length_filter_less nat_neq_iff)
qed

lemma sorted_filter_split:
  assumes "sorted_wrt (<) (map sequence_no es)"
  shows "es = filter (\<lambda>e. sequence_no e \<le> b) es @ filter (\<lambda>e. \<not> sequence_no e \<le> b) es"
  using assms
proof (induction es)
  case (Cons e es)
  show ?case
  proof (cases "sequence_no e \<le> b")
    case False
    then have "\<forall>f \<in> set es. \<not> sequence_no f \<le> b" using Cons.prems by auto
    then have "filter (\<lambda>e. sequence_no e \<le> b) es = []" "filter (\<lambda>e. \<not> sequence_no e \<le> b) es = es"
      by (auto simp: filter_empty_conv intro: filter_True)
    then show ?thesis using False by simp
  qed (use Cons in simp)
qed simp

lemma archive_law:
  assumes "archiveAuditEvents sha new_id now through before_time log = Inr (log', c)" "log_ok sha log"
    and "new_id \<notin> checkpoint_id ` set (checkpoints log)"
  obtains "log' = log" | rows rest cp where
    "live_events log = rows @ rest" "rows \<noteq> []" "throughSequence cp = sequence_no (last rows)" "checkpoint_id cp = new_id"
    "checkpoint_hash cp = chain_hash (last rows)" "segment_digest cp = segmentDigest sha (map payloadHash rows)"
    "log' = log\<lparr>checkpoints := checkpoints log @ [cp], archive_rows := archive_rows log @ map (Pair new_id) rows,
              live_events := rest\<rparr>"
proof -
  define P where "P = (\<lambda>e :: chained_event. (case through of None \<Rightarrow> True | Some t \<Rightarrow> sequence_no e \<le> t) \<and>
    (case before_time of None \<Rightarrow> True | Some b \<Rightarrow> occurredAt (chained_of e) < b))"
  define rows where "rows = filter P (live_events log)"
  define b where "b = sequence_no (last rows)"
  define cp where "cp = \<lparr>checkpoint_id = new_id, throughSequence = b, checkpoint_hash = chain_hash (last rows),
    segment_digest = segmentDigest sha (map payloadHash rows), checkpoint_events = length rows, checkpoint_created = now\<rparr>"
  obtain n i j where v: "verifyAudit sha log = Valid n i j" using log_ok_verifies [OF assms(2)] by blast
  show thesis
  proof (cases "rows = []")
    case True
    then have "log' = log" using assms(1) v
      by (simp add: archiveAuditEvents_def Let_def rows_def P_def split: if_splits)
    then show thesis by (rule that(1))
  next
    case False
    then have full: "length (filter (\<lambda>e. sequence_no e \<le> b) (live_events log)) = length rows"
      and log': "log' = log\<lparr>checkpoints := checkpoints log @ [cp], archive_rows := archive_rows log @ map (Pair new_id) rows,
          live_events := filter (\<lambda>e. \<not> sequence_no e \<le> b) (live_events log)\<rparr>"
      using assms(1) v
      by (simp_all add: archiveAuditEvents_def Let_def cp_def b_def flip: P_def rows_def split: if_splits)
    have asc: "sorted_wrt (<) (map sequence_no (live_events log))" using assms(2) by (simp add: log_ok_def)
    then have "sorted_wrt (\<lambda>x y. sequence_no x < sequence_no y) rows"
      by (simp add: rows_def sorted_wrt_map sorted_wrt_filter)
    then have "\<forall>e \<in> set rows. sequence_no e \<le> b"
    proof -
      assume s: "sorted_wrt (\<lambda>x y. sequence_no x < sequence_no y) rows"
      have "rows = butlast rows @ [last rows]" using False by simp
      then have "\<forall>e \<in> set (butlast rows). sequence_no e < sequence_no (last rows)"
        using s sorted_wrt_append [of "\<lambda>x y. sequence_no x < sequence_no y" "butlast rows" "[last rows]"] by simp
      then show ?thesis using \<open>rows = butlast rows @ [last rows]\<close>
        by (metis Un_iff b_def empty_iff empty_set insert_iff less_imp_le list.simps(15) order_refl set_append)
    qed
    then have "rows = filter (\<lambda>e. sequence_no e \<le> b) (live_events log)"
      unfolding rows_def using full by (intro filter_same_length) (simp_all add: rows_def)
    then have "live_events log = rows @ filter (\<lambda>e. \<not> sequence_no e \<le> b) (live_events log)"
      using sorted_filter_split [OF asc, of b] by simp
    from that(2) [OF this False _ _ _ _ log'] show thesis by (simp add: cp_def b_def)
  qed
qed

lemma log_ok_archive:
  assumes "archiveAuditEvents sha new_id now through before_time log = Inr (log', c)" "log_ok sha log"
    and fresh: "new_id \<notin> checkpoint_id ` set (checkpoints log)"
  shows "log_ok sha log'"
proof (rule archive_law [OF assms])
  fix rows rest cp
  assume live: "live_events log = rows @ rest" "rows \<noteq> []"
    and cp: "throughSequence cp = sequence_no (last rows)" "checkpoint_id cp = new_id"
      "checkpoint_hash cp = chain_hash (last rows)" "segment_digest cp = segmentDigest sha (map payloadHash rows)"
    and log': "log' = log\<lparr>checkpoints := checkpoints log @ [cp], archive_rows := archive_rows log @ map (Pair new_id) rows,
              live_events := rest\<rparr>"
  note ok = assms(2) [unfolded log_ok_def]
  have last_row: "last rows \<in> set rows" using live(2) by simp
  have no_rows: "filter (\<lambda>r. fst r = new_id) (archive_rows log) = []"
    using ok fresh by (auto simp: filter_empty_conv)
  have "rows_of log' cp = rows"
    using no_rows by (simp add: rows_of_def log' cp(2) filter_map comp_def)
  moreover have "attested sha (rows_of log') GENESIS_HASH (checkpoints log)"
  proof -
    have "\<forall>d \<in> set (checkpoints log). rows_of log' d = rows_of log d"
      using fresh by (auto simp: rows_of_def log' filter_map comp_def filter_empty_conv)
    moreover have "attested sha (rows_of log) GENESIS_HASH (checkpoints log)" using log_okD(1) assms(2) .
    ultimately show ?thesis using attested_cong by blast
  qed
  moreover have "sealed sha (covered_hash GENESIS_HASH (checkpoints log)) rows" "sealed sha (chain_hash (last rows)) rest"
    using ok live by (simp_all add: sealed_append end_hash_def)
  ultimately have "attested sha (rows_of log') GENESIS_HASH (checkpoints log')"
    "sealed sha (covered_hash GENESIS_HASH (checkpoints log')) (live_events log')"
    using cp live(2) by (simp_all add: log' attested_append)
  moreover have "\<forall>e \<in> set rest. sequence_no (last rows) < sequence_no e"
    using ok live last_row by (simp add: sorted_wrt_append)
  ultimately show ?thesis
    using ok live last_row cp fresh by (auto simp: log_ok_def log' sorted_wrt_append)
qed (use assms(2) in simp)

lemma log_ok_prune:
  assumes "pruneArchivedAuditEvents through log = Some (log', n)" "log_ok sha log"
  shows "log_ok sha log'"
proof -
  define doomed where "doomed = set (map checkpoint_id (filter (\<lambda>c. throughSequence c \<le> through) (checkpoints log)))"
  have log': "log' = log\<lparr>archive_rows := filter (\<lambda>r. fst r \<notin> doomed) (archive_rows log)\<rparr>"
    using assms(1) by (auto simp: pruneArchivedAuditEvents_def Let_def doomed_def split: if_splits)
  have rows: "rows_of log' c = (if checkpoint_id c \<in> doomed then [] else rows_of log c)" for c
    by (auto simp: rows_of_def log' filter_empty_conv intro!: arg_cong [of _ _ "map snd"] filter_cong)
  have "attested sha (rows_of log) p cs \<Longrightarrow> attested sha (rows_of log') p cs" for p cs
    by (induction cs arbitrary: p) (auto simp: rows)
  then show ?thesis using assms(2) by (auto simp: log_ok_def log')
qed

inductive log_reachable :: "(utf16 \<Rightarrow> utf16) \<Rightarrow> audit_log \<Rightarrow> bool" for sha where
  log_empty: "log_reachable sha empty_log"
| log_append: "log_reachable sha log \<Longrightarrow> log_reachable sha (appendAudit sha e log)"
| log_archive: "log_reachable sha log \<Longrightarrow>
    archiveAuditEvents sha new_id now through before_time log = Inr (log', c) \<Longrightarrow>
    new_id \<notin> checkpoint_id ` set (checkpoints log) \<Longrightarrow> log_reachable sha log'"
| log_prune: "log_reachable sha log \<Longrightarrow> pruneArchivedAuditEvents through log = Some (log', n) \<Longrightarrow> log_reachable sha log'"

lemma log_reachable_ok: "log_reachable sha log \<Longrightarrow> log_ok sha log"
  by (induction rule: log_reachable.induct)
     (blast intro: log_ok_empty log_ok_append log_ok_archive log_ok_prune)+

section \<open>Tampering\<close>

definition collision :: "(utf16 \<Rightarrow> utf16) \<Rightarrow> bool" where
  "collision sha \<longleftrightarrow> (\<exists>x y. x \<noteq> y \<and> sha x = sha y)"

definition story :: "chained_event list \<Rightarrow> utf16 list" where
  "story es = map (\<lambda>e. payload_text (chained_of e)) es"

lemma end_hash_plain:
  assumes "sealed sha p es" "\<forall>x. 58 \<notin> set (sha x)" "58 \<notin> set p"
  shows "58 \<notin> set (end_hash p es)"
  using assms by (induction es arbitrary: p) (auto simp: chainHash_def)

lemma same_story:
  assumes "sealed sha p es" "sealed sha p fs" "end_hash p es = end_hash p fs"
    and "\<forall>x. 58 \<notin> set (sha x)" "58 \<notin> set p"
  shows "story es = story fs \<or> collision sha \<or> p \<in> range sha"
  using assms(1-3)
proof (induction es arbitrary: fs rule: rev_induct)
  case Nil
  then show ?case
  proof (cases fs rule: rev_cases)
    case (snoc gs g)
    then have "p = sha (end_hash p gs @ 58 # payloadHash g)" using Nil by (simp add: sealed_append chainHash_def)
    then show ?thesis by blast
  qed (simp add: story_def)
next
  case (snoc e es)
  show ?case
  proof (cases fs rule: rev_cases)
    case Nil
    then have "p = sha (end_hash p es @ 58 # payloadHash e)" using snoc by (simp add: sealed_append chainHash_def)
    then show ?thesis by blast
  next
    case (snoc gs g)
    have e: "sealed sha p es" "payloadHash e = sha (payload_text (chained_of e))"
        "chain_hash e = sha (end_hash p es @ 58 # payloadHash e)"
      and g: "sealed sha p gs" "payloadHash g = sha (payload_text (chained_of g))"
        "chain_hash g = sha (end_hash p gs @ 58 # payloadHash g)"
      using snoc.prems \<open>fs = gs @ [g]\<close> by (simp_all add: sealed_append chainHash_def hashAuditPayload_def)
    have "chain_hash e = chain_hash g" using snoc.prems(3) \<open>fs = gs @ [g]\<close> by simp
    show ?thesis
    proof (cases "collision sha")
      case False
      then have inj: "sha x = sha y \<Longrightarrow> x = y" for x y by (auto simp: collision_def)
      have "end_hash p es @ 58 # payloadHash e = end_hash p gs @ 58 # payloadHash g"
        using inj e(3) g(3) \<open>chain_hash e = chain_hash g\<close> by simp
      then have "end_hash p es = end_hash p gs" "payloadHash e = payloadHash g"
        using split_at_separator [OF end_hash_plain [OF e(1) assms(4,5)] end_hash_plain [OF g(1) assms(4,5)]] by auto
      then show ?thesis
        using snoc.IH [OF e(1) g(1)] inj e(2) g(2) \<open>fs = gs @ [g]\<close> by (auto simp: story_def)
    qed simp
  qed
qed

text \<open>What a chain cannot show: a valid log without its last events is a valid log.\<close>

lemma truncation_unseen: "sealed sha p (es @ fs) \<Longrightarrow> verifyAuditChain sha es p = Valid (length es) 0 0"
  by (simp add: sealed_append verify_sealed)

end
