(* ===== verification/Union_Find.thy ===== *)
theory Union_Find
  imports Prelude "HOL-Library.Monad_Syntax"
begin

text \<open>
  The \<open>DisjointSet\<close> of \<open>services/coordinator/src/task-decomposition.ts\<close>: a map from keys to
  parents, followed and compressed by \<open>find\<close>, which recurses until a key is its own parent. The
  abstract side is the relation \<open>root_of\<close>; on a forest \<open>find\<close> returns the root and keeps every
  root, and \<open>union\<close> joins two trees.
\<close>

section \<open>Operations\<close>

type_synonym parents = "string \<rightharpoonup> string"

definition ds_add :: "string \<Rightarrow> parents \<Rightarrow> parents" where
  "ds_add k m = (if m k = None then m(k \<mapsto> k) else m)"

text \<open>A recursion that does not end has the value \<open>None\<close>.\<close>

partial_function (option) ds_find :: "string \<Rightarrow> parents \<Rightarrow> (string \<times> parents) option" where
  "ds_find k m =
     (case m k of
        None \<Rightarrow> Some (k, m)
      | Some p \<Rightarrow>
          if p = k then Some (k, m)
          else do { (r, m') \<leftarrow> ds_find p m; Some (r, m'(k \<mapsto> r)) })"

declare ds_find.simps [code]

definition ds_union :: "string \<Rightarrow> string \<Rightarrow> parents \<Rightarrow> parents option" where
  "ds_union left right m =
     do { (left_root, m1) \<leftarrow> ds_find left m;
          (right_root, m2) \<leftarrow> ds_find right m1;
          Some (if left_root \<noteq> right_root then m2(left_root \<mapsto> right_root) else m2) }"

section \<open>Roots\<close>

inductive root_of :: "parents \<Rightarrow> string \<Rightarrow> string \<Rightarrow> bool" for m where
  root_none: "m k = None \<Longrightarrow> root_of m k k"
| root_self: "m k = Some k \<Longrightarrow> root_of m k k"
| root_step: "m k = Some p \<Longrightarrow> p \<noteq> k \<Longrightarrow> root_of m p r \<Longrightarrow> root_of m k r"

inductive_cases root_ofE: "root_of m k r"

definition is_root :: "parents \<Rightarrow> string \<Rightarrow> bool" where
  "is_root m r \<longleftrightarrow> m r = None \<or> m r = Some r"

definition forest :: "parents \<Rightarrow> bool" where
  "forest m \<longleftrightarrow> (\<forall>k. \<exists>r. root_of m k r)"

lemma root_of_self [intro]: "is_root m r \<Longrightarrow> root_of m r r"
  by (auto simp: is_root_def intro: root_none root_self)

lemma root_of_is_root: "root_of m k r \<Longrightarrow> is_root m r"
  by (induction rule: root_of.induct) (auto simp: is_root_def)

lemma root_of_root: "is_root m k \<Longrightarrow> root_of m k r \<longleftrightarrow> r = k"
  by (auto simp: is_root_def elim: root_ofE intro: root_none root_self)

lemma root_of_unique: "root_of m k r \<Longrightarrow> root_of m k s \<Longrightarrow> r = s"
proof (induction rule: root_of.induct)
  case (root_step k p r)
  then show ?case by (auto elim: root_ofE)
qed (auto elim: root_ofE)

lemma forest_root: "forest m \<Longrightarrow> \<exists>r. root_of m k r"
  by (simp add: forest_def)

text \<open>Pointing a key at its own root changes no root.\<close>

lemma compress_root:
  assumes "root_of m k r" "k \<noteq> r" "root_of m x y"
  shows "root_of (m(k \<mapsto> r)) x y"
proof -
  have not_root: "\<not> is_root m k" using assms(1,2) root_of_root by auto
  have r: "is_root (m(k \<mapsto> r)) r" using root_of_is_root [OF assms(1)] assms(2) by (simp add: is_root_def)
  show ?thesis
    using assms(3)
  proof (induction rule: root_of.induct)
    case (root_none x)
    then have "x \<noteq> k" using not_root by (auto simp: is_root_def)
    then show ?case using root_none by (simp add: root_of.root_none)
  next
    case (root_self x)
    then have "x \<noteq> k" using not_root by (auto simp: is_root_def)
    then show ?case using root_self by (simp add: root_of.root_self)
  next
    case (root_step x p y)
    show ?case
    proof (cases "x = k")
      case True
      have "root_of m x y" using root_step.hyps by (rule root_of.root_step)
      then have "y = r" using True assms(1) by (simp add: root_of_unique)
      moreover have "root_of (m(k \<mapsto> r)) r r" using r by (rule root_of_self)
      moreover have "root_of (m(k \<mapsto> r)) k r"
        by (rule root_of.root_step [of _ _ r]) (use assms(2) calculation in simp_all)
      ultimately show ?thesis using True by (simp only:)
    next
      case False
      then have "(m(k \<mapsto> r)) x = Some p" using root_step.hyps by simp
      then show ?thesis using root_step.hyps(2) root_step.IH by (rule root_of.root_step)
    qed
  qed
qed

lemma same_roots:
  assumes "forest m" "\<And>x y. root_of m x y \<Longrightarrow> root_of m' x y"
  shows "root_of m' = root_of m" "forest m'"
proof -
  have "root_of m' x y \<longleftrightarrow> root_of m x y" for x y
  proof -
    obtain z where "root_of m x z" using forest_root [OF assms(1)] by blast
    then show ?thesis using assms(2) root_of_unique by blast
  qed
  then show "root_of m' = root_of m" by (simp add: fun_eq_iff)
  then show "forest m'" using assms(1) by (simp add: forest_def)
qed

lemma ds_find_root:
  assumes "root_of m k r" "forest m"
  shows "\<exists>m'. ds_find k m = Some (r, m') \<and> root_of m' = root_of m \<and> forest m'"
  using assms
proof (induction rule: root_of.induct)
  case (root_step k p r)
  then obtain m' where m': "ds_find p m = Some (r, m')" "root_of m' = root_of m" "forest m'" by blast
  have k: "root_of m k r" using root_step.hyps by (rule root_of.root_step)
  then have "k \<noteq> r" using root_of_is_root [OF k] root_step.hyps by (auto simp: is_root_def)
  moreover have "root_of m' k r" using k m'(2) by simp
  ultimately have "root_of m' x y \<Longrightarrow> root_of (m'(k \<mapsto> r)) x y" for x y
    by (intro compress_root)
  note same = same_roots [OF m'(3) this]
  moreover have "ds_find k m = Some (r, m'(k \<mapsto> r))"
    using root_step.hyps m'(1) by (subst ds_find.simps) simp
  ultimately show ?case using m'(2) by simp
qed (subst ds_find.simps, simp)+

lemma ds_find_total:
  assumes "forest m"
  obtains r m' where "ds_find k m = Some (r, m')" "root_of m k r" "root_of m' = root_of m" "forest m'"
  using forest_root [OF assms, of k] ds_find_root [OF _ assms] by blast

section \<open>Union\<close>

lemma link_root:
  assumes "is_root m a" "is_root m b" "a \<noteq> b" "root_of m x y"
  shows "root_of (m(a \<mapsto> b)) x (if y = a then b else y)"
proof -
  have b: "root_of (m(a \<mapsto> b)) b b" using assms(2,3) by (intro root_of_self) (auto simp: is_root_def)
  have roots: "root_of (m(a \<mapsto> b)) z (if z = a then b else z)" if "is_root m z" for z
  proof (cases "z = a")
    case True
    then show ?thesis using b assms(3) root_of.root_step [of "m(a \<mapsto> b)" a b b] by simp
  next
    case False
    then show ?thesis using that by (auto simp: is_root_def)
  qed
  show ?thesis
    using assms(4)
  proof (induction rule: root_of.induct)
    case (root_step x p y)
    then have "x \<noteq> a" using assms(1) by (auto simp: is_root_def)
    then have "(m(a \<mapsto> b)) x = Some p" using root_step.hyps by simp
    then show ?case using root_step.hyps(2) root_step.IH by (rule root_of.root_step)
  next
    case (root_none k)
    then show ?case by (intro roots) (simp add: is_root_def)
  next
    case (root_self k)
    then show ?case by (intro roots) (simp add: is_root_def)
  qed
qed

lemma link_forest:
  assumes "forest m" "is_root m a" "is_root m b" "a \<noteq> b"
  shows "forest (m(a \<mapsto> b))"
  using forest_root [OF assms(1)] link_root [OF assms(2-4)] unfolding forest_def by blast

definition same_set :: "parents \<Rightarrow> string \<Rightarrow> string \<Rightarrow> bool" where
  "same_set m x y \<longleftrightarrow> (\<exists>r. root_of m x r \<and> root_of m y r)"

lemma same_set_refl: "forest m \<Longrightarrow> same_set m x x"
  using forest_root by (auto simp: same_set_def)

lemma same_set_sym: "same_set m x y \<Longrightarrow> same_set m y x"
  by (auto simp: same_set_def)

lemma same_set_roots: "root_of m x r \<Longrightarrow> root_of m y s \<Longrightarrow> same_set m x y \<longleftrightarrow> r = s"
  unfolding same_set_def using root_of_unique by blast

lemma same_set_trans: "same_set m x y \<Longrightarrow> same_set m y z \<Longrightarrow> same_set m x z"
  unfolding same_set_def using root_of_unique by blast

text \<open>Union returns, keeps a forest, and joins exactly the two sets.\<close>

lemma ds_union_law:
  assumes "forest m"
  obtains m' where "ds_union a b m = Some m'" "forest m'"
    "\<And>x y. same_set m' x y \<longleftrightarrow>
       same_set m x y \<or> same_set m x a \<and> same_set m b y \<or> same_set m x b \<and> same_set m a y"
proof -
  obtain ra m1 where f1: "ds_find a m = Some (ra, m1)" "root_of m a ra" "root_of m1 = root_of m" "forest m1"
    using ds_find_total [OF assms] by metis
  obtain rb m2 where f2: "ds_find b m1 = Some (rb, m2)" "root_of m1 b rb" "root_of m2 = root_of m1" "forest m2"
    using ds_find_total [OF f1(4)] by metis
  have roots: "root_of m2 = root_of m" "root_of m b rb" using f1 f2 by simp_all
  let ?m = "if ra \<noteq> rb then m2(ra \<mapsto> rb) else m2"
  have un: "ds_union a b m = Some ?m" by (simp add: ds_union_def f1 f2)
  have is_roots: "is_root m2 ra" "is_root m2 rb"
    using root_of_is_root f1(2) roots by metis+
  have fo: "forest ?m" using link_forest [OF f2(4) is_roots] f2(4) by simp
  have sets: "same_set ?m x y \<longleftrightarrow>
      same_set m x y \<or> same_set m x a \<and> same_set m b y \<or> same_set m x b \<and> same_set m a y" for x y
  proof -
    obtain rx ry where r: "root_of m x rx" "root_of m y ry" using forest_root [OF assms] by metis
    have moved: "root_of ?m z (if q = ra then rb else q)" if "root_of m z q" for z q
      using link_root [OF is_roots] that roots(1) by (cases "ra = rb") auto
    note new = moved [OF r(1)] moved [OF r(2)]
    show ?thesis
      unfolding same_set_roots [OF new] same_set_roots [OF r] same_set_roots [OF r(1) f1(2)]
        same_set_roots [OF roots(2) r(2)] same_set_roots [OF r(1) roots(2)] same_set_roots [OF f1(2) r(2)]
      by auto
  qed
  show thesis by (rule that [OF un fo sets])
qed

text \<open>Many unions: the sets are the classes of the smallest equivalence that has the pairs.\<close>

fun union_all :: "(string \<times> string) list \<Rightarrow> parents \<Rightarrow> parents option" where
  "union_all [] m = Some m"
| "union_all ((a, b) # ps) m = do { m' \<leftarrow> ds_union a b m; union_all ps m' }"

definition linked :: "(string \<times> string) set \<Rightarrow> (string \<times> string) set" where
  "linked ps = (ps \<union> ps\<inverse>)\<^sup>*"

lemma linked_sym: "(x, y) \<in> linked ps \<Longrightarrow> (y, x) \<in> linked ps"
  by (metis converse_Un converse_converse linked_def rtrancl_converseD sup_commute)

lemma linked_refl [simp]: "(x, x) \<in> linked ps"
  by (simp add: linked_def)

lemma linked_trans: "(x, y) \<in> linked ps \<Longrightarrow> (y, z) \<in> linked ps \<Longrightarrow> (x, z) \<in> linked ps"
  by (auto simp: linked_def)

lemma linked_pair: "(x, y) \<in> ps \<Longrightarrow> (x, y) \<in> linked ps"
  by (auto simp: linked_def)

lemma linked_mono: "ps \<subseteq> qs \<Longrightarrow> linked ps \<subseteq> linked qs"
  unfolding linked_def by (intro rtrancl_mono) auto

lemma linked_least:
  assumes "(x, y) \<in> linked ps" "\<And>a b. (a, b) \<in> ps \<Longrightarrow> R a b"
    and "\<And>x. R x x" "\<And>x y. R x y \<Longrightarrow> R y x" "\<And>x y z. R x y \<Longrightarrow> R y z \<Longrightarrow> R x z"
  shows "R x y"
  using assms(1) unfolding linked_def
  by (induction rule: rtrancl_induct) (use assms(2-5) in \<open>blast+\<close>)

lemma union_all_law:
  assumes "forest m" "\<And>x y. same_set m x y \<longleftrightarrow> (x, y) \<in> linked qs"
  obtains m' where "union_all ps m = Some m'" "forest m'" "\<And>x y. same_set m' x y \<longleftrightarrow> (x, y) \<in> linked (qs \<union> set ps)"
  using assms
proof (induction ps arbitrary: m qs thesis)
  case (Cons p ps)
  obtain a b where p: "p = (a, b)" by fastforce
  obtain m1 where m1: "ds_union a b m = Some m1" "forest m1"
    "\<And>x y. same_set m1 x y \<longleftrightarrow>
       same_set m x y \<or> same_set m x a \<and> same_set m b y \<or> same_set m x b \<and> same_set m a y"
    using ds_union_law [OF Cons.prems(2)] by metis
  have "same_set m1 x y \<longleftrightarrow> (x, y) \<in> linked (insert p qs)" for x y
  proof
    have old: "(x, y) \<in> linked (insert p qs)" if "same_set m x y" for x y
      using that Cons.prems(3) linked_mono [of qs "insert p qs"] by auto
    have ab: "(a, b) \<in> linked (insert p qs)" "(b, a) \<in> linked (insert p qs)"
      using linked_pair [of a b "insert p qs"] linked_sym p by auto
    assume "same_set m1 x y"
    then show "(x, y) \<in> linked (insert p qs)"
      unfolding m1(3) using old ab linked_trans by blast
  next
    assume "(x, y) \<in> linked (insert p qs)"
    then show "same_set m1 x y"
    proof (rule linked_least)
      show "same_set m1 c d" if "(c, d) \<in> insert p qs" for c d
        using that m1(3) p Cons.prems(3) linked_pair same_set_refl [OF Cons.prems(2)] by blast
    qed (use same_set_refl [OF m1(2)] same_set_sym same_set_trans in \<open>blast+\<close>)
  qed
  then obtain m' where "union_all ps m1 = Some m'" "forest m'"
    "\<And>x y. same_set m' x y \<longleftrightarrow> (x, y) \<in> linked (insert p qs \<union> set ps)"
    using Cons.IH [OF _ m1(2)] by blast
  then show ?case using Cons.prems(1) by (simp add: p m1(1))
qed simp

end
