(* ===== verification/Task_Decomposition.thy ===== *)
theory Task_Decomposition
  imports Complex_Main Union_Find Patches "HOL-Library.AList"
begin

text \<open>
  \<open>services/coordinator/src/task-decomposition.ts\<close>: whether one objective enters the queue as several
  tasks. The wording of explanations is left out; the reason stands for it. The order
  \<open>localeCompare\<close> gives strings is the argument \<open>collate\<close>, and a double is the rational it denotes.
\<close>

section \<open>Input\<close>

datatype decomposition_mode = ModeOff | ModeContended | ModeAlways

definition parseDecompositionMode :: "string option \<Rightarrow> decomposition_mode option" where
  "parseDecompositionMode v =
     (case v of
        None \<Rightarrow> Some ModeContended
      | Some s \<Rightarrow>
          if js_trim s = [] then Some ModeContended
          else if js_trim s = ''off'' then Some ModeOff
          else if js_trim s = ''contended'' then Some ModeContended
          else if js_trim s = ''always'' then Some ModeAlways
          else None)"

datatype decomposition_reason =
    Disabled | UnknownScope | WeakScope | DiffuseEstimate | ManifestOnlyPiece | TooSmall | SingleModule
  | AtomicObjective | CoupledModules | TooFragmented | NoContention | NoRelief | Split

record decomposition_options =
  opt_mode :: "decomposition_mode option"
  opt_minFiles :: "nat option"
  opt_minSubtasks :: "nat option"
  opt_maxSubtasks :: "nat option"
  opt_minFilesPerSubtask :: "nat option"
  opt_maxRepositoryFraction :: "rat option"

datatype scope_confidence = NoScope | WeakMatch | Anchored

record module_footprint =
  footprint_root :: string
  footprint_files :: "string list"

text \<open>Of an estimate, and of the repository index, what the decision reads.\<close>

record scope_estimate =
  estimate_confidence :: scope_confidence
  repositoryFraction :: rat
  estimate_files :: "string list"
  estimate_modules :: "module_footprint list"

record indexed_file =
  indexed_path :: string
  declared_names :: "string list"
  referencedSymbols :: "string list"

record dependency_edge =
  fromFile :: string
  toFile :: "string option"

record repository_index =
  index_files :: "indexed_file list"
  index_edges :: "dependency_edge list"

record contending_work =
  contending_task :: string
  contending_modules :: "string list"
  contending_files :: "string list option"

record decomposition_input =
  input_objective :: string
  input_estimate :: scope_estimate
  input_index :: repository_index
  input_contention :: "contending_work list option"
  input_options :: "decomposition_options option"

record candidate_piece =
  piece_modules :: "string list"
  piece_files :: "string list"

record subtask_proposal =
  subtask_position :: nat
  subtask_total :: nat
  subtask_modules :: "string list"
  subtask_files :: "string list"
  subtask_objective :: string
  subtask_contended :: bool

record decomposition_decision =
  decided_split :: bool
  decided_reason :: decomposition_reason
  decided_subtasks :: "subtask_proposal list"
  contendingTaskIds :: "string list"

section \<open>Wordings and manifests\<close>

definition word_char :: "char \<Rightarrow> bool" where
  "word_char c \<longleftrightarrow> ascii_letter c \<or> is_digit c \<or> c = CHR ''_''"

text \<open>\<open>\b(?:w1|w2|...)\b\<close>, without regard to case, somewhere after a character \<open>before_word\<close>.\<close>

definition word_at :: "string list \<Rightarrow> string \<Rightarrow> bool" where
  "word_at variants s \<longleftrightarrow>
     list_ex (\<lambda>w. prefix w s \<and>
       (case drop (length w) s of c # _ \<Rightarrow> \<not> word_char c | [] \<Rightarrow> True)) variants"

fun contains_word :: "string list \<Rightarrow> bool \<Rightarrow> string \<Rightarrow> bool" where
  "contains_word variants after_word [] = False"
| "contains_word variants after_word (c # s) =
     (\<not> after_word \<and> word_at variants (c # s) \<or> contains_word variants (word_char c) s)"

text \<open>Each pattern as the words it matches. Every one begins and ends with a word character.\<close>

definition ATOMIC_SIGNALS :: "(string list \<times> string) list" where
  "ATOMIC_SIGNALS =
     [([''rename'', ''renames'', ''renamed'', ''renaming''], ''rename''),
      ([''refactor'', ''refactors'', ''refactored'', ''refactoring''], ''refactor''),
      ([''extract'', ''extracts'', ''extracted'', ''extracting''], ''extract''),
      ([''inline'', ''inlines'', ''inlined'', ''inlining''], ''inline''),
      ([''move'', ''moves'', ''moved'', ''moving''], ''move''),
      ([''migrate'', ''migrates'', ''migrated'', ''migrating'', ''migration''], ''migrate''),
      ([''upgrade'', ''upgrades'', ''upgraded'', ''upgrading''], ''upgrade''),
      ([''bump''], ''bump''),
      ([''signature'', ''signatures''], ''signature''),
      ([''callsite'', ''callsites'', ''call site'', ''call sites''], ''call site''),
      ([''across''], ''across''),
      ([''everywhere''], ''everywhere''),
      ([''repo wide'', ''repo-wide'', ''repository wide'', ''repository-wide''], ''repository-wide''),
      ([''atomic'', ''atomically''], ''atomic''),
      ([''a commit'', ''one commit'', ''single commit''], ''single commit''),
      ([''in lockstep''], ''lockstep''),
      ([''together''], ''together''),
      ([''end to end'', ''end to-end'', ''end-to end'', ''end-to-end''], ''end-to-end''),
      ([''consistent'', ''consistently''], ''consistent''),
      ([''unify'', ''unifies'', ''unified'', ''unifying''], ''unify''),
      ([''consolidate'', ''consolidates'', ''consolidated'', ''consolidating'', ''consolidation''], ''consolidate''),
      ([''centralize'', ''centralizes'', ''centralized'', ''centralizing'', ''centralization''], ''centralize''),
      ([''deprecate'', ''deprecates'', ''deprecated'', ''deprecating'', ''deprecation''], ''deprecate''),
      ([''rewrite'', ''rewrites'', ''rewriting''], ''rewrite''),
      ([''same time''], ''same time''),
      ([''all callers'', ''all consumers'', ''all usages'', ''all references'', ''all imports'',
        ''all the callers'', ''all the consumers'', ''all the usages'', ''all the references'',
        ''all the imports''], ''all callers'')]"

definition atomicSignals :: "string \<Rightarrow> string list" where
  "atomicSignals obj = map snd (filter (\<lambda>(variants, label). contains_word variants False (js_lower obj)) ATOMIC_SIGNALS)"

definition base_name :: "string \<Rightarrow> string" where
  "base_name file = last (split_on CHR ''/'' file)"

definition manifest_file :: "string \<Rightarrow> bool" where
  "manifest_file file \<longleftrightarrow>
     (let b = js_lower (base_name file)
      in b \<in> set [''package.json'', ''package-lock.json'', ''npm-shrinkwrap.json'', ''yarn.lock'', ''pnpm-lock.yaml'',
                  ''jsconfig.json'', ''go.mod'', ''go.sum'', ''cargo.toml'', ''cargo.lock'', ''gemfile'', ''gemfile.lock'',
                  ''pyproject.toml'', ''poetry.lock'', ''requirements.txt'', ''composer.json'', ''composer.lock''] \<or>
         prefix ''tsconfig'' b \<and> suffix ''.json'' b \<or>
         prefix ''.'' b \<and> list_ex (\<lambda>e. suffix e b) [''rc'', ''rc.json'', ''rc.yaml'', ''rc.yml''] \<or>
         list_ex (\<lambda>e. suffix e b) [''.md'', ''.mdx'', ''.txt'', ''.lock''])"

definition manifestOnly :: "string list \<Rightarrow> bool" where
  "manifestOnly files \<longleftrightarrow> files \<noteq> [] \<and> list_all manifest_file files"

section \<open>Pieces\<close>

text \<open>The module of a file, by the roots in order, longest first; the empty root when none holds it.\<close>

fun moduleRootFor :: "string \<Rightarrow> string list \<Rightarrow> string" where
  "moduleRootFor file [] = []"
| "moduleRootFor file (r # roots) =
     (if file = r \<or> prefix (r @ ''/'') file then r else moduleRootFor file roots)"

text \<open>\<open>moduleOf\<close>: a later footprint overrides an earlier one.\<close>

definition module_of :: "scope_estimate \<Rightarrow> string \<Rightarrow> string option" where
  "module_of est =
     foldl (\<lambda>m fp. foldl (\<lambda>m f. m(f \<mapsto> footprint_root fp)) m (footprint_files fp)) Map.empty (estimate_modules est)"

definition couple :: "scope_estimate \<Rightarrow> string \<Rightarrow> string \<Rightarrow> (string \<times> string) list" where
  "couple est from to_file =
     (case (module_of est from, module_of est to_file) of
        (Some a, Some b) \<Rightarrow> if a \<noteq> b then [(a, b)] else []
      | _ \<Rightarrow> [])"

definition import_links :: "scope_estimate \<Rightarrow> repository_index \<Rightarrow> (string \<times> string) list" where
  "import_links est index =
     concat (map (\<lambda>e. case toFile e of
         None \<Rightarrow> []
       | Some t \<Rightarrow>
           if fromFile e \<in> set (estimate_files est) \<and> t \<in> set (estimate_files est)
           then couple est (fromFile e) t else []) (index_edges index))"

definition selected_files :: "scope_estimate \<Rightarrow> repository_index \<Rightarrow> indexed_file list" where
  "selected_files est index = filter (\<lambda>f. indexed_path f \<in> set (estimate_files est)) (index_files index)"

definition declared_by :: "scope_estimate \<Rightarrow> repository_index \<Rightarrow> string \<Rightarrow> string list" where
  "declared_by est index s =
     rev (remdups (rev (map indexed_path (filter (\<lambda>f. s \<in> set (declared_names f)) (selected_files est index)))))"

definition symbol_links :: "scope_estimate \<Rightarrow> repository_index \<Rightarrow> (string \<times> string) list" where
  "symbol_links est index =
     concat (map (\<lambda>f. concat (map (\<lambda>s.
       concat (map (couple est (indexed_path f)) (declared_by est index s))) (referencedSymbols f)))
       (selected_files est index))"

text \<open>The grouping loop: the footprints under their roots, in the order the roots first appear.\<close>

fun group_footprints ::
  "module_footprint list \<Rightarrow> parents \<Rightarrow> (string \<times> candidate_piece) list \<Rightarrow> (string \<times> candidate_piece) list option" where
  "group_footprints [] m merged = Some merged"
| "group_footprints (fp # fps) m merged =
     do { (r, m') \<leftarrow> ds_find (footprint_root fp) m;
          let piece = (case map_of merged r of Some p \<Rightarrow> p | None \<Rightarrow> \<lparr>piece_modules = [], piece_files = []\<rparr>);
          group_footprints fps m'
            (AList.update r (piece\<lparr>piece_modules := piece_modules piece @ [footprint_root fp],
                                  piece_files := piece_files piece @ footprint_files fp\<rparr>) merged) }"

definition settle_piece :: "candidate_piece \<Rightarrow> candidate_piece" where
  "settle_piece p = \<lparr>piece_modules = sorted_unique (piece_modules p), piece_files = sorted_unique (piece_files p)\<rparr>"

definition first_module :: "candidate_piece \<Rightarrow> string" where
  "first_module p = (case piece_modules p of m # _ \<Rightarrow> m | [] \<Rightarrow> [])"

definition couplePieces ::
  "(string \<Rightarrow> 'k::linorder) \<Rightarrow> scope_estimate \<Rightarrow> repository_index \<Rightarrow> candidate_piece list option" where
  "couplePieces collate est index =
     (let start = foldl (\<lambda>m fp. ds_add (footprint_root fp) m) Map.empty (estimate_modules est)
      in do { m \<leftarrow> union_all (import_links est index @ symbol_links est index) start;
              merged \<leftarrow> group_footprints (estimate_modules est) m [];
              Some (sort_key (\<lambda>p. collate (first_module p)) (map (\<lambda>e. settle_piece (snd e)) merged)) })"

section \<open>Objectives\<close>

fun join_text :: "string \<Rightarrow> string list \<Rightarrow> string" where
  "join_text sep [] = []"
| "join_text sep [s] = s"
| "join_text sep (s # t # ss) = s @ sep @ join_text sep (t # ss)"

definition describeModules :: "string list \<Rightarrow> string" where
  "describeModules modules =
     (let names = map (\<lambda>e. if e = [] then ''the repository root'' else e) modules
      in if length names \<le> 2 then join_text '' and '' names
         else join_text '', '' (butlast names) @ '', and '' @ last names)"

definition subtaskObjective :: "string \<Rightarrow> candidate_piece \<Rightarrow> nat \<Rightarrow> nat \<Rightarrow> string list \<Rightarrow> string" where
  "subtaskObjective original piece position parts_total otherModules =
     join_text [CHR 0x0A]
       ([js_trim original, '''',
         ''Scope constraint (part '' @ show_nat position @ '' of '' @ show_nat parts_total @ ''): confine this task to '' @
           describeModules (piece_modules piece) @ ''.'',
         ''Files expected in scope: '' @ join_text '', '' (piece_files piece) @ ''.''] @
        (if otherModules = [] then []
         else [''Sibling tasks cover '' @ describeModules otherModules @
               ''; do not change anything there, and do not wait for them.'']) @
        [''This split was made at intake from an estimate, not from a plan. If the work genuinely cannot be '' @
         ''completed within this scope, request a scope change rather than editing outside it.''])"

section \<open>The decision\<close>

definition decision :: "decomposition_reason \<Rightarrow> string list \<Rightarrow> subtask_proposal list \<Rightarrow> decomposition_decision" where
  "decision reason ids subtasks =
     \<lparr>decided_split = (reason = Split), decided_reason = reason, decided_subtasks = subtasks, contendingTaskIds = ids\<rparr>"

definition or_default :: "'a \<Rightarrow> 'a option \<Rightarrow> 'a" where
  "or_default d x = (case x of None \<Rightarrow> d | Some v \<Rightarrow> v)"

definition no_options :: decomposition_options where
  "no_options = \<lparr>opt_mode = None, opt_minFiles = None, opt_minSubtasks = None, opt_maxSubtasks = None,
     opt_minFilesPerSubtask = None, opt_maxRepositoryFraction = None\<rparr>"

text \<open>The double nearest to 0.35.\<close>

definition default_fraction :: rat where
  "default_fraction = 3152519739159347 / 9007199254740992"

definition overlaps_work :: "contending_work list \<Rightarrow> candidate_piece \<Rightarrow> bool" where
  "overlaps_work contention p \<longleftrightarrow>
     list_ex (\<lambda>m. m \<in> set (concat (map contending_modules contention))) (piece_modules p) \<or>
     list_ex (\<lambda>f. f \<in> set (concat (map (\<lambda>w. or_default [] (contending_files w)) contention))) (piece_files p)"

definition propose :: "string \<Rightarrow> contending_work list \<Rightarrow> candidate_piece list \<Rightarrow> nat \<Rightarrow> subtask_proposal" where
  "propose obj contention parts i =
     (let p = parts ! i;
          others = concat (map (\<lambda>j. if j = i then [] else piece_modules (parts ! j)) [0..<length parts])
      in \<lparr>subtask_position = i + 1, subtask_total = length parts, subtask_modules = piece_modules p,
          subtask_files = piece_files p,
          subtask_objective = subtaskObjective obj p (i + 1) (length parts) others,
          subtask_contended = overlaps_work contention p\<rparr>)"

definition decomposeTask :: "(string \<Rightarrow> 'k::linorder) \<Rightarrow> decomposition_input \<Rightarrow> decomposition_decision option" where
  "decomposeTask collate input =
     (let options = or_default no_options (input_options input);
          mode = or_default ModeContended (opt_mode options);
          minSubtasks = or_default 2 (opt_minSubtasks options);
          contention = or_default [] (input_contention input);
          est = input_estimate input
      in if mode = ModeOff then Some (decision Disabled [] [])
         else if estimate_confidence est = NoScope then Some (decision UnknownScope [] [])
         else if estimate_confidence est = WeakMatch then Some (decision WeakScope [] [])
         else if repositoryFraction est > or_default default_fraction (opt_maxRepositoryFraction options)
           then Some (decision DiffuseEstimate [] [])
         else if length (estimate_files est) < or_default 4 (opt_minFiles options) then Some (decision TooSmall [] [])
         else if length (estimate_modules est) < minSubtasks then Some (decision SingleModule [] [])
         else if atomicSignals (input_objective input) \<noteq> [] then Some (decision AtomicObjective [] [])
         else do {
           parts \<leftarrow> couplePieces collate est (input_index input);
           let ids = sorted_unique (map contending_task contention);
           Some (if filter (\<lambda>p. length (piece_files p) < or_default 1 (opt_minFilesPerSubtask options)) parts \<noteq> []
                   then decision TooFragmented [] []
                 else if filter (\<lambda>p. manifestOnly (piece_files p)) parts \<noteq> [] then decision ManifestOnlyPiece [] []
                 else if length parts < minSubtasks then decision CoupledModules [] []
                 else if length parts > or_default 4 (opt_maxSubtasks options) then decision TooFragmented [] []
                 else if mode = ModeContended \<and> filter (overlaps_work contention) parts = [] then decision NoContention ids []
                 else if mode = ModeContended \<and> filter (\<lambda>p. \<not> overlaps_work contention p) parts = []
                   then decision NoRelief ids []
                 else decision Split ids (map (propose (input_objective input) contention parts) [0..<length parts])) })"

end
