(* ===== verification/Decomposition_Laws.thy ===== *)
theory Decomposition_Laws
  imports Task_Decomposition
begin

text \<open>
  The pieces of a split are the connected components of the coupling between modules: the search
  for them returns, each module is in one piece, and two modules share a piece exactly when a chain
  of selected imports or symbol references joins them.
\<close>

section \<open>The initial sets\<close>

definition start_sets :: "module_footprint list \<Rightarrow> parents" where
  "start_sets fps = foldl (\<lambda>m fp. ds_add (footprint_root fp) m) Map.empty fps"

definition all_roots :: "parents \<Rightarrow> bool" where
  "all_roots m \<longleftrightarrow> (\<forall>k. is_root m k)"

lemma start_sets_roots: "all_roots (start_sets fps)"
proof -
  have "all_roots (foldl (\<lambda>m fp. ds_add (footprint_root fp) m) m fps)" if "all_roots m" for m
    using that
    by (induction fps arbitrary: m) (auto simp: all_roots_def is_root_def ds_add_def)
  then show ?thesis by (simp add: start_sets_def all_roots_def is_root_def)
qed

lemma all_roots_forest: "all_roots m \<Longrightarrow> forest m"
  by (auto simp: all_roots_def forest_def)

lemma linked_empty [simp]: "(x, y) \<in> linked {} \<longleftrightarrow> x = y"
  by (auto simp: linked_def)

lemma all_roots_sets: "all_roots m \<Longrightarrow> same_set m x y \<longleftrightarrow> (x, y) \<in> linked {}"
  by (auto simp: all_roots_def same_set_def root_of_root)

section \<open>Grouping\<close>

definition under :: "parents \<Rightarrow> string \<Rightarrow> module_footprint list \<Rightarrow> module_footprint list" where
  "under m r fps = filter (\<lambda>fp. root_of m (footprint_root fp) r) fps"

definition piece_at :: "(string \<times> candidate_piece) list \<Rightarrow> string \<Rightarrow> candidate_piece" where
  "piece_at merged r = (case map_of merged r of Some p \<Rightarrow> p | None \<Rightarrow> \<lparr>piece_modules = [], piece_files = []\<rparr>)"

lemma piece_at_update [simp]: "piece_at (AList.update r p merged) s = (if s = r then p else piece_at merged s)"
  by (simp add: piece_at_def update_conv')

lemma under_cong: "root_of m = root_of m' \<Longrightarrow> under m r fps = under m' r fps"
  by (simp add: under_def)

lemma group_footprints_law:
  assumes "forest m"
  shows "\<exists>merged'. group_footprints fps m merged = Some merged' \<and>
    (distinct (map fst merged) \<longrightarrow> distinct (map fst merged')) \<and>
    fst ` set merged' = fst ` set merged \<union> {r. under m r fps \<noteq> []} \<and>
    (\<forall>r. piece_modules (piece_at merged' r) =
           piece_modules (piece_at merged r) @ map footprint_root (under m r fps) \<and>
         piece_files (piece_at merged' r) =
           piece_files (piece_at merged r) @ concat (map footprint_files (under m r fps)))"
  using assms
proof (induction fps arbitrary: m merged)
  case Nil
  then show ?case by (simp add: under_def)
next
  case (Cons fp fps)
  obtain r m' where m': "ds_find (footprint_root fp) m = Some (r, m')" "root_of m (footprint_root fp) r"
    "root_of m' = root_of m" "forest m'"
    using ds_find_total [OF Cons.prems] by metis
  let ?p = "piece_at merged r"
  let ?merged = "AList.update r (?p\<lparr>piece_modules := piece_modules ?p @ [footprint_root fp],
    piece_files := piece_files ?p @ footprint_files fp\<rparr>) merged"
  have step: "group_footprints (fp # fps) m merged = group_footprints fps m' ?merged"
    by (simp add: m'(1) piece_at_def Let_def)
  have under: "under m s (fp # fps) = (if s = r then fp # under m' s fps else under m' s fps)" for s
  proof -
    have "root_of m (footprint_root fp) s \<longleftrightarrow> s = r" using m'(2) root_of_unique by blast
    then show ?thesis by (simp add: under_def m'(3))
  qed
  obtain merged' where IH: "group_footprints fps m' ?merged = Some merged'"
    "distinct (map fst ?merged) \<longrightarrow> distinct (map fst merged')"
    "fst ` set merged' = fst ` set ?merged \<union> {r. under m' r fps \<noteq> []}"
    "\<forall>s. piece_modules (piece_at merged' s) = piece_modules (piece_at ?merged s) @ map footprint_root (under m' s fps) \<and>
         piece_files (piece_at merged' s) = piece_files (piece_at ?merged s) @ concat (map footprint_files (under m' s fps))"
    using Cons.IH [OF m'(4), of ?merged] by blast
  have "fst ` set merged' = fst ` set merged \<union> {s. under m s (fp # fps) \<noteq> []}"
  proof -
    have "fst ` set (AList.update r v merged) = insert r (fst ` set merged)" for v
      by (simp add: update_conv' flip: dom_map_of_conv_image_fst)
    then show ?thesis unfolding IH(3) by (auto simp: under)
  qed
  moreover have "distinct (map fst merged) \<longrightarrow> distinct (map fst merged')"
    using IH(2) distinct_update [of merged r] by simp
  moreover have "\<forall>s. piece_modules (piece_at merged' s) = piece_modules (piece_at merged s) @ map footprint_root (under m s (fp # fps)) \<and>
         piece_files (piece_at merged' s) = piece_files (piece_at merged s) @ concat (map footprint_files (under m s (fp # fps)))"
    using IH(4) by (simp add: under)
  ultimately show ?case unfolding step using IH(1) by blast
qed

section \<open>The pieces\<close>

definition coupling :: "scope_estimate \<Rightarrow> repository_index \<Rightarrow> (string \<times> string) set" where
  "coupling est index = set (import_links est index @ symbol_links est index)"

text \<open>What a list of pieces must be, for a coupling of modules.\<close>

definition components :: "(string \<times> string) set \<Rightarrow> module_footprint list \<Rightarrow> candidate_piece list \<Rightarrow> bool" where
  "components links fps ps \<longleftrightarrow>
     distinct ps \<and>
     (\<Union>p \<in> set ps. set (piece_modules p)) = footprint_root ` set fps \<and>
     (\<forall>p \<in> set ps. piece_modules p \<noteq> [] \<and>
        set (piece_files p) = (\<Union>fp \<in> {fp \<in> set fps. footprint_root fp \<in> set (piece_modules p)}. set (footprint_files fp))) \<and>
     (\<forall>p \<in> set ps. \<forall>q \<in> set ps. \<forall>x \<in> set (piece_modules p). \<forall>y \<in> set (piece_modules q).
        p = q \<longleftrightarrow> (x, y) \<in> linked links)"

lemma settle_piece_sets [simp]:
  "set (piece_modules (settle_piece p)) = set (piece_modules p)" "set (piece_files (settle_piece p)) = set (piece_files p)"
  by (simp_all add: settle_piece_def)

lemma grouped_components:
  assumes "forest m" "\<And>x y. same_set m x y \<longleftrightarrow> (x, y) \<in> linked links"
    and "group_footprints fps m [] = Some merged"
  shows "components links fps (map (\<lambda>e. settle_piece (snd e)) merged)"
proof -
  have d: "distinct (map fst merged)" and keys: "fst ` set merged = {r. under m r fps \<noteq> []}"
    and at: "\<And>r. piece_modules (piece_at merged r) = map footprint_root (under m r fps)"
      "\<And>r. piece_files (piece_at merged r) = concat (map footprint_files (under m r fps))"
    using group_footprints_law [OF assms(1), of fps "[]"] assms(3) by (auto simp: piece_at_def)
  have entry: "piece_modules p = map footprint_root (under m r fps) \<and>
      piece_files p = concat (map footprint_files (under m r fps)) \<and> under m r fps \<noteq> []"
    if "(r, p) \<in> set merged" for r p
  proof -
    have "map_of merged r = Some p" using d that by simp
    then have "piece_at merged r = p" by (simp add: piece_at_def)
    then show ?thesis using at [of r] keys that by force
  qed
  have root_in: "x \<in> footprint_root ` set fps \<and> root_of m x r" if "(r, p) \<in> set merged" "x \<in> set (piece_modules p)" for r p x
    using entry [OF that(1)] that(2) by (auto simp: under_def)
  have in_piece: "footprint_root fp \<in> set (piece_modules p)" if "(r, p) \<in> set merged" "fp \<in> set fps" "root_of m (footprint_root fp) r" for r p fp
    using entry [OF that(1)] that(2,3) by (auto simp: under_def)
  have same: "r = s \<longleftrightarrow> (x, y) \<in> linked links"
    if "(r, p) \<in> set merged" "(s, q) \<in> set merged" "x \<in> set (piece_modules p)" "y \<in> set (piece_modules q)" for r s p q x y
    using same_set_roots root_in [OF that(1,3)] root_in [OF that(2,4)] assms(2) by blast
  have nonempty: "\<exists>x. x \<in> set (piece_modules p)" if "(r, p) \<in> set merged" for r p
    using entry [OF that] by (cases "under m r fps") auto
  have unique: "e = f" if "e \<in> set merged" "f \<in> set merged" "settle_piece (snd e) = settle_piece (snd f)" for e f
  proof -
    have "\<exists>x. x \<in> set (piece_modules (snd e))" using nonempty [of "fst e" "snd e"] that(1) by simp
    then obtain x where x: "x \<in> set (piece_modules (snd e))" by blast
    then have "x \<in> set (piece_modules (snd f))" using that(3) settle_piece_sets(1) by metis
    then have "fst e = fst f" using same [of "fst e" "snd e" "fst f" "snd f" x x] x that by simp
    then show ?thesis using d that(1,2) by (metis eq_key_imp_eq_value prod.collapse)
  qed
  have "inj_on (\<lambda>e. settle_piece (snd e)) (set merged)" using unique by (intro inj_onI) blast
  then have "distinct (map (\<lambda>e. settle_piece (snd e)) merged)"
    using d by (simp add: distinct_map)
  moreover have "(\<Union>e \<in> set merged. set (piece_modules (snd e))) = footprint_root ` set fps"
  proof
    show "(\<Union>e \<in> set merged. set (piece_modules (snd e))) \<subseteq> footprint_root ` set fps" using root_in by force
    show "footprint_root ` set fps \<subseteq> (\<Union>e \<in> set merged. set (piece_modules (snd e)))"
    proof (rule image_subsetI)
      fix fp assume fp: "fp \<in> set fps"
      obtain r where r: "root_of m (footprint_root fp) r" using forest_root [OF assms(1)] by blast
      then have "under m r fps \<noteq> []" using fp by (auto simp: under_def filter_empty_conv)
      then have "r \<in> fst ` set merged" using keys by simp
      then obtain p where "(r, p) \<in> set merged" by auto
      then show "footprint_root fp \<in> (\<Union>e \<in> set merged. set (piece_modules (snd e)))" using in_piece fp r by force
    qed
  qed
  moreover have "set (piece_files p) = (\<Union>fp \<in> {fp \<in> set fps. footprint_root fp \<in> set (piece_modules p)}. set (footprint_files fp))"
    if "(r, p) \<in> set merged" for r p
  proof -
    have "{fp \<in> set fps. footprint_root fp \<in> set (piece_modules p)} = set (under m r fps)"
      using root_in [OF that] in_piece [OF that] by (auto simp: under_def)
    then show ?thesis using entry [OF that] by simp
  qed
  moreover have "settle_piece (snd e) = settle_piece (snd f) \<longleftrightarrow> (x, y) \<in> linked links"
    if "e \<in> set merged" "f \<in> set merged" "x \<in> set (piece_modules (snd e))" "y \<in> set (piece_modules (snd f))" for e f x y
  proof -
    have "settle_piece (snd e) = settle_piece (snd f) \<longleftrightarrow> fst e = fst f"
      using unique [OF that(1,2)] d that(1,2) eq_key_imp_eq_value [of merged "fst e" "snd e" "snd f"] by auto
    then show ?thesis using same [of "fst e" "snd e" "fst f" "snd f" x y] that by simp
  qed
  moreover have "piece_modules (settle_piece (snd e)) \<noteq> []" if "e \<in> set merged" for e
    using nonempty [of "fst e" "snd e"] that by (metis empty_iff empty_set prod.collapse settle_piece_sets(1))
  ultimately show ?thesis unfolding components_def by (auto simp del: set_sorted_unique)
qed

lemma components_sort: "components links fps (sort_key f ps) = components links fps ps"
  by (simp add: components_def)

lemma couplePieces_law:
  obtains ps where "couplePieces collate est index = Some ps"
    "components (coupling est index) (estimate_modules est) ps"
proof -
  let ?start = "start_sets (estimate_modules est)"
  obtain m where m: "union_all (import_links est index @ symbol_links est index) ?start = Some m" "forest m"
    "\<And>x y. same_set m x y \<longleftrightarrow> (x, y) \<in> linked (coupling est index)"
    using union_all_law [OF all_roots_forest [OF start_sets_roots] all_roots_sets [OF start_sets_roots],
        where ps = "import_links est index @ symbol_links est index"]
    unfolding coupling_def Un_empty_left by blast
  obtain merged where merged: "group_footprints (estimate_modules est) m [] = Some merged"
    using group_footprints_law [OF m(2)] by blast
  let ?ps = "sort_key (\<lambda>p. collate (first_module p)) (map (\<lambda>e. settle_piece (snd e)) merged)"
  have "couplePieces collate est index = Some ?ps"
    using m(1) merged by (simp add: couplePieces_def start_sets_def)
  moreover have "components (coupling est index) (estimate_modules est) ?ps"
    using grouped_components [OF m(2,3) merged] by (simp only: components_sort)
  ultimately show thesis using that by blast
qed

section \<open>The decision\<close>

lemma decomposeTask_split:
  assumes "decomposeTask collate input = Some d" "decided_split d"
  obtains ps where "couplePieces collate (input_estimate input) (input_index input) = Some ps"
    "decided_subtasks d = map (propose (input_objective input) (or_default [] (input_contention input)) ps) [0..<length ps]"
    "atomicSignals (input_objective input) = []"
    "\<forall>p \<in> set ps. \<not> manifestOnly (piece_files p)"
    "or_default 2 (opt_minSubtasks (or_default no_options (input_options input))) \<le> length ps"
    "length ps \<le> or_default 4 (opt_maxSubtasks (or_default no_options (input_options input)))"
    "or_default ModeContended (opt_mode (or_default no_options (input_options input))) \<noteq> ModeOff"
    "or_default ModeContended (opt_mode (or_default no_options (input_options input))) = ModeContended \<Longrightarrow>
       list_ex (overlaps_work (or_default [] (input_contention input))) ps \<and>
       list_ex (\<lambda>p. \<not> overlaps_work (or_default [] (input_contention input)) p) ps"
proof -
  obtain ps where ps: "couplePieces collate (input_estimate input) (input_index input) = Some ps"
    using couplePieces_law by blast
  have no_split: "\<not> decided_split (decision r ids ts)" if "r \<noteq> Split" for r ids ts
    using that by (simp add: decision_def)
  show thesis
  proof (rule that [OF ps])
  qed (use assms no_split in \<open>auto simp: decomposeTask_def Let_def ps filter_empty_conv list_ex_iff decision_def split: if_splits\<close>)
qed

lemma propose_fields:
  "map subtask_modules (map (propose obj cs ps) [0..<length ps]) = map piece_modules ps"
  "map subtask_files (map (propose obj cs ps) [0..<length ps]) = map piece_files ps"
  "map subtask_contended (map (propose obj cs ps) [0..<length ps]) = map (overlaps_work cs) ps"
  "map subtask_position (map (propose obj cs ps) [0..<length ps]) = [1..<length ps + 1]"
proof -
  show "map subtask_modules (map (propose obj cs ps) [0..<length ps]) = map piece_modules ps"
    by (rule nth_equalityI) (simp_all add: propose_def Let_def)
  show "map subtask_position (map (propose obj cs ps) [0..<length ps]) = [1..<length ps + 1]"
    by (rule nth_equalityI) (simp_all add: propose_def Let_def del: upt_Suc)
  show "map subtask_files (map (propose obj cs ps) [0..<length ps]) = map piece_files ps"
    by (rule nth_equalityI) (simp_all add: propose_def Let_def)
  show "map subtask_contended (map (propose obj cs ps) [0..<length ps]) = map (overlaps_work cs) ps"
    by (rule nth_equalityI) (simp_all add: propose_def Let_def)
qed

lemma decomposeTask_total: "\<exists>d. decomposeTask collate input = Some d"
proof -
  obtain ps where "couplePieces collate (input_estimate input) (input_index input) = Some ps"
    using couplePieces_law by blast
  then show ?thesis by (simp add: decomposeTask_def Let_def)
qed

end
