(* ===== verification/Service_Properties.thy ===== *)
theory Service_Properties
  imports Frame_Laws Audit_Laws Decomposition_Laws
begin

text \<open>
  The properties of the frame reader, the audit log and task decomposition, with witnesses
  evaluated on short inputs.
\<close>

section \<open>Frames\<close>

text \<open>
  C36 A client's message is read back. However a client cuts a message into frames and the network
  cuts the frames into chunks, a new reader reports that message, once, and is a new reader again.
\<close>

theorem messages_read_back:
  assumes "parts \<noteq> []" and "list_all (\<lambda>(key, payload). length key = 4) parts"
    and "parts_bytes parts \<le> maxMessageBytes opts" and "maxMessageBytes opts < 2 ^ 64"
    and "concat chunks = client_message OPCODE_TEXT parts" and "length (concat chunks) \<le> maxBufferBytes opts"
  shows "push_all decode opts chunks new_reader =
    ([TextMessage (decode (concat (map snd parts)))], new_reader)"
proof -
  let ?s = "new_reader\<lparr>frame_input := client_message OPCODE_TEXT parts\<rparr>"
  have "read_frames decode (maxMessageBytes opts) ?s =
      (case read_frames decode (maxMessageBytes opts) \<lparr>frame_input = [], fragments = [], fragmentBytes = 0, fragmentOpcode = None\<rparr> of
         (ev, t) \<Rightarrow> (TextMessage (decode (concat (fragments ?s) @ concat (map snd parts))) # ev, t))"
    using assms(1-4) by (intro read_client_message) (simp_all add: new_reader_def)
  also have "\<dots> = ([TextMessage (decode (concat (map snd parts)))], new_reader)"
    using settled_new [of decode "maxMessageBytes opts"] by (simp add: settled_def new_reader_def)
  finally have "push decode opts (concat chunks) new_reader = ([TextMessage (decode (concat (map snd parts)))], new_reader)"
    using assms(5,6) push_fits [of new_reader "concat chunks" opts decode] by (simp add: new_reader_def)
  then show ?thesis
    using push_all_chunks [OF settled_new, of chunks opts decode] assms(6) by (simp add: new_reader_def)
qed

definition demo_options :: frame_options where
  "demo_options = \<lparr>maxMessageBytes = 5, maxBufferBytes = 20\<rparr>"

definition demo_parts :: "(byte list \<times> byte list) list" where
  "demo_parts = [([1, 2, 3, 4], [104, 101]), ([9, 8, 7, 6], [121])]"

definition demo_chunks :: "byte list list" where
  "demo_chunks = [[0x01, 0x82, 1], [2, 3, 4, 105, 103, 0x80], [], [0x81, 9, 8, 7, 6, 112]]"

theorem messages_read_back_witness:
  "push_all id demo_options demo_chunks new_reader = ([TextMessage [104, 101, 121]], new_reader)"
proof -
  have "concat demo_chunks = client_message OPCODE_TEXT demo_parts"
    by (simp add: demo_chunks_def demo_parts_def client_frame_def frame_header_def opcode_defs Let_def upt_rec)
  then have "push_all id demo_options demo_chunks new_reader =
      ([TextMessage (id (concat (map snd demo_parts)))], new_reader)"
    by (rule messages_read_back [rotated 4])
       (simp_all add: demo_parts_def demo_options_def demo_chunks_def parts_bytes_def)
  then show ?thesis by (simp add: demo_parts_def del: push_all.simps)
qed

text \<open>
  The reader is bounded. From a reader within its limits, no message or ping it reports is
  larger than a message may be, and unless it reports a fault or a close it stays within its
  limits: what it has not parsed, and the fragments it keeps.
\<close>

theorem reader_bounded:
  assumes "push decode opts chunk s = (ev, t)" and "reader_ok opts s"
  shows "list_all (fits_limit decode (maxMessageBytes opts)) ev \<and> (\<not> list_ex stops ev \<longrightarrow> reader_ok opts t)"
proof (cases "length (frame_input s @ chunk) \<le> maxBufferBytes opts")
  case True
  then have "reader_ok opts (s\<lparr>frame_input := frame_input s @ chunk\<rparr>)" using assms(2) by (simp add: reader_ok_def)
  then show ?thesis using read_frames_ok assms(1) True by (simp add: push_def)
next
  case False
  then show ?thesis using assms(1) by (auto simp: push_def Let_def fits_limit_def)
qed

theorem reader_bounded_witness:
  "reader_ok demo_options new_reader \<and>
   reader_ok demo_options (snd (push id demo_options [0x01, 0x82, 1] new_reader))"
proof -
  have ok: "reader_ok demo_options new_reader" by (simp add: reader_ok_def new_reader_def)
  have "push id demo_options [0x01, 0x82, 1] new_reader = ([], new_reader\<lparr>frame_input := [0x01, 0x82, 1]\<rparr>)"
    by (simp add: push_def demo_options_def new_reader_def read_frames.simps readFrame_def frame_extent_def frame_length_def)
  from reader_bounded [OF this ok] ok show ?thesis
    using \<open>push id demo_options [0x01, 0x82, 1] new_reader = _\<close> by simp
qed

section \<open>The audit log\<close>

text \<open>
  C37 The stored log always verifies. Whatever is appended, archived under fresh ids and pruned,
  in any order, verification of the result succeeds and counts the live events: archiving is never
  refused for a break the store made itself.
\<close>

theorem audit_log_verifies:
  assumes "log_reachable sha kept"
  shows "\<exists>archived attested. verifyAudit sha kept = Valid (length (live_events kept)) archived attested"
  using log_ok_verifies [OF log_reachable_ok [OF assms]] .

definition demo_event :: "16 word \<Rightarrow> audit_event" where
  "demo_event w = \<lparr>event_id = [w], event_type = [116], event_task = None, occurredAt = [w], event_data = [(''k'', JNull)]\<rparr>"

definition demo_sha :: "utf16 \<Rightarrow> utf16" where
  "demo_sha s = [97]"

definition demo_log :: audit_log where
  "demo_log = appendAudit demo_sha (demo_event 50) (appendAudit demo_sha (demo_event 49) empty_log)"

lemma demo_hashes [simp]:
  "hashAuditPayload demo_sha e = [97]" "chainHash demo_sha p q = [97]" "segmentDigest demo_sha hs = [97]"
  by (simp_all add: hashAuditPayload_def chainHash_def segmentDigest_def demo_sha_def)

lemma demo_log_unfold:
  "demo_log = \<lparr>live_events =
      [\<lparr>chained_of = demo_event 49, sequence_no = 1, payloadHash = [97], previousHash = GENESIS_HASH, chain_hash = [97]\<rparr>,
       \<lparr>chained_of = demo_event 50, sequence_no = 2, payloadHash = [97], previousHash = [97], chain_hash = [97]\<rparr>],
    archive_rows = [], checkpoints = [], next_sequence = 3\<rparr>"
  by (simp add: demo_log_def appendAudit_def empty_log_def latestChainHash_def Let_def)

theorem audit_log_verifies_witness:
  "\<exists>kept. log_reachable demo_sha kept \<and> length (checkpoints kept) = 1 \<and>
     (\<exists>archived attested. verifyAudit demo_sha kept = Valid 1 archived attested)"
proof -
  have r: "log_reachable demo_sha demo_log" unfolding demo_log_def by (intro log_reachable.intros)
  obtain kept c where kept: "archiveAuditEvents demo_sha [99] [48] (Some 1) None demo_log = Inr (kept, c)"
    "length (live_events kept) = 1" "length (checkpoints kept) = 1"
    by (simp add: archiveAuditEvents_def verifyAudit_def verifyArchivedChain_def verifyAuditChain_def demo_log_unfold Let_def)
  have "[99] \<notin> checkpoint_id ` set (checkpoints demo_log)" by (simp add: demo_log_unfold)
  then have "log_reachable demo_sha kept" by (rule log_archive [OF r kept(1)])
  from this audit_log_verifies [OF this] kept show ?thesis by auto
qed



section \<open>Decomposition\<close>

text \<open>
  C39 The pieces of a task are the connected components of its coupling. The search returns; every
  module of the estimate is in one piece, with its files; and two modules share a piece exactly
  when a chain of imports or symbol references between selected files joins them.
\<close>

theorem pieces_are_components:
  "\<exists>ps. couplePieces collate est index = Some ps \<and> components (coupling est index) (estimate_modules est) ps"
  using couplePieces_law [of collate est index] by blast

text \<open>
  C40 A decision is always reached, and a split passes every gate. Its tasks are the pieces, which
  together cover the estimated modules; their number is within its bounds; none is only manifests;
  the objective reads as divisible; and, in the default mode, some task meets contention and some
  task is free of it.
\<close>

theorem split_passes_gates:
  "\<exists>d. decomposeTask collate input = Some d \<and>
    (decided_split d \<longrightarrow>
      (\<exists>ps. couplePieces collate (input_estimate input) (input_index input) = Some ps \<and>
        map subtask_modules (decided_subtasks d) = map piece_modules ps \<and>
        map subtask_files (decided_subtasks d) = map piece_files ps \<and>
        map subtask_position (decided_subtasks d) = [1..<length ps + 1] \<and>
        set (concat (map subtask_modules (decided_subtasks d))) = footprint_root ` set (estimate_modules (input_estimate input)) \<and>
        or_default 2 (opt_minSubtasks (or_default no_options (input_options input))) \<le> length ps \<and>
        length ps \<le> or_default 4 (opt_maxSubtasks (or_default no_options (input_options input))) \<and>
        list_all (\<lambda>p. \<not> manifestOnly (piece_files p)) ps \<and>
        atomicSignals (input_objective input) = [] \<and>
        (or_default ModeContended (opt_mode (or_default no_options (input_options input))) = ModeContended \<longrightarrow>
          list_ex subtask_contended (decided_subtasks d) \<and> list_ex (\<lambda>t. \<not> subtask_contended t) (decided_subtasks d))))"
proof -
  obtain d where d: "decomposeTask collate input = Some d" using decomposeTask_total by blast
  let ?est = "input_estimate input" and ?cs = "or_default [] (input_contention input)"
  show ?thesis
  proof (intro exI [of _ d] conjI impI)
    assume split: "decided_split d"
    obtain ps where ps: "couplePieces collate ?est (input_index input) = Some ps"
      and sub: "decided_subtasks d = map (propose (input_objective input) ?cs ps) [0..<length ps]"
      and gates: "atomicSignals (input_objective input) = []" "\<forall>p \<in> set ps. \<not> manifestOnly (piece_files p)"
        "or_default 2 (opt_minSubtasks (or_default no_options (input_options input))) \<le> length ps"
        "length ps \<le> or_default 4 (opt_maxSubtasks (or_default no_options (input_options input)))"
      and contended: "or_default ModeContended (opt_mode (or_default no_options (input_options input))) = ModeContended \<Longrightarrow>
        list_ex (overlaps_work ?cs) ps \<and> list_ex (\<lambda>p. \<not> overlaps_work ?cs p) ps"
      using decomposeTask_split [OF d split] by metis
    have fields: "map subtask_modules (decided_subtasks d) = map piece_modules ps"
      "map subtask_files (decided_subtasks d) = map piece_files ps"
      "map subtask_contended (decided_subtasks d) = map (overlaps_work ?cs) ps"
      "map subtask_position (decided_subtasks d) = [1..<length ps + 1]"
      unfolding sub by (rule propose_fields)+
    have "components (coupling ?est (input_index input)) (estimate_modules ?est) ps"
      using couplePieces_law [of collate ?est "input_index input"] ps by (metis option.inject)
    then have "set (concat (map subtask_modules (decided_subtasks d))) = footprint_root ` set (estimate_modules ?est)"
      unfolding fields(1) by (simp add: components_def)
    moreover have "list_ex P (map subtask_contended (decided_subtasks d)) = list_ex P (map (overlaps_work ?cs) ps)" for P
      by (simp only: fields(3))
    from this [of id] this [of Not] have
      "list_ex subtask_contended (decided_subtasks d) = list_ex (overlaps_work ?cs) ps"
      "list_ex (\<lambda>t. \<not> subtask_contended t) (decided_subtasks d) = list_ex (\<lambda>p. \<not> overlaps_work ?cs p) ps"
      by (simp_all add: list_ex_iff)
    ultimately show "\<exists>ps. couplePieces collate ?est (input_index input) = Some ps \<and>
        map subtask_modules (decided_subtasks d) = map piece_modules ps \<and>
        map subtask_files (decided_subtasks d) = map piece_files ps \<and>
        map subtask_position (decided_subtasks d) = [1..<length ps + 1] \<and>
        set (concat (map subtask_modules (decided_subtasks d))) = footprint_root ` set (estimate_modules ?est) \<and>
        or_default 2 (opt_minSubtasks (or_default no_options (input_options input))) \<le> length ps \<and>
        length ps \<le> or_default 4 (opt_maxSubtasks (or_default no_options (input_options input))) \<and>
        list_all (\<lambda>p. \<not> manifestOnly (piece_files p)) ps \<and>
        atomicSignals (input_objective input) = [] \<and>
        (or_default ModeContended (opt_mode (or_default no_options (input_options input))) = ModeContended \<longrightarrow>
          list_ex subtask_contended (decided_subtasks d) \<and> list_ex (\<lambda>t. \<not> subtask_contended t) (decided_subtasks d))"
      using ps fields gates contended by (auto simp: list_all_iff)
  qed (fact d)
qed

definition demo_input :: decomposition_input where
  "demo_input =
     \<lparr>input_objective = ''add price'',
      input_estimate = \<lparr>estimate_confidence = Anchored, repositoryFraction = 0, estimate_files = [''a/x'', ''b/x'', ''c/x'', ''c/y''],
        estimate_modules = [\<lparr>footprint_root = ''a'', footprint_files = [''a/x'']\<rparr>, \<lparr>footprint_root = ''b'', footprint_files = [''b/x'']\<rparr>,
          \<lparr>footprint_root = ''c'', footprint_files = [''c/x'', ''c/y'']\<rparr>]\<rparr>,
      input_index = \<lparr>index_files = [], index_edges = [\<lparr>fromFile = ''b/x'', toFile = Some ''a/x''\<rparr>]\<rparr>,
      input_contention = Some [\<lparr>contending_task = ''t'', contending_modules = [''c''], contending_files = None\<rparr>],
      input_options = None\<rparr>"

theorem split_passes_gates_witness:
  "\<exists>d. decomposeTask id demo_input = Some d \<and> decided_split d \<and> map subtask_modules (decided_subtasks d) = [[''a'', ''b''], [''c'']] \<and>
     list_ex subtask_contended (decided_subtasks d) \<and> list_ex (\<lambda>t. \<not> subtask_contended t) (decided_subtasks d)"
proof -
  have parts: "couplePieces id (input_estimate demo_input) (input_index demo_input) =
      Some [\<lparr>piece_modules = [''a'', ''b''], piece_files = [''a/x'', ''b/x'']\<rparr>, \<lparr>piece_modules = [''c''], piece_files = [''c/x'', ''c/y'']\<rparr>]"
    and gates: "atomicSignals (input_objective demo_input) = []"
      "\<not> manifestOnly [''a/x'', ''b/x'']" "\<not> manifestOnly [''c/x'', ''c/y'']"
    by code_simp+
  have s: "map_option (\<lambda>d. (decided_split d, map subtask_modules (decided_subtasks d))) (decomposeTask id demo_input) =
      Some (True, [[''a'', ''b''], [''c'']])"
    using parts gates
    by (simp add: decomposeTask_def demo_input_def or_default_def no_options_def default_fraction_def decision_def
        overlaps_work_def propose_def Let_def)
  then obtain d where d: "decomposeTask id demo_input = Some d" "decided_split d"
    "map subtask_modules (decided_subtasks d) = [[''a'', ''b''], [''c'']]"
    by auto
  have "or_default ModeContended (opt_mode (or_default no_options (input_options demo_input))) = ModeContended"
    by (simp add: demo_input_def or_default_def no_options_def)
  then show ?thesis using split_passes_gates [of id demo_input] d by auto
qed

end
