(* ===== verification/Conflict_Detector.thy ===== *)
theory Conflict_Detector
  imports Complex_Main Plans Intent_Words
begin

text \<open>
  \<open>services/coordinator/src/conflict-detector.ts\<close>: what two plans collide on, scored. A number is the
  rational it denotes, so \<open>Number.isFinite\<close> holds of it. The closing sentence of an assessment is
  left out; the explanation of a piece of evidence is kept. Paths may fail to normalise, so an
  assessment is a result.
\<close>

section \<open>Options\<close>

record conflict_thresholds =
  concurrentMaximum :: rat
  notifyMaximum :: rat
  sequenceMaximum :: rat

record conflict_options =
  fileOverlapWeight :: rat
  symbolOverlapWeight :: rat
  dependencyImpactWeight :: rat
  apiOverlapWeight :: rat
  schemaOverlapWeight :: rat
  configurationOverlapWeight :: rat
  testOverlapWeight :: rat
  semanticConflictWeight :: rat
  thresholds :: conflict_thresholds

definition DEFAULT_CONFLICT_OPTIONS :: conflict_options where
  "DEFAULT_CONFLICT_OPTIONS =
     \<lparr>fileOverlapWeight = 20, symbolOverlapWeight = 35, dependencyImpactWeight = 25,
      apiOverlapWeight = 30, schemaOverlapWeight = 40, configurationOverlapWeight = 15,
      testOverlapWeight = 10, semanticConflictWeight = 30,
      thresholds = \<lparr>concurrentMaximum = 20, notifyMaximum = 45, sequenceMaximum = 70\<rparr>\<rparr>"

text \<open>What the constructor is given: every weight but the first may be missing.\<close>

record detector_options =
  given_file :: rat
  given_symbol :: "rat option"
  given_dependency :: "rat option"
  given_api :: "rat option"
  given_schema :: "rat option"
  given_configuration :: "rat option"
  given_test :: "rat option"
  given_semantic :: "rat option"
  given_thresholds :: conflict_thresholds

datatype range_error = NegativeWeight string | UnorderedThresholds

definition or_else :: "'a option \<Rightarrow> 'a \<Rightarrow> 'a" where
  "or_else x d = (case x of None \<Rightarrow> d | Some y \<Rightarrow> y)"

definition resolve_options :: "detector_options \<Rightarrow> conflict_options" where
  "resolve_options g =
     \<lparr>fileOverlapWeight = given_file g,
      symbolOverlapWeight = or_else (given_symbol g) (symbolOverlapWeight DEFAULT_CONFLICT_OPTIONS),
      dependencyImpactWeight = or_else (given_dependency g) (dependencyImpactWeight DEFAULT_CONFLICT_OPTIONS),
      apiOverlapWeight = or_else (given_api g) (apiOverlapWeight DEFAULT_CONFLICT_OPTIONS),
      schemaOverlapWeight = or_else (given_schema g) (schemaOverlapWeight DEFAULT_CONFLICT_OPTIONS),
      configurationOverlapWeight = or_else (given_configuration g) (configurationOverlapWeight DEFAULT_CONFLICT_OPTIONS),
      testOverlapWeight = or_else (given_test g) (testOverlapWeight DEFAULT_CONFLICT_OPTIONS),
      semanticConflictWeight = or_else (given_semantic g) (semanticConflictWeight DEFAULT_CONFLICT_OPTIONS),
      thresholds = given_thresholds g\<rparr>"

definition weights :: "conflict_options \<Rightarrow> (string \<times> rat) list" where
  "weights opts =
     [(''fileOverlapWeight'', fileOverlapWeight opts), (''symbolOverlapWeight'', symbolOverlapWeight opts),
      (''dependencyImpactWeight'', dependencyImpactWeight opts), (''apiOverlapWeight'', apiOverlapWeight opts),
      (''schemaOverlapWeight'', schemaOverlapWeight opts),
      (''configurationOverlapWeight'', configurationOverlapWeight opts),
      (''testOverlapWeight'', testOverlapWeight opts), (''semanticConflictWeight'', semanticConflictWeight opts)]"

definition ordered_thresholds :: "conflict_thresholds \<Rightarrow> bool" where
  "ordered_thresholds t \<longleftrightarrow>
     0 \<le> concurrentMaximum t \<and> 0 \<le> notifyMaximum t \<and> 0 \<le> sequenceMaximum t \<and>
     concurrentMaximum t \<le> notifyMaximum t \<and> notifyMaximum t \<le> sequenceMaximum t"

definition new_detector :: "detector_options \<Rightarrow> range_error + conflict_options" where
  "new_detector g =
     (let opts = resolve_options g
      in case find (\<lambda>(name, w). w < 0) (weights opts) of
           Some (name, w) \<Rightarrow> Inl (NegativeWeight name)
         | None \<Rightarrow> if ordered_thresholds (thresholds opts) then Inr opts else Inl UnorderedThresholds)"

section \<open>Evidence\<close>

datatype evidence_kind =
    FileOverlap | SymbolOverlap | DependencyImpact | ApiOverlap | SchemaOverlap | ConfigurationOverlap
  | TestOverlap | IntentConflict | IntentIndependent

datatype conflict_disposition = Concurrent | ConcurrentWithNotification | SequencePlans | BlockPlan

record conflict_evidence =
  evidence_kind :: evidence_kind
  evidence_resources :: "string list"
  evidence_tasks :: "string \<times> string"
  evidence_score :: rat
  evidence_advisory :: "bool option"
  evidence_explanation :: "string option"

record conflict_assessment =
  assessed_tasks :: "string \<times> string"
  assessed_score :: rat
  disposition :: conflict_disposition
  assessed_evidence :: "conflict_evidence list"

definition dispositionFor :: "rat \<Rightarrow> conflict_thresholds \<Rightarrow> conflict_disposition" where
  "dispositionFor score t =
     (if score \<le> concurrentMaximum t then Concurrent
      else if score \<le> notifyMaximum t then ConcurrentWithNotification
      else if score \<le> sequenceMaximum t then SequencePlans
      else BlockPlan)"

definition evidence ::
  "evidence_kind \<Rightarrow> string list \<Rightarrow> string \<times> string \<Rightarrow> rat \<Rightarrow> bool option \<Rightarrow> string option \<Rightarrow> conflict_evidence option"
where
  "evidence kind resources tasks score advisory explanation =
     (if resources = [] \<or> score \<le> 0 then None
      else Some \<lparr>evidence_kind = kind, evidence_resources = resources, evidence_tasks = tasks,
                 evidence_score = score, evidence_advisory = advisory, evidence_explanation = explanation\<rparr>)"

section \<open>What plans have in common\<close>

definition asDeclared :: "agent_plan \<Rightarrow> (plan_declarations \<Rightarrow> string list option) \<Rightarrow> string list option \<Rightarrow> string list" where
  "asDeclared p key enriched =
     (case declared p of None \<Rightarrow> or_empty enriched | Some d \<Rightarrow> or_empty (key d))"

definition overlap :: "string list \<Rightarrow> string list \<Rightarrow> string list" where
  "overlap first second =
     (let right = set (map js_lower second) in uniqueStrings (filter (\<lambda>v. js_lower v \<in> right) first))"

type_synonym file_occupancy = "agent_plan \<Rightarrow> string \<Rightarrow> path_error + line_range list option"

definition meets_in :: "file_occupancy \<Rightarrow> agent_plan \<Rightarrow> agent_plan \<Rightarrow> string \<Rightarrow> path_error + bool" where
  "meets_in occupancy first second file =
     res_bind (occupancy first file) (\<lambda>left. res_bind (occupancy second file) (\<lambda>right.
       Inr (case (left, right) of (Some l, Some r) \<Rightarrow> rangesIntersect l r | _ \<Rightarrow> True)))"

definition overlappingFiles :: "agent_plan \<Rightarrow> agent_plan \<Rightarrow> file_occupancy option \<Rightarrow> path_error + string list" where
  "overlappingFiles first second occupancy =
     res_bind (arbitrationFiles first) (\<lambda>lefts. res_bind (arbitrationFiles second) (\<lambda>rights.
       (case occupancy of
          None \<Rightarrow> Inr (overlap lefts rights)
        | Some occ \<Rightarrow> res_filter (meets_in occ first second) (overlap lefts rights))))"

definition with_prefixed :: "string \<Rightarrow> string list \<Rightarrow> string list" where
  "with_prefixed kind vs = concat (map (\<lambda>v. [v, kind @ CHR '':'' # v]) vs)"

definition resourceNames :: "agent_plan \<Rightarrow> string list" where
  "resourceNames p =
     map js_lower
       (with_prefixed ''file'' (expectedFiles p) @
        with_prefixed ''symbol'' (asDeclared p decl_symbols (Some (expectedSymbols p))) @
        with_prefixed ''api'' (asDeclared p decl_apis (expectedApis p)) @
        with_prefixed ''schema'' (asDeclared p decl_schemas (expectedSchemas p)) @
        with_prefixed ''service'' (asDeclared p decl_services (expectedServices p)))"

definition dependencyImpact :: "agent_plan \<Rightarrow> agent_plan \<Rightarrow> string list" where
  "dependencyImpact first second =
     (let left = completeAgentPlan first; right = completeAgentPlan second;
          needs = (\<lambda>p q. filter (\<lambda>v. js_lower v \<in> set (resourceNames q))
                            (asDeclared p decl_dependencies (Some (dependencies p))))
      in uniqueStrings
           (needs left right @ needs right left @
            map (\<lambda>v. ''service:'' @ v)
              (overlap (asDeclared left decl_services (expectedServices left))
                 (asDeclared right decl_services (expectedServices right)))))"

definition consumes :: "agent_plan \<Rightarrow> agent_plan \<Rightarrow> bool" where
  "consumes consumer producer \<longleftrightarrow>
     list_ex (\<lambda>d. js_lower d \<in> set (resourceNames (completeAgentPlan producer)))
       (dependencies (completeAgentPlan consumer))"

section \<open>Intents\<close>

definition CONFLICT_STOP_WORDS :: "string list" where
  "CONFLICT_STOP_WORDS =
     [''a'', ''an'', ''and'', ''for'', ''from'', ''in'', ''of'', ''on'', ''or'', ''the'', ''to'', ''with'']"

definition OPPOSING_ACTIONS :: "(string \<times> string) list" where
  "OPPOSING_ACTIONS =
     [(''add'', ''remove''), (''allow'', ''deny''), (''create'', ''delete''), (''enable'', ''disable''),
      (''expand'', ''restrict''), (''introduce'', ''eliminate''), (''migrate'', ''rollback''),
      (''publish'', ''hide''), (''require'', ''optional''), (''start'', ''stop'')]"

fun plain_word :: "string \<Rightarrow> (string \<times> string) option" where
  "plain_word [] = None"
| "plain_word (c # s) =
     (if lower_alnum c
      then (let more = (\<lambda>d. lower_alnum d \<or> d = CHR ''_'' \<or> d = CHR ''-'')
            in Some (c # takeWhile more s, dropWhile more s))
      else None)"

definition plan_words :: "string \<Rightarrow> string list" where
  "plan_words v = js_set (filter (\<lambda>w. w \<notin> set CONFLICT_STOP_WORDS) (match_all plain_word (js_lower v)))"

definition stated_intent :: "agent_plan \<Rightarrow> string" where
  "stated_intent p = (case intent p of Some s \<Rightarrow> s | None \<Rightarrow> objective p)"

definition relatedObjectives :: "lemmatizer \<Rightarrow> agent_plan \<Rightarrow> agent_plan \<Rightarrow> bool" where
  "relatedObjectives lem first second \<longleftrightarrow>
     list_ex (\<lambda>t. t \<in> set (strong_terms (intentTerms lem (stated_intent second))))
       (strong_terms (intentTerms lem (stated_intent first)))"

record intent_result =
  intent_probability :: rat
  intent_resources :: "string list"
  intent_explanation :: string
  intent_independent :: "bool option"

type_synonym intent_assessor = "agent_plan \<Rightarrow> agent_plan \<Rightarrow> intent_result option"

definition opposed :: "string list \<Rightarrow> string list \<Rightarrow> string \<times> string \<Rightarrow> bool" where
  "opposed left right = (\<lambda>(positive, negative).
     positive \<in> set left \<and> negative \<in> set right \<or> negative \<in> set left \<and> positive \<in> set right)"

fun joined :: "string \<Rightarrow> string list \<Rightarrow> string" where
  "joined sep [] = []"
| "joined sep [s] = s"
| "joined sep (s # t # ss) = s @ sep @ joined sep (t # ss)"

definition analyzeIntent :: "agent_plan \<Rightarrow> agent_plan \<Rightarrow> intent_result option" where
  "analyzeIntent first second =
     (let left = plan_words (stated_intent first);
          right = plan_words (stated_intent second);
          targets = sort (filter (\<lambda>w. w \<in> set right \<and> \<not> list_ex (\<lambda>(p, n). w = p \<or> w = n) OPPOSING_ACTIONS) left)
      in if targets = [] then None
         else map_option (\<lambda>(positive, negative).
                \<lparr>intent_probability = 9 / 10, intent_resources = targets,
                 intent_explanation = ''Objectives use opposing actions ('' @ positive @ ''/'' @ negative @
                   '') for shared intent terms: '' @ joined '', '' targets,
                 intent_independent = None\<rparr>)
              (find (opposed left right) OPPOSING_ACTIONS))"

section \<open>The assessment\<close>

definition groundedNote :: "string list \<Rightarrow> string list \<Rightarrow> string option" where
  "groundedNote own found =
     (if list_ex (\<lambda>e. js_lower e \<notin> set (map js_lower own)) found
      then Some ''includes resources plan verification grounded unverifiable declarations to'' else None)"

text \<open>Evidence on one kind of resource: one weight for each resource both plans name.\<close>

definition weighed ::
  "evidence_kind \<Rightarrow> string list \<Rightarrow> string \<times> string \<Rightarrow> rat \<Rightarrow> string option \<Rightarrow> conflict_evidence option" where
  "weighed kind resources tasks weight note =
     evidence kind resources tasks (of_nat (length resources) * weight) None note"

definition declared_overlap ::
  "(plan_declarations \<Rightarrow> string list option) \<Rightarrow> (agent_plan \<Rightarrow> string list option) \<Rightarrow> agent_plan \<Rightarrow> agent_plan
   \<Rightarrow> string list"
where
  "declared_overlap key enriched left right =
     overlap (asDeclared left key (enriched left)) (asDeclared right key (enriched right))"

text \<open>The entries that are not advisory, for the files the plans collide on.\<close>

definition structural_items ::
  "conflict_options \<Rightarrow> agent_plan \<Rightarrow> agent_plan \<Rightarrow> string list \<Rightarrow> conflict_evidence option list" where
  "structural_items opts left right files =
     (let tasks = (taskId left, taskId right);
          symbols = overlap (arbitrationSymbols left) (arbitrationSymbols right)
      in [weighed FileOverlap files tasks (fileOverlapWeight opts)
            (groundedNote (overlap (expectedFiles left) (expectedFiles right)) files),
          weighed SymbolOverlap symbols tasks (symbolOverlapWeight opts)
            (groundedNote (overlap (expectedSymbols left) (expectedSymbols right)) symbols),
          weighed DependencyImpact (dependencyImpact left right) tasks (dependencyImpactWeight opts) None,
          weighed ApiOverlap (declared_overlap decl_apis expectedApis left right) tasks (apiOverlapWeight opts) None,
          weighed SchemaOverlap (declared_overlap decl_schemas expectedSchemas left right) tasks
            (schemaOverlapWeight opts) None,
          weighed ConfigurationOverlap (declared_overlap decl_configKeys expectedConfigKeys left right) tasks
            (configurationOverlapWeight opts) None,
          weighed TestOverlap (declared_overlap decl_tests expectedTests left right) tasks
            (testOverlapWeight opts) None])"

text \<open>\<open>Math.round\<close> rounds halves up, as \<open>round\<close> does.\<close>

definition intent_items ::
  "conflict_options \<Rightarrow> string \<times> string \<Rightarrow> intent_result option \<Rightarrow> conflict_evidence option list" where
  "intent_items opts tasks verdict =
     (let independent = (case verdict of None \<Rightarrow> False | Some v \<Rightarrow> intent_independent v = Some True)
      in [if independent then None
          else evidence IntentConflict (case verdict of None \<Rightarrow> [] | Some v \<Rightarrow> intent_resources v) tasks
                 (of_int (round ((case verdict of None \<Rightarrow> 0 | Some v \<Rightarrow> intent_probability v) * semanticConflictWeight opts)))
                 (Some True) (map_option intent_explanation verdict),
          (case verdict of
             None \<Rightarrow> None
           | Some v \<Rightarrow>
               if independent \<and> intent_resources v \<noteq> []
               then Some \<lparr>evidence_kind = IntentIndependent, evidence_resources = intent_resources v,
                          evidence_tasks = tasks, evidence_score = 0, evidence_advisory = Some True,
                          evidence_explanation = Some (intent_explanation v)\<rparr>
               else None)])"

definition advisory :: "conflict_evidence \<Rightarrow> bool" where
  "advisory e \<longleftrightarrow> evidence_advisory e = Some True"

definition summarise ::
  "conflict_options \<Rightarrow> string \<times> string \<Rightarrow> conflict_evidence list \<Rightarrow> conflict_assessment option" where
  "summarise opts tasks items =
     (if filter (\<lambda>e. evidence_kind e \<noteq> IntentIndependent) items = [] then None
      else
        (let score = min 100 (sum_list (map evidence_score items));
             schedulingScore = min 100 (sum_list (map (\<lambda>e. if advisory e then 0 else evidence_score e) items));
             advised = list_ex (\<lambda>e. advisory e \<and> 0 < evidence_score e) items;
             independent = list_ex (\<lambda>e. evidence_kind e = IntentIndependent) items;
             found = dispositionFor schedulingScore (thresholds opts)
         in Some \<lparr>assessed_tasks = tasks, assessed_score = score,
                  disposition = (if advised \<and> \<not> independent \<and> found = Concurrent
                                 then ConcurrentWithNotification else found),
                  assessed_evidence = items\<rparr>))"

definition assess ::
  "conflict_options \<Rightarrow> file_occupancy option \<Rightarrow> intent_assessor option \<Rightarrow> agent_plan \<Rightarrow> agent_plan
   \<Rightarrow> path_error + conflict_assessment option"
where
  "assess opts occupancy intentAssessment first second =
     (let tasks = (taskId first, taskId second);
          left = completeAgentPlan first; right = completeAgentPlan second;
          verdict = (case intentAssessment of None \<Rightarrow> analyzeIntent left right | Some f \<Rightarrow> f left right)
      in res_bind (overlappingFiles left right occupancy) (\<lambda>files.
           Inr (summarise opts tasks
             (List.map_filter id (structural_items opts left right files @ intent_items opts tasks verdict)))))"

fun assessAll ::
  "conflict_options \<Rightarrow> file_occupancy option \<Rightarrow> intent_assessor option \<Rightarrow> agent_plan list
   \<Rightarrow> path_error + conflict_assessment list"
where
  "assessAll opts occupancy intentAssessment [] = Inr []"
| "assessAll opts occupancy intentAssessment (p # ps) =
     res_bind (res_map (assess opts occupancy intentAssessment p) ps) (\<lambda>here.
     res_bind (assessAll opts occupancy intentAssessment ps) (\<lambda>rest. Inr (List.map_filter id here @ rest)))"

definition structuralConflict :: "conflict_assessment \<Rightarrow> bool" where
  "structuralConflict a \<longleftrightarrow> list_ex (\<lambda>e. \<not> advisory e \<and> 0 < evidence_score e) (assessed_evidence a)"

definition conflictsForScheduling ::
  "conflict_options \<Rightarrow> file_occupancy option \<Rightarrow> agent_plan \<Rightarrow> agent_plan \<Rightarrow> path_error + bool" where
  "conflictsForScheduling opts occupancy first second =
     res_bind (assess opts occupancy None first second)
       (\<lambda>a. Inr (case a of None \<Rightarrow> False | Some b \<Rightarrow> structuralConflict b))"

definition preferredOrder :: "agent_plan \<Rightarrow> agent_plan \<Rightarrow> (string \<times> string) option" where
  "preferredOrder first second =
     (if consumes first second = consumes second first then None
      else if consumes first second then Some (taskId second, taskId first)
      else Some (taskId first, taskId second))"

end
