(* ===== verification/Plan_Admission.thy ===== *)
theory Plan_Admission
  imports Conflict_Detector Ownership Partial_Admission
begin

text \<open>
  \<open>services/coordinator/src/plan-admission.ts\<close>: whether a plan may run beside the plans that are
  executing, wholly, in part, or not yet. The sentences an admission explains itself with are left
  out, and so are the constraints handed to the agent; the reason a resource is withheld for is kept.
  What the controller reads of its surroundings is the record \<open>controller\<close>; the clock stands still
  during one decision.
\<close>

section \<open>Input and answer\<close>

record controller =
  ctl_conflicts :: conflict_options
  ctl_lemmatizer :: lemmatizer
  ctl_collate :: "string \<Rightarrow> string"
  ctl_now :: int
  ctl_iso :: "int \<Rightarrow> string"
  ctl_newId :: "nat \<Rightarrow> nat \<Rightarrow> string"
  ctl_ttl :: int

record active_plan =
  active_task :: string
  active_agent :: string
  running :: agent_plan

record admission_input =
  candidate_plan :: agent_plan
  candidate_agent :: string
  base_revision :: string
  base_version :: int
  active :: "active_plan list"
  plan_revision :: "int option"
  retry_after :: "int option"
  blockedAttempts :: "nat option"
  partialAdmission :: "bool option"
  resourcesInFile :: "(string \<Rightarrow> plan_resource list) option"
  symbolRangesInFile :: "(string \<Rightarrow> named_range list option) option"
  intentAssessment :: "intent_assessor option"

record full_admission = plan_admission +
  admitted_task :: string
  admitted_revision :: int
  admitted_base :: string
  decided_at :: int
  ownershipGrants :: "resource_lease list"
  blockedBy :: "string list"
  admission_conflicts :: "conflict_assessment list"
  admission_retry :: "int option"

definition DEFAULT_PLAN_RETRY_MS :: int where
  "DEFAULT_PLAN_RETRY_MS = 15000"

definition BLOCKED_ATTEMPTS_BEFORE_SEQUENCING :: nat where
  "BLOCKED_ATTEMPTS_BEFORE_SEQUENCING = 2"

definition others_of :: "admission_input \<Rightarrow> string \<Rightarrow> active_plan list" where
  "others_of input task = filter (\<lambda>e. active_task e \<noteq> task) (active input)"

definition approvedSchemaResources :: "agent_plan \<Rightarrow> string set" where
  "approvedSchemaResources p = set (map (lease_key Schema) (or_empty (expectedSchemas p)))"

definition declaredResources :: "agent_plan \<Rightarrow> plan_resource list" where
  "declaredResources p =
     (let c = completeAgentPlan p
      in refs Symbol (expectedSymbols c) @ refs Api (or_empty (expectedApis c)) @
         refs Schema (or_empty (expectedSchemas c)) @ refs Configuration (or_empty (expectedConfigKeys c)) @
         refs Test (or_empty (expectedTests c)) @ refs Service (or_empty (expectedServices c)))"

section \<open>Where in a file a plan works\<close>

definition occupiedSpans ::
  "agent_plan \<Rightarrow> string \<Rightarrow> (string \<Rightarrow> named_range list option) option \<Rightarrow> path_error + named_range list option"
where
  "occupiedSpans p file locate =
     (case locate of
        None \<Rightarrow> Inr None
      | Some look \<Rightarrow>
          res_bind (uniqueRepositoryPaths (expectedFiles p)) (\<lambda>fs. Inr
            (if file \<in> set fs then None
             else
               (case grounding p of
                  None \<Rightarrow> None
                | Some g \<Rightarrow>
                    if list_ex (\<lambda>e. file_resolved e = file) (fileReferents g) then None
                    else
                      (let reaching = js_set (map (\<lambda>e. js_lower (symbol_resolved e))
                                        (filter (\<lambda>e. file \<in> set (symbol_files e)) (symbolReferents g)))
                       in if reaching = [] then None
                          else
                            (case look file of
                               None \<Rightarrow> None
                             | Some ranges \<Rightarrow>
                                 (let found = filter (\<lambda>r. js_lower (fst r) \<in> set reaching) ranges;
                                      placed = js_set (map (\<lambda>r. js_lower (fst r)) found)
                                  in if length placed < length reaching then None else Some found)))))))"

definition known_end :: "named_range list \<Rightarrow> int" where
  "known_end all_ranges = foldl (\<lambda>e r. max e (endLine (snd r))) 0 all_ranges"

definition encloses :: "line_range \<Rightarrow> line_range \<Rightarrow> bool" where
  "encloses r other \<longleftrightarrow>
     startLine r \<le> startLine other \<and> endLine other \<le> endLine r \<and>
     (startLine r < startLine other \<or> endLine other < endLine r)"

definition insertionZones :: "named_range list \<Rightarrow> line_range list" where
  "insertionZones all_ranges =
     (if known_end all_ranges = 0 then []
      else
        (let leaves = filter (\<lambda>r. \<not> list_ex (\<lambda>other. encloses (snd r) (snd other)) all_ranges) all_ranges
         in subtractRanges [\<lparr>startLine = 1, endLine = known_end all_ranges\<rparr>] (map snd leaves)))"

text \<open>The code between declarations, under the name of one that is still to be written.\<close>

definition zones_for :: "string \<Rightarrow> named_range list \<Rightarrow> named_range list" where
  "zones_for name all_ranges = map (\<lambda>z. (name, z)) (insertionZones all_ranges)"

definition wanted_names :: "agent_plan \<Rightarrow> string \<Rightarrow> string list" where
  "wanted_names p symbol =
     (let resolved = map (\<lambda>e. js_lower (symbol_resolved e))
                       (filter (\<lambda>e. symbol_declared e = symbol)
                          (case grounding p of None \<Rightarrow> [] | Some g \<Rightarrow> symbolReferents g))
      in if resolved = [] then [js_lower symbol] else resolved)"

definition declaredSpans ::
  "lemmatizer \<Rightarrow> agent_plan \<Rightarrow> string \<Rightarrow> (string \<Rightarrow> named_range list option) \<Rightarrow> path_error + named_range list option"
where
  "declaredSpans lem p file look =
     res_bind (uniqueRepositoryPaths (expectedFiles p)) (\<lambda>files. Inr
       (let claimed = declared_symbols p;
            all_ranges = or_empty (look file)
        in if file \<notin> set files then None
           else if claimed = [] then
             (let guessed = likelySymbolsIn lem (objective p @ '' '' @ stated_intent p) (map fst all_ranges) None
              in if guessed = [] then None
                 else Some (filter (\<lambda>r. js_lower (fst r) \<in> set (map js_lower guessed)) all_ranges @
                            zones_for (hd guessed) all_ranges))
           else
             (let placed = concat (map (\<lambda>f. map (\<lambda>r. js_lower (fst r)) (or_empty (look f))) files);
                  occupies = concat (map (wanted_names p) claimed);
                  own = filter (\<lambda>r. js_lower (fst r) \<in> set occupies) all_ranges;
                  unwritten = filter (\<lambda>s. \<not> list_all (\<lambda>n. n \<in> set placed) (wanted_names p s)) claimed
              in if unwritten = [] then Some own
                 else if insertionZones all_ranges = [] then None
                 else Some (own @ zones_for (hd unwritten) all_ranges))))"

definition leavesGround :: "named_range list \<Rightarrow> line_range list \<Rightarrow> bool" where
  "leavesGround placed withheld \<longleftrightarrow>
     0 < known_end placed \<and> subtractRanges [\<lparr>startLine = 1, endLine = known_end placed\<rparr>] withheld \<noteq> []"

definition holdsSymbolItself :: "resource_type \<Rightarrow> agent_plan \<Rightarrow> string \<Rightarrow> bool" where
  "holdsSymbolItself t p i \<longleftrightarrow>
     (case Option.bind (declared p) decl_symbols of
        None \<Rightarrow> True
      | Some names \<Rightarrow> t \<noteq> Symbol \<or> list_ex (\<lambda>n. js_lower n = js_lower i) names)"

type_synonym span_map = "(string \<times> line_range list) list"

text \<open>
  What a plan occupies, to the detector and to the leases: its spans, for the candidate less what is
  withheld inside the file (\<open>narrowed\<close>), for a holder what it was found to hold (\<open>occupied\<close>).
\<close>

definition occupancy_of :: "admission_input \<Rightarrow> span_map \<Rightarrow> (string \<times> span_map) list \<Rightarrow> file_occupancy" where
  "occupancy_of input narrowed occupied p file =
     (let candidate = taskId (candidate_plan input);
          stated = (if taskId p = candidate then None
                    else Option.bind (map_of occupied (taskId p)) (\<lambda>m. map_of m file))
      in case stated of
           Some rs \<Rightarrow> Inr (Some (normalizeRanges rs))
         | None \<Rightarrow>
             res_bind (occupiedSpans p file (symbolRangesInFile input)) (\<lambda>spans.
               let held = (if taskId p = candidate then or_empty (map_of narrowed file) else [])
               in if held = [] then Inr (map_option (\<lambda>ss. normalizeRanges (map snd ss)) spans)
                  else Inr (Some (subtractRanges
                         (case spans of None \<Rightarrow> [whole_file] | Some ss \<Rightarrow> map snd ss) held))))"

definition fileClaims :: "agent_plan \<Rightarrow> file_occupancy \<Rightarrow> path_error + plan_file_claim list" where
  "fileClaims p occ =
     res_bind (arbitrationFiles p) (\<lambda>files.
     res_bind (res_map (\<lambda>f. res_bind (occ p f) (\<lambda>r. Inr (f, r))) files) (\<lambda>found.
       Inr (List.map_filter (\<lambda>(f, r). map_option (\<lambda>rs. \<lparr>claim_file = f, claim_ranges = Some rs\<rparr>) r) found)))"

section \<open>The decision on one plan\<close>

text \<open>Ownership as the executing plans hold it: a plan that cannot take its leases takes none.\<close>

definition seed_plan ::
  "controller \<Rightarrow> admission_input \<Rightarrow> file_occupancy \<Rightarrow> lease_table \<Rightarrow> nat \<times> active_plan \<Rightarrow> lease_table" where
  "seed_plan ctl input occ table = (\<lambda>(n, e).
     case fileClaims (running e) occ of
       Inl _ \<Rightarrow> table
     | Inr claims \<Rightarrow>
         snd (acquire (ctl_newId ctl n) (ctl_now ctl) (ctl_ttl ctl) (running e) (active_agent e)
                (base_version input) claims (approvedSchemaResources (running e)) table))"

definition seededOwnership ::
  "controller \<Rightarrow> admission_input \<Rightarrow> active_plan list \<Rightarrow> file_occupancy \<Rightarrow> lease_table" where
  "seededOwnership ctl input others occ = foldl (seed_plan ctl input occ) [] (enumerate 0 others)"

definition otherTask :: "conflict_assessment \<Rightarrow> string \<Rightarrow> string" where
  "otherTask a task =
     (case find (\<lambda>i. i \<noteq> task) [fst (assessed_tasks a), snd (assessed_tasks a)] of
        None \<Rightarrow> task | Some i \<Rightarrow> i)"

definition answer ::
  "controller \<Rightarrow> admission_input \<Rightarrow> string \<Rightarrow> admission_status \<Rightarrow> resource_lease list \<Rightarrow> string list
   \<Rightarrow> conflict_assessment list \<Rightarrow> int option \<Rightarrow> full_admission"
where
  "answer ctl input task status grants blockers found retry =
     \<lparr>admission_status = status, deferredResources = None, admitted_task = task,
      admitted_revision = or_else (plan_revision input) 1, admitted_base = base_revision input,
      decided_at = ctl_now ctl, ownershipGrants = grants, blockedBy = blockers,
      admission_conflicts = found, admission_retry = retry\<rparr>"

definition assessed_others ::
  "controller \<Rightarrow> admission_input \<Rightarrow> agent_plan \<Rightarrow> file_occupancy \<Rightarrow> path_error + conflict_assessment list" where
  "assessed_others ctl input p occ =
     res_bind (res_map (\<lambda>e. assess (ctl_conflicts ctl) (Some occ) (intentAssessment input) p (running e))
                 (others_of input (taskId p))) (\<lambda>rs. Inr (List.map_filter id rs))"

definition take_leases ::
  "controller \<Rightarrow> admission_input \<Rightarrow> agent_plan \<Rightarrow> file_occupancy \<Rightarrow> plan_file_claim list
   \<Rightarrow> ownership_error + resource_lease list" where
  "take_leases ctl input p occ claims =
     fst (acquire (ctl_newId ctl (length (others_of input (taskId p)))) (ctl_now ctl) (ctl_ttl ctl) p
            (candidate_agent input) (base_version input) claims (approvedSchemaResources p)
            (seededOwnership ctl input (others_of input (taskId p)) occ))"

definition settle_conflicts ::
  "controller \<Rightarrow> admission_input \<Rightarrow> agent_plan \<Rightarrow> file_occupancy \<Rightarrow> conflict_assessment list \<Rightarrow> path_error + full_admission"
where
  "settle_conflicts ctl input p occ found =
     (let task = taskId p;
          retry = Some (or_else (retry_after input) DEFAULT_PLAN_RETRY_MS);
          structural = filter structuralConflict found;
          blocking = filter (\<lambda>a. disposition a = BlockPlan) structural;
          advisories = filter (\<lambda>a. \<not> structuralConflict a) found
      in if blocking \<noteq> [] then
           Inr (answer ctl input task
                  (if or_else (blockedAttempts input) 0 \<ge> BLOCKED_ATTEMPTS_BEFORE_SEQUENCING then Sequenced else Blocked)
                  [] (map (\<lambda>a. otherTask a task) blocking) blocking retry)
         else if structural \<noteq> [] then
           Inr (answer ctl input task Sequenced [] (map (\<lambda>a. otherTask a task) structural) structural retry)
         else
           res_bind (fileClaims p occ) (\<lambda>claims.
             case take_leases ctl input p occ claims of
               Inl (OwnershipConflict _ lease) \<Rightarrow>
                 Inr (answer ctl input task Sequenced [] [lease_task lease] found retry)
             | Inl (OwnershipApprovalRequired _ _) \<Rightarrow> Inr (answer ctl input task Blocked [] [] found retry)
             | Inr grants \<Rightarrow>
                 Inr (answer ctl input task (if advisories \<noteq> [] then ApprovedWithConstraints else Approved)
                        grants [] advisories None)))"

definition decide ::
  "controller \<Rightarrow> admission_input \<Rightarrow> agent_plan \<Rightarrow> file_occupancy \<Rightarrow> bool \<Rightarrow> path_error + full_admission"
where
  "decide ctl input p occ reduced =
     (let task = taskId p;
          retry = Some (or_else (retry_after input) DEFAULT_PLAN_RETRY_MS);
          others = others_of input task;
          related = filter (\<lambda>e. relatedObjectives (ctl_lemmatizer ctl) p (running e)) others;
          unverified = filter (\<lambda>e. planGroundingConfidence (running e) = Ungrounded) related
      in if \<not> reduced \<and> planGroundingConfidence p = Ungrounded \<and> related \<noteq> []
         then Inr (answer ctl input task Sequenced [] (sort (map active_task related)) [] retry)
         else if \<not> reduced \<and> unverified \<noteq> []
         then Inr (answer ctl input task Sequenced [] (sort (map active_task unverified)) [] retry)
         else res_bind (assessed_others ctl input p occ) (settle_conflicts ctl input p occ))"

end
