(* ===== verification/Plan_Splitting.thy ===== *)
theory Plan_Splitting
  imports Plan_Admission
begin

text \<open>
  The rest of \<open>services/coordinator/src/plan-admission.ts\<close>: what of a refused plan is contested, and
  the plan that is left when it is withheld. A \<open>Map\<close> is an association list in insertion order, a
  \<open>Set\<close> a list without duplicates. The reason a split was declined only enters an explanation and
  is left out.
\<close>

section \<open>Sets and maps of the loops\<close>

definition set_add :: "'a \<Rightarrow> 'a list \<Rightarrow> 'a list" where
  "set_add x xs = (if x \<in> set xs then xs else xs @ [x])"

text \<open>\<open>xs.some(f)\<close> where \<open>f\<close> may throw.\<close>

fun res_exists :: "('a \<Rightarrow> 'e + bool) \<Rightarrow> 'a list \<Rightarrow> 'e + bool" where
  "res_exists f [] = Inr False"
| "res_exists f (x # xs) = res_bind (f x) (\<lambda>b. if b then Inr True else res_exists f xs)"

fun res_foldl :: "('s \<Rightarrow> 'a \<Rightarrow> 'e + 's) \<Rightarrow> 's \<Rightarrow> 'a list \<Rightarrow> 'e + 's" where
  "res_foldl f s [] = Inr s"
| "res_foldl f s (x # xs) = res_bind (f s x) (\<lambda>t. res_foldl f t xs)"

text \<open>Who holds a resource, and the reasons: an entry of \<open>contested\<close>.\<close>

type_synonym contest = "string list \<times> string list"

definition note_contest :: "(string \<times> contest) list \<Rightarrow> string \<times> string \<times> string \<Rightarrow> (string \<times> contest) list" where
  "note_contest m = (\<lambda>(i, holder, reason).
     let (holders, reasons) = (case map_of m i of None \<Rightarrow> ([], []) | Some c \<Rightarrow> c)
     in AList.update i (set_add holder holders, set_add reason reasons) m)"

section \<open>What is contested\<close>

record contest_kind =
  kind_type :: resource_type
  kind_evidence :: evidence_kind
  kind_declared :: "string list"

definition evidence_notes ::
  "contest_kind \<Rightarrow> active_plan \<Rightarrow> conflict_assessment option \<Rightarrow> (string \<times> string \<times> string) list" where
  "evidence_notes kind entry assessment =
     (case assessment of
        None \<Rightarrow> []
      | Some a \<Rightarrow>
          if \<not> structuralConflict a then []
          else concat (map (\<lambda>item.
            map (\<lambda>i. (i, active_task entry, ''also declared by executing task '' @ active_task entry))
              (filter (holdsSymbolItself (kind_type kind) (running entry)) (evidence_resources item)))
            (filter (\<lambda>e. \<not> advisory e \<and> evidence_kind e = kind_evidence kind) (assessed_evidence a))))"

definition lease_notes :: "controller \<Rightarrow> contest_kind \<Rightarrow> resource_lease list \<Rightarrow> (string \<times> string \<times> string) list" where
  "lease_notes ctl kind leases =
     map (\<lambda>l. (lease_resource l, lease_task l,
            ''owned by '' @ lease_task l @ '' in '' @ mode_name (lease_mode l) @ '' mode until '' @
            ctl_iso ctl (expiresAt l)))
       (filter (\<lambda>l. lease_type l = kind_type kind) leases)"

text \<open>The declared name a grounded referent was reached from; a later referent replaces an earlier.\<close>

definition carriers :: "resource_type \<Rightarrow> agent_plan \<Rightarrow> (string \<times> string) list" where
  "carriers t p =
     (case grounding p of
        None \<Rightarrow> []
      | Some g \<Rightarrow>
          foldl (\<lambda>m (k, v). AList.update k v m) []
            (case t of
               File \<Rightarrow> map (\<lambda>e. (js_lower (file_resolved e), file_declared e)) (fileReferents g)
             | Symbol \<Rightarrow> map (\<lambda>e. (js_lower (symbol_resolved e), symbol_declared e)) (symbolReferents g)
             | _ \<Rightarrow> []))"

definition carrier_of :: "contest_kind \<Rightarrow> agent_plan \<Rightarrow> string \<Rightarrow> string option" where
  "carrier_of kind p i =
     (if i \<in> set (kind_declared kind) then Some i
      else
        (case map_of (carriers (kind_type kind) p) (js_lower i) of
           Some c \<Rightarrow> if c \<in> set (kind_declared kind) then Some c else None
         | None \<Rightarrow> None))"

definition merge_contest ::
  "contest_kind \<Rightarrow> agent_plan \<Rightarrow> (string \<times> contest) list \<Rightarrow> string \<times> contest \<Rightarrow> (string \<times> contest) list" where
  "merge_contest kind p m = (\<lambda>(i, holders, reasons).
     case carrier_of kind p i of
       None \<Rightarrow> m
     | Some c \<Rightarrow>
         (let (h, r) = (case map_of m c of None \<Rightarrow> ([], []) | Some e \<Rightarrow> e)
          in AList.update c
               (foldl (\<lambda>xs x. set_add x xs) h holders,
                foldl (\<lambda>xs x. set_add x xs) r
                  (map (\<lambda>x. if c = i then x else ''via grounded referent '' @ i @ '': '' @ x) reasons)) m))"

definition withheld_resource :: "resource_type \<Rightarrow> string \<Rightarrow> string list \<Rightarrow> string \<Rightarrow> deferred_resource" where
  "withheld_resource t i holders reason =
     \<lparr>resourceType = t, resourceId = i, heldBy = holders, deferred_reason = reason,
      implied = None, locations = None\<rparr>"

definition contested ::
  "controller \<Rightarrow> admission_input \<Rightarrow> agent_plan \<Rightarrow> contest_kind \<Rightarrow> file_occupancy
   \<Rightarrow> path_error + deferred_resource list"
where
  "contested ctl input p kind occ =
     (let others = others_of input (taskId p)
      in res_bind (res_map (\<lambda>e. res_bind (assess (ctl_conflicts ctl) (Some occ) None p (running e))
                                  (\<lambda>a. Inr (evidence_notes kind e a))) others) (\<lambda>found.
         res_bind (fileClaims p occ) (\<lambda>claims.
           let leases = fst (blockersFor (ctl_now ctl) p claims (seededOwnership ctl input others occ));
               noted = foldl note_contest [] (concat found @ lease_notes ctl kind leases);
               withholdable = foldl (merge_contest kind p) [] noted
           in Inr (map (\<lambda>(i, holders, reasons).
                     withheld_resource (kind_type kind) i (sort holders) (joined ''; '' (sort reasons)))
                   (sort_key (\<lambda>e. ctl_collate ctl (fst e)) withholdable)))))"

definition claim_word :: "agent_plan \<Rightarrow> string option" where
  "claim_word p =
     (case claim p of
        Some (FrozenClaim _ _ _) \<Rightarrow> Some ''frozen'' | Some (DeclaredClaim _ _) \<Rightarrow> Some ''declared'' | _ \<Rightarrow> None)"

definition cover_file ::
  "string \<Rightarrow> string \<Rightarrow> (string \<times> deferred_resource) list \<Rightarrow> active_plan
   \<Rightarrow> path_error + (string \<times> deferred_resource) list"
where
  "cover_file task file byFile holder =
     (case claim_word (running holder) of
        None \<Rightarrow> Inr byFile
      | Some word \<Rightarrow>
          if active_task holder = task then Inr byFile
          else
            res_bind (claimOccupiesPath (running holder) file) (\<lambda>covers. Inr
              (if \<not> covers then byFile
               else
                 (let existing = map_of byFile file;
                      holders = (case existing of None \<Rightarrow> [] | Some e \<Rightarrow> heldBy e);
                      reason = ''covered by '' @ word @ '' claim held by '' @ active_task holder;
                      reasons = js_set ((case existing of None \<Rightarrow> [] | Some e \<Rightarrow> [deferred_reason e]) @ [reason])
                  in AList.update file
                       (withheld_resource File file (sort (set_add (active_task holder) holders))
                          (joined ''; '' (sort reasons))) byFile))))"

definition contestedFiles ::
  "controller \<Rightarrow> admission_input \<Rightarrow> file_occupancy \<Rightarrow> path_error + deferred_resource list" where
  "contestedFiles ctl input occ =
     (let p = candidate_plan input
      in res_bind (uniqueRepositoryPaths (expectedFiles p)) (\<lambda>files.
         res_bind (contested ctl input p
             \<lparr>kind_type = File, kind_evidence = FileOverlap, kind_declared = files\<rparr> occ) (\<lambda>found.
         res_bind (res_foldl (\<lambda>m file. res_foldl (cover_file (taskId p) file) m (active input))
             (map (\<lambda>e. (resourceId e, e)) found) files) (\<lambda>byFile.
           Inr (sort_key (\<lambda>e. ctl_collate ctl (resourceId e)) (map snd byFile))))))"

definition location_of :: "string \<Rightarrow> line_range \<Rightarrow> resource_location" where
  "location_of file r = \<lparr>location_file = file, location_lines = r\<rparr>"

definition place_span ::
  "(string \<times> resource_location list) list \<Rightarrow> string \<times> resource_location \<Rightarrow> (string \<times> resource_location list) list" where
  "place_span m = (\<lambda>(k, l). AList.update k (or_empty (map_of m k) @ [l]) m)"

definition contestedSymbols ::
  "controller \<Rightarrow> admission_input \<Rightarrow> agent_plan \<Rightarrow> file_occupancy \<Rightarrow> path_error + deferred_resource list" where
  "contestedSymbols ctl input reduced occ =
     (case symbolRangesInFile input of
        None \<Rightarrow> Inr []
      | Some look \<Rightarrow>
          res_bind (contested ctl input reduced
              \<lparr>kind_type = Symbol, kind_evidence = SymbolOverlap, kind_declared = expectedSymbols reduced\<rparr> occ)
          (\<lambda>found.
            let placed = foldl place_span []
                  (concat (map (\<lambda>f. map (\<lambda>r. (planResourceKey Symbol (fst r), location_of f (snd r)))
                                  (or_empty (look f))) (expectedFiles reduced)));
                places = (\<lambda>e. map_of placed (planResourceKey Symbol (resourceId e)))
            in Inr (if list_all (\<lambda>e. places e \<noteq> None) found then map (\<lambda>e. e\<lparr>locations := places e\<rparr>) found else [])))"

definition derive_from ::
  "string set \<Rightarrow> string set \<Rightarrow> deferred_resource \<Rightarrow> (string \<times> deferred_resource) list \<Rightarrow> plan_resource
   \<Rightarrow> (string \<times> deferred_resource) list"
where
  "derive_from retained claimed file m r =
     (let key = resource_key r
      in if key \<in> retained \<or> key \<notin> claimed \<or> map_of m key \<noteq> None then m
         else m @ [(key, (withheld_resource (resourceType r) (resourceId r) (heldBy file)
                            (''claimed only through the deferred file '' @ resourceId file))\<lparr>implied := Some True\<rparr>)])"

definition derivedFrom :: "controller \<Rightarrow> admission_input \<Rightarrow> deferred_resource list \<Rightarrow> deferred_resource list" where
  "derivedFrom ctl input files =
     (case resourcesInFile input of
        None \<Rightarrow> []
      | Some look \<Rightarrow>
          (let withheld = set (map resourceId files);
               retained = set (map resource_key (concat (map look
                            (filter (\<lambda>f. f \<notin> withheld) (expectedFiles (candidate_plan input))))));
               claimed = set (map resource_key (declaredResources (candidate_plan input)));
               derived = foldl (\<lambda>m file. foldl (derive_from retained claimed file) m (look (resourceId file))) [] files
           in sort_key (\<lambda>e. ctl_collate ctl (type_name (resourceType e) @ CHR '':'' # resourceId e)) (map snd derived)))"

definition carriedSymbols ::
  "controller \<Rightarrow> admission_input \<Rightarrow> deferred_resource list \<Rightarrow> file_occupancy \<Rightarrow> path_error + deferred_resource list"
where
  "carriedSymbols ctl input withheldFiles occ =
     (let p = candidate_plan input
      in case (grounding p, symbolRangesInFile input) of
           (Some g, Some look) \<Rightarrow>
             (let ranges = map look (filter (\<lambda>f. f \<notin> set (map resourceId withheldFiles)) (expectedFiles p));
                  located = set (map (\<lambda>r. js_lower (fst r)) (concat (map or_empty ranges)))
              in if None \<in> set ranges then Inr []
                 else
                   res_bind (contested ctl input p
                       \<lparr>kind_type = Symbol, kind_evidence = SymbolOverlap, kind_declared = expectedSymbols p\<rparr> occ)
                   (\<lambda>found. Inr (map (\<lambda>e. e\<lparr>implied := Some True\<rparr>)
                     (filter (\<lambda>e.
                        let referents = filter (\<lambda>x. symbol_declared x = resourceId e) (symbolReferents g)
                        in referents \<noteq> [] \<and> js_lower (resourceId e) \<notin> located \<and>
                           list_all (\<lambda>x. js_lower (symbol_resolved x) \<notin> located) referents) found))))
         | _ \<Rightarrow> Inr [])"

section \<open>Dividing the files both sides name\<close>

record held_file =
  held_path :: string
  held_ranges :: "line_range list"
  held_symbols :: "deferred_resource list"

definition withheldSymbolsFor ::
  "controller \<Rightarrow> string \<Rightarrow> named_range list \<Rightarrow> deferred_resource \<Rightarrow> deferred_resource list" where
  "withheldSymbolsFor ctl file spans contest =
     map (\<lambda>(name, ls).
            (withheld_resource Symbol name (heldBy contest)
               (''held inside '' @ file @ '' by '' @ joined '', '' (heldBy contest) @
                '', which is the only part of that file being withheld: '' @ deferred_reason contest))
            \<lparr>locations := Some ls\<rparr>)
       (sort_key (\<lambda>e. ctl_collate ctl (fst e))
         (foldl place_span [] (map (\<lambda>(name, r). (name, location_of file r)) spans)))"

text \<open>
  The spans every holder of a file is found to hold in it, and whether any of them was only declared;
  nothing as soon as one holder's part is unknown.
\<close>

fun holder_spans ::
  "(string \<Rightarrow> path_error + (named_range list \<times> bool) option) \<Rightarrow> string list
   \<Rightarrow> path_error + ((string \<times> named_range list) list \<times> bool) option"
where
  "holder_spans f [] = Inr (Some ([], False))"
| "holder_spans f (h # hs) =
     res_bind (f h) (\<lambda>r. case r of
         None \<Rightarrow> Inr None
       | Some (spans, guess) \<Rightarrow>
           res_bind (holder_spans f hs) (\<lambda>rest.
             Inr (map_option (\<lambda>(held, guesses). ((h, spans) # held, guess \<or> guesses)) rest)))"

text \<open>A part of nothing is as good as unknown.\<close>

definition some_spans :: "bool \<Rightarrow> named_range list option \<Rightarrow> (named_range list \<times> bool) option" where
  "some_spans guess spans =
     (case spans of None \<Rightarrow> None | Some [] \<Rightarrow> None | Some ss \<Rightarrow> Some (ss, guess))"

definition active_plan_for :: "admission_input \<Rightarrow> string \<Rightarrow> active_plan option" where
  "active_plan_for input holder = find (\<lambda>e. active_task e = holder) (active input)"

definition reached_or_declared ::
  "controller \<Rightarrow> admission_input \<Rightarrow> bool \<Rightarrow> string \<Rightarrow> string \<Rightarrow> path_error + (named_range list \<times> bool) option" where
  "reached_or_declared ctl input shareDeclared file holder =
     (case active_plan_for input holder of
        None \<Rightarrow> Inr None
      | Some e \<Rightarrow>
          res_bind (occupiedSpans (running e) file (symbolRangesInFile input)) (\<lambda>reached.
            case (reached, symbolRangesInFile input) of
              (Some ss, _) \<Rightarrow> Inr (some_spans False (Some ss))
            | (None, None) \<Rightarrow> Inr None
            | (None, Some look) \<Rightarrow>
                if \<not> shareDeclared \<or> declared_symbols (running e) = [] then Inr None
                else
                  res_bind (claimOccupiesPath (running e) file) (\<lambda>all_of_it.
                    if all_of_it then Inr None
                    else res_bind (declaredSpans (ctl_lemmatizer ctl) (running e) file look)
                           (\<lambda>spans. Inr (some_spans True spans)))))"

record partition =
  part_lost :: "deferred_resource list"
  part_shared :: "held_file list"
  part_occupied :: "(string \<times> span_map) list"

definition occupy :: "string \<Rightarrow> (string \<times> span_map) list \<Rightarrow> string \<times> named_range list \<Rightarrow> (string \<times> span_map) list" where
  "occupy file m = (\<lambda>(holder, spans).
     AList.update holder
       (AList.update file (normalizeRanges (map snd spans)) (or_empty (map_of m holder))) m)"

definition lose :: "deferred_resource \<Rightarrow> partition \<Rightarrow> partition" where
  "lose e s = s\<lparr>part_lost := part_lost s @ [e]\<rparr>"

definition share ::
  "controller \<Rightarrow> deferred_resource \<Rightarrow> (string \<times> named_range list) list \<Rightarrow> line_range list \<Rightarrow> partition \<Rightarrow> partition" where
  "share ctl e held ranges s =
     s\<lparr>part_shared := part_shared s @
          [\<lparr>held_path = resourceId e, held_ranges = ranges,
            held_symbols = withheldSymbolsFor ctl (resourceId e) (concat (map snd held)) e\<rparr>],
       part_occupied := foldl (occupy (resourceId e)) (part_occupied s) held\<rparr>"

definition misnamed_files :: "agent_plan \<Rightarrow> string list" where
  "misnamed_files p = (case grounding p of None \<Rightarrow> [] | Some g \<Rightarrow> map file_declared (fileReferents g))"

definition settle_part ::
  "controller \<Rightarrow> admission_input \<Rightarrow> deferred_resource \<Rightarrow> (string \<times> named_range list) list \<Rightarrow> bool \<Rightarrow> partition
   \<Rightarrow> partition"
where
  "settle_part ctl input e held guessed s =
     (let spans = map snd (concat (map snd held));
          placed = (case symbolRangesInFile input of None \<Rightarrow> [] | Some look \<Rightarrow> or_empty (look (resourceId e)));
          tail = (if guessed \<and> 0 < known_end placed
                  then [\<lparr>startLine = known_end placed + 1, endLine = max_safe_integer\<rparr>] else [])
      in if heldBy e = [] \<or> spans = [] then lose e s
         else if guessed \<and> \<not> leavesGround placed (normalizeRanges spans) then lose e s
         else share ctl e held (normalizeRanges (spans @ tail)) s)"

definition partition_entry ::
  "controller \<Rightarrow> admission_input \<Rightarrow> bool \<Rightarrow> string list \<Rightarrow> partition \<Rightarrow> deferred_resource \<Rightarrow> path_error + partition" where
  "partition_entry ctl input shareDeclared own_files s e =
     (let file = resourceId e
      in if file \<notin> set own_files \<or> file \<in> set (misnamed_files (candidate_plan input)) then Inr (lose e s)
         else
           res_bind (holder_spans (reached_or_declared ctl input shareDeclared file) (heldBy e)) (\<lambda>found.
             Inr (case found of
                    None \<Rightarrow> lose e s
                  | Some (held, guessed) \<Rightarrow> settle_part ctl input e held guessed s)))"

definition empty_partition :: partition where
  "empty_partition = \<lparr>part_lost = [], part_shared = [], part_occupied = []\<rparr>"

definition partitionContested ::
  "controller \<Rightarrow> admission_input \<Rightarrow> deferred_resource list \<Rightarrow> bool \<Rightarrow> path_error + partition" where
  "partitionContested ctl input found shareDeclared =
     res_bind (uniqueRepositoryPaths (expectedFiles (candidate_plan input))) (\<lambda>own_files.
       res_foldl (partition_entry ctl input shareDeclared own_files) empty_partition found)"

text \<open>The loop of \<open>admitWithinFiles\<close>. What an undividable file noted in \<open>occupied\<close> is deleted again.\<close>

definition declared_by_holder ::
  "controller \<Rightarrow> admission_input \<Rightarrow> (string \<Rightarrow> named_range list option) \<Rightarrow> string \<Rightarrow> string
   \<Rightarrow> path_error + (named_range list \<times> bool) option"
where
  "declared_by_holder ctl input look file holder =
     (case active_plan_for input holder of
        None \<Rightarrow> Inr None
      | Some e \<Rightarrow>
          res_bind (claimOccupiesPath (running e) file) (\<lambda>all_of_it.
            if all_of_it then Inr None
            else res_bind (declaredSpans (ctl_lemmatizer ctl) (running e) file look)
                   (\<lambda>spans. Inr (some_spans True spans))))"

definition within_entry ::
  "controller \<Rightarrow> admission_input \<Rightarrow> (string \<Rightarrow> named_range list option) \<Rightarrow> string list \<Rightarrow> partition
   \<Rightarrow> deferred_resource \<Rightarrow> path_error + partition"
where
  "within_entry ctl input look readable s e =
     (let file = resourceId e
      in if file \<notin> set readable \<or> file \<in> set (misnamed_files (candidate_plan input)) \<or> heldBy e = []
         then Inr (lose e s)
         else
           res_bind (holder_spans (declared_by_holder ctl input look file) (heldBy e)) (\<lambda>found. Inr
             (case found of
                None \<Rightarrow> lose e s
              | Some (held, _) \<Rightarrow>
                  (let ranges = normalizeRanges (map snd (concat (map snd held)))
                   in if leavesGround (or_empty (look file)) ranges then share ctl e held ranges s else lose e s))))"

section \<open>Admitting a part\<close>

definition reduced_by :: "agent_plan \<Rightarrow> deferred_resource list \<Rightarrow> plan_error + agent_plan" where
  "reduced_by p withheld = reducePlanScope p (map plan_resource.truncate withheld)"

definition partiallyAdmitted ::
  "full_admission \<Rightarrow> full_admission \<Rightarrow> deferred_resource list \<Rightarrow> full_admission" where
  "partiallyAdmitted whole part withheld =
     part\<lparr>admission_status := ApprovedWithConstraints, blockedBy := [], deferredResources := Some withheld,
          admission_conflicts := admission_conflicts part @ filter structuralConflict (admission_conflicts whole)\<rparr>"

definition shared_map :: "held_file list \<Rightarrow> span_map" where
  "shared_map shared = foldl (\<lambda>m f. AList.update (held_path f) (held_ranges f) m) [] shared"

text \<open>
  The end of both divisions: the plan less what is withheld is decided; if it is still refused, the
  symbols it collides on are withheld as well and it is decided once more.
\<close>

definition divide_plan ::
  "controller \<Rightarrow> admission_input \<Rightarrow> full_admission \<Rightarrow> file_occupancy \<Rightarrow> deferred_resource list \<Rightarrow> agent_plan
   \<Rightarrow> full_admission \<Rightarrow> plan_error + full_admission option"
where
  "divide_plan ctl input whole occ withheld reduced part =
     (if planAdmissionApproved part then
        Inr (if withheld = [] then None else Some (partiallyAdmitted whole part withheld))
      else
        res_bind (lift_path (contestedSymbols ctl input reduced occ)) (\<lambda>symbols.
          if symbols = [] then Inr None
          else
            res_bind (reduced_by (candidate_plan input) (withheld @ symbols)) (\<lambda>smaller.
              if expectedFiles smaller = [] then Inr None
              else
                res_bind (lift_path (decide ctl input smaller occ True)) (\<lambda>again.
                  Inr (if planAdmissionApproved again
                       then Some (partiallyAdmitted whole again (withheld @ symbols)) else None)))))"

definition lost_resources ::
  "controller \<Rightarrow> admission_input \<Rightarrow> partition \<Rightarrow> plan_error + deferred_resource list" where
  "lost_resources ctl input s =
     (if part_lost s = [] then Inr (concat (map held_symbols (part_shared s)))
      else
        res_bind (lift_path (carriedSymbols ctl input (part_lost s) (occupancy_of input [] []))) (\<lambda>carried.
          Inr (part_lost s @ derivedFrom ctl input (part_lost s) @ carried @
               concat (map held_symbols (part_shared s)))))"

definition admitWithinFiles ::
  "controller \<Rightarrow> admission_input \<Rightarrow> full_admission \<Rightarrow> deferred_resource list \<Rightarrow> plan_error + full_admission option"
where
  "admitWithinFiles ctl input whole found =
     (case symbolRangesInFile input of
        None \<Rightarrow> Inr None
      | Some look \<Rightarrow>
          if found = [] then Inr None
          else
            res_bind (lift_path (uniqueRepositoryPaths (expectedFiles (candidate_plan input)))) (\<lambda>granted.
              let readable = filter (\<lambda>f. look f \<noteq> None) granted
              in if readable = [] then Inr None
                 else
                   res_bind (lift_path (res_foldl (within_entry ctl input look readable) empty_partition found)) (\<lambda>s.
                     if part_shared s = [] then Inr None
                     else
                       (let occ = occupancy_of input (shared_map (part_shared s)) (part_occupied s)
                        in res_bind (lost_resources ctl input s) (\<lambda>withheld.
                             if withheld = [] then Inr None
                             else
                               res_bind (reduced_by (candidate_plan input) withheld) (\<lambda>reduced.
                                 if expectedFiles reduced = [] then Inr None
                                 else
                                   res_bind (lift_path (decide ctl input reduced occ True)) (\<lambda>part.
                                     divide_plan ctl input whole occ withheld reduced part)))))))"

definition admitPartially ::
  "controller \<Rightarrow> admission_input \<Rightarrow> full_admission \<Rightarrow> plan_error + full_admission option" where
  "admitPartially ctl input whole =
     res_bind (lift_path (contestedFiles ctl input (occupancy_of input [] []))) (\<lambda>found.
     res_bind (lift_path (uniqueRepositoryPaths (expectedFiles (candidate_plan input)))) (\<lambda>files.
       let free = filter (\<lambda>f. \<not> list_ex (\<lambda>e. resourceId e = f) found) files
       in res_bind (lift_path (partitionContested ctl input found (free \<noteq> []))) (\<lambda>s.
          let occ = occupancy_of input (shared_map (part_shared s)) (part_occupied s)
          in res_bind (lost_resources ctl input s) (\<lambda>withheld.
             res_bind (if withheld = [] then Inr (candidate_plan input)
                       else reduced_by (candidate_plan input) withheld) (\<lambda>reduced.
               if expectedFiles reduced = [] then admitWithinFiles ctl input whole found
               else
                 res_bind (if withheld = [] then Inr whole else lift_path (decide ctl input reduced occ True))
                   (\<lambda>part. divide_plan ctl input whole occ withheld reduced part))))))"

text \<open>The first assessment of each pair of tasks.\<close>

fun first_assessments :: "string list \<Rightarrow> conflict_assessment list \<Rightarrow> conflict_assessment list" where
  "first_assessments seen [] = []"
| "first_assessments seen (a # as) =
     (let key = fst (assessed_tasks a) @ CHR 0x00 # snd (assessed_tasks a)
      in if key \<in> set seen then first_assessments seen as else a # first_assessments (key # seen) as)"

definition admitDeclaredPaths ::
  "controller \<Rightarrow> admission_input \<Rightarrow> full_admission \<Rightarrow> plan_error + full_admission option" where
  "admitDeclaredPaths ctl input whole =
     (let occ = occupancy_of input [] []
      in res_bind (lift_path (contestedFiles ctl input occ)) (\<lambda>found.
           if found = [] then Inr None
           else
             (let withheld = found @ derivedFrom ctl input found
              in res_bind (reduced_by (candidate_plan input) withheld) (\<lambda>reduced.
                   if expectedFiles reduced = [] then Inr None
                   else
                     res_bind (lift_path (decide ctl input reduced occ True)) (\<lambda>part.
                       if \<not> planAdmissionApproved part then Inr None
                       else
                         res_bind (lift_path (decide ctl input (candidate_plan input) occ True)) (\<lambda>structural.
                           Inr (Some (part\<lparr>admission_status := ApprovedWithConstraints, blockedBy := [],
                             deferredResources := Some withheld,
                             admission_conflicts := first_assessments []
                               (admission_conflicts part @
                                filter structuralConflict (admission_conflicts structural) @
                                filter structuralConflict (admission_conflicts whole))\<rparr>))))))))"

section \<open>Admission\<close>

definition claimBlocked :: "controller \<Rightarrow> admission_input \<Rightarrow> path_error + full_admission option" where
  "claimBlocked ctl input =
     (let p = candidate_plan input;
          others = others_of input (taskId p)
      in if others = [] then Inr None
         else
           res_bind (arbitrationFiles p) (\<lambda>wanted.
           res_bind (res_filter (\<lambda>e. if isBlanketClaim (running e) then Inr True
                                    else res_exists (claimOccupiesPath (running e)) wanted) others) (\<lambda>blocking.
             Inr (if blocking = [] then None
                  else Some (answer ctl input (taskId p) Sequenced [] (sort (map active_task blocking)) []
                               (Some (or_else (retry_after input) DEFAULT_PLAN_RETRY_MS)))))))"

definition admit :: "controller \<Rightarrow> admission_input \<Rightarrow> plan_error + full_admission" where
  "admit ctl input =
     (let p = candidate_plan input;
          blanketClaimed = list_ex (\<lambda>e. isBlanketClaim (running e)) (others_of input (taskId p))
      in res_bind (lift_path (claimBlocked ctl input)) (\<lambda>claimed.
           if claimed \<noteq> None \<and> blanketClaimed then Inr (the claimed)
           else
             res_bind (case claimed of
                         Some c \<Rightarrow> Inr c
                       | None \<Rightarrow> lift_path (decide ctl input p (occupancy_of input [] []) False)) (\<lambda>whole.
               if planAdmissionApproved whole \<or> partialAdmission input = Some False \<and> claimed = None
               then Inr whole
               else
                 res_bind (if planGroundingConfidence p = Ungrounded
                           then admitDeclaredPaths ctl input whole else admitPartially ctl input whole)
                   (\<lambda>split. Inr (case split of None \<Rightarrow> whole | Some a \<Rightarrow> a)))))"

end
