(* ===== verification/Conflict_Laws.thy ===== *)
theory Conflict_Laws
  imports Conflict_Detector
begin

text \<open>
  What an assessment rests on: the resources two plans both name, without regard to case and to who
  is asked first. Evidence from intents never reaches the part of an assessment that schedules.
\<close>

section \<open>Overlap does not depend on the order\<close>

lemma lower_space [simp]: "is_js_space (lower_char c) = is_js_space c"
  by (auto simp: is_js_space_def lower_char_def Let_def)

lemma js_trim_Nil_iff: "js_trim s = [] \<longleftrightarrow> list_all is_js_space s"
  by (auto simp: js_trim_def list_all_iff dropWhile_eq_Nil_conv dest: set_dropWhileD)
     (metis dropWhile_eq_Nil_conv in_set_conv_decomp set_dropWhileD takeWhile_dropWhile_id Un_iff set_append set_takeWhileD)

lemma js_trim_lower_Nil: "js_trim (js_lower s) = [] \<longleftrightarrow> js_trim s = []"
  by (simp add: js_trim_Nil_iff js_lower_def list_all_iff)

lemma uniqueStrings_Nil_iff: "uniqueStrings vs = [] \<longleftrightarrow> (\<forall>v \<in> set vs. js_trim v = [])"
  by (auto simp: uniqueStrings_def filter_empty_conv)

definition shares :: "string list \<Rightarrow> string list \<Rightarrow> bool" where
  "shares xs ys \<longleftrightarrow> (\<exists>x \<in> set xs. \<exists>y \<in> set ys. js_lower x = js_lower y \<and> js_trim x \<noteq> [])"

lemma overlap_Nil_iff: "overlap xs ys = [] \<longleftrightarrow> \<not> shares xs ys"
  by (fastforce simp: overlap_def shares_def uniqueStrings_Nil_iff)

lemma shares_commute: "shares xs ys \<longleftrightarrow> shares ys xs"
proof -
  have turn: "shares bs as" if sh: "shares as bs" for as bs :: "string list"
  proof -
    obtain x y where "x \<in> set as" "y \<in> set bs" "js_lower x = js_lower y" "js_trim x \<noteq> []"
      using sh unfolding shares_def by blast
    moreover from this have "js_trim y \<noteq> []" using js_trim_lower_Nil by metis
    ultimately show ?thesis unfolding shares_def by (intro bexI [of _ y] bexI [of _ x]) simp_all
  qed
  show ?thesis using turn [of xs ys] turn [of ys xs] by (rule iffI)
qed

definition needs :: "agent_plan \<Rightarrow> agent_plan \<Rightarrow> bool" where
  "needs p q \<longleftrightarrow> (\<exists>v \<in> set (asDeclared p decl_dependencies (Some (dependencies p))).
     js_lower v \<in> set (resourceNames q) \<and> js_trim v \<noteq> [])"

lemma service_not_blank: "js_trim (''service:'' @ v) \<noteq> []"
  by (simp add: js_trim_Nil_iff is_js_space_def)

lemma dependencyImpact_Nil_iff:
  "dependencyImpact p q = [] \<longleftrightarrow>
     \<not> needs (completeAgentPlan p) (completeAgentPlan q) \<and> \<not> needs (completeAgentPlan q) (completeAgentPlan p) \<and>
     \<not> shares (asDeclared (completeAgentPlan p) decl_services (expectedServices (completeAgentPlan p)))
         (asDeclared (completeAgentPlan q) decl_services (expectedServices (completeAgentPlan q)))"
  unfolding dependencyImpact_def Let_def uniqueStrings_Nil_iff overlap_Nil_iff [symmetric] needs_def
  by (auto simp del: append.simps simp: service_not_blank ball_Un)

section \<open>The structural part\<close>

lemma weighed_eq_None_iff: "weighed kind rs tasks w note = None \<longleftrightarrow> rs = [] \<or> w \<le> 0"
  by (auto simp: weighed_def evidence_def mult_le_0_iff)

lemma weighed_SomeD:
  "weighed kind rs tasks w note = Some e \<Longrightarrow>
     \<not> advisory e \<and> 0 < evidence_score e \<and> evidence_kind e = kind \<and> evidence_tasks e = tasks \<and>
     evidence_resources e = rs \<and> rs \<noteq> []"
  by (auto simp: weighed_def evidence_def advisory_def split: if_splits)

lemma structural_item:
  assumes "Some e \<in> set (structural_items opts left right files)"
  shows "\<not> advisory e \<and> 0 < evidence_score e \<and> evidence_kind e \<noteq> IntentIndependent \<and>
    evidence_tasks e = (taskId left, taskId right)"
proof -
  have "\<exists>kind rs w note. weighed kind rs (taskId left, taskId right) w note = Some e \<and> kind \<noteq> IntentIndependent"
    using assms unfolding structural_items_def Let_def list.set insert_iff
    by (metis empty_iff evidence_kind.distinct(15,29,41,51,59,65,69))
  then show ?thesis using weighed_SomeD by metis
qed

lemma intent_item:
  "Some e \<in> set (intent_items opts tasks verdict) \<Longrightarrow> advisory e \<and> 0 \<le> evidence_score e"
  by (auto simp: intent_items_def Let_def evidence_def advisory_def split: if_splits option.splits)

definition structural_part ::
  "conflict_options \<Rightarrow> agent_plan \<Rightarrow> agent_plan \<Rightarrow> string list \<Rightarrow> conflict_evidence list" where
  "structural_part opts left right files = List.map_filter id (structural_items opts left right files)"

lemma structural_part_member:
  "e \<in> set (structural_part opts left right files) \<Longrightarrow> Some e \<in> set (structural_items opts left right files)"
  by (auto simp: structural_part_def map_filter_def)

lemma structural_part_Nil_iff:
  "structural_part opts left right files = [] \<longleftrightarrow> set (structural_items opts left right files) \<subseteq> {None}"
  by (auto simp: structural_part_def map_filter_def filter_empty_conv)

lemma items_split:
  "List.map_filter id (structural_items opts left right files @ intent_items opts tasks verdict) =
     structural_part opts left right files @ List.map_filter id (intent_items opts tasks verdict)"
  by (simp add: structural_part_def map_filter_def)

lemma filter_structural:
  "filter (\<lambda>e. \<not> advisory e) (structural_part opts left right files @ List.map_filter id (intent_items opts tasks verdict)) =
     structural_part opts left right files"
proof -
  have "filter (\<lambda>e. \<not> advisory e) (structural_part opts left right files) = structural_part opts left right files"
    by (intro filter_True) (blast dest: structural_part_member structural_item)
  moreover have "filter (\<lambda>e. \<not> advisory e) (List.map_filter id (intent_items opts tasks verdict)) = []"
    by (auto simp: filter_empty_conv map_filter_def dest: intent_item)
  ultimately show ?thesis by simp
qed

definition structural_score :: "conflict_evidence list \<Rightarrow> rat" where
  "structural_score es = min 100 (sum_list (map evidence_score es))"

lemma scheduling_sum:
  "sum_list (map (\<lambda>e. if advisory e then 0 else evidence_score e) es) =
     sum_list (map evidence_score (filter (\<lambda>e. \<not> advisory e) es))"
  by (induction es) simp_all

section \<open>What is scheduled\<close>

text \<open>An assessment as the scheduler reads it: a notification is no reason to wait.\<close>

fun schedule_of :: "conflict_disposition \<Rightarrow> conflict_disposition" where
  "schedule_of ConcurrentWithNotification = Concurrent"
| "schedule_of d = d"

definition scheduling :: "conflict_assessment option \<Rightarrow> conflict_disposition \<times> conflict_evidence list" where
  "scheduling r =
     (case r of None \<Rightarrow> (Concurrent, [])
      | Some a \<Rightarrow> (schedule_of (disposition a), filter (\<lambda>e. \<not> advisory e) (assessed_evidence a)))"

lemma assess_Inr:
  assumes "assess opts occ f first second = Inr r"
  obtains files where "overlappingFiles (completeAgentPlan first) (completeAgentPlan second) occ = Inr files"
    "r = summarise opts (taskId first, taskId second)
       (structural_part opts (completeAgentPlan first) (completeAgentPlan second) files @
        List.map_filter id (intent_items opts (taskId first, taskId second)
          (case f of None \<Rightarrow> analyzeIntent (completeAgentPlan first) (completeAgentPlan second)
           | Some g \<Rightarrow> g (completeAgentPlan first) (completeAgentPlan second))))"
  using assms unfolding assess_def Let_def res_bind_eq_Inr_conv items_split by auto

lemma schedule_of_raised [simp]:
  "schedule_of (if b \<and> d = Concurrent then ConcurrentWithNotification else d) = schedule_of d"
  by auto

lemma dispositionFor_zero: "0 \<le> concurrentMaximum t \<Longrightarrow> dispositionFor 0 t = Concurrent"
  by (simp add: dispositionFor_def)

lemma scheduling_summarise:
  assumes "filter (\<lambda>e. \<not> advisory e) items = es" and "0 \<le> concurrentMaximum (thresholds opts)"
    and "\<And>e. e \<in> set es \<Longrightarrow> evidence_kind e \<noteq> IntentIndependent"
  shows "scheduling (summarise opts tasks items) =
    (schedule_of (dispositionFor (structural_score es) (thresholds opts)), es)"
proof (cases "filter (\<lambda>e. evidence_kind e \<noteq> IntentIndependent) items = []")
  case True
  have "evidence_kind e = IntentIndependent" if "e \<in> set es" for e
    using that True assms(1) by (auto simp: filter_empty_conv)
  then have "es = []" using assms(3) by (metis list.set_intros(1) neq_Nil_conv)
  then show ?thesis
    using True assms(2) by (simp add: scheduling_def summarise_def structural_score_def dispositionFor_zero)
next
  case False
  define found where "found = dispositionFor (structural_score es) (thresholds opts)"
  have "min 100 (sum_list (map (\<lambda>e. if advisory e then 0 else evidence_score e) items)) = structural_score es"
    unfolding scheduling_sum assms(1) by (simp add: structural_score_def)
  then show ?thesis using False assms(1)
    by (simp add: scheduling_def summarise_def Let_def found_def [symmetric])
qed

lemma structuralConflict_summarise:
  assumes "filter (\<lambda>e. \<not> advisory e) items = es"
    and "\<And>e. e \<in> set es \<Longrightarrow> 0 < evidence_score e \<and> evidence_kind e \<noteq> IntentIndependent"
  shows "(case summarise opts tasks items of None \<Rightarrow> False | Some a \<Rightarrow> structuralConflict a) \<longleftrightarrow> es \<noteq> []"
proof -
  have es: "set es = {e \<in> set items. \<not> advisory e}" using assms(1) by auto
  show ?thesis
  proof (cases "filter (\<lambda>e. evidence_kind e \<noteq> IntentIndependent) items = []")
    case True
    then have "evidence_kind e = IntentIndependent" if "e \<in> set es" for e
      using that es by (auto simp: filter_empty_conv)
    then have "es = []" using assms(2) by (metis list.set_intros(1) neq_Nil_conv)
    then show ?thesis using True by (simp add: summarise_def)
  next
    case False
    then have "(case summarise opts tasks items of None \<Rightarrow> False | Some a \<Rightarrow> structuralConflict a) \<longleftrightarrow>
        (\<exists>e \<in> set items. \<not> advisory e \<and> 0 < evidence_score e)"
      by (simp add: summarise_def structuralConflict_def Let_def list_ex_iff)
    also have "\<dots> \<longleftrightarrow> (\<exists>e. e \<in> set es)" using assms(2) es by blast
    finally show ?thesis by (metis ex_in_conv set_empty)
  qed
qed

lemma structural_assess:
  assumes "assess opts occ f first second = Inr r"
    and "overlappingFiles (completeAgentPlan first) (completeAgentPlan second) occ = Inr files"
  shows "(case r of None \<Rightarrow> False | Some a \<Rightarrow> structuralConflict a) \<longleftrightarrow>
    structural_part opts (completeAgentPlan first) (completeAgentPlan second) files \<noteq> []"
proof -
  obtain items where r: "r = summarise opts (taskId first, taskId second) items"
    and items: "filter (\<lambda>e. \<not> advisory e) items =
      structural_part opts (completeAgentPlan first) (completeAgentPlan second) files"
    using assess_Inr [OF assms(1)] assms(2) filter_structural by (metis sum.inject(2))
  show ?thesis unfolding r
    by (rule structuralConflict_summarise [OF items]) (blast dest: structural_part_member structural_item)
qed

section \<open>Who is asked first does not matter\<close>

lemma structural_items_None:
  "set (structural_items opts left right files) \<subseteq> {None} \<longleftrightarrow>
     (files = [] \<or> fileOverlapWeight opts \<le> 0) \<and>
     (\<not> shares (arbitrationSymbols left) (arbitrationSymbols right) \<or> symbolOverlapWeight opts \<le> 0) \<and>
     (dependencyImpact left right = [] \<or> dependencyImpactWeight opts \<le> 0) \<and>
     (\<not> shares (asDeclared left decl_apis (expectedApis left)) (asDeclared right decl_apis (expectedApis right))
       \<or> apiOverlapWeight opts \<le> 0) \<and>
     (\<not> shares (asDeclared left decl_schemas (expectedSchemas left)) (asDeclared right decl_schemas (expectedSchemas right))
       \<or> schemaOverlapWeight opts \<le> 0) \<and>
     (\<not> shares (asDeclared left decl_configKeys (expectedConfigKeys left)) (asDeclared right decl_configKeys (expectedConfigKeys right))
       \<or> configurationOverlapWeight opts \<le> 0) \<and>
     (\<not> shares (asDeclared left decl_tests (expectedTests left)) (asDeclared right decl_tests (expectedTests right))
       \<or> testOverlapWeight opts \<le> 0)"
  by (simp add: structural_items_def Let_def weighed_eq_None_iff declared_overlap_def overlap_Nil_iff)

lemma dependencyImpact_commute: "dependencyImpact p q = [] \<longleftrightarrow> dependencyImpact q p = []"
  unfolding dependencyImpact_Nil_iff using shares_commute by blast

lemma structural_part_commute:
  assumes "files = [] \<longleftrightarrow> files' = []"
  shows "structural_part opts p q files = [] \<longleftrightarrow> structural_part opts q p files' = []"
  unfolding structural_part_Nil_iff structural_items_None
  using assms dependencyImpact_commute shares_commute by (smt (verit, best))

lemma overlappingFiles_commute:
  assumes "overlappingFiles p q None = Inr files" and "overlappingFiles q p None = Inr files'"
  shows "files = [] \<longleftrightarrow> files' = []"
  using assms by (auto simp: overlappingFiles_def res_bind_eq_Inr_conv overlap_Nil_iff shares_commute)

lemma overlappingFiles_swap:
  "overlappingFiles p q None = Inr files \<Longrightarrow> \<exists>files'. overlappingFiles q p None = Inr files'"
  by (auto simp: overlappingFiles_def res_bind_eq_Inr_conv)

lemma conflictsForScheduling_swap:
  assumes "conflictsForScheduling opts None first second = Inr v"
  shows "conflictsForScheduling opts None second first = Inr v"
proof -
  let ?p = "completeAgentPlan first" and ?q = "completeAgentPlan second"
  obtain r where r: "assess opts None None first second = Inr r" "v = (case r of None \<Rightarrow> False | Some b \<Rightarrow> structuralConflict b)"
    using assms by (auto simp: conflictsForScheduling_def res_bind_eq_Inr_conv)
  obtain files where f: "overlappingFiles ?p ?q None = Inr files" using assess_Inr [OF r(1)] by metis
  obtain files' where f': "overlappingFiles ?q ?p None = Inr files'" using overlappingFiles_swap [OF f] by blast
  then obtain s where s: "assess opts None None second first = Inr s" by (simp add: assess_def Let_def)
  have "structural_part opts ?p ?q files = [] \<longleftrightarrow> structural_part opts ?q ?p files' = []"
    by (rule structural_part_commute [OF overlappingFiles_commute [OF f f']])
  then show ?thesis
    using r(2) structural_assess [OF r(1) f] structural_assess [OF s f'] by (simp add: conflictsForScheduling_def s)
qed

end
