(* ===== verification/Admission_Laws.thy ===== *)
theory Admission_Laws
  imports Plan_Splitting Conflict_Laws
begin

text \<open>
  What an answer of the admission controller means: an approved plan has no structural conflict with
  any plan that is executing, takes leases nobody else's lease blocks, and what a holder was narrowed
  to is withheld from it line by line; a refused plan is told whom to wait for.
\<close>

section \<open>Leases of the executing plans\<close>

definition all_leases :: "(resource_lease \<Rightarrow> bool) \<Rightarrow> lease_table \<Rightarrow> bool" where
  "all_leases P table \<longleftrightarrow> (\<forall>(k, ls) \<in> set table. \<forall>l \<in> set ls. P l)"

lemma all_leases_Nil [simp]: "all_leases P []"
  by (simp add: all_leases_def)

lemma all_leases_held: "all_leases P table \<Longrightarrow> l \<in> set (held_on table k) \<Longrightarrow> P l"
  by (cases "map_of table k") (auto simp: held_on_def all_leases_def dest!: map_of_SomeD)

lemma all_leases_retain: "all_leases P table \<Longrightarrow> all_leases P (retain_leases keep table)"
  by (auto simp: all_leases_def retain_leases_def)

lemma all_leases_add:
  assumes "all_leases P table" and "P l"
  shows "all_leases P (add_lease table l)"
proof -
  let ?k = "lease_key (lease_type l) (lease_resource l)"
  have "set (add_lease table l) \<subseteq> insert (?k, held_on table ?k @ [l]) (set table)"
    unfolding add_lease_def Let_def by (rule set_update_subset)
  then show ?thesis using assms all_leases_held [OF assms(1)] by (fastforce simp: all_leases_def)
qed

lemma all_leases_adds: "all_leases P table \<Longrightarrow> \<forall>l \<in> set ls. P l \<Longrightarrow> all_leases P (foldl add_lease table ls)"
  by (induction ls arbitrary: table) (auto intro: all_leases_add)

lemma all_leases_acquire:
  assumes "all_leases P table" and "\<And>l. lease_task l = taskId p \<Longrightarrow> P l"
  shows "all_leases P (snd (acquire newId now ttl p who v cs approved table))"
proof -
  have t: "all_leases P (expireLeases now table)" using assms(1) by (simp add: expireLeases_def all_leases_retain)
  have "\<forall>l \<in> set (leases_for newId (now + ttl) p who v pending). P l" for pending
    using assms(2) by (auto dest!: leases_for_member simp: new_lease_def)
  then show ?thesis using t by (auto simp: acquire_cases Let_def all_leases_adds split: sum.splits)
qed

lemma seeded_leases:
  "all_leases (\<lambda>l. \<exists>e \<in> set others. lease_task l = taskId (running e)) (seededOwnership ctl input others occ)"
proof -
  let ?P = "\<lambda>l. \<exists>e \<in> set others. lease_task l = taskId (running e)"
  have step: "all_leases ?P (seed_plan ctl input occ table (n, e))" if t: "all_leases ?P table" and e: "e \<in> set others" for table n e
  proof (cases "fileClaims (running e) occ")
    case (Inr claims)
    have "all_leases ?P (snd (acquire (ctl_newId ctl n) (ctl_now ctl) (ctl_ttl ctl) (running e) (active_agent e)
        (base_version input) claims (approvedSchemaResources (running e)) table))"
      using e by (intro all_leases_acquire [OF t]) blast
    then show ?thesis by (simp add: seed_plan_def Inr)
  qed (simp add: seed_plan_def t)
  have "all_leases ?P (foldl (seed_plan ctl input occ) [] (enumerate 0 others))"
  proof (rule foldl_invariant)
    fix table x
    assume t: "all_leases ?P table" and x: "x \<in> set (enumerate 0 others)"
    obtain n e where ne: "x = (n, e)" by (cases x)
    then have "e \<in> set others" using x by (simp add: enumerate_eq_zip) (erule set_zip_rightD)
    then show "all_leases ?P (seed_plan ctl input occ table x)" using step [OF t] by (simp add: ne)
  qed simp
  then show ?thesis by (simp add: seededOwnership_def)
qed

section \<open>A plan that may run\<close>

text \<open>Each executing entry is listed under the task of its plan.\<close>

definition listed_by_task :: "admission_input \<Rightarrow> bool" where
  "listed_by_task input \<longleftrightarrow> (\<forall>e \<in> set (active input). active_task e = taskId (running e))"

definition held_table :: "controller \<Rightarrow> admission_input \<Rightarrow> agent_plan \<Rightarrow> file_occupancy \<Rightarrow> lease_table" where
  "held_table ctl input p occ =
     expireLeases (ctl_now ctl) (seededOwnership ctl input (others_of input (taskId p)) occ)"

definition structural_result :: "conflict_assessment option \<Rightarrow> bool" where
  "structural_result r = (case r of None \<Rightarrow> False | Some a \<Rightarrow> structuralConflict a)"

definition runs_beside ::
  "controller \<Rightarrow> admission_input \<Rightarrow> agent_plan \<Rightarrow> file_occupancy \<Rightarrow> resource_lease list \<Rightarrow> bool" where
  "runs_beside ctl input p occ grants \<longleftrightarrow>
     (\<forall>e \<in> set (others_of input (taskId p)).
        \<exists>r. assess (ctl_conflicts ctl) (Some occ) (intentAssessment input) p (running e) = Inr r \<and>
            \<not> structural_result r) \<and>
     (\<exists>claims. fileClaims p occ = Inr claims \<and>
        (\<forall>r \<in> set (resourcesForPlan p claims).
           \<not> blocked (held_table ctl input p occ) (taskId p) r \<and>
           (\<exists>l \<in> set grants. lease_type l = planned_type r \<and> lease_resource l = planned_id r \<and>
              lease_mode l = planned_mode r \<and> lease_task l = taskId p)))"

lemma not_listed:
  assumes "listed_by_task input"
  shows "\<not> holds (held_table ctl input p occ) (taskId p) k"
proof
  assume "holds (held_table ctl input p occ) (taskId p) k"
  then obtain l where l: "l \<in> set (held_on (held_table ctl input p occ) k)" "lease_task l = taskId p"
    by (auto simp: holds_def)
  have "all_leases (\<lambda>l. \<exists>e \<in> set (others_of input (taskId p)). lease_task l = taskId (running e))
      (held_table ctl input p occ)"
    unfolding held_table_def expireLeases_def by (intro all_leases_retain seeded_leases)
  then show False using all_leases_held [OF _ l(1)] l(2) assms by (fastforce simp: others_of_def listed_by_task_def)
qed

lemma fresh_acquire:
  assumes "fst (acquire newId now ttl p who v cs approved table) = Inr grants"
    and "\<And>k. \<not> holds (expireLeases now table) (taskId p) k" and "r \<in> set (resourcesForPlan p cs)"
  shows "\<not> blocked (expireLeases now table) (taskId p) r \<and>
    (\<exists>l \<in> set grants. lease_type l = planned_type r \<and> lease_resource l = planned_id r \<and>
       lease_mode l = planned_mode r \<and> lease_task l = taskId p)"
proof -
  let ?rs = "resourcesForPlan p cs"
  obtain pending where c: "check_resources (expireLeases now table) (taskId p) approved ?rs = Inr pending"
    and g: "grants = leases_for newId (now + ttl) p who v pending"
    using assms(1) by (auto simp: acquire_cases Let_def split: sum.splits)
  have all: "pending = ?rs" "\<forall>r \<in> set pending. \<not> blocked (expireLeases now table) (taskId p) r"
    using c assms(2) by (auto simp: check_resources_Inr)
  have "r \<in> set pending" using all(1) assms(3) by simp
  then obtain n where "n < length pending" "pending ! n = r" by (auto simp: in_set_conv_nth)
  then have "(n, r) \<in> set (enumerate 0 pending)" by (auto simp: in_set_enumerate_eq)
  then have "new_lease newId who (taskId p) v (now + ttl) n r \<in> set grants" unfolding g leases_for_def by force
  then show ?thesis using all(2) \<open>r \<in> set pending\<close>
    by (intro conjI bexI [of _ "new_lease newId who (taskId p) v (now + ttl) n r"]) (simp_all add: new_lease_def)
qed

section \<open>Cases of a decision\<close>

lemma answer_simps [simp]:
  "planAdmissionApproved (answer ctl input task s g b f r) \<longleftrightarrow> s = Approved \<or> s = ApprovedWithConstraints"
  "deferredResources (answer ctl input task s g b f r) = None"
  "ownershipGrants (answer ctl input task s g b f r) = g" "blockedBy (answer ctl input task s g b f r) = b"
  "admission_status (answer ctl input task s g b f r) = s"
  "admission_conflicts (answer ctl input task s g b f r) = f" "admitted_task (answer ctl input task s g b f r) = task"
  by (auto simp: answer_def planAdmissionApproved_def)

text \<open>An approved plan: no structural conflict, and every resource leased.\<close>

lemma settle_approved:
  assumes "settle_conflicts ctl input p occ found = Inr a" and "planAdmissionApproved a"
  shows "filter structuralConflict found = [] \<and>
    (\<exists>claims. fileClaims p occ = Inr claims \<and> take_leases ctl input p occ claims = Inr (ownershipGrants a)) \<and>
    deferredResources a = None \<and> admission_conflicts a = found"
proof -
  have none: "filter structuralConflict found = []"
    using assms by (auto simp: settle_conflicts_def Let_def split: if_splits)
  then have rest: "filter (\<lambda>a. \<not> structuralConflict a) found = found" by (simp add: filter_empty_conv)
  obtain claims where claims: "fileClaims p occ = Inr claims"
    using assms(1) none by (auto simp: settle_conflicts_def Let_def res_bind_eq_Inr_conv)
  then show ?thesis using assms none rest
    by (cases "take_leases ctl input p occ claims")
       (auto simp: settle_conflicts_def Let_def split: if_splits ownership_error.splits)
qed

lemma decide_approved:
  assumes "decide ctl input p occ reduced = Inr a" and "planAdmissionApproved a"
  shows "\<exists>found claims. assessed_others ctl input p occ = Inr found \<and> filter structuralConflict found = [] \<and>
    fileClaims p occ = Inr claims \<and> take_leases ctl input p occ claims = Inr (ownershipGrants a) \<and>
    deferredResources a = None \<and> admission_conflicts a = found"
proof -
  obtain found where "assessed_others ctl input p occ = Inr found" "settle_conflicts ctl input p occ found = Inr a"
    using assms by (auto simp: decide_def Let_def res_bind_eq_Inr_conv split: if_splits)
  then show ?thesis using settle_approved [OF _ assms(2)] by blast
qed

lemma decide_runs_beside:
  assumes "decide ctl input p occ reduced = Inr a" and "planAdmissionApproved a" and "listed_by_task input"
  shows "runs_beside ctl input p occ (ownershipGrants a)"
proof -
  obtain found claims where f: "assessed_others ctl input p occ = Inr found" "filter structuralConflict found = []"
    and c: "fileClaims p occ = Inr claims" "take_leases ctl input p occ claims = Inr (ownershipGrants a)"
    using decide_approved [OF assms(1,2)] by blast
  obtain rs where rs: "res_map (\<lambda>e. assess (ctl_conflicts ctl) (Some occ) (intentAssessment input) p (running e))
      (others_of input (taskId p)) = Inr rs" "found = List.map_filter id rs"
    using f(1) by (auto simp: assessed_others_def res_bind_eq_Inr_conv)
  have "\<not> structural_result r" if "r \<in> set rs" for r
    using f(2) that unfolding rs(2) by (auto simp: structural_result_def map_filter_def filter_empty_conv split: option.splits)
  then have "\<forall>e \<in> set (others_of input (taskId p)).
      \<exists>r. assess (ctl_conflicts ctl) (Some occ) (intentAssessment input) p (running e) = Inr r \<and> \<not> structural_result r"
    using res_map_member [OF rs(1)] by blast
  moreover have "\<not> blocked (held_table ctl input p occ) (taskId p) r \<and>
      (\<exists>l \<in> set (ownershipGrants a). lease_type l = planned_type r \<and> lease_resource l = planned_id r \<and>
         lease_mode l = planned_mode r \<and> lease_task l = taskId p)" if "r \<in> set (resourcesForPlan p claims)" for r
    using fresh_acquire [OF c(2) [unfolded take_leases_def] _ that] not_listed [OF assms(3), of ctl p occ]
    by (simp add: held_table_def)
  ultimately show ?thesis using c(1) unfolding runs_beside_def by blast
qed

section \<open>Contested resources are listed once\<close>

lemma distinct_map_insort_key:
  "distinct (map f (insort_key k x xs)) \<longleftrightarrow> f x \<notin> f ` set xs \<and> distinct (map f xs)"
  by (induction xs) (auto simp: set_insort_key)

lemma distinct_map_sort_key: "distinct (map f (sort_key k xs)) = distinct (map f xs)"
  by (induction xs) (auto simp: distinct_map_insort_key)

definition keyed :: "('e \<Rightarrow> string) \<Rightarrow> (string \<times> 'e) list \<Rightarrow> bool" where
  "keyed name m \<longleftrightarrow> distinct (map fst m) \<and> (\<forall>(k, e) \<in> set m. name e = k)"

lemma keyed_update:
  assumes "keyed name m" and "name e = k"
  shows "keyed name (AList.update k e m)"
  using assms distinct_update [of m k e] set_update_subset [of k e m] by (fastforce simp: keyed_def)

lemma keyed_names: "keyed name m \<Longrightarrow> map (name \<circ> snd) m = map fst m"
  by (auto simp: keyed_def)

lemma res_foldl_invariant:
  assumes "res_foldl f s xs = Inr t" and "P s"
    and "\<And>s x t. P s \<Longrightarrow> x \<in> set xs \<Longrightarrow> f s x = Inr t \<Longrightarrow> P t"
  shows "P t"
  using assms
proof (induction xs arbitrary: s)
  case (Cons x xs)
  from Cons.prems(1) obtain s' where s': "f s x = Inr s'" "res_foldl f s' xs = Inr t" by (auto simp: res_bind_eq_Inr_conv)
  have "P s'" by (rule Cons.prems(3) [OF Cons.prems(2) _ s'(1)]) simp
  then show ?case
  proof (rule Cons.IH [OF s'(2)])
    fix a y b assume "P a" "y \<in> set xs" "f a y = Inr b"
    then show "P b" by (intro Cons.prems(3) [of a y b]) simp_all
  qed
qed simp

lemma distinct_merge: "distinct (map fst m) \<Longrightarrow> distinct (map fst (foldl (merge_contest kind p) m noted))"
  by (rule foldl_invariant) (auto simp: merge_contest_def distinct_update split: option.splits prod.splits)

lemma contested_listed:
  assumes "contested ctl input p kind occ = Inr found"
  shows "distinct (map resourceId found) \<and> (\<forall>e \<in> set found. resourceType e = kind_type kind)"
proof -
  obtain m where m: "found = map (\<lambda>(i, holders, reasons).
      withheld_resource (kind_type kind) i (sort holders) (joined ''; '' (sort reasons)))
      (sort_key (\<lambda>e. ctl_collate ctl (fst e)) m)" and d: "distinct (map fst m)"
    using assms distinct_merge [of "[]" kind p] by (auto simp: contested_def Let_def res_bind_eq_Inr_conv)
  have "map resourceId found = map fst (sort_key (\<lambda>e. ctl_collate ctl (fst e)) m)"
    unfolding m map_map by (rule map_cong [OF refl]) (auto simp: withheld_resource_def)
  then show ?thesis using d by (auto simp: distinct_map_sort_key) (auto simp: m withheld_resource_def)
qed

lemma cover_file_keyed:
  assumes "cover_file task file m holder = Inr m'" and "keyed resourceId m"
  shows "keyed resourceId m'"
  using assms
  by (auto simp: cover_file_def res_bind_eq_Inr_conv Let_def withheld_resource_def
      split: option.splits if_splits intro!: keyed_update)

lemma contestedFiles_listed:
  assumes "contestedFiles ctl input occ = Inr found"
  shows "distinct (map resourceId found)"
proof -
  obtain files start byFile where
    c: "contested ctl input (candidate_plan input)
      \<lparr>kind_type = File, kind_evidence = FileOverlap, kind_declared = files\<rparr> occ = Inr start"
    and f: "res_foldl (\<lambda>m file. res_foldl (cover_file (taskId (candidate_plan input)) file) m (active input))
      (map (\<lambda>e. (resourceId e, e)) start) files = Inr byFile"
    and found: "found = sort_key (\<lambda>e. ctl_collate ctl (resourceId e)) (map snd byFile)"
    using assms by (auto simp: contestedFiles_def Let_def res_bind_eq_Inr_conv)
  have "keyed resourceId (map (\<lambda>e. (resourceId e, e)) start)"
    using contested_listed [OF c] by (auto simp: keyed_def comp_def)
  then have "keyed resourceId byFile"
    by (rule res_foldl_invariant [OF f]) (erule res_foldl_invariant, assumption, rule cover_file_keyed)
  then have "distinct (map resourceId (map snd byFile))"
    unfolding map_map by (subst keyed_names) (simp_all add: keyed_def)
  then show ?thesis unfolding found distinct_map_sort_key .
qed

section \<open>What a holder keeps is withheld\<close>

definition located :: "deferred_resource list \<Rightarrow> string \<Rightarrow> line_range list" where
  "located ds file =
     map location_lines (filter (\<lambda>l. location_file l = file) (concat (map (\<lambda>d. or_empty (locations d)) ds)))"

lemma meant_mono: "set rs \<subseteq> set ss \<Longrightarrow> meant rs \<subseteq> meant ss"
  by (auto simp: meant_def lines_of_def)

lemma located_mono: "set ds \<subseteq> set es \<Longrightarrow> set (located ds file) \<subseteq> set (located es file)"
  by (auto simp: located_def)

lemma placed_all:
  "set (concat (map snd (foldl place_span m xs))) = set (concat (map snd m)) \<union> snd ` set xs"
proof (induction xs arbitrary: m)
  case (Cons x xs)
  have "set (concat (map snd (AList.update k (or_empty (map_of m k) @ [l]) m))) =
      insert l (set (concat (map snd m)))" for k l
    by (induction m) auto
  then show ?case using Cons by (cases x) (auto simp: place_span_def)
qed simp

lemma withheld_located:
  "set (map snd spans) \<subseteq> set (located (withheldSymbolsFor ctl file spans e) file)"
proof -
  let ?m = "foldl place_span [] (map (\<lambda>(name, r). (name, location_of file r)) spans)"
  have "set (concat (map snd ?m)) = (\<lambda>(name, r). location_of file r) ` set spans"
    unfolding placed_all by (force simp: image_iff)
  then have "location_of file r \<in> set (concat (map snd ?m))" if "r \<in> snd ` set spans" for r
    using that by force
  moreover have "set (concat (map (\<lambda>d. or_empty (locations d)) (withheldSymbolsFor ctl file spans e))) =
      set (concat (map snd ?m))"
    by (simp add: withheldSymbolsFor_def image_image case_prod_beta)
  ultimately have l: "location_of file r \<in> set (concat (map (\<lambda>d. or_empty (locations d)) (withheldSymbolsFor ctl file spans e)))"
    if "r \<in> snd ` set spans" for r
    using that by blast
  show ?thesis
  proof
    fix r assume "r \<in> set (map snd spans)"
    then have "location_of file r \<in> set (filter (\<lambda>l. location_file l = file)
        (concat (map (\<lambda>d. or_empty (locations d)) (withheldSymbolsFor ctl file spans e))))"
      using l [of r] by (simp add: location_of_def)
    then have "location_lines (location_of file r) \<in> set (located (withheldSymbolsFor ctl file spans e) file)"
      unfolding located_def by (simp only: set_map) (rule imageI)
    then show "r \<in> set (located (withheldSymbolsFor ctl file spans e) file)" by (simp add: location_of_def)
  qed
qed

text \<open>
  Whatever a holder is taken to occupy of a file is ground the candidate is kept off, and is withheld
  from it by name and line.
\<close>

definition honest_division :: "span_map \<Rightarrow> (string \<times> span_map) list \<Rightarrow> deferred_resource list \<Rightarrow> bool" where
  "honest_division narrowed occupied ds \<longleftrightarrow>
     (\<forall>holder m file rs. map_of occupied holder = Some m \<longrightarrow> map_of m file = Some rs \<longrightarrow>
        (\<exists>ws. map_of narrowed file = Some ws \<and> lines_of rs \<subseteq> lines_of ws) \<and>
        lines_of rs \<subseteq> meant (located ds file))"

definition covers_part :: "held_file \<Rightarrow> string \<Rightarrow> line_range list \<Rightarrow> bool" where
  "covers_part x file rs \<longleftrightarrow> held_path x = file \<and> lines_of rs \<subseteq> lines_of (held_ranges x) \<and>
     lines_of rs \<subseteq> meant (located (held_symbols x) file)"

definition partition_ok :: "partition \<Rightarrow> string set \<Rightarrow> bool" where
  "partition_ok s seen \<longleftrightarrow>
     distinct (map held_path (part_shared s)) \<and> held_path ` set (part_shared s) \<subseteq> seen \<and>
     (\<forall>holder m file rs. map_of (part_occupied s) holder = Some m \<longrightarrow> map_of m file = Some rs \<longrightarrow>
        (\<exists>x \<in> set (part_shared s). covers_part x file rs))"

lemma partition_ok_empty: "partition_ok empty_partition {}"
  by (simp add: partition_ok_def empty_partition_def)

lemma partition_ok_lose: "partition_ok s seen \<Longrightarrow> partition_ok (lose e s) (insert i seen)"
  by (auto simp: partition_ok_def lose_def)

lemma occupied_by:
  assumes "map_of (foldl (occupy file) occupied held) holder = Some m" and "map_of m f = Some rs"
  shows "(f = file \<and> (\<exists>spans. (holder, spans) \<in> set held \<and> rs = normalizeRanges (map snd spans))) \<or>
    (\<exists>m'. map_of occupied holder = Some m' \<and> map_of m' f = Some rs)"
  using assms
proof (induction held arbitrary: occupied)
  case (Cons h held)
  obtain who spans where h: "h = (who, spans)" by (cases h)
  from Cons.IH [of "occupy file occupied h"] Cons.prems show ?case
    by (auto simp: h occupy_def update_conv' or_empty_def split: if_splits option.splits)
qed simp

lemma partition_ok_share:
  assumes "partition_ok s seen" and "resourceId e \<notin> seen"
    and "lines_of (normalizeRanges (map snd (concat (map snd held)))) \<subseteq> lines_of ranges"
  shows "partition_ok (share ctl e held ranges s) (insert (resourceId e) seen)"
proof -
  define x where "x = \<lparr>held_path = resourceId e, held_ranges = ranges,
    held_symbols = withheldSymbolsFor ctl (resourceId e) (concat (map snd held)) e\<rparr>"
  have shared: "part_shared (share ctl e held ranges s) = part_shared s @ [x]" by (simp add: share_def x_def)
  have occ: "part_occupied (share ctl e held ranges s) = foldl (occupy (resourceId e)) (part_occupied s) held"
    by (simp add: share_def)
  have own: "covers_part x (resourceId e) (normalizeRanges (map snd spans))" if "(holder, spans) \<in> set held" for holder spans
  proof -
    have "set (map snd spans) \<subseteq> set (map snd (concat (map snd held)))" using that by force
    then have m: "meant (map snd spans) \<subseteq> meant (map snd (concat (map snd held)))" by (rule meant_mono)
    moreover have "meant (map snd (concat (map snd held))) \<subseteq> meant (located (held_symbols x) (resourceId e))"
      unfolding x_def by (simp del: map_concat) (intro meant_mono withheld_located)
    ultimately show ?thesis using assms(3) by (auto simp: covers_part_def x_def)
  qed
  have "\<exists>y \<in> set (part_shared s @ [x]). covers_part y f rs"
    if "map_of (part_occupied (share ctl e held ranges s)) holder = Some m" "map_of m f = Some rs" for holder m f rs
    using occupied_by [OF that(1) [unfolded occ] that(2)] own assms(1)
    unfolding partition_ok_def by (metis Un_iff in_set_conv_decomp set_append)
  then show ?thesis using assms(1,2) unfolding partition_ok_def shared
    by (auto simp: x_def)
qed

lemma if_lost:
  "(if a then x else if b then x else f y) = x \<or> (\<exists>z. (if a then x else if b then x else f y) = f z)"
  by auto

lemma partition_entry_ok:
  assumes "partition_entry ctl input sd files s e = Inr t" and "partition_ok s seen" and "resourceId e \<notin> seen"
  shows "partition_ok t (insert (resourceId e) seen)"
proof -
  have grow: "lines_of (normalizeRanges as) \<subseteq> lines_of (normalizeRanges (as @ bs))" for as bs
    by (simp add: meant_mono)
  have settle: "settle_part ctl input e held guessed s = lose e s \<or>
      (\<exists>tl. settle_part ctl input e held guessed s =
         share ctl e held (normalizeRanges (map snd (concat (map snd held)) @ tl)) s)" for held guessed
    unfolding settle_part_def Let_def
    by (rule if_lost [where f = "\<lambda>tl. share ctl e held (normalizeRanges (map snd (concat (map snd held)) @ tl)) s"])
  have "t = lose e s \<or> (\<exists>held tl. t = share ctl e held (normalizeRanges (map snd (concat (map snd held)) @ tl)) s)"
  proof (cases "resourceId e \<notin> set files \<or> resourceId e \<in> set (misnamed_files (candidate_plan input))")
    case False
    then obtain found where "t = (case found of None \<Rightarrow> lose e s
        | Some (held, guessed) \<Rightarrow> settle_part ctl input e held guessed s)"
      using assms(1) by (auto simp: partition_entry_def Let_def res_bind_eq_Inr_conv)
    then show ?thesis using settle by (cases found) auto
  qed (use assms(1) in \<open>simp add: partition_entry_def\<close>)
  then show ?thesis using partition_ok_lose [OF assms(2)] partition_ok_share [OF assms(2,3) grow] by blast
qed

lemma within_entry_ok:
  assumes "within_entry ctl input look files s e = Inr t" and "partition_ok s seen" and "resourceId e \<notin> seen"
  shows "partition_ok t (insert (resourceId e) seen)"
proof -
  have "t = lose e s \<or> (\<exists>held. t = share ctl e held (normalizeRanges (map snd (concat (map snd held)))) s)"
    using assms(1) unfolding within_entry_def Let_def
    by (auto simp: res_bind_eq_Inr_conv simp del: map_concat split: if_splits option.splits prod.splits)
  then show ?thesis using partition_ok_lose [OF assms(2)] partition_ok_share [OF assms(2,3)] by blast
qed

lemma partition_fold_ok:
  assumes "res_foldl f s es = Inr t" and "partition_ok s seen"
    and "distinct (map resourceId es)" and "seen \<inter> resourceId ` set es = {}"
    and "\<And>s e t seen. f s e = Inr t \<Longrightarrow> partition_ok s seen \<Longrightarrow> resourceId e \<notin> seen \<Longrightarrow>
           partition_ok t (insert (resourceId e) seen)"
  shows "partition_ok t (seen \<union> resourceId ` set es)"
  using assms(1-4)
proof (induction es arbitrary: s seen)
  case (Cons e es)
  then obtain s' where s': "f s e = Inr s'" "res_foldl f s' es = Inr t" by (auto simp: res_bind_eq_Inr_conv)
  have "partition_ok s' (insert (resourceId e) seen)" using assms(5) s'(1) Cons.prems(2,4) by fastforce
  then have "partition_ok t (insert (resourceId e) seen \<union> resourceId ` set es)"
    using Cons.prems(3,4) by (intro Cons.IH [OF s'(2)]) auto
  then show ?case by (simp add: Un_commute)
qed simp

lemma map_of_shared_fold:
  assumes "distinct (map held_path shared)"
  shows "map_of (foldl (\<lambda>m f. AList.update (held_path f) (held_ranges f) m) m shared) k =
    (case find (\<lambda>f. held_path f = k) shared of None \<Rightarrow> map_of m k | Some x \<Rightarrow> Some (held_ranges x))"
  using assms
proof (induction shared arbitrary: m)
  case (Cons y ys)
  have "\<forall>x \<in> set ys. held_path x \<noteq> held_path y" using Cons.prems by (auto simp: image_iff)
  then have none: "find (\<lambda>f. held_path f = held_path y) ys = None" by (auto simp: find_None_iff)
  let ?m = "AList.update (held_path y) (held_ranges y) m"
  have IH: "map_of (foldl (\<lambda>m f. AList.update (held_path f) (held_ranges f) m) ?m ys) k =
      (case find (\<lambda>f. held_path f = k) ys of None \<Rightarrow> map_of ?m k | Some x \<Rightarrow> Some (held_ranges x))"
    using Cons.IH [of ?m] Cons.prems by simp
  show ?case
  proof (cases "k = held_path y")
    case True
    then have "map_of (foldl (\<lambda>m f. AList.update (held_path f) (held_ranges f) m) ?m ys) k = map_of ?m k"
      unfolding IH using none by (simp only: option.case)
    then show ?thesis using True by (simp add: update_conv)
  next
    case False
    then have "map_of ?m k = map_of m k" by (simp add: update_conv)
    then show ?thesis using False IH by (simp only: foldl.simps find.simps split: if_split) simp
  qed
qed simp

lemma map_of_shared:
  assumes "distinct (map held_path shared)" and "x \<in> set shared"
  shows "map_of (shared_map shared) (held_path x) = Some (held_ranges x)"
proof -
  have "find (\<lambda>f. held_path f = held_path x) shared = Some x"
    using assms by (induction shared) auto
  then show ?thesis using map_of_shared_fold [OF assms(1), of "[]" "held_path x"] by (simp add: shared_map_def)
qed

lemma partition_honest:
  assumes "partition_ok s seen" and "set (concat (map held_symbols (part_shared s))) \<subseteq> set ds"
  shows "honest_division (shared_map (part_shared s)) (part_occupied s) ds"
proof -
  have "(\<exists>ws. map_of (shared_map (part_shared s)) f = Some ws \<and> lines_of rs \<subseteq> lines_of ws) \<and>
      lines_of rs \<subseteq> meant (located ds f)"
    if m: "map_of (part_occupied s) holder = Some m" "map_of m f = Some rs" for holder m f rs
  proof -
    obtain x where x: "x \<in> set (part_shared s)" "covers_part x f rs"
      using assms(1) m unfolding partition_ok_def by blast
    have "set (held_symbols x) \<subseteq> set ds" using x(1) assms(2) by auto
    then have "meant (located (held_symbols x) f) \<subseteq> meant (located ds f)" by (intro meant_mono located_mono)
    then show ?thesis using x map_of_shared [of "part_shared s" x] assms(1)
      by (auto simp: covers_part_def partition_ok_def)
  qed
  then show ?thesis unfolding honest_division_def by blast
qed

end
