(* ===== verification/Admission_Answers.thy ===== *)
theory Admission_Answers
  imports Admission_Laws
begin

text \<open>
  What the three ways to an approval have in common, and what every refusal says: the answers of
  \<open>admit\<close>, taken apart for the properties of the controller.
\<close>

section \<open>Approved in part\<close>

definition admitted_part ::
  "controller \<Rightarrow> admission_input \<Rightarrow> file_occupancy \<Rightarrow> deferred_resource list \<Rightarrow> agent_plan \<Rightarrow> full_admission \<Rightarrow> bool"
where
  "admitted_part ctl input occ ds p a \<longleftrightarrow>
     ds \<noteq> [] \<and> reduced_by (candidate_plan input) ds = Inr p \<and> expectedFiles p \<noteq> [] \<and>
     (\<exists>part. decide ctl input p occ True = Inr part \<and> planAdmissionApproved part \<and>
        ownershipGrants a = ownershipGrants part) \<and>
     deferredResources a = Some ds \<and> admission_status a = ApprovedWithConstraints"

lemma partiallyAdmitted_simps [simp]:
  "ownershipGrants (partiallyAdmitted whole part ds) = ownershipGrants part"
  "deferredResources (partiallyAdmitted whole part ds) = Some ds"
  "admission_status (partiallyAdmitted whole part ds) = ApprovedWithConstraints"
  by (simp_all add: partiallyAdmitted_def)

lemma lift_path_Inr_iff [simp]: "lift_path m = Inr x \<longleftrightarrow> m = Inr x"
  by (cases m) auto

lemma divide_plan_Some:
  assumes "divide_plan ctl input whole occ withheld reduced part = Inr (Some a)"
    and "withheld \<noteq> [] \<Longrightarrow> reduced_by (candidate_plan input) withheld = Inr reduced \<and>
           decide ctl input reduced occ True = Inr part" and "expectedFiles reduced \<noteq> []"
    and "withheld = [] \<Longrightarrow> \<not> planAdmissionApproved part"
  shows "\<exists>ds p. admitted_part ctl input occ ds p a \<and> set withheld \<subseteq> set ds"
proof (cases "planAdmissionApproved part")
  case True
  then have "withheld \<noteq> []" using assms(4) by blast
  then have "admitted_part ctl input occ withheld reduced a"
    using assms(1-3) True by (auto simp: divide_plan_def admitted_part_def)
  then show ?thesis by blast
next
  case False
  then obtain symbols smaller again where
    s: "symbols \<noteq> []" "reduced_by (candidate_plan input) (withheld @ symbols) = Inr smaller"
      "expectedFiles smaller \<noteq> []" "decide ctl input smaller occ True = Inr again" "planAdmissionApproved again"
      "a = partiallyAdmitted whole again (withheld @ symbols)"
    using assms(1) by (auto simp: divide_plan_def res_bind_eq_Inr_conv split: if_split_asm)
  then have "admitted_part ctl input occ (withheld @ symbols) smaller a" by (auto simp: admitted_part_def)
  then show ?thesis by (intro exI [of _ "withheld @ symbols"] exI [of _ smaller]) simp
qed

lemma lost_resources_shared:
  "lost_resources ctl input s = Inr withheld \<Longrightarrow>
     set (concat (map held_symbols (part_shared s))) \<subseteq> set withheld"
  by (auto simp: lost_resources_def res_bind_eq_Inr_conv split: if_split_asm)

text \<open>An honest division of which part of a plan was admitted.\<close>

definition honest_part :: "controller \<Rightarrow> admission_input \<Rightarrow> full_admission \<Rightarrow> bool" where
  "honest_part ctl input a \<longleftrightarrow>
     (\<exists>narrowed occupied ds p. honest_division narrowed occupied ds \<and>
        admitted_part ctl input (occupancy_of input narrowed occupied) ds p a)"

lemma honest_division_mono:
  "honest_division narrowed occupied ds \<Longrightarrow> set ds \<subseteq> set es \<Longrightarrow> honest_division narrowed occupied es"
  using meant_mono [OF located_mono] unfolding honest_division_def by (meson order_trans)

lemma divided_honest:
  assumes "partition_ok s seen" and "lost_resources ctl input s = Inr withheld"
    and "divide_plan ctl input whole (occupancy_of input (shared_map (part_shared s)) (part_occupied s)) withheld
           reduced part = Inr (Some a)"
    and "withheld \<noteq> [] \<Longrightarrow> reduced_by (candidate_plan input) withheld = Inr reduced \<and>
           decide ctl input reduced (occupancy_of input (shared_map (part_shared s)) (part_occupied s)) True = Inr part"
    and "expectedFiles reduced \<noteq> []" and "withheld = [] \<Longrightarrow> \<not> planAdmissionApproved part"
  shows "honest_part ctl input a"
proof -
  obtain ds p where d: "admitted_part ctl input (occupancy_of input (shared_map (part_shared s)) (part_occupied s)) ds p a"
    and sub: "set withheld \<subseteq> set ds"
    using divide_plan_Some [OF assms(3-6)] by blast
  have "honest_division (shared_map (part_shared s)) (part_occupied s) withheld"
    by (rule partition_honest [OF assms(1) lost_resources_shared [OF assms(2)]])
  then have "honest_division (shared_map (part_shared s)) (part_occupied s) ds"
    using sub by (rule honest_division_mono)
  then show ?thesis using d unfolding honest_part_def by blast
qed

lemma within_files_honest:
  assumes "admitWithinFiles ctl input whole found = Inr (Some a)" and "distinct (map resourceId found)"
  shows "honest_part ctl input a"
proof -
  obtain look where look: "symbolRangesInFile input = Some look"
    using assms(1) by (auto simp: admitWithinFiles_def split: option.splits)
  obtain granted s withheld reduced part where
    s: "res_foldl (within_entry ctl input look (filter (\<lambda>f. look f \<noteq> None) granted)) empty_partition found = Inr s"
    and w: "lost_resources ctl input s = Inr withheld" "withheld \<noteq> []"
    and r: "reduced_by (candidate_plan input) withheld = Inr reduced" "expectedFiles reduced \<noteq> []"
    and d: "decide ctl input reduced (occupancy_of input (shared_map (part_shared s)) (part_occupied s)) True = Inr part"
    and a: "divide_plan ctl input whole (occupancy_of input (shared_map (part_shared s)) (part_occupied s)) withheld
           reduced part = Inr (Some a)"
    using assms(1) look unfolding admitWithinFiles_def
    by (auto simp: res_bind_eq_Inr_conv Let_def split: if_split_asm)
  have "partition_ok s ({} \<union> resourceId ` set found)"
    by (rule partition_fold_ok [OF s partition_ok_empty assms(2)]) (simp, rule within_entry_ok)
  then show ?thesis using divided_honest [OF _ w(1) a] w(2) r d by blast
qed

lemma partially_honest:
  assumes "admitPartially ctl input whole = Inr (Some a)" and "\<not> planAdmissionApproved whole"
  shows "honest_part ctl input a"
proof -
  obtain found where found: "contestedFiles ctl input (occupancy_of input [] []) = Inr found"
    using assms(1) by (auto simp: admitPartially_def res_bind_eq_Inr_conv)
  have d: "distinct (map resourceId found)" by (rule contestedFiles_listed [OF found])
  obtain sd s withheld reduced where
    s: "partitionContested ctl input found sd = Inr s"
    and w: "lost_resources ctl input s = Inr withheld"
    and r: "(if withheld = [] then Inr (candidate_plan input) else reduced_by (candidate_plan input) withheld) = Inr reduced"
    and rest: "(if expectedFiles reduced = [] then admitWithinFiles ctl input whole found
       else res_bind (if withheld = [] then Inr whole
              else lift_path (decide ctl input reduced (occupancy_of input (shared_map (part_shared s)) (part_occupied s)) True))
            (\<lambda>part. divide_plan ctl input whole (occupancy_of input (shared_map (part_shared s)) (part_occupied s))
                      withheld reduced part)) = Inr (Some a)"
    using assms(1) found unfolding admitPartially_def by (auto simp: res_bind_eq_Inr_conv Let_def)
  show ?thesis
  proof (cases "expectedFiles reduced = []")
    case True
    then show ?thesis using rest within_files_honest [OF _ d] by simp
  next
    case False
    obtain own where "res_foldl (partition_entry ctl input sd own) empty_partition found = Inr s"
      using s by (auto simp: partitionContested_def res_bind_eq_Inr_conv)
    then have ok: "partition_ok s ({} \<union> resourceId ` set found)"
      by (rule partition_fold_ok [OF _ partition_ok_empty d]) (simp, rule partition_entry_ok)
    let ?occ = "occupancy_of input (shared_map (part_shared s)) (part_occupied s)"
    obtain part where p: "(if withheld = [] then Inr whole else lift_path (decide ctl input reduced ?occ True)) = Inr part"
      and v: "divide_plan ctl input whole ?occ withheld reduced part = Inr (Some a)"
      using rest False by (auto simp: res_bind_eq_Inr_conv)
    show ?thesis using p r False assms(2) by (intro divided_honest [OF ok w v]) (auto split: if_split_asm)
  qed
qed

lemma declared_paths_honest:
  assumes "admitDeclaredPaths ctl input whole = Inr (Some a)"
  shows "honest_part ctl input a"
proof -
  obtain found reduced part where
    f: "found \<noteq> []" "reduced_by (candidate_plan input) (found @ derivedFrom ctl input found) = Inr reduced"
      "expectedFiles reduced \<noteq> []" "decide ctl input reduced (occupancy_of input [] []) True = Inr part"
      "planAdmissionApproved part" "ownershipGrants a = ownershipGrants part"
      "deferredResources a = Some (found @ derivedFrom ctl input found)" "admission_status a = ApprovedWithConstraints"
    using assms unfolding admitDeclaredPaths_def by (auto simp: res_bind_eq_Inr_conv Let_def split: if_split_asm)
  have "admitted_part ctl input (occupancy_of input [] []) (found @ derivedFrom ctl input found) reduced a"
    using f by (simp add: admitted_part_def)
  moreover have "honest_division [] [] (found @ derivedFrom ctl input found)" by (simp add: honest_division_def)
  ultimately show ?thesis unfolding honest_part_def by blast
qed

section \<open>The answers of \<open>admit\<close>\<close>

lemma claimBlocked_Some:
  assumes "claimBlocked ctl input = Inr (Some a)"
  obtains blocking where "blocking \<noteq> []" "set blocking \<subseteq> set (others_of input (taskId (candidate_plan input)))"
    "a = answer ctl input (taskId (candidate_plan input)) Sequenced [] (sort (map active_task blocking)) []
           (Some (or_else (retry_after input) DEFAULT_PLAN_RETRY_MS))"
    "\<And>e. e \<in> set (others_of input (taskId (candidate_plan input))) \<Longrightarrow> isBlanketClaim (running e) \<Longrightarrow> e \<in> set blocking"
proof -
  obtain wanted blocking where b: "res_filter (\<lambda>e. if isBlanketClaim (running e) then Inr True
        else res_exists (claimOccupiesPath (running e)) wanted) (others_of input (taskId (candidate_plan input))) = Inr blocking"
    "blocking \<noteq> []" "a = answer ctl input (taskId (candidate_plan input)) Sequenced [] (sort (map active_task blocking)) []
           (Some (or_else (retry_after input) DEFAULT_PLAN_RETRY_MS))"
    using assms unfolding claimBlocked_def by (auto simp: res_bind_eq_Inr_conv Let_def split: if_split_asm)
  show ?thesis using b(2,3) res_filter_members [OF b(1)] by (intro that [of blocking]) auto
qed

lemma admit_cases:
  assumes "admit ctl input = Inr a"
  obtains (claimed) "claimBlocked ctl input = Inr (Some a)"
    | (whole) "claimBlocked ctl input = Inr None"
        "decide ctl input (candidate_plan input) (occupancy_of input [] []) False = Inr a"
    | (part) "honest_part ctl input a"
        "\<not> list_ex (\<lambda>e. isBlanketClaim (running e)) (others_of input (taskId (candidate_plan input)))
         \<or> claimBlocked ctl input = Inr None"
proof -
  let ?blanket = "list_ex (\<lambda>e. isBlanketClaim (running e)) (others_of input (taskId (candidate_plan input)))"
  obtain claim0 where c: "claimBlocked ctl input = Inr claim0"
    using assms by (auto simp: admit_def Let_def res_bind_eq_Inr_conv)
  show ?thesis
  proof (cases "claim0 \<noteq> None \<and> ?blanket")
    case True
    then show ?thesis using assms c claimed by (auto simp: admit_def Let_def)
  next
    case False
    define rest where "rest w = (if planAdmissionApproved w \<or> partialAdmission input = Some False \<and> claim0 = None
        then Inr w
        else res_bind (if planGroundingConfidence (candidate_plan input) = Ungrounded
               then admitDeclaredPaths ctl input w else admitPartially ctl input w)
             (\<lambda>split. Inr (case split of None \<Rightarrow> w | Some b \<Rightarrow> b)))" for w :: full_admission
    obtain w where w: "(case claim0 of Some b \<Rightarrow> Inr b
        | None \<Rightarrow> lift_path (decide ctl input (candidate_plan input) (occupancy_of input [] []) False)) = Inr w"
      and r: "rest w = Inr a"
      using assms c False by (auto simp: admit_def Let_def res_bind_eq_Inr_conv rest_def)
    have "a = w \<or> honest_part ctl input a"
      using r declared_paths_honest partially_honest unfolding rest_def
      by (auto simp: res_bind_eq_Inr_conv split: if_split_asm option.splits)
    then show ?thesis using w c False claimed whole part by (cases claim0) auto
  qed
qed

section \<open>Refusals\<close>

lemma assess_tasks:
  assumes "assess opts occ f first second = Inr (Some a)"
  shows "assessed_tasks a = (taskId first, taskId second)"
proof -
  obtain items where "Some a = summarise opts (taskId first, taskId second) items"
    using assess_Inr [OF assms] by metis
  then show ?thesis by (auto simp: summarise_def Let_def split: if_split_asm)
qed

lemma assessed_other:
  assumes "assessed_others ctl input p occ = Inr found" and "listed_by_task input" and "a \<in> set found"
  shows "otherTask a (taskId p) \<in> active_task ` set (others_of input (taskId p))"
proof -
  obtain rs where rs: "res_map (\<lambda>e. assess (ctl_conflicts ctl) (Some occ) (intentAssessment input) p (running e))
      (others_of input (taskId p)) = Inr rs" "found = List.map_filter id rs"
    using assms(1) by (auto simp: assessed_others_def res_bind_eq_Inr_conv)
  have "Some a \<in> set rs" using assms(3) by (auto simp: rs(2) map_filter_def)
  then obtain e where e: "e \<in> set (others_of input (taskId p))"
    "assess (ctl_conflicts ctl) (Some occ) (intentAssessment input) p (running e) = Inr (Some a)"
    using res_map_source [OF rs(1)] by blast
  have "active_task e = taskId (running e)" "active_task e \<noteq> taskId p"
    using e(1) assms(2) by (auto simp: others_of_def listed_by_task_def)
  then have "otherTask a (taskId p) = active_task e" by (simp add: otherTask_def assess_tasks [OF e(2)])
  then show ?thesis using e(1) by blast
qed

lemma check_resources_Inl:
  "check_resources t task approved rs = Inl e \<Longrightarrow>
     (case e of
        OwnershipConflict i l \<Rightarrow> (\<exists>k. l \<in> set (held_on t k))
      | OwnershipApprovalRequired ty i \<Rightarrow>
          \<exists>r \<in> set rs. planned_mode r = ApprovalRequired \<and> lease_key (planned_type r) (planned_id r) \<notin> approved)"
proof (induction rs)
  case (Cons r rs)
  have hit: "find P xs = Some l \<Longrightarrow> l \<in> set xs" for P and l :: resource_lease and xs
    by (auto simp: find_Some_iff)
  show ?case
    using Cons.prems Cons.IH
    by (auto simp: Let_def res_bind_eq_Inl_conv dest: hit split: if_split_asm option.splits ownership_error.splits)
qed simp

lemma sort_key_Nil_iff: "sort_key f xs = [] \<longleftrightarrow> xs = []"
  by (metis length_0_conv length_sort)

lemma approval_only_schemas:
  assumes "r \<in> set (resourcesForPlan p cs)" and "planned_mode r = ApprovalRequired"
  shows "lease_key (planned_type r) (planned_id r) \<in> approvedSchemaResources p"
proof -
  let ?c = "completeAgentPlan p"
  have "r \<in> set (file_resources ?c cs @ symbol_resources ?c @ planned Api Intent (or_empty (expectedApis ?c)) @
      planned Schema ApprovalRequired (or_empty (expectedSchemas ?c)) @
      planned Configuration Intent (or_empty (expectedConfigKeys ?c)) @ planned Test Shared (or_empty (expectedTests ?c)) @
      planned Service Intent (or_empty (expectedServices ?c)))"
    using assms(1) first_of_each_subset unfolding resourcesForPlan_def Let_def by blast
  then have "r \<in> set (planned Schema ApprovalRequired (or_empty (expectedSchemas ?c)))"
    using assms(2) by (auto simp: file_resources_def symbol_resources_def planned_def fileMode_def Let_def split: if_split_asm)
  then show ?thesis by (auto simp: planned_def approvedSchemaResources_def completeAgentPlan_def)
qed

definition waits_for :: "admission_input \<Rightarrow> string list \<Rightarrow> bool" where
  "waits_for input tasks \<longleftrightarrow>
     tasks \<noteq> [] \<and> set tasks \<subseteq> active_task ` set (others_of input (taskId (candidate_plan input)))"

lemma lease_refusal:
  assumes "take_leases ctl input p occ claims = Inl e" and "listed_by_task input"
  shows "\<exists>i l. e = OwnershipConflict i l \<and> lease_task l \<in> active_task ` set (others_of input (taskId p))"
proof -
  let ?t = "held_table ctl input p occ"
  have c: "check_resources ?t (taskId p) (approvedSchemaResources p) (resourcesForPlan p claims) = Inl e"
    using assms(1) by (auto simp: take_leases_def acquire_cases Let_def held_table_def split: sum.splits)
  have "all_leases (\<lambda>l. \<exists>e \<in> set (others_of input (taskId p)). lease_task l = taskId (running e)) ?t"
    unfolding held_table_def expireLeases_def by (intro all_leases_retain seeded_leases)
  then have "lease_task l \<in> active_task ` set (others_of input (taskId p))" if "l \<in> set (held_on ?t k)" for l k
    using all_leases_held [OF _ that] assms(2) by (force simp: others_of_def listed_by_task_def)
  then show ?thesis using check_resources_Inl [OF c] approval_only_schemas [of _ p claims]
    by (cases e) auto
qed

text \<open>A decision that looked at the conflicts.\<close>

lemma decide_late:
  assumes "reduced \<or> (planGroundingConfidence p = Ungrounded \<longrightarrow>
      filter (\<lambda>e. relatedObjectives (ctl_lemmatizer ctl) p (running e)) (others_of input (taskId p)) = []) \<and>
    filter (\<lambda>e. planGroundingConfidence (running e) = Ungrounded)
      (filter (\<lambda>e. relatedObjectives (ctl_lemmatizer ctl) p (running e)) (others_of input (taskId p))) = []"
  shows "decide ctl input p occ reduced = res_bind (assessed_others ctl input p occ) (settle_conflicts ctl input p occ)"
  using assms by (auto simp: decide_def Let_def)

lemma settle_refused:
  assumes "settle_conflicts ctl input p occ found = Inr a" and "\<not> planAdmissionApproved a"
    and "assessed_others ctl input p occ = Inr found" and "listed_by_task input"
  shows "blockedBy a \<noteq> [] \<and> set (blockedBy a) \<subseteq> active_task ` set (others_of input (taskId p)) \<and> ownershipGrants a = [] \<and>
    (admission_status a = Blocked \<longrightarrow> or_else (blockedAttempts input) 0 < BLOCKED_ATTEMPTS_BEFORE_SEQUENCING)"
proof -
  have others: "(\<lambda>x. otherTask x (taskId p)) ` set (filter P found) \<subseteq> active_task ` set (others_of input (taskId p))" for P
    using assessed_other [OF assms(3,4)] by auto
  define structural where "structural = filter structuralConflict found"
  define blocking where "blocking = filter (\<lambda>a. disposition a = BlockPlan) structural"
  note d = assms(1) [unfolded settle_conflicts_def Let_def, folded structural_def, folded blocking_def]
  have sub: "(\<lambda>x. otherTask x (taskId p)) ` set structural \<subseteq> active_task ` set (others_of input (taskId p))"
    "(\<lambda>x. otherTask x (taskId p)) ` set blocking \<subseteq> active_task ` set (others_of input (taskId p))"
    unfolding blocking_def structural_def filter_filter by (rule others)+
  show ?thesis
  proof (cases "blocking = []")
    case False
    then show ?thesis using d sub(2) by (auto split: if_split_asm)
  next
    case nb: True
    show ?thesis
    proof (cases "structural = []")
      case False
      then show ?thesis using d nb sub(1) by auto
    next
      case True
      then obtain claims where c: "fileClaims p occ = Inr claims"
        and r: "(case take_leases ctl input p occ claims of
               Inl (OwnershipConflict _ lease) \<Rightarrow>
                 Inr (answer ctl input (taskId p) Sequenced [] [lease_task lease] found
                   (Some (or_else (retry_after input) DEFAULT_PLAN_RETRY_MS)))
             | Inl (OwnershipApprovalRequired _ _) \<Rightarrow> Inr (answer ctl input (taskId p) Blocked [] [] found
                   (Some (or_else (retry_after input) DEFAULT_PLAN_RETRY_MS)))
             | Inr grants \<Rightarrow>
                 Inr (answer ctl input (taskId p) (if filter (\<lambda>a. \<not> structuralConflict a) found \<noteq> []
                        then ApprovedWithConstraints else Approved)
                        grants [] (filter (\<lambda>a. \<not> structuralConflict a) found) None)) = (Inr a :: path_error + full_admission)"
        using d nb by (simp only: if_False simp_thms res_bind_eq_Inr_conv) blast
      show ?thesis
      proof (cases "take_leases ctl input p occ claims")
        case (Inl e)
        obtain i l where l: "e = OwnershipConflict i l" "lease_task l \<in> active_task ` set (others_of input (taskId p))"
          using lease_refusal [OF Inl assms(4)] by blast
        have "answer ctl input (taskId p) Sequenced [] [lease_task l] found
            (Some (or_else (retry_after input) DEFAULT_PLAN_RETRY_MS)) = a" using r Inl l(1) by simp
        then show ?thesis using l(2) by auto
      next
        case (Inr grants)
        then show ?thesis using r assms(2) by (auto split: if_split_asm)
      qed
    qed
  qed
qed

lemma decide_refused:
  assumes "decide ctl input (candidate_plan input) occ reduced = Inr a" and "\<not> planAdmissionApproved a"
    and "listed_by_task input"
  shows "waits_for input (blockedBy a) \<and> ownershipGrants a = [] \<and>
    (admission_status a = Blocked \<longrightarrow> or_else (blockedAttempts input) 0 < BLOCKED_ATTEMPTS_BEFORE_SEQUENCING)"
proof -
  let ?p = "candidate_plan input"
  let ?others = "others_of input (taskId ?p)"
  let ?related = "filter (\<lambda>e. relatedObjectives (ctl_lemmatizer ctl) ?p (running e)) ?others"
  let ?unverified = "filter (\<lambda>e. planGroundingConfidence (running e) = Ungrounded) ?related"
  show ?thesis
  proof (cases "reduced \<or> (planGroundingConfidence ?p = Ungrounded \<longrightarrow> ?related = []) \<and> ?unverified = []")
    case True
    have "res_bind (assessed_others ctl input ?p occ) (settle_conflicts ctl input ?p occ) = Inr a"
      using assms(1) unfolding decide_late [OF True] .
    then obtain found where f: "assessed_others ctl input ?p occ = Inr found" "settle_conflicts ctl input ?p occ found = Inr a"
      by (auto simp: res_bind_eq_Inr_conv)
    show ?thesis using settle_refused [OF f(2) assms(2) f(1) assms(3)] by (simp add: waits_for_def)
  next
    case False
    then obtain es where es: "es \<noteq> []" "set es \<subseteq> set ?others" "blockedBy a = sort (map active_task es)"
      "admission_status a = Sequenced" "ownershipGrants a = []"
    proof (cases "planGroundingConfidence ?p = Ungrounded \<and> ?related \<noteq> []")
      case first: True
      then show ?thesis using assms(1) False by (intro that [of ?related]) (auto simp: decide_def Let_def)
    next
      case second: False
      then have "?unverified \<noteq> []" using False by blast
      then show ?thesis using assms(1) second False by (intro that [of ?unverified]) (auto simp: decide_def Let_def)
    qed
    have "blockedBy a \<noteq> []" using es(1,3) by (simp add: sort_key_Nil_iff)
    moreover have "set (blockedBy a) \<subseteq> active_task ` set ?others" using es(2,3) by auto
    ultimately show ?thesis using es(4,5) by (simp add: waits_for_def)
  qed
qed

lemma admit_refused:
  assumes "admit ctl input = Inr a" and "\<not> planAdmissionApproved a" and "listed_by_task input"
  shows "waits_for input (blockedBy a) \<and> ownershipGrants a = [] \<and>
    (admission_status a = Blocked \<longrightarrow> or_else (blockedAttempts input) 0 < BLOCKED_ATTEMPTS_BEFORE_SEQUENCING)"
  using assms(1)
proof (cases rule: admit_cases)
  case claimed
  then show ?thesis by (rule claimBlocked_Some) (auto simp: waits_for_def sort_key_Nil_iff)
next
  case whole
  show ?thesis by (rule decide_refused [OF whole(2) assms(2,3)])
next
  case part
  then have "planAdmissionApproved a"
    by (auto simp: honest_part_def admitted_part_def planAdmissionApproved_def)
  then show ?thesis using assms(2) by blast
qed

lemma claimBlocked_None:
  assumes "claimBlocked ctl input = Inr None" and "e \<in> set (others_of input (taskId (candidate_plan input)))"
  shows "\<not> isBlanketClaim (running e)"
proof
  assume b: "isBlanketClaim (running e)"
  obtain wanted where "res_filter (\<lambda>e. if isBlanketClaim (running e) then Inr True
        else res_exists (claimOccupiesPath (running e)) wanted) (others_of input (taskId (candidate_plan input))) = Inr []"
    using assms unfolding claimBlocked_def by (auto simp: res_bind_eq_Inr_conv Let_def split: if_split_asm)
  then show False using assms(2) b by (auto dest!: res_filter_members)
qed

text \<open>A normal plan's claims on files exist once its grounded paths normalise.\<close>

lemma lone_claims:
  assumes "normal_plan (candidate_plan input)" and "arbitrationFiles (candidate_plan input) = Inr files"
  shows "\<exists>claims. fileClaims (candidate_plan input) (occupancy_of input [] []) = Inr claims"
proof -
  let ?p = "candidate_plan input"
  have "normal_paths (expectedFiles ?p)" using assms(1) by (simp add: normal_plan_iff normal_fields_def)
  then have n: "uniqueRepositoryPaths (expectedFiles ?p) = Inr (expectedFiles ?p)" by (simp add: normal_paths_iff)
  have "\<exists>spans. occupiedSpans ?p f locate = Inr spans" for f locate
    by (cases locate) (simp_all add: occupiedSpans_def n)
  then have "\<exists>r. occupancy_of input [] [] ?p f = Inr r" for f
    by (simp add: occupancy_of_def) (metis res_bind_simps(2))
  then obtain g where g: "\<And>f. occupancy_of input [] [] ?p f = Inr (g f)" by metis
  have "res_map (\<lambda>f. res_bind (occupancy_of input [] [] ?p f) (\<lambda>r. Inr (f, r))) files = Inr (map (\<lambda>f. (f, g f)) files)"
    by (rule res_map_pure) (simp add: g)
  then show ?thesis by (simp add: fileClaims_def assms(2))
qed

text \<open>An approved plan, or the part of it that is left, runs beside the others.\<close>

lemma approved_part:
  assumes "admit ctl input = Inr a" and "planAdmissionApproved a" and "listed_by_task input"
  shows "\<exists>narrowed occupied ds p.
    deferredResources a = (if ds = [] then None else Some ds) \<and>
    (if ds = [] then p = candidate_plan input
     else reduced_by (candidate_plan input) ds = Inr p \<and> expectedFiles p \<noteq> []) \<and>
    honest_division narrowed occupied ds \<and>
    runs_beside ctl input p (occupancy_of input narrowed occupied) (ownershipGrants a)"
  using assms(1)
proof (cases rule: admit_cases)
  case claimed
  then show ?thesis using assms(2) by (auto elim: claimBlocked_Some)
next
  case whole
  have "deferredResources a = None" using decide_approved [OF whole(2) assms(2)] by blast
  moreover have "runs_beside ctl input (candidate_plan input) (occupancy_of input [] []) (ownershipGrants a)"
    by (rule decide_runs_beside [OF whole(2) assms(2,3)])
  moreover have "honest_division [] [] []" by (simp add: honest_division_def)
  ultimately show ?thesis
    by (intro exI [of _ "[]"] exI [of _ "candidate_plan input"]) simp
next
  case part
  then obtain narrowed occupied ds p where h: "honest_division narrowed occupied ds"
    and d: "admitted_part ctl input (occupancy_of input narrowed occupied) ds p a"
    unfolding honest_part_def by blast
  then have "runs_beside ctl input p (occupancy_of input narrowed occupied) (ownershipGrants a)"
    using decide_runs_beside [OF _ _ assms(3)] by (auto simp: admitted_part_def)
  then show ?thesis using h d unfolding admitted_part_def
    by (intro exI [of _ narrowed] exI [of _ occupied] exI [of _ ds] exI [of _ p]) simp
qed

end
