(* ===== verification/Coordination_Properties.thy ===== *)
theory Coordination_Properties
  imports Admission_Answers
begin

text \<open>
  The properties of the conflict detector and of the admission controller, with witnesses evaluated
  on a plan of two files beside a plan that works in one of them.
\<close>

section \<open>Conflicts\<close>

definition plain_plan :: "string \<Rightarrow> string list \<Rightarrow> agent_plan" where
  "plain_plan task files =
     \<lparr>taskId = task, objective = ''o'', expectedFiles = files, expectedSymbols = [], declared = None,
      expectedApis = None, expectedSchemas = None, expectedConfigKeys = None, expectedTests = None,
      expectedServices = None, dependencies = [], commands = [], externalAccess = [], riskLevel = LowRisk,
      intent = None, grounding = None, claim = None, dependenciesUnknown = None\<rparr>"

text \<open>
  Whether two plans conflict for scheduling does not depend on which is asked first, however their
  names are spelled in upper and lower case, as long as nothing is said about where in a file they work.
\<close>

theorem conflict_symmetric:
  assumes "conflictsForScheduling opts None first second = Inr v"
  shows "conflictsForScheduling opts None second first = Inr v"
  by (rule conflictsForScheduling_swap [OF assms])

theorem conflict_symmetric_witness:
  "conflictsForScheduling DEFAULT_CONFLICT_OPTIONS None (plain_plan ''q'' [''b'']) (plain_plan ''p'' [''a'', ''B'']) = Inr True"
  by (rule conflict_symmetric) code_simp

text \<open>
  Intents never schedule. Whatever two assessors say about the intents of a pair, both assessments
  hold the same structural evidence and differ in their disposition at most by a notification.
\<close>

theorem intent_never_schedules:
  assumes "new_detector g = Inr opts"
    and "assess opts occ f first second = Inr r" and "assess opts occ h first second = Inr s"
  shows "scheduling r = scheduling s"
proof -
  have t: "0 \<le> concurrentMaximum (thresholds opts)"
    using assms(1) by (auto simp: new_detector_def Let_def ordered_thresholds_def split: option.splits if_splits)
  have one: "scheduling r = (schedule_of (dispositionFor (structural_score es) (thresholds opts)), es)"
    if that3: "assess opts occ f first second = Inr r"
      "overlappingFiles (completeAgentPlan first) (completeAgentPlan second) occ = Inr files"
      "es = structural_part opts (completeAgentPlan first) (completeAgentPlan second) files" for f r files es
  proof -
    obtain items where "r = summarise opts (taskId first, taskId second) items" "filter (\<lambda>e. \<not> advisory e) items = es"
      using assess_Inr [OF that3(1)] that3(2,3) filter_structural by (metis sum.inject(2))
    then show ?thesis using t that3(3)
      by (simp only:) (rule scheduling_summarise, simp_all, blast dest: structural_part_member structural_item)
  qed
  obtain files where "overlappingFiles (completeAgentPlan first) (completeAgentPlan second) occ = Inr files"
    using assess_Inr [OF assms(2)] by metis
  then show ?thesis using one [OF assms(2)] one [OF assms(3)] by simp
qed

definition demo_weights :: detector_options where
  "demo_weights =
     \<lparr>given_file = 20, given_symbol = None, given_dependency = None, given_api = None, given_schema = None,
      given_configuration = None, given_test = None, given_semantic = None,
      given_thresholds = thresholds DEFAULT_CONFLICT_OPTIONS\<rparr>"

definition alarm :: intent_assessor where
  "alarm p q = Some \<lparr>intent_probability = 1, intent_resources = [''x''], intent_explanation = ''same'',
                      intent_independent = None\<rparr>"

theorem intent_never_schedules_witness:
  "\<exists>opts r s. new_detector demo_weights = Inr opts \<and>
     assess opts None None (plain_plan ''p'' [''a'']) (plain_plan ''q'' [''b'']) = Inr r \<and>
     assess opts None (Some alarm) (plain_plan ''p'' [''a'']) (plain_plan ''q'' [''b'']) = Inr s \<and>
     scheduling r = scheduling s"
proof -
  have g: "new_detector demo_weights = Inr DEFAULT_CONFLICT_OPTIONS"
    by (simp add: new_detector_def demo_weights_def resolve_options_def DEFAULT_CONFLICT_OPTIONS_def or_else_def
        weights_def ordered_thresholds_def)
  obtain r s where
    r: "assess DEFAULT_CONFLICT_OPTIONS None None (plain_plan ''p'' [''a'']) (plain_plan ''q'' [''b'']) = Inr r" and
    s: "assess DEFAULT_CONFLICT_OPTIONS None (Some alarm) (plain_plan ''p'' [''a'']) (plain_plan ''q'' [''b'']) = Inr s"
    by (simp add: assess_def overlappingFiles_def arbitrationFiles_def plain_plan_def completeAgentPlan_def Let_def)
  show ?thesis using g r s intent_never_schedules [OF g r s] by blast
qed

section \<open>Admission\<close>


definition demo_controller :: controller where
  "demo_controller =
     \<lparr>ctl_conflicts = DEFAULT_CONFLICT_OPTIONS,
      ctl_lemmatizer = \<lparr>lemma_noun = id, lemma_verb = id, lemma_adjective = id\<rparr>,
      ctl_collate = id, ctl_now = 0, ctl_iso = (\<lambda>n. ''t''), ctl_newId = (\<lambda>k n. ''l''), ctl_ttl = 60000\<rparr>"

definition demo_input :: "agent_plan \<Rightarrow> admission_input" where
  "demo_input holder =
     \<lparr>candidate_plan = plain_plan ''p'' [''a'', ''b''], candidate_agent = ''x'', base_revision = ''r'',
      base_version = 1, active = [\<lparr>active_task = ''q'', active_agent = ''y'', running = holder\<rparr>],
      plan_revision = None, retry_after = None, blockedAttempts = None, partialAdmission = None,
      resourcesInFile = None, symbolRangesInFile = None, intentAssessment = None\<rparr>"

definition side_by_side :: admission_input where
  "side_by_side = demo_input (plain_plan ''q'' [''b''])"











text \<open>
  C4 A refusal says whom to wait for. When a plan is not approved it is given no lease, and the
  answer names at least one executing task, and only such tasks; a plan is only sent back to be
  narrowed while the attempts to narrow it are below the bound.
\<close>

theorem refusal_names_holders:
  assumes "admit ctl input = Inr a" and "\<not> planAdmissionApproved a" and "listed_by_task input"
  shows "ownershipGrants a = [] \<and> blockedBy a \<noteq> [] \<and>
    set (blockedBy a) \<subseteq> active_task ` set (others_of input (taskId (candidate_plan input))) \<and>
    (admission_status a = Sequenced \<or>
     admission_status a = Blocked \<and> or_else (blockedAttempts input) 0 < BLOCKED_ATTEMPTS_BEFORE_SEQUENCING)"
  using admit_refused [OF assms] assms(2)
  by (cases "admission_status a") (simp_all add: waits_for_def planAdmissionApproved_def)

definition claimed_room :: admission_input where
  "claimed_room = demo_input ((plain_plan ''q'' [''b''])\<lparr>claim := Some (Blanket ''t'' None)\<rparr>)"

lemma claimed_room_answer:
  "admit demo_controller claimed_room =
     Inr (answer demo_controller claimed_room ''p'' Sequenced [] [''q''] [] (Some 15000))"
  by (simp add: claimed_room_def admit_def claimBlocked_def demo_input_def others_of_def arbitrationFiles_def
      plain_plan_def isBlanketClaim_def or_else_def DEFAULT_PLAN_RETRY_MS_def Let_def)

theorem refusal_names_holders_witness:
  "\<exists>a. admit demo_controller claimed_room = Inr a \<and> ownershipGrants a = [] \<and> blockedBy a \<noteq> []"
proof -
  have "\<not> planAdmissionApproved (answer demo_controller claimed_room ''p'' Sequenced [] [''q''] [] (Some 15000))"
    by simp
  moreover have "listed_by_task claimed_room"
    by (simp add: listed_by_task_def claimed_room_def demo_input_def plain_plan_def)
  ultimately show ?thesis using refusal_names_holders [OF claimed_room_answer] claimed_room_answer by blast
qed

text \<open>
  A claim on the whole repository stops everybody else: while another executing plan holds one, a
  plan is sequenced behind it, without leases.
\<close>

theorem blanket_claim_stops:
  assumes "admit ctl input = Inr a" and "e \<in> set (active input)" and "isBlanketClaim (running e)"
    and "active_task e \<noteq> taskId (candidate_plan input)"
  shows "admission_status a = Sequenced \<and> active_task e \<in> set (blockedBy a) \<and> ownershipGrants a = []"
proof -
  have e: "e \<in> set (others_of input (taskId (candidate_plan input)))" using assms(2,4) by (simp add: others_of_def)
  from assms(1) show ?thesis
  proof (cases rule: admit_cases)
    case claimed
    then show ?thesis by (rule claimBlocked_Some) (use e assms(3) in auto)
  next
    case whole
    then show ?thesis using claimBlocked_None e assms(3) by blast
  next
    case part
    then show ?thesis using claimBlocked_None e assms(3) by (auto simp: list_ex_iff)
  qed
qed

theorem blanket_claim_stops_witness:
  "\<exists>a. admit demo_controller claimed_room = Inr a \<and> admission_status a = Sequenced \<and> ''q'' \<in> set (blockedBy a)"
proof -
  let ?e = "\<lparr>active_task = ''q'', active_agent = ''y'',
    running = (plain_plan ''q'' [''b''])\<lparr>claim := Some (Blanket ''t'' None)\<rparr>\<rparr>"
  have "?e \<in> set (active claimed_room)" "isBlanketClaim (running ?e)"
    "active_task ?e \<noteq> taskId (candidate_plan claimed_room)"
    by (simp_all add: claimed_room_def demo_input_def isBlanketClaim_def plain_plan_def)
  then show ?thesis using blanket_claim_stops [OF claimed_room_answer] claimed_room_answer
    by (metis active_plan.select_convs(1))
qed

text \<open>
  A plan that is alone is admitted. When nothing else executes, every normal plan whose grounded
  paths normalise is approved as it stands, with a lease on every resource it needs.
\<close>

theorem lone_plan_admitted:
  assumes "active input = []" and "normal_plan (candidate_plan input)"
    and "arbitrationFiles (candidate_plan input) = Inr files"
  shows "\<exists>a. admit ctl input = Inr a \<and> admission_status a = Approved \<and> deferredResources a = None \<and>
    runs_beside ctl input (candidate_plan input) (occupancy_of input [] []) (ownershipGrants a)"
proof -
  have o: "others_of input t = []" for t using assms(1) by (simp add: others_of_def)
  have l: "listed_by_task input" using assms(1) by (simp add: listed_by_task_def)
  obtain claims where c: "fileClaims (candidate_plan input) (occupancy_of input [] []) = Inr claims"
    using lone_claims [OF assms(2,3)] by blast
  obtain grants where g: "take_leases ctl input (candidate_plan input) (occupancy_of input [] []) claims = Inr grants"
    using lease_refusal [OF _ l, of ctl "candidate_plan input" "occupancy_of input [] []" claims] o
    by (cases "take_leases ctl input (candidate_plan input) (occupancy_of input [] []) claims") auto
  obtain a where d: "decide ctl input (candidate_plan input) (occupancy_of input [] []) False = Inr a"
    "admission_status a = Approved" "deferredResources a = None"
    using c g by (simp add: decide_def o assessed_others_def settle_conflicts_def Let_def)
  then have "planAdmissionApproved a" by (simp add: planAdmissionApproved_def)
  then have "admit ctl input = Inr a" using d(1) by (simp add: admit_def claimBlocked_def o Let_def)
  then show ?thesis using d decide_runs_beside [OF d(1) \<open>planAdmissionApproved a\<close> l] by blast
qed

theorem lone_plan_admitted_witness:
  "\<exists>a. admit demo_controller (side_by_side\<lparr>active := []\<rparr>) = Inr a \<and> admission_status a = Approved"
proof -
  have "normal_plan (plain_plan ''p'' [''a'', ''b''])" unfolding normal_plan_def by code_simp
  then show ?thesis using lone_plan_admitted [of "side_by_side\<lparr>active := []\<rparr>" "[''a'', ''b'']" demo_controller]
    by (auto simp: side_by_side_def demo_input_def arbitrationFiles_def plain_plan_def)
qed

end
