(* ===== verification/Claim_Conversion.thy ===== *)
theory Claim_Conversion
  imports Partial_Admission
begin

text \<open>
  \<open>services/coordinator/src/blanket-claim.ts\<close>: the claim on the whole repository that a task nobody
  competes with is granted, and the three ways it shrinks: files handed back, a freeze to what the
  worktree shows, and the conversion to an ordinary plan once its holder has said what it needs.
  The timestamps are arguments; \<open>collate\<close> is the key \<open>localeCompare\<close> orders by.
\<close>

section \<open>The claim\<close>

text \<open>What is read here of a \<open>TaskDefinition\<close>.\<close>

record task_definition =
  definition_id :: string
  definition_objective :: string
  definition_commands :: "validation_command list"

definition blanketPlan :: "task_definition \<Rightarrow> string \<Rightarrow> string list \<Rightarrow> agent_plan" where
  "blanketPlan task grantedAt estimatedFiles =
     \<lparr>taskId = definition_id task, objective = definition_objective task, expectedFiles = estimatedFiles,
      expectedSymbols = [], declared = None, expectedApis = None, expectedSchemas = None,
      expectedConfigKeys = None, expectedTests = None, expectedServices = None, dependencies = [],
      commands = definition_commands task, externalAccess = [], riskLevel = MediumRisk,
      intent = Some ''Repository-wide claim granted without a planning round trip'', grounding = None,
      claim = Some (Blanket grantedAt None), dependenciesUnknown = None\<rparr>"

definition releaseFromBlanketClaim :: "agent_plan \<Rightarrow> string list \<Rightarrow> agent_plan" where
  "releaseFromBlanketClaim p files =
     (case claim p of
        Some (Blanket at released) \<Rightarrow>
          if files = [] then p
          else p\<lparr>claim := Some (Blanket at (Some (sorted_unique (or_empty released @ files))))\<rparr>
      | _ \<Rightarrow> p)"

section \<open>The freeze\<close>

record working_change =
  change_path :: string
  change_status :: file_patch_status
  change_ranges :: "line_range list option"

text \<open>\<open>file.slice(0, file.lastIndexOf("/") + 1)\<close>\<close>

definition directory_of :: "string \<Rightarrow> string" where
  "directory_of file = rev (dropWhile (\<lambda>c. c \<noteq> CHR ''/'') (rev file))"

type_synonym touched_ranges = "(string \<times> line_range list) list"

fun touch_file :: "string \<Rightarrow> line_range list \<Rightarrow> touched_ranges \<Rightarrow> touched_ranges" where
  "touch_file file rs [] = [(file, rs)]"
| "touch_file file rs ((f, ss) # touched) =
     (if f = file then (f, ss @ rs) # touched else (f, ss) # touch_file file rs touched)"

fun touched_files :: "working_change list \<Rightarrow> touched_ranges \<Rightarrow> path_error + touched_ranges" where
  "touched_files [] touched = Inr touched"
| "touched_files (c # cs) touched =
     (if or_empty (change_ranges c) = [] then touched_files cs touched
      else res_bind (normalizeRepositoryPath (change_path c)) (\<lambda>file.
             touched_files cs (touch_file file (or_empty (change_ranges c)) touched)))"

definition freezePlanFromWorkingChanges ::
  "(string \<Rightarrow> string) \<Rightarrow> agent_plan \<Rightarrow> working_change list \<Rightarrow> string \<Rightarrow> path_error + agent_plan"
where
  "freezePlanFromWorkingChanges collate p changes frozenAt =
     res_bind (res_map (\<lambda>c. normalizeRepositoryPath (change_path c)) changes) (\<lambda>changed.
       let files = sorted_unique (expectedFiles p @ changed);
           directories = sorted_unique (filter (\<lambda>d. d \<noteq> []) (map directory_of files))
       in res_bind (touched_files changes []) (\<lambda>touched.
            let sorted_touched = sort_key (\<lambda>e. collate (fst e)) touched
            in Inr (p\<lparr>expectedFiles := files,
                      claim := Some (FrozenClaim directories frozenAt
                        (if sorted_touched = [] then None else Some sorted_touched))\<rparr>)))"

definition frozenTouchedRanges :: "agent_plan \<Rightarrow> string \<Rightarrow> line_range list option" where
  "frozenTouchedRanges p file =
     (case claim p of
        Some (FrozenClaim _ _ touched) \<Rightarrow>
          (case find (\<lambda>e. fst e = file) (or_empty touched) of
             None \<Rightarrow> None
           | Some e \<Rightarrow> if snd e = [] then None else Some (snd e))
      | _ \<Rightarrow> None)"

section \<open>The holder's own declaration\<close>

record holder_declaration =
  holder_files :: "string list"
  holder_symbols :: "string list"

text \<open>The regular expression for a drive letter, a colon and a slash either way.\<close>

definition drive_start :: "string \<Rightarrow> bool" where
  "drive_start s \<longleftrightarrow> drive_prefix (forward_slashes s)"

definition usableRepositoryPath :: "string \<Rightarrow> bool" where
  "usableRepositoryPath v =
     (let trimmed = js_trim v
      in if trimmed = [] \<or> suffix ''/'' trimmed then False
         else if absolute trimmed \<or> drive_start trimmed then False
         else
           (case normalizeRepositoryPath trimmed of
              Inl _ \<Rightarrow> False
            | Inr normalized \<Rightarrow> normalized \<noteq> [] \<and> ''..'' \<notin> set (split_on CHR ''/'' normalized)))"

definition set_symbols :: "plan_declarations option \<Rightarrow> string list \<Rightarrow> plan_declarations" where
  "set_symbols d symbols =
     (case d of
        None \<Rightarrow> \<lparr>decl_symbols = Some symbols, decl_dependencies = None, decl_apis = None, decl_schemas = None,
                 decl_configKeys = None, decl_tests = None, decl_services = None\<rparr>
      | Some e \<Rightarrow> e\<lparr>decl_symbols := Some symbols\<rparr>)"

definition declaredPlanFromClaim ::
  "agent_plan \<Rightarrow> holder_declaration \<Rightarrow> string list \<Rightarrow> string \<Rightarrow> path_error + agent_plan option"
where
  "declaredPlanFromClaim p declaration observed declaredAt =
     (if \<not> isBlanketClaim p then Inr None
      else
        res_bind (uniqueRepositoryPaths (filter usableRepositoryPath (holder_files declaration))) (\<lambda>said.
          let symbols = sorted_unique (filter (\<lambda>s. s \<noteq> []) (map js_trim (holder_symbols declaration)))
          in if said = [] \<or> symbols = [] then Inr None
             else
               res_bind (uniqueRepositoryPaths (filter usableRepositoryPath observed)) (\<lambda>touched.
               res_bind (uniqueRepositoryPaths (said @ touched @ expectedFiles p)) (\<lambda>files.
                 let held = filter (\<lambda>f. f \<notin> set said) touched
                 in Inr (Some (p\<lparr>expectedFiles := files, expectedSymbols := symbols,
                                 declared := Some (set_symbols (declared p) symbols),
                                 claim := Some (DeclaredClaim declaredAt held)\<rparr>))))))"

section \<open>What a claim does not account for\<close>

definition is_declared_claim :: "agent_plan \<Rightarrow> bool" where
  "is_declared_claim p \<longleftrightarrow> (case claim p of Some (DeclaredClaim _ _) \<Rightarrow> True | _ \<Rightarrow> False)"

definition filesOutsideClaim :: "agent_plan \<Rightarrow> string list \<Rightarrow> path_error + string list" where
  "filesOutsideClaim p paths =
     res_bind (uniqueRepositoryPaths (expectedFiles p)) (\<lambda>files.
     res_bind (res_filter (\<lambda>file. res_bind (claimOccupiesPath p file) (\<lambda>occupied.
         Inr (\<not> occupied \<and> \<not> (is_declared_claim p \<and> file \<in> set files)))) paths) (\<lambda>outside.
       Inr (sorted_unique outside)))"

section \<open>Directories\<close>

lemma directory_of_split:
  "file = directory_of file @ rev (takeWhile (\<lambda>c. c \<noteq> CHR ''/'') (rev file))"
  by (metis directory_of_def rev_append rev_rev_ident takeWhile_dropWhile_id)

lemma directory_of_prefix: "prefix (directory_of file) file"
  by (metis directory_of_split prefixI)

lemma directory_of_slash: "directory_of file \<noteq> [] \<Longrightarrow> suffix ''/'' (directory_of file)"
  using hd_dropWhile [of "\<lambda>c. c \<noteq> CHR ''/''" "rev file"]
  by (cases "dropWhile (\<lambda>c. c \<noteq> CHR ''/'') (rev file)") (auto simp: directory_of_def suffix_def)

lemma directory_of_Nil_iff: "directory_of file = [] \<longleftrightarrow> CHR ''/'' \<notin> set file"
  by (auto simp: directory_of_def dropWhile_eq_Nil_conv)

section \<open>The lines a freeze records\<close>

definition ranges_seen :: "string \<Rightarrow> working_change list \<Rightarrow> line_range list" where
  "ranges_seen file cs =
     concat (map (\<lambda>c. or_empty (change_ranges c)) (filter (\<lambda>c. normalizeRepositoryPath (change_path c) = Inr file) cs))"

lemma touch_file_find:
  "find (\<lambda>e. fst e = f) (touch_file file rs touched) =
     (if f = file
      then Some (f, (case find (\<lambda>e. fst e = f) touched of None \<Rightarrow> [] | Some e \<Rightarrow> snd e) @ rs)
      else find (\<lambda>e. fst e = f) touched)"
  by (induction touched) auto

lemma touch_file_keys: "fst ` set (touch_file file rs touched) = insert file (fst ` set touched)"
proof (induction touched)
  case (Cons e touched)
  then show ?case by (cases e) (simp add: insert_commute)
qed simp

lemma touch_file_distinct: "distinct (map fst touched) \<Longrightarrow> distinct (map fst (touch_file file rs touched))"
  by (induction touched) (auto simp: touch_file_keys)

definition recorded :: "touched_ranges \<Rightarrow> string \<Rightarrow> line_range list" where
  "recorded touched file = (case find (\<lambda>e. fst e = file) touched of None \<Rightarrow> [] | Some e \<Rightarrow> snd e)"

lemma touched_files_recorded:
  "touched_files cs touched = Inr seen \<Longrightarrow> recorded seen file = recorded touched file @ ranges_seen file cs"
proof (induction cs touched rule: touched_files.induct)
  case (2 c cs touched)
  show ?case
  proof (cases "or_empty (change_ranges c) = []")
    case True
    then show ?thesis using 2 by (simp add: ranges_seen_def)
  next
    case False
    from 2(3) False obtain f where f: "normalizeRepositoryPath (change_path c) = Inr f"
      "touched_files cs (touch_file f (or_empty (change_ranges c)) touched) = Inr seen"
      by (auto simp: res_bind_eq_Inr_conv)
    then have "recorded seen file = recorded (touch_file f (or_empty (change_ranges c)) touched) file @ ranges_seen file cs"
      using 2(2) False by blast
    then show ?thesis using f(1)
      by (auto simp: recorded_def touch_file_find ranges_seen_def split: option.splits)
  qed
qed (simp add: ranges_seen_def)

lemma touched_files_distinct:
  "touched_files cs touched = Inr seen \<Longrightarrow> distinct (map fst touched) \<Longrightarrow> distinct (map fst seen)"
  by (induction cs touched rule: touched_files.induct)
     (auto simp: res_bind_eq_Inr_conv touch_file_distinct split: if_splits)

lemma recorded_map_of: "recorded touched file = or_empty (map_of touched file)"
  by (induction touched) (auto simp: recorded_def)

lemma recorded_sort:
  assumes "distinct (map fst touched)"
  shows "recorded (sort_key k touched) = recorded touched"
proof -
  have "distinct (map fst (sort_key k touched))"
    using assms by (metis distinct_map distinct_sort set_sort)
  then have "map_of (sort_key k touched) = map_of touched"
    using assms by (metis map_of_inject_set set_sort)
  then show ?thesis by (simp add: recorded_map_of fun_eq_iff)
qed

lemma touched_files_filled:
  assumes "touched_files cs [] = Inr seen" and "e \<in> set seen"
  shows "snd e \<noteq> []"
proof -
  have "touched_files cs touched = Inr seen \<Longrightarrow> \<forall>e \<in> set touched. snd e \<noteq> [] \<Longrightarrow> \<forall>e \<in> set seen. snd e \<noteq> []" for touched
  proof (induction cs touched rule: touched_files.induct)
    case (2 c cs touched)
    have "\<forall>e \<in> set (touch_file f rs touched). snd e \<noteq> []" if "rs \<noteq> []" for f and rs :: "line_range list"
      using 2(4) that by (induction touched) (fastforce split: if_splits)+
    then show ?case using 2 by (fastforce simp: res_bind_eq_Inr_conv split: if_splits)
  qed simp
  then show ?thesis using assms by fastforce
qed

end
