(* ===== verification/Claim_Laws.thy ===== *)
theory Claim_Laws
  imports Claim_Conversion
begin

text \<open>
  What the shrinking of a claim preserves. The two conversions share a contract, the locale
  \<open>shrinking_claim\<close>: the claim that is left accounts for exactly its plan's files, which include
  what the holder had declared and what it was seen writing.
\<close>

section \<open>The freeze\<close>

lemma freeze_law:
  assumes "freezePlanFromWorkingChanges collate p changes at = Inr q"
  obtains changed dirs touched where
    "res_map (\<lambda>c. normalizeRepositoryPath (change_path c)) changes = Inr changed"
    "expectedFiles q = sorted_unique (expectedFiles p @ changed)"
    "dirs = sorted_unique (filter (\<lambda>d. d \<noteq> []) (map directory_of (expectedFiles q)))"
    "touched_files changes [] = Inr touched"
    "claim q = Some (FrozenClaim dirs at
       (let ts = sort_key (\<lambda>e. collate (fst e)) touched in if ts = [] then None else Some ts))"
proof -
  obtain changed touched where
    "res_map (\<lambda>c. normalizeRepositoryPath (change_path c)) changes = Inr changed"
    "touched_files changes [] = Inr touched"
    "q = (let files = sorted_unique (expectedFiles p @ changed);
              ts = sort_key (\<lambda>e. collate (fst e)) touched
          in p\<lparr>expectedFiles := files,
               claim := Some (FrozenClaim (sorted_unique (filter (\<lambda>d. d \<noteq> []) (map directory_of files))) at
                 (if ts = [] then None else Some ts))\<rparr>)"
    using assms by (auto simp: freezePlanFromWorkingChanges_def res_bind_eq_Inr_conv Let_def)
  then show ?thesis using that [of changed "sorted_unique (filter (\<lambda>d. d \<noteq> []) (map directory_of (expectedFiles q)))" touched]
    by (simp add: Let_def)
qed

lemma frozen_ranges:
  assumes "freezePlanFromWorkingChanges collate p changes at = Inr q"
  shows "frozenTouchedRanges q file =
    (if ranges_seen file changes = [] then None else Some (ranges_seen file changes))"
proof -
  obtain dirs touched where t: "touched_files changes [] = Inr touched"
    "claim q = Some (FrozenClaim dirs at
       (let ts = sort_key (\<lambda>e. collate (fst e)) touched in if ts = [] then None else Some ts))"
    using freeze_law [OF assms] by metis
  let ?ts = "sort_key (\<lambda>e. collate (fst e)) touched"
  have "distinct (map fst touched)" using touched_files_distinct [OF t(1)] by simp
  then have "recorded ?ts file = ranges_seen file changes"
    using touched_files_recorded [OF t(1), of "file"] recorded_sort [where touched = touched and k = "\<lambda>e. collate (fst e)"]
    by (simp add: recorded_def)
  moreover have "frozenTouchedRanges q file = (if recorded ?ts file = [] then None else Some (recorded ?ts file))"
    using t(2) by (cases "?ts = []") (auto simp: frozenTouchedRanges_def recorded_def Let_def split: option.splits)
  ultimately show ?thesis by simp
qed

lemma frozen_covers:
  assumes "freezePlanFromWorkingChanges collate p changes at = Inr q"
  shows "claimCoversPath q file =
    Inr (\<exists>f \<in> set (expectedFiles q). directory_of f \<noteq> [] \<and> prefix (directory_of f) file)"
proof -
  obtain dirs touched where "dirs = sorted_unique (filter (\<lambda>d. d \<noteq> []) (map directory_of (expectedFiles q)))"
    "claim q = Some (FrozenClaim dirs at touched)"
    using freeze_law [OF assms] by metis
  then show ?thesis by (auto simp: claimCoversPath_def list_ex_iff)
qed

lemma frozen_claim_sound:
  assumes "freezePlanFromWorkingChanges collate p changes at = Inr q"
    and "\<forall>c \<in> set changes. \<forall>r \<in> set (or_empty (change_ranges c)). 1 \<le> startLine r \<and> startLine r \<le> endLine r"
    and "\<forall>f \<in> set (expectedFiles q). f \<noteq> []"
  shows "\<exists>c. claim q = Some c \<and> isPlanClaim c"
proof -
  obtain dirs touched where t: "touched_files changes [] = Inr touched"
    "dirs = sorted_unique (filter (\<lambda>d. d \<noteq> []) (map directory_of (expectedFiles q)))"
    "claim q = Some (FrozenClaim dirs at
       (let ts = sort_key (\<lambda>e. collate (fst e)) touched in if ts = [] then None else Some ts))"
    using freeze_law [OF assms(1)] by metis
  have d: "distinct (map fst touched)" using touched_files_distinct [OF t(1)] by simp
  have "fst e \<noteq> [] \<and> (\<forall>r \<in> set (snd e). 1 \<le> startLine r \<and> startLine r \<le> endLine r)" if e: "e \<in> set touched" for e
  proof -
    have "recorded touched (fst e) = snd e" using d e by (cases e) (simp add: recorded_map_of)
    then have s: "snd e = ranges_seen (fst e) changes"
      using touched_files_recorded [OF t(1), of "fst e"] by (simp add: recorded_def)
    have "snd e \<noteq> [] \<Longrightarrow> fst e \<noteq> []"
      using s normalizeRepositoryPath_inside inside_not_escaping by (auto simp: ranges_seen_def filter_empty_conv)
    moreover have "snd e \<noteq> []" using touched_files_filled [OF t(1)] e by simp
    ultimately show ?thesis using s assms(2) by (auto simp: ranges_seen_def)
  qed
  then have "isTouchedFileRanges (sort_key (\<lambda>e. collate (fst e)) touched)"
    by (fastforce simp: isTouchedFileRanges_def list_all_iff)
  moreover have "list_all (\<lambda>d. suffix ''/'' d) dirs" using t(2) directory_of_slash by (auto simp: list_all_iff)
  ultimately show ?thesis using t(3) by (simp add: Let_def)
qed

section \<open>The holder's declaration\<close>

lemma declared_law:
  assumes "declaredPlanFromClaim p d observed at = Inr (Some q)"
  obtains said touched where
    "uniqueRepositoryPaths (filter usableRepositoryPath (holder_files d)) = Inr said"
    "uniqueRepositoryPaths (filter usableRepositoryPath observed) = Inr touched"
    "uniqueRepositoryPaths (said @ touched @ expectedFiles p) = Inr (expectedFiles q)"
    "claim q = Some (DeclaredClaim at (filter (\<lambda>f. f \<notin> set said) touched))"
    "said \<noteq> []" "expectedSymbols q = uniqueStrings (holder_symbols d)" "expectedSymbols q \<noteq> []"
    "isBlanketClaim p"
  using assms
  by (auto simp: declaredPlanFromClaim_def res_bind_eq_Inr_conv uniqueStrings_def Let_def split: if_splits)

section \<open>The contract\<close>

definition seen_paths :: "string list \<Rightarrow> string set" where
  "seen_paths written = {f. \<exists>v \<in> set written. normalizeRepositoryPath v = Inr f}"

locale shrinking_claim =
  fixes shrink :: "agent_plan \<Rightarrow> 'a \<Rightarrow> path_error + agent_plan option"
    and written :: "'a \<Rightarrow> string list"
  assumes accounts: "shrink p x = Inr (Some q) \<Longrightarrow> list_all settled_path (expectedFiles q) \<Longrightarrow>
      filesOutsideClaim q paths = Inr (sorted_unique (filter (\<lambda>f. f \<notin> set (expectedFiles q)) paths))"
    and keeps: "shrink p x = Inr (Some q) \<Longrightarrow> list_all settled_path (expectedFiles p) \<Longrightarrow>
      set (expectedFiles p) \<union> seen_paths (written x) \<subseteq> set (expectedFiles q)"
    and settles: "shrink p x = Inr (Some q) \<Longrightarrow> list_all settled_path (expectedFiles p) \<Longrightarrow>
      \<forall>f \<in> seen_paths (written x). \<not> drive_prefix f \<Longrightarrow> list_all settled_path (expectedFiles q)"
begin

lemma nothing_lost:
  assumes "shrink p x = Inr (Some q)" and "list_all settled_path (expectedFiles p)"
    and "\<forall>f \<in> seen_paths (written x). \<not> drive_prefix f"
    and "set paths \<subseteq> set (expectedFiles p) \<union> seen_paths (written x)"
  shows "filesOutsideClaim q paths = Inr []"
proof -
  have "set paths \<subseteq> set (expectedFiles q)" using keeps [OF assms(1,2)] assms(4) by blast
  then have "filter (\<lambda>f. f \<notin> set (expectedFiles q)) paths = []" by (auto simp: filter_empty_conv)
  then show ?thesis using accounts [OF assms(1) settles [OF assms(1-3)], of paths] by (simp add: sorted_unique_def)
qed

lemma escape_named:
  assumes "shrink p x = Inr (Some q)" and "list_all settled_path (expectedFiles p)"
    and "\<forall>f \<in> seen_paths (written x). \<not> drive_prefix f"
  shows "\<exists>outside. filesOutsideClaim q paths = Inr outside \<and> set outside = set paths - set (expectedFiles q)"
  using accounts [OF assms(1) settles [OF assms], of paths] by auto

end

lemma settled_unique: "list_all settled_path (sorted_unique ps) \<longleftrightarrow> list_all settled_path ps"
  by (simp add: list_all_iff)

lemma settledI: "normalizeRepositoryPath v = Inr f \<Longrightarrow> \<not> drive_prefix f \<Longrightarrow> settled_path f"
  using normalizeRepositoryPath_inside normalizeRepositoryPath_id by (simp add: settled_path_def)

lemma outside_settled:
  assumes "list_all settled_path (expectedFiles q)"
    and "\<And>f. claimOccupiesPath q f = Inr (occupied f)"
    and "\<And>f. occupied f \<or> is_declared_claim q \<and> f \<in> set (expectedFiles q) \<longleftrightarrow> f \<in> set (expectedFiles q)"
  shows "filesOutsideClaim q paths = Inr (sorted_unique (filter (\<lambda>f. f \<notin> set (expectedFiles q)) paths))"
proof -
  have "\<not> occupied f \<and> \<not> (is_declared_claim q \<and> f \<in> set (expectedFiles q)) \<longleftrightarrow> f \<notin> set (expectedFiles q)" for f
    using assms(3) by blast
  then show ?thesis
    by (simp add: filesOutsideClaim_def uniqueRepositoryPaths_settled [OF assms(1)] assms(2)
        res_filter_pure [of paths _ "\<lambda>f. f \<notin> set (expectedFiles q)"])
qed

definition freeze_claim ::
  "(string \<Rightarrow> string) \<Rightarrow> string \<Rightarrow> agent_plan \<Rightarrow> working_change list \<Rightarrow> path_error + agent_plan option"
where
  "freeze_claim collate at p changes =
     res_bind (freezePlanFromWorkingChanges collate p changes at) (\<lambda>q. Inr (Some q))"

interpretation freeze: shrinking_claim "freeze_claim collate at" "map change_path"
proof
  fix p q :: agent_plan and x and paths
  assume "freeze_claim collate at p x = Inr (Some q)"
  then have f: "freezePlanFromWorkingChanges collate p x at = Inr q"
    by (simp add: freeze_claim_def res_bind_eq_Inr_conv)
  obtain changed dirs touched where
    c: "res_map (\<lambda>c. normalizeRepositoryPath (change_path c)) x = Inr changed"
      "expectedFiles q = sorted_unique (expectedFiles p @ changed)"
      "claim q = Some (FrozenClaim dirs at touched)"
    using freeze_law [OF f] by metis
  have m: "set changed = seen_paths (map change_path x)"
    using res_map_member [OF c(1)] res_map_source [OF c(1)] by (fastforce simp: seen_paths_def)
  show "set (expectedFiles p) \<union> seen_paths (map change_path x) \<subseteq> set (expectedFiles q)" using c(2) m by simp
  show "filesOutsideClaim q paths = Inr (sorted_unique (filter (\<lambda>f. f \<notin> set (expectedFiles q)) paths))"
    if s: "list_all settled_path (expectedFiles q)"
    using c(3) by (intro outside_settled [OF s, of "\<lambda>f. f \<in> set (expectedFiles q)"])
      (simp_all add: claimOccupiesPath_def uniqueRepositoryPaths_settled [OF s] is_declared_claim_def)
  show "list_all settled_path (expectedFiles q)"
    if "list_all settled_path (expectedFiles p)" "\<forall>f \<in> seen_paths (map change_path x). \<not> drive_prefix f"
    using that c(2) m settledI by (auto simp: list_all_iff seen_paths_def)
qed

definition declare_claim ::
  "string \<Rightarrow> agent_plan \<Rightarrow> holder_declaration \<times> string list \<Rightarrow> path_error + agent_plan option" where
  "declare_claim at p x = declaredPlanFromClaim p (fst x) (snd x) at"

definition usable_answers :: "holder_declaration \<times> string list \<Rightarrow> string list" where
  "usable_answers x = filter usableRepositoryPath (holder_files (fst x)) @ filter usableRepositoryPath (snd x)"

lemma settled_again:
  assumes "normalizeRepositoryPath v = Inr f" and "normalizeRepositoryPath f = Inr g"
  shows "settled_path f \<and> g = f"
proof -
  have i: "inside f \<and> CHR 0x00 \<notin> set f \<and> CHR 0x5C \<notin> set f" by (rule normalizeRepositoryPath_inside [OF assms(1)])
  have "forward_slashes f = f" using i unfolding forward_slashes_def by (intro map_idI) auto
  then have "\<not> drive_prefix f" using assms(2) by (auto simp: normalizeRepositoryPath_def Let_def split: if_splits)
  then show ?thesis using settledI [OF assms(1)] assms(2) by (simp add: settled_path_def)
qed

lemma settled_members:
  assumes "uniqueRepositoryPaths vs = Inr fs" and "uniqueRepositoryPaths (fs @ rest) = Inr gs"
  shows "set fs \<subseteq> set gs" and "list_all settled_path fs"
proof -
  have "settled_path f \<and> f \<in> set gs" if f: "f \<in> set fs" for f
  proof -
    obtain v where "normalizeRepositoryPath v = Inr f" using uniqueRepositoryPaths_law [OF assms(1)] f by auto
    moreover obtain hs where "res_map normalizeRepositoryPath (fs @ rest) = Inr hs" "gs = sorted_unique hs"
      using assms(2) by (auto simp: uniqueRepositoryPaths_def res_bind_eq_Inr_conv)
    moreover obtain g where "normalizeRepositoryPath f = Inr g" "g \<in> set hs"
      using res_map_member [OF calculation(2), of f] f by auto
    ultimately show ?thesis using settled_again [of v f g] by auto
  qed
  then show "set fs \<subseteq> set gs" "list_all settled_path fs" by (auto simp: list_all_iff)
qed

lemma unique_paths_set:
  assumes "uniqueRepositoryPaths vs = Inr fs"
  shows "set fs = {f. \<exists>v \<in> set vs. normalizeRepositoryPath v = Inr f}"
proof -
  obtain hs where "res_map normalizeRepositoryPath vs = Inr hs" "fs = sorted_unique hs"
    using assms by (auto simp: uniqueRepositoryPaths_def res_bind_eq_Inr_conv)
  then show ?thesis using res_map_member [of _ vs hs] res_map_source [of _ vs hs] by fastforce
qed

lemma settled_set: "list_all settled_path fs \<Longrightarrow> {f. \<exists>v \<in> set fs. normalizeRepositoryPath v = Inr f} = set fs"
  by (auto simp: list_all_iff settled_path_def)

lemma unique_paths_perm:
  "set vs = set ws \<Longrightarrow> uniqueRepositoryPaths vs = Inr fs \<Longrightarrow> uniqueRepositoryPaths ws = Inr fs"
proof -
  assume s: "set vs = set ws" and u: "uniqueRepositoryPaths vs = Inr fs"
  then obtain hs where h: "res_map normalizeRepositoryPath vs = Inr hs" "fs = sorted_unique hs"
    by (auto simp: uniqueRepositoryPaths_def res_bind_eq_Inr_conv)
  have p: "normalizeRepositoryPath v = Inr (projr (normalizeRepositoryPath v))" if "v \<in> set vs" for v
    using res_map_member [OF h(1) that] by auto
  have "hs = map (\<lambda>v. projr (normalizeRepositoryPath v)) vs" using res_map_pure [of vs, OF p] h(1) by simp
  moreover have "res_map normalizeRepositoryPath ws = Inr (map (\<lambda>v. projr (normalizeRepositoryPath v)) ws)"
    using res_map_pure [of ws, OF p] s by simp
  ultimately show ?thesis using h(2) s by (auto simp: uniqueRepositoryPaths_def intro!: sorted_unique_cong)
qed

interpretation declare_files: shrinking_claim "declare_claim at" usable_answers
proof
  fix p q :: agent_plan and x :: "holder_declaration \<times> string list" and paths
  assume "declare_claim at p x = Inr (Some q)"
  then have "declaredPlanFromClaim p (fst x) (snd x) at = Inr (Some q)" by (simp add: declare_claim_def)
  then obtain said touched where
    u: "uniqueRepositoryPaths (filter usableRepositoryPath (holder_files (fst x))) = Inr said"
      "uniqueRepositoryPaths (filter usableRepositoryPath (snd x)) = Inr touched"
      "uniqueRepositoryPaths (said @ touched @ expectedFiles p) = Inr (expectedFiles q)"
    and c: "claim q = Some (DeclaredClaim at (filter (\<lambda>f. f \<notin> set said) touched))"
    by (rule declared_law)
  have u': "uniqueRepositoryPaths (touched @ said @ expectedFiles p) = Inr (expectedFiles q)"
    by (rule unique_paths_perm [OF _ u(3)]) auto
  note said = settled_members [OF u(1,3)] and touched = settled_members [OF u(2) u']
  have seen: "seen_paths (usable_answers x) = set said \<union> set touched"
    using unique_paths_set [OF u(1)] unique_paths_set [OF u(2)] by (auto simp: seen_paths_def usable_answers_def)
  let ?held = "filter (\<lambda>f. f \<notin> set said) touched"
  have held: "uniqueRepositoryPaths ?held = Inr (sorted_unique ?held)"
    using touched(2) by (intro uniqueRepositoryPaths_settled) (auto simp: list_all_iff)
  show "filesOutsideClaim q paths = Inr (sorted_unique (filter (\<lambda>f. f \<notin> set (expectedFiles q)) paths))"
    if s: "list_all settled_path (expectedFiles q)"
    using c held touched(1)
    by (intro outside_settled [OF s, of "\<lambda>f. f \<in> set ?held"]) (auto simp: claimOccupiesPath_def is_declared_claim_def)
  assume p: "list_all settled_path (expectedFiles p)"
  have files: "set (expectedFiles q) = set said \<union> set touched \<union> set (expectedFiles p)"
    using unique_paths_set [OF u(3)] settled_set [of "said @ touched @ expectedFiles p"] said(2) touched(2) p by auto
  show "set (expectedFiles p) \<union> seen_paths (usable_answers x) \<subseteq> set (expectedFiles q)" using files seen by auto
  show "list_all settled_path (expectedFiles q)" using files said(2) touched(2) p by (auto simp: list_all_iff)
qed

lemma frozen_files:
  assumes "freezePlanFromWorkingChanges collate p changes at = Inr q"
  shows "set (expectedFiles q) = set (expectedFiles p) \<union> seen_paths (map change_path changes)"
proof -
  obtain changed where c: "res_map (\<lambda>c. normalizeRepositoryPath (change_path c)) changes = Inr changed"
      "expectedFiles q = sorted_unique (expectedFiles p @ changed)"
    using freeze_law [OF assms] by metis
  have "set changed = seen_paths (map change_path changes)"
    using res_map_member [OF c(1)] res_map_source [OF c(1)] by (fastforce simp: seen_paths_def)
  then show ?thesis using c(2) by simp
qed

lemma declared_seen:
  assumes "declaredPlanFromClaim p d observed at = Inr (Some q)"
  obtains said touched where "set said = seen_paths (filter usableRepositoryPath (holder_files d))"
    "set touched = seen_paths (filter usableRepositoryPath observed)"
    "list_all settled_path said" "list_all settled_path touched"
    "claim q = Some (DeclaredClaim at (filter (\<lambda>f. f \<notin> set said) touched))"
proof (rule declared_law [OF assms])
  fix said touched
  assume u: "uniqueRepositoryPaths (filter usableRepositoryPath (holder_files d)) = Inr said"
    "uniqueRepositoryPaths (filter usableRepositoryPath observed) = Inr touched"
    "uniqueRepositoryPaths (said @ touched @ expectedFiles p) = Inr (expectedFiles q)"
    and c: "claim q = Some (DeclaredClaim at (filter (\<lambda>f. f \<notin> set said) touched))"
  have u': "uniqueRepositoryPaths (touched @ said @ expectedFiles p) = Inr (expectedFiles q)"
    by (rule unique_paths_perm [OF _ u(3)]) auto
  show thesis
    using that [of said touched] unique_paths_set [OF u(1)] unique_paths_set [OF u(2)]
      settled_members(2) [OF u(1,3)] settled_members(2) [OF u(2) u'] c
    by (simp add: seen_paths_def)
qed

lemma declared_occupies:
  assumes "declaredPlanFromClaim p d observed at = Inr (Some q)"
  shows "claimOccupiesPath q f = Inr (f \<in> seen_paths (filter usableRepositoryPath observed) \<and>
    f \<notin> seen_paths (filter usableRepositoryPath (holder_files d)))"
proof -
  obtain said touched where s: "set said = seen_paths (filter usableRepositoryPath (holder_files d))"
    "set touched = seen_paths (filter usableRepositoryPath observed)" "list_all settled_path touched"
    "claim q = Some (DeclaredClaim at (filter (\<lambda>f. f \<notin> set said) touched))"
    using declared_seen [OF assms] by metis
  have "list_all settled_path (filter (\<lambda>f. f \<notin> set said) touched)" using s(3) by (auto simp: list_all_iff)
  then show ?thesis using s(4) by (auto simp: claimOccupiesPath_def uniqueRepositoryPaths_settled s(1,2) [symmetric])
qed

lemma settled_no_drive: "settled_path f \<Longrightarrow> \<not> drive_prefix f"
proof
  assume s: "settled_path f" and d: "drive_prefix f"
  have "CHR 0x5C \<notin> set f" using s normalizeRepositoryPath_inside by (auto simp: settled_path_def)
  then have "forward_slashes f = f" unfolding forward_slashes_def by (intro map_idI) auto
  then show False using s d by (auto simp: settled_path_def normalizeRepositoryPath_def Let_def split: if_splits)
qed

lemma declared_no_drive:
  assumes "declaredPlanFromClaim p d observed at = Inr (Some q)"
  shows "\<forall>f \<in> seen_paths (usable_answers (d, observed)). \<not> drive_prefix f"
proof -
  obtain said touched where "set said = seen_paths (filter usableRepositoryPath (holder_files d))"
    "set touched = seen_paths (filter usableRepositoryPath observed)"
    "list_all settled_path said" "list_all settled_path touched"
    using declared_seen [OF assms] by metis
  then show ?thesis using settled_no_drive by (fastforce simp: usable_answers_def seen_paths_def list_all_iff)
qed

end
