(* ===== verification/Branch_Claims.thy ===== *)
theory Branch_Claims
  imports Plan_Admission
begin

text \<open>
  \<open>services/coordinator/src/branch-claims.ts\<close> and \<open>upstream-claims.ts\<close>: what an open branch (or a
  push to the origin) holds after its work has landed, the dress of such a claim as an executing
  plan, and the test whether it can reach another branch at all. A number read from a hunk header
  is taken without the loss of precision of a double.
\<close>

section \<open>Claims\<close>

record claimed_range =
  range_file :: string
  range_start :: int
  range_end :: int

record claimed_shape =
  shape_file :: string
  shape_symbol :: string
  shape_text :: string
  shape_digest :: string
  shape_inferred :: "bool option"
  shape_moved :: "bool option"

record moved_resources =
  moved_apis :: "string list"
  moved_schemas :: "string list"
  moved_configKeys :: "string list"
  moved_services :: "string list"

record branch_claim_input =
  claim_repository :: string
  claim_branch :: string
  claim_task :: string
  claim_revision :: string
  claim_symbols :: "string list"
  claim_apis :: "string list"
  claim_schemas :: "string list"
  claim_configKeys :: "string list"
  claim_services :: "string list"
  claim_lines :: "claimed_range list"
  claim_shapes :: "claimed_shape list"
  claim_moved :: "moved_resources option"

text \<open>The stored claim, with the id the store gives it.\<close>

record branch_claim = branch_claim_input +
  branch_claim_id :: string

section \<open>From a change set\<close>

text \<open>The regular expression for a hunk header, capturing the start and the length on the new side.\<close>

definition header_new_side :: "string \<Rightarrow> (string \<times> string option) option" where
  "header_new_side line =
     Option.bind (strip ''@@ -'' line) (\<lambda>s.
     Option.bind (read_digits s) (\<lambda>(_, s1).
     Option.bind (strip '' +'' (snd (read_count s1))) (\<lambda>s2.
     Option.bind (read_digits s2) (\<lambda>(start, s3).
     Option.bind (strip '' @@'' (snd (read_count s3))) (\<lambda>s4.
     Some (start, fst (read_count s3)))))))"

definition patch_ranges :: "file_patch \<Rightarrow> claimed_range list" where
  "patch_ranges p =
     List.map_filter (\<lambda>line. map_option (\<lambda>m.
         \<lparr>range_file = patch_path p, range_start = header_start m,
          range_end = header_start m + header_count m\<rparr>) (header_new_side line))
       (split_on CHR 0x0A (patch_text p))"

definition rangesFromPatches :: "file_patch list \<Rightarrow> claimed_range list" where
  "rangesFromPatches ps = concat (map patch_ranges ps)"

definition declared_or :: "agent_plan option \<Rightarrow> (plan_declarations \<Rightarrow> string list option) \<Rightarrow>
    (agent_plan \<Rightarrow> string list option) \<Rightarrow> string list" where
  "declared_or p key fallback =
     (case p of
        None \<Rightarrow> []
      | Some q \<Rightarrow>
          (case Option.bind (declared q) key of
             Some names \<Rightarrow> names
           | None \<Rightarrow> or_empty (fallback q)))"

record observed_resources =
  seen_symbols :: "string list"
  seen_apis :: "string list"
  seen_schemas :: "string list"
  seen_configKeys :: "string list"
  seen_services :: "string list"

record landed_changes =
  landed_task :: string
  symbolsChanged :: "string list"
  landed_patches :: "file_patch list"

definition claimFromChangeSet ::
  "string \<Rightarrow> string \<Rightarrow> string \<Rightarrow> landed_changes \<Rightarrow> agent_plan option \<Rightarrow> observed_resources option
   \<Rightarrow> claimed_shape list option \<Rightarrow> moved_resources option \<Rightarrow> branch_claim_input"
where
  "claimFromChangeSet repository branch revision cs p observed shapes moved =
     (let read = (\<lambda>field fallback. case observed of Some o' \<Rightarrow> field o' | None \<Rightarrow> fallback)
      in \<lparr>claim_repository = repository, claim_branch = branch, claim_task = landed_task cs,
          claim_revision = revision,
          claim_symbols = read seen_symbols (symbolsChanged cs),
          claim_apis = read seen_apis (declared_or p decl_apis expectedApis),
          claim_schemas = read seen_schemas (declared_or p decl_schemas expectedSchemas),
          claim_configKeys = read seen_configKeys (declared_or p decl_configKeys expectedConfigKeys),
          claim_services = read seen_services (declared_or p decl_services expectedServices),
          claim_lines = rangesFromPatches (landed_patches cs),
          claim_shapes = or_empty shapes, claim_moved = moved\<rparr>)"

section \<open>As an executing plan\<close>

definition claim_plan :: "'a branch_claim_input_scheme \<Rightarrow> agent_plan" where
  "claim_plan c =
     \<lparr>taskId = claim_task c, objective = ''work already landed on '' @ claim_branch c,
      expectedFiles = js_set (map range_file (claim_lines c)), expectedSymbols = claim_symbols c,
      declared = Some \<lparr>decl_symbols = Some (claim_symbols c), decl_dependencies = Some [],
        decl_apis = Some (claim_apis c), decl_schemas = Some (claim_schemas c),
        decl_configKeys = Some (claim_configKeys c), decl_tests = Some [],
        decl_services = Some (claim_services c)\<rparr>,
      expectedApis = Some (claim_apis c), expectedSchemas = Some (claim_schemas c),
      expectedConfigKeys = Some (claim_configKeys c), expectedTests = None,
      expectedServices = Some (claim_services c), dependencies = [], commands = [], externalAccess = [],
      riskLevel = MediumRisk, intent = None, grounding = None, claim = None, dependenciesUnknown = None\<rparr>"

definition branchClaimsAsActivePlans :: "'a branch_claim_input_scheme list \<Rightarrow> active_plan list" where
  "branchClaimsAsActivePlans cs =
     map (\<lambda>c. \<lparr>active_task = claim_task c, active_agent = ''branch:'' @ claim_branch c,
               running = claim_plan c\<rparr>) cs"

section \<open>Whether a claim crosses branches\<close>

definition namesCross :: "string list \<Rightarrow> string list option \<Rightarrow> bool" where
  "namesCross names moved = (case moved of None \<Rightarrow> names \<noteq> [] | Some ms \<Rightarrow> ms \<noteq> [])"

definition shapesCross :: "claimed_shape list \<Rightarrow> bool" where
  "shapesCross shapes =
     (if list_all (\<lambda>s. shape_moved s \<noteq> None) shapes then list_ex (\<lambda>s. shape_moved s = Some True) shapes
      else shapes \<noteq> [])"

definition claimCrossesBranches :: "'a branch_claim_input_scheme \<Rightarrow> bool" where
  "claimCrossesBranches c \<longleftrightarrow>
     (let moved = claim_moved c
      in namesCross (claim_apis c) (map_option moved_apis moved) \<or>
         namesCross (claim_schemas c) (map_option moved_schemas moved) \<or>
         namesCross (claim_configKeys c) (map_option moved_configKeys moved) \<or>
         namesCross (claim_services c) (map_option moved_services moved) \<or>
         shapesCross (claim_shapes c))"

definition differing :: "string list \<Rightarrow> string list \<Rightarrow> string list" where
  "differing mine theirs =
     sort (filter (\<lambda>n. n \<notin> set theirs) mine @ filter (\<lambda>n. n \<notin> set mine) theirs)"

definition movedAgainstCanonical :: "observed_resources \<Rightarrow> observed_resources \<Rightarrow> moved_resources" where
  "movedAgainstCanonical branch canonical =
     \<lparr>moved_apis = differing (seen_apis branch) (seen_apis canonical),
      moved_schemas = differing (seen_schemas branch) (seen_schemas canonical),
      moved_configKeys = differing (seen_configKeys branch) (seen_configKeys canonical),
      moved_services = differing (seen_services branch) (seen_services canonical)\<rparr>"

section \<open>Pushes to the origin\<close>

definition upstreamBranchName :: "string \<Rightarrow> string" where
  "upstreamBranchName b = ''origin/'' @ b"

definition UPSTREAM_TASK_ID :: string where
  "UPSTREAM_TASK_ID = ''external-push''"

record upstream_gap =
  gap_repository :: string
  upstreamBranch :: string
  gap_revision :: string
  mirrorRevision :: string
  gap_files :: "string list"
  gap_resources :: "observed_resources option"
  gap_shapes :: "claimed_shape list option"

definition claimFromUpstreamGap :: "upstream_gap \<Rightarrow> branch_claim_input" where
  "claimFromUpstreamGap g =
     (let read = (\<lambda>field. case gap_resources g of None \<Rightarrow> [] | Some r \<Rightarrow> field r)
      in \<lparr>claim_repository = gap_repository g, claim_branch = upstreamBranchName (upstreamBranch g),
          claim_task = UPSTREAM_TASK_ID, claim_revision = gap_revision g,
          claim_symbols = read seen_symbols, claim_apis = read seen_apis, claim_schemas = read seen_schemas,
          claim_configKeys = read seen_configKeys, claim_services = read seen_services, claim_lines = [],
          claim_shapes = or_empty (gap_shapes g), claim_moved = None\<rparr>)"

definition gapIsWorthRecording :: "upstream_gap \<Rightarrow> bool" where
  "gapIsWorthRecording g \<longleftrightarrow> 0 < length (gap_files g) \<and> gap_revision g \<noteq> mirrorRevision g"

definition joined :: "string \<Rightarrow> string list \<Rightarrow> string" where
  "joined sep ss = (case ss of [] \<Rightarrow> [] | s # rest \<Rightarrow> s @ concat (map (\<lambda>t. sep @ t) rest))"

text \<open>The dash of the sentence is outside the characters of a \<open>string\<close> and is an argument.\<close>

definition describeUpstreamGap :: "string \<Rightarrow> upstream_gap \<Rightarrow> string" where
  "describeUpstreamGap dash g =
     (let count = length (gap_files g);
          listed = joined '', '' (take 3 (gap_files g));
          rest = count - min count 3
      in ''origin/'' @ upstreamBranch g @ '' has '' @ show_nat count @ '' file'' @
         (if count = 1 then '''' else ''s'') @ '' this mirror has not got'' @
         (if listed = [] then ''''
          else '' '' @ dash @ '' '' @ listed @ (if 0 < rest then '' and '' @ show_nat rest @ '' more'' else '''')) @
         ''. Somebody pushed straight to the origin. Plans here are written'' @
         '' against '' @ take 8 (mirrorRevision g) @ '' until canonical pulls'' @
         '' '' @ take 8 (gap_revision g) @ ''.'')"

section \<open>What a plan is arbitrated against\<close>

text \<open>
  \<open>executingPlans\<close> and \<open>narrowToBranch\<close> of \<open>apps/cli/src/lease-admission.ts\<close>: the approved plans of
  the other active leases and the claims of the other open branches, as the branch of the lease sees
  them. What the store answers is an argument.
\<close>

record work_lease =
  work_lease_id :: string
  work_task :: string
  work_worker :: string
  work_branch :: "string option"
  work_plan :: "(agent_plan \<times> full_admission) option"

record executing =
  executing_active :: "active_plan list"
  approvedLeaseIds :: "string list"
  branchOf :: "string \<Rightarrow> string option"

definition admitted_plan :: "work_lease \<Rightarrow> work_lease \<Rightarrow> agent_plan option" where
  "admitted_plan lease c =
     (if work_lease_id c = work_lease_id lease then None
      else case work_plan c of
        None \<Rightarrow> None
      | Some (p, a) \<Rightarrow> if planAdmissionApproved a then Some p else None)"

definition executingPlans ::
  "work_lease \<Rightarrow> work_lease list \<Rightarrow> (string \<times> string) list \<Rightarrow> branch_claim list option \<Rightarrow> executing"
where
  "executingPlans lease leases agents branchClaims =
     (let admitted = List.map_filter (\<lambda>c. map_option (\<lambda>p. (c, p)) (admitted_plan lease c)) leases;
          agentFor = map_of (rev agents);
          claims = or_empty branchClaims
      in \<lparr>executing_active =
            map (\<lambda>(c, p). \<lparr>active_task = work_task c, active_agent = or_else (agentFor (work_task c)) (work_worker c),
                            running = p\<rparr>) admitted @ branchClaimsAsActivePlans claims,
          approvedLeaseIds = sort (map (\<lambda>(c, p). work_lease_id c) admitted),
          branchOf = (\<lambda>t. Option.bind (map_of (rev (map (\<lambda>(c, p). (work_task c, work_branch c)) admitted @
            map (\<lambda>b. (claim_task b, Some (claim_branch b))) claims)) t) id)\<rparr>)"

definition narrow_entry ::
  "(string \<Rightarrow> string option) \<Rightarrow> string \<Rightarrow> symbol_visibility \<Rightarrow> active_plan \<Rightarrow> plan_error + active_plan list"
where
  "narrow_entry branches here v e =
     (if or_else (branches (active_task e)) [] = here then Inr [e]
      else res_bind (interfaceScopeOf (running e) v) (\<lambda>shared.
        Inr (case shared of None \<Rightarrow> [] | Some q \<Rightarrow> [e\<lparr>running := q\<rparr>])))"

definition narrowToBranch ::
  "active_plan list \<Rightarrow> (string \<Rightarrow> string option) \<Rightarrow> string option \<Rightarrow> symbol_visibility \<Rightarrow> plan_error + active_plan list"
where
  "narrowToBranch entries branches branch v =
     (let here = or_else branch []
      in if list_all (\<lambda>e. or_else (branches (active_task e)) [] = here) entries then Inr entries
         else res_bind (res_map (narrow_entry branches here v) entries) (\<lambda>ls. Inr (concat ls)))"

end
