(* ===== verification/Branch_Laws.thy ===== *)
theory Branch_Laws
  imports Branch_Claims Edit_Scripts Admission_Answers
begin

text \<open>
  What the claims of open branches mean. The ranges read off a patch put together from hunks are the
  places its hunks land; a claim is empty of moved names exactly when branch and canonical agree; the
  plan a claim is dressed as keeps, narrowed to what crosses branches, every route, schema and
  configuration key, and admission keeps an approved plan off them.
\<close>

section \<open>Ranges\<close>

lemma header_new_side_None: "header_new_side l = None \<longleftrightarrow> hunk_header l = None"
  by (auto simp: header_new_side_def hunk_header_def bind_eq_None_conv split_beta)

lemma emitted_new_side:
  assumes "0 \<le> oldStart h" "0 \<le> oldCount h" "0 \<le> newCount h" "0 \<le> new_start delta h"
  shows "header_new_side (emit_header delta h) =
    Some (show_nat (nat (new_start delta h)), Some (show_nat (nat (newCount h))))"
proof -
  have nd: "no_digit_first (c # s) \<longleftrightarrow> \<not> is_digit c" for c s by (simp add: no_digit_first_def)
  show ?thesis
    unfolding emit_header_nonneg [OF assms] header_new_side_def
    by (simp add: strip_append read_digits_show nd at_not_digit read_count_def)
qed

definition landed_at :: "string \<Rightarrow> int \<Rightarrow> parsed_hunk \<Rightarrow> claimed_range" where
  "landed_at path d h =
     \<lparr>range_file = path, range_start = new_start d h, range_end = new_start d h + newCount h\<rparr>"

fun landed :: "string \<Rightarrow> int \<Rightarrow> parsed_hunk list \<Rightarrow> claimed_range list" where
  "landed path d [] = []"
| "landed path d (h # hs) = landed_at path d h # landed path (d + newCount h - oldCount h) hs"

definition line_range_of :: "string \<Rightarrow> string \<Rightarrow> claimed_range option" where
  "line_range_of path line = map_option (\<lambda>m.
     \<lparr>range_file = path, range_start = header_start m, range_end = header_start m + header_count m\<rparr>)
     (header_new_side line)"

lemma patch_ranges_lines:
  "patch_ranges p = List.map_filter (line_range_of (patch_path p)) (split_on CHR 0x0A (patch_text p))"
  by (simp add: patch_ranges_def line_range_of_def [abs_def])

lemma no_range_in: "\<forall>l \<in> set ls. hunk_header l = None \<Longrightarrow> List.map_filter (line_range_of path) ls = []"
  by (auto simp: map_filter_def filter_empty_conv line_range_of_def header_new_side_None [THEN iffD2])

lemma map_filter_append [simp]: "List.map_filter f (xs @ ys) = List.map_filter f xs @ List.map_filter f ys"
  by (simp add: map_filter_def)

lemma ranges_emitted:
  assumes "list_all hunk_ok hs" "in_order hs" "\<forall>h \<in> set hs. 0 \<le> oldStart h + d"
  shows "List.map_filter (line_range_of path) (emit_hunks d hs) = landed path d hs"
  using assms
proof (induction hs arbitrary: d)
  case (Cons h hs)
  let ?d = "d + newCount h - oldCount h"
  have ok: "hunk_ok h" "0 \<le> oldStart h + d" using Cons.prems by simp_all
  have "0 \<le> oldStart k + ?d" if k: "k \<in> set hs" for k
  proof -
    have "oldStart h + oldCount h \<le> oldStart k" using Cons.prems(2) k by simp
    then show ?thesis using ok hunk_okD [OF ok(1)] by linarith
  qed
  then have "List.map_filter (line_range_of path) (emit_hunks ?d hs) = landed path ?d hs"
    using Cons by simp
  moreover have "0 \<le> new_start d h" using ok(2) by (simp add: new_start_def)
  then have "line_range_of path (emit_header d h) = Some (landed_at path d h)"
    using emitted_new_side [of h d] hunk_okD [OF ok(1)]
    by (simp add: line_range_of_def landed_at_def header_start_def header_count_def)
  moreover have "List.map_filter (line_range_of path) (body h) = []"
    using ok(1) by (intro no_range_in) (auto simp: hunk_ok_def raw_ok_def line_ok_def list_all_iff hunk_header_body)
  ultimately show ?case by (simp add: map_filter_simps)
qed (simp add: map_filter_simps)

lemma ranges_of_emitted_patch:
  assumes "parseUnifiedPatch s = Some p" "set hs \<subseteq> set (hunks p)" "in_order hs" "hs \<noteq> []"
    and "patch_text f = emitPatch p hs"
  shows "rangesFromPatches [f] = landed (patch_path f) 0 hs"
proof -
  have ok: "preamble_ok (preamble p)" "list_all hunk_ok hs"
    using parse_law [OF assms(1)] assms(2) by (auto simp: patch_ok_def list_all_iff)
  have "hunk_header l = None" if "l \<in> set (preamble p)" for l
    using ok(1) that by (auto simp: preamble_ok_def list_all_iff)
  then have pre: "List.map_filter (line_range_of (patch_path f)) (preamble p) = []" by (intro no_range_in) blast
  have post: "List.map_filter (line_range_of (patch_path f)) (if trailingNewline p then [[]] else []) = []"
    by (intro no_range_in) (auto simp: hunk_header_def)
  have "\<forall>h \<in> set hs. 0 \<le> oldStart h + 0" using ok(2) by (fastforce simp: list_all_iff)
  then show ?thesis
    using emitted_lines [OF ok assms(4)] ranges_emitted [OF ok(2) assms(3), of 0] pre post
    by (simp add: rangesFromPatches_def patch_ranges_lines assms(5))
qed
lemma landed_append:
  "landed path d (hs @ ks) = landed path d hs @ landed path (d + delta_of hs) ks"
  by (induction hs arbitrary: d) (simp_all add: delta_of_def algebra_simps)

lemma landed_length [simp]: "length (landed path d hs) = length hs"
  by (induction hs arbitrary: d) simp_all

definition cut_range :: "string list \<Rightarrow> claimed_range \<Rightarrow> string list" where
  "cut_range out r = take (nat (range_end r - range_start r)) (drop (nat (range_start r - 1)) out)"

lemma cut_landed:
  assumes "apply_hunks base (hs @ h # ks) = Some out" "list_all hunk_ok (hs @ h # ks)"
  shows "cut_range out (landed_at path (delta_of hs) h) = new_side (map edit_of (body h))"
proof -
  obtain pre post where o: "out = pre @ new_side (map edit_of (body h)) @ post"
    "int (length pre) = new_start (delta_of hs) h - (if newCount h = 0 \<and> oldCount h \<noteq> 0 then 0 else 1)"
    using hunk_lands [OF assms] by blast
  have n: "newCount h = int (length (new_side (map edit_of (body h))))"
    using assms(2) body_sides(2) [of "body h"] by (auto simp: hunk_ok_def)
  show ?thesis
  proof (cases "newCount h = 0")
    case True
    then show ?thesis using n by (simp add: cut_range_def landed_at_def)
  next
    case False
    then have "nat (new_start (delta_of hs) h - 1) = length pre" using o(2) by simp
    then show ?thesis using n o(1) by (simp add: cut_range_def landed_at_def)
  qed
qed

section \<open>What moved\<close>

lemma differing_Nil_iff: "differing xs ys = [] \<longleftrightarrow> set xs = set ys"
proof -
  have "differing xs ys = [] \<longleftrightarrow> set (differing xs ys) = {}" by simp
  also have "set (differing xs ys) = (set xs - set ys) \<union> (set ys - set xs)"
    unfolding differing_def set_sort set_append set_filter by blast
  finally show ?thesis by blast
qed

definition same_names :: "observed_resources \<Rightarrow> observed_resources \<Rightarrow> bool" where
  "same_names r s \<longleftrightarrow>
     set (seen_apis r) = set (seen_apis s) \<and> set (seen_schemas r) = set (seen_schemas s) \<and>
     set (seen_configKeys r) = set (seen_configKeys s) \<and> set (seen_services r) = set (seen_services s)"

lemma measured_claim_quiet:
  "claimCrossesBranches
     (claimFromChangeSet repository branch revision cs p (Some r) shapes (Some (movedAgainstCanonical r s))) \<longleftrightarrow>
   \<not> same_names r s \<or> shapesCross (or_empty shapes)"
  by (auto simp: claimCrossesBranches_def claimFromChangeSet_def movedAgainstCanonical_def namesCross_def
      differing_Nil_iff same_names_def Let_def)

section \<open>The plan a claim is dressed as\<close>

lemma local_keeps: "crossesBranches v \<lparr>resourceType = t, resourceId = i\<rparr> \<Longrightarrow> kept (local_refs p v) t i"
proof -
  assume c: "crossesBranches v \<lparr>resourceType = t, resourceId = i\<rparr>"
  have "resource_key x \<noteq> resource_key \<lparr>resourceType = t, resourceId = i\<rparr>" if x: "x \<in> set (local_refs p v)" for x
  proof
    assume "resource_key x = resource_key \<lparr>resourceType = t, resourceId = i\<rparr>"
    then have "crossesBranches v x" using c crossesBranches_key by blast
    then show False using x by (simp add: local_refs_def)
  qed
  then show ?thesis unfolding kept_def by (fastforce simp: resource_key_def)
qed

lemma name_crosses [simp]:
  "crossesBranches v \<lparr>resourceType = Api, resourceId = i\<rparr>"
  "crossesBranches v \<lparr>resourceType = Schema, resourceId = i\<rparr>"
  "crossesBranches v \<lparr>resourceType = Configuration, resourceId = i\<rparr>"
  "\<not> crossesBranches v \<lparr>resourceType = Service, resourceId = i\<rparr>"
  by (simp_all add: crossesBranches_def)

definition narrowed_claim :: "'a branch_claim_input_scheme \<Rightarrow> symbol_visibility \<Rightarrow> agent_plan" where
  "narrowed_claim c v = reduced_plan (claim_plan c) (local_refs (claim_plan c) v)"

lemma narrowed_claim_fields:
  "taskId (narrowed_claim c v) = claim_task c" "grounding (narrowed_claim c v) = None" "claim (narrowed_claim c v) = None"
  "asDeclared (completeAgentPlan (narrowed_claim c v)) decl_apis e = claim_apis c"
  "asDeclared (completeAgentPlan (narrowed_claim c v)) decl_schemas e = claim_schemas c"
  "asDeclared (completeAgentPlan (narrowed_claim c v)) decl_configKeys e = claim_configKeys c"
proof -
  have k: "filter (kept (local_refs (claim_plan c) v) t) xs = xs" if "t = Api \<or> t = Schema \<or> t = Configuration" for t xs
    using that by (intro filter_True) (auto intro: local_keeps)
  show "taskId (narrowed_claim c v) = claim_task c" "grounding (narrowed_claim c v) = None" "claim (narrowed_claim c v) = None"
    by (simp_all add: narrowed_claim_def reduced_plan_def claim_plan_def)
  show "asDeclared (completeAgentPlan (narrowed_claim c v)) decl_apis e = claim_apis c"
    "asDeclared (completeAgentPlan (narrowed_claim c v)) decl_schemas e = claim_schemas c"
    "asDeclared (completeAgentPlan (narrowed_claim c v)) decl_configKeys e = claim_configKeys c"
    using k by (simp_all add: asDeclared_def completeAgentPlan_def narrowed_claim_def reduced_plan_def claim_plan_def
        reduce_declarations_def)
qed

lemma claim_plan_refs:
  "filter (crossesBranches v) (plan_refs (claim_plan c)) =
     filter (crossesBranches v) (refs File (js_set (map range_file (claim_lines c)))) @
     filter (crossesBranches v) (refs Symbol (claim_symbols c)) @
     refs Api (claim_apis c) @ refs Schema (claim_schemas c) @ refs Configuration (claim_configKeys c)"
  by (simp add: plan_refs_def claim_plan_def local_kinds refs_def filter_map comp_def)

lemma claim_interface:
  assumes "normal_plan (claim_plan c)"
  shows "interfaceScopeOf (claim_plan c) v = Inr
    (if filter (crossesBranches v) (plan_refs (claim_plan c)) = [] then None else Some (narrowed_claim c v))"
  using interfaceScopeOf_law(1) [OF assms, of v] by (simp add: narrowed_claim_def)

lemma unmeasured_claim_crosses:
  assumes "claim_moved c = None" and "claim_services c = []" and "claim_shapes c = []"
  shows "claimCrossesBranches c \<longleftrightarrow> claim_apis c \<noteq> [] \<or> claim_schemas c \<noteq> [] \<or> claim_configKeys c \<noteq> []"
  using assms by (simp add: claimCrossesBranches_def namesCross_def shapesCross_def)

section \<open>Admission against claims\<close>

text \<open>The names of one kind an approved plan keeps off: those another plan declares in any case.\<close>

definition keeps_off :: "agent_plan \<Rightarrow> 'a branch_claim_input_scheme \<Rightarrow> bool" where
  "keeps_off p c \<longleftrightarrow>
     (let q = completeAgentPlan p
      in \<not> shares (asDeclared q decl_apis (expectedApis q)) (claim_apis c) \<and>
         \<not> shares (asDeclared q decl_schemas (expectedSchemas q)) (claim_schemas c) \<and>
         \<not> shares (asDeclared q decl_configKeys (expectedConfigKeys q)) (claim_configKeys c))"

definition weighs_names :: "conflict_options \<Rightarrow> bool" where
  "weighs_names opts \<longleftrightarrow> 0 < apiOverlapWeight opts \<and> 0 < schemaOverlapWeight opts \<and> 0 < configurationOverlapWeight opts"

lemma off_the_claim:
  assumes "runs_beside ctl input p occ grants" and "e \<in> set (others_of input (taskId p))"
    and "running e = narrowed_claim c v" and "weighs_names (ctl_conflicts ctl)"
  shows "keeps_off p c"
proof -
  obtain r where r: "assess (ctl_conflicts ctl) (Some occ) (intentAssessment input) p (narrowed_claim c v) = Inr r"
    "\<not> structural_result r"
    using assms(1-3) unfolding runs_beside_def by metis
  obtain files where f: "overlappingFiles (completeAgentPlan p) (completeAgentPlan (narrowed_claim c v)) (Some occ) = Inr files"
    using assess_Inr [OF r(1)] by metis
  have "structural_part (ctl_conflicts ctl) (completeAgentPlan p) (completeAgentPlan (narrowed_claim c v)) files = []"
    using structural_assess [OF r(1) f] r(2) by (simp add: structural_result_def)
  then have n: "set (structural_items (ctl_conflicts ctl) (completeAgentPlan p)
      (completeAgentPlan (narrowed_claim c v)) files) \<subseteq> {None}"
    by (simp add: structural_part_Nil_iff)
  show ?thesis
    using n assms(4) unfolding structural_items_None narrowed_claim_fields keeps_off_def weighs_names_def Let_def
    by linarith
qed

lemma narrow_claim_entry:
  assumes "normal_plan (claim_plan c)" and "or_else (branches (claim_task c)) [] \<noteq> here"
    and "\<exists>x \<in> set (plan_refs (claim_plan c)). crossesBranches v x"
    and "e = \<lparr>active_task = claim_task c, active_agent = ''branch:'' @ claim_branch c, running = claim_plan c\<rparr>"
  shows "narrow_entry branches here v e = Inr [e\<lparr>running := narrowed_claim c v\<rparr>]"
  using assms claim_interface [OF assms(1), of v] by (auto simp: narrow_entry_def filter_empty_conv)

lemma narrowed_claim_active:
  assumes "narrowToBranch (xs @ branchClaimsAsActivePlans cs) branches branch v = Inr entries" and "c \<in> set cs"
    and "normal_plan (claim_plan c)" and "or_else (branches (claim_task c)) [] \<noteq> or_else branch []"
    and "\<exists>x \<in> set (plan_refs (claim_plan c)). crossesBranches v x"
  shows "\<exists>e \<in> set entries. active_task e = claim_task c \<and> running e = narrowed_claim c v"
proof -
  let ?e = "\<lparr>active_task = claim_task c, active_agent = ''branch:'' @ claim_branch c, running = claim_plan c\<rparr>"
  have e: "?e \<in> set (xs @ branchClaimsAsActivePlans cs)" using assms(2) by (auto simp: branchClaimsAsActivePlans_def)
  then have "\<not> list_all (\<lambda>e. or_else (branches (active_task e)) [] = or_else branch []) (xs @ branchClaimsAsActivePlans cs)"
    using assms(4) unfolding list_all_iff by fastforce
  then obtain ls where l: "res_map (narrow_entry branches (or_else branch []) v) (xs @ branchClaimsAsActivePlans cs) = Inr ls"
    "entries = concat ls"
    using assms(1) by (auto simp: narrowToBranch_def Let_def res_bind_eq_Inr_conv)
  obtain y where "y \<in> set ls" "narrow_entry branches (or_else branch []) v ?e = Inr y"
    using res_map_member [OF l(1) e] by blast
  moreover have "narrow_entry branches (or_else branch []) v ?e = Inr [?e\<lparr>running := narrowed_claim c v\<rparr>]"
    by (rule narrow_claim_entry) (use assms(3-5) in simp_all)
  ultimately have "[?e\<lparr>running := narrowed_claim c v\<rparr>] \<in> set ls" by (metis sum.inject(2))
  then have "?e\<lparr>running := narrowed_claim c v\<rparr> \<in> set entries" unfolding l(2) set_concat by (metis UN_I list.set_intros(1))
  then show ?thesis by (intro bexI) simp_all
qed

lemma nothing_to_keep_off:
  assumes "\<not> (\<exists>x \<in> set (plan_refs (claim_plan c)). crossesBranches v x)"
  shows "keeps_off p c"
proof -
  have "filter (crossesBranches v) (plan_refs (claim_plan c)) = []" using assms by (auto simp: filter_empty_conv)
  then have "claim_apis c = [] \<and> claim_schemas c = [] \<and> claim_configKeys c = []"
    by (simp add: claim_plan_refs refs_def)
  then show ?thesis by (simp add: keeps_off_def shares_def)
qed

lemma reduced_task:
  assumes "reduced_by p ds = Inr q"
  shows "taskId q = taskId p"
  using assms
  by (auto simp: reduced_by_def reducePlanScope_def assertAgentPlan_def res_bind_eq_Inr_conv split: if_splits)

end
