(* ===== verification/Blanket_Holders.thy ===== *)
theory Blanket_Holders
  imports Claim_Conversion
begin

text \<open>
  \<open>services/coordinator/src/blanket-holders.ts\<close>: the registry through which a repository-wide holder is
  asked what the rest of its work needs. Its three module-level maps are the record \<open>holder_registry\<close>;
  a session is known by its object identity, a promise by a number. What the runtime does between two
  turns is a step: an ask settles (its \<open>then\<close> runs) and, later, the call that started it goes on (its
  \<open>finally\<close> runs). The last two fields are not the program's: the asks in flight, and how often a
  task's entries have been cleared.
\<close>

section \<open>The registry\<close>

record holder_session =
  session_object :: nat
  session_task :: string
  session_repository :: string

record ask_promise =
  ask_of :: holder_session
  ask_settled :: bool
  ask_round :: nat

record holder_registry =
  holders :: "string \<rightharpoonup> holder_session"
  asking :: "string \<rightharpoonup> nat"
  answered :: "string \<rightharpoonup> holder_declaration option"
  asks :: "ask_promise list"
  rounds :: "string \<Rightarrow> nat"

definition no_holders :: holder_registry where
  "no_holders = \<lparr>holders = Map.empty, asking = Map.empty, answered = Map.empty, asks = [], rounds = (\<lambda>_. 0)\<rparr>"

definition registerBlanketHolder :: "holder_session \<Rightarrow> holder_registry \<Rightarrow> holder_registry" where
  "registerBlanketHolder s r = r\<lparr>holders := (holders r)(session_task s \<mapsto> s)\<rparr>"

text \<open>The function \<open>registerBlanketHolder\<close> returns.\<close>

definition deregister :: "holder_session \<Rightarrow> holder_registry \<Rightarrow> holder_registry" where
  "deregister s r =
     (let t = session_task s
      in if holders r t = Some s
         then r\<lparr>holders := (holders r)(t := None), asking := (asking r)(t := None),
                answered := (answered r)(t := None), rounds := (rounds r)(t := rounds r t + 1)\<rparr>
         else r)"

definition blanketHolderSession :: "string \<Rightarrow> string option \<Rightarrow> holder_registry \<Rightarrow> holder_session option" where
  "blanketHolderSession t repository r =
     (case holders r t of
        None \<Rightarrow> None
      | Some s \<Rightarrow>
          (case repository of
             None \<Rightarrow> Some s
           | Some i \<Rightarrow> if session_repository s \<noteq> i then None else Some s))"

text \<open>What a caller of \<open>askBlanketHolderOnce\<close> waits for.\<close>

datatype ask_outcome = Said "holder_declaration option" | Joined nat | Started nat

definition askBlanketHolderOnce :: "holder_session \<Rightarrow> holder_registry \<Rightarrow> ask_outcome \<times> holder_registry" where
  "askBlanketHolderOnce s r =
     (let t = session_task s
      in case answered r t of
           Some d \<Rightarrow> (Said d, r)
         | None \<Rightarrow>
             (case asking r t of
                Some p \<Rightarrow> (Joined p, r)
              | None \<Rightarrow>
                  (Started (length (asks r)),
                   r\<lparr>asking := (asking r)(t \<mapsto> length (asks r)),
                     asks := asks r @ [\<lparr>ask_of = s, ask_settled = False, ask_round = rounds r t\<rparr>]\<rparr>)))"

text \<open>The declaration, or nothing for every failure, is recorded when it settles.\<close>

definition settle_ask :: "nat \<Rightarrow> holder_declaration option \<Rightarrow> holder_registry \<Rightarrow> holder_registry" where
  "settle_ask p d r =
     r\<lparr>answered := (answered r)(session_task (ask_of (asks r ! p)) \<mapsto> d),
       asks := (asks r)[p := (asks r ! p)\<lparr>ask_settled := True\<rparr>]\<rparr>"

definition finish_ask :: "nat \<Rightarrow> holder_registry \<Rightarrow> holder_registry" where
  "finish_ask p r =
     (let t = session_task (ask_of (asks r ! p))
      in if asking r t = Some p then r\<lparr>asking := (asking r)(t := None)\<rparr> else r)"

section \<open>Runs\<close>

inductive holder_step :: "holder_registry \<Rightarrow> holder_registry \<Rightarrow> bool" where
  registers: "holder_step r (registerBlanketHolder s r)"
| leaves: "holder_step r (deregister s r)"
| asks: "holder_step r (snd (askBlanketHolderOnce s r))"
| settles: "p < length (asks r) \<Longrightarrow> \<not> ask_settled (asks r ! p) \<Longrightarrow> holder_step r (settle_ask p d r)"
| finishes: "p < length (asks r) \<Longrightarrow> ask_settled (asks r ! p) \<Longrightarrow> holder_step r (finish_ask p r)"

inductive holder_run :: "holder_registry \<Rightarrow> bool" where
  start: "holder_run no_holders"
| step: "holder_run r \<Longrightarrow> holder_step r r' \<Longrightarrow> holder_run r'"

inductive_cases holder_stepE: "holder_step r r'"

section \<open>The invariant\<close>

text \<open>An ask still running, started since the entries of its task were last cleared.\<close>

definition running_ask :: "holder_registry \<Rightarrow> string \<Rightarrow> nat \<Rightarrow> bool" where
  "running_ask r t p \<longleftrightarrow>
     p < length (asks r) \<and> \<not> ask_settled (asks r ! p) \<and> session_task (ask_of (asks r ! p)) = t \<and>
     ask_round (asks r ! p) = rounds r t"

definition registry_ok :: "holder_registry \<Rightarrow> bool" where
  "registry_ok r \<longleftrightarrow>
     (\<forall>t s. holders r t = Some s \<longrightarrow> session_task s = t) \<and>
     (\<forall>t p. asking r t = Some p \<longrightarrow> p < length (asks r) \<and> session_task (ask_of (asks r ! p)) = t) \<and>
     (\<forall>t p. running_ask r t p \<longrightarrow> asking r t = Some p) \<and>
     (\<forall>p < length (asks r). ask_round (asks r ! p) \<le> rounds r (session_task (ask_of (asks r ! p))))"

lemma registry_ok_step: "holder_step r r' \<Longrightarrow> registry_ok r \<Longrightarrow> registry_ok r'"
proof (erule holder_stepE)
  fix s assume ok: "registry_ok r" "r' = registerBlanketHolder s r"
  then show "registry_ok r'" by (auto simp: registry_ok_def registerBlanketHolder_def running_ask_def)
next
  fix s assume ok: "registry_ok r" "r' = deregister s r"
  show "registry_ok r'"
  proof (cases "holders r (session_task s) = Some s")
    case True
    let ?t = "session_task s"
    have r: "asks r' = asks r" "rounds r' = (rounds r)(?t := rounds r ?t + 1)" "holders r' = (holders r)(?t := None)"
      "asking r' = (asking r)(?t := None)"
      using True ok(2) by (simp_all add: deregister_def Let_def)
    have "asking r' t = Some p" if "running_ask r' t p" for t p
    proof (cases "t = ?t")
      case True
      then have "ask_round (asks r ! p) = rounds r ?t + 1" "p < length (asks r)" "session_task (ask_of (asks r ! p)) = ?t"
        using that by (simp_all add: running_ask_def r)
      then have False using ok(1) unfolding registry_ok_def by (metis Suc_eq_plus1 not_less_eq_eq order_refl)
      then show ?thesis ..
    next
      case False
      then have "running_ask r t p" using that by (simp add: running_ask_def r)
      then show ?thesis using ok(1) False by (simp add: registry_ok_def r)
    qed
    moreover have "ask_round (asks r' ! p) \<le> rounds r' (session_task (ask_of (asks r' ! p)))" if "p < length (asks r')" for p
    proof -
      have "ask_round (asks r ! p) \<le> rounds r (session_task (ask_of (asks r ! p)))"
        using that ok(1) by (simp add: registry_ok_def r)
      then show ?thesis by (cases "session_task (ask_of (asks r ! p)) = ?t") (simp_all add: r)
    qed
    ultimately show ?thesis using ok(1) by (simp add: registry_ok_def r)
  next
    case False
    then show ?thesis using ok by (simp add: deregister_def Let_def)
  qed
next
  fix s assume ok: "registry_ok r" "r' = snd (askBlanketHolderOnce s r)"
  let ?t = "session_task s" and ?n = "length (asks r)"
  show "registry_ok r'"
  proof (cases "answered r ?t = None \<and> asking r ?t = None")
    case False
    then have "r' = r" using ok(2) by (auto simp: askBlanketHolderOnce_def Let_def split: option.splits)
    then show ?thesis using ok(1) by simp
  next
    case True
    then have r: "r' = r\<lparr>asking := (asking r)(?t \<mapsto> ?n),
        asks := asks r @ [\<lparr>ask_of = s, ask_settled = False, ask_round = rounds r ?t\<rparr>]\<rparr>"
      using ok(2) by (simp add: askBlanketHolderOnce_def Let_def)
    have old: "asks r' ! p = asks r ! p" if "p < ?n" for p using that by (simp add: r nth_append)
    have new: "asks r' ! ?n = \<lparr>ask_of = s, ask_settled = False, ask_round = rounds r ?t\<rparr>" by (simp add: r)
    have len: "length (asks r') = Suc ?n" "rounds r' = rounds r" "holders r' = holders r"
      "asking r' = (asking r)(?t \<mapsto> ?n)" by (simp_all add: r)
    have "asking r' t = Some p" if "running_ask r' t p" for t p
    proof (cases "p = ?n")
      case True
      then show ?thesis using that by (simp add: running_ask_def new len)
    next
      case False
      then have "p < ?n" using that by (simp add: running_ask_def len less_Suc_eq)
      then have "running_ask r t p" using that old [of p] by (simp add: running_ask_def len)
      then have "asking r t = Some p" using ok(1) by (simp add: registry_ok_def)
      then show ?thesis using True len by auto
    qed
    moreover have "p < length (asks r') \<and> session_task (ask_of (asks r' ! p)) = t" if "asking r' t = Some p" for t p
      using that ok(1) old new len unfolding registry_ok_def
      by (cases "t = ?t") (force simp: less_Suc_eq)+
    moreover have "ask_round (asks r' ! p) \<le> rounds r' (session_task (ask_of (asks r' ! p)))" if "p < length (asks r')" for p
      using that ok(1) old new len unfolding registry_ok_def by (cases "p = ?n") (simp_all add: less_Suc_eq)
    ultimately show ?thesis using ok(1) len(3) by (simp add: registry_ok_def)
  qed
next
  fix p d assume ok: "registry_ok r" "p < length (asks r)" "r' = settle_ask p d r"
  have a: "ask_of (asks r' ! q) = ask_of (asks r ! q)" "ask_round (asks r' ! q) = ask_round (asks r ! q)"
    "ask_settled (asks r' ! q) \<longleftrightarrow> q = p \<or> ask_settled (asks r ! q)" if "q < length (asks r)" for q
    using that ok(2) unfolding ok(3) settle_ask_def by (cases "p = q"; simp)+
  have b: "length (asks r') = length (asks r)" "rounds r' = rounds r" "holders r' = holders r" "asking r' = asking r"
    by (simp_all add: ok(3) settle_ask_def)
  have "running_ask r' t q \<Longrightarrow> running_ask r t q" for t q
    using a [of q] by (auto simp: running_ask_def b)
  then have "running_ask r' t q \<Longrightarrow> asking r t = Some q" for t q using ok(1) unfolding registry_ok_def by blast
  then show "registry_ok r'" using ok(1) a(1,2) unfolding registry_ok_def b by simp
next
  fix p assume ok: "registry_ok r" "p < length (asks r)" "ask_settled (asks r ! p)" "r' = finish_ask p r"
  have b: "asks r' = asks r" "rounds r' = rounds r" "holders r' = holders r"
    "asking r' t = Some q \<Longrightarrow> asking r t = Some q" "asking r t = Some q \<Longrightarrow> q \<noteq> p \<Longrightarrow> asking r' t = Some q" for t q
    by (auto simp: ok(4) finish_ask_def Let_def split: if_splits)
  have e: "running_ask r' t q \<longleftrightarrow> running_ask r t q" for t q by (simp add: running_ask_def b)
  have "asking r' t = Some q" if "running_ask r t q" for t q
  proof -
    have "q \<noteq> p" using that ok(3) by (auto simp: running_ask_def)
    then show ?thesis using b(5) that ok(1) unfolding registry_ok_def by blast
  qed
  then show "registry_ok r'" using ok(1) b(4) unfolding registry_ok_def e b(1-3) by blast
qed

lemma holder_run_ok: "holder_run r \<Longrightarrow> registry_ok r"
proof (induction rule: holder_run.induct)
  case start
  show ?case by (simp add: registry_ok_def no_holders_def running_ask_def)
qed (rule registry_ok_step)

end
