(* ===== verification/Claim_Properties.thy ===== *)
theory Claim_Properties
  imports Claim_Laws Branch_Laws Blanket_Holders Patch_Properties Coordination_Properties
begin

text \<open>
  The properties of claims: what a repository-wide claim keeps as it shrinks, what the claims of open
  branches protect, and how a holder is asked.
\<close>

section \<open>Shrinking a claim\<close>

definition written_paths :: "working_change list \<Rightarrow> string set" where
  "written_paths changes = seen_paths (map change_path changes)"

text \<open>
  C13 A freeze keeps what was written and little more. Nothing the holder declared or wrote is outside
  the frozen claim; a path is covered only below the directory of such a file, so never one at the
  root; and the lines recorded for a file are those seen in it, or none when none were read.
\<close>

theorem freeze_keeps_work:
  assumes "freezePlanFromWorkingChanges collate p changes stamp = Inr q"
    and "list_all settled_path (expectedFiles p)" and "\<forall>f \<in> written_paths changes. \<not> drive_prefix f"
  shows "(set paths \<subseteq> set (expectedFiles p) \<union> written_paths changes \<longrightarrow> filesOutsideClaim q paths = Inr []) \<and>
    claimCoversPath q f = Inr (\<exists>g \<in> set (expectedFiles p) \<union> written_paths changes.
      directory_of g \<noteq> [] \<and> prefix (directory_of g) f) \<and>
    (CHR ''/'' \<notin> set f \<longrightarrow> claimCoversPath q f = Inr False) \<and>
    frozenTouchedRanges q f = (if ranges_seen f changes = [] then None else Some (ranges_seen f changes))"
proof -
  have f: "freeze_claim collate stamp p changes = Inr (Some q)" using assms(1) by (simp add: freeze_claim_def)
  have files: "set (expectedFiles q) = set (expectedFiles p) \<union> written_paths changes"
    using frozen_files [OF assms(1)] by (simp add: written_paths_def)
  have c: "claimCoversPath q f = Inr (\<exists>g \<in> set (expectedFiles p) \<union> written_paths changes.
      directory_of g \<noteq> [] \<and> prefix (directory_of g) f)"
    using frozen_covers [OF assms(1)] files by simp
  have "\<not> (directory_of g \<noteq> [] \<and> prefix (directory_of g) f)" if "CHR ''/'' \<notin> set f" for g
    using that directory_of_slash [of g] by (auto simp: prefix_def suffix_def)
  then show ?thesis
    using freeze.nothing_lost [OF f assms(2), of paths] assms(3) c frozen_ranges [OF assms(1)]
    by (auto simp: written_paths_def)
qed

definition whole_claim :: agent_plan where
  "whole_claim = blanketPlan \<lparr>definition_id = ''h'', definition_objective = ''o'', definition_commands = []\<rparr> ''t'' [''x'']"

definition demo_changes :: "working_change list" where
  "demo_changes =
     [\<lparr>change_path = ''./src/a'', change_status = Modified, change_ranges = Some [\<lparr>startLine = 2, endLine = 3\<rparr>]\<rparr>,
      \<lparr>change_path = ''b'', change_status = Added, change_ranges = None\<rparr>]"

theorem freeze_keeps_work_witness:
  "\<exists>q. freezePlanFromWorkingChanges id whole_claim demo_changes ''u'' = Inr q \<and>
     filesOutsideClaim q [''b'', ''src/a'', ''x''] = Inr [] \<and> claimCoversPath q ''c'' = Inr False"
proof -
  have n: "normalizeRepositoryPath ''./src/a'' = Inr ''src/a''" "normalizeRepositoryPath ''b'' = Inr ''b''"
    "normalizeRepositoryPath ''x'' = Inr ''x''"
    by code_simp+
  have w: "written_paths demo_changes = {''src/a'', ''b''}"
    using n by (auto simp: written_paths_def seen_paths_def demo_changes_def)
  have e: "expectedFiles whole_claim = [''x'']" by (simp add: whole_claim_def blanketPlan_def)
  obtain q where q: "freezePlanFromWorkingChanges id whole_claim demo_changes ''u'' = Inr q"
    using n by (simp add: freezePlanFromWorkingChanges_def demo_changes_def Let_def)
  have "list_all settled_path (expectedFiles whole_claim)" using n by (simp add: e settled_path_def)
  moreover have "\<forall>f \<in> written_paths demo_changes. \<not> drive_prefix f" by (simp add: w)
  ultimately have "(set [''b'', ''src/a'', ''x''] \<subseteq> set (expectedFiles whole_claim) \<union> written_paths demo_changes \<longrightarrow>
      filesOutsideClaim q [''b'', ''src/a'', ''x''] = Inr []) \<and>
    (CHR ''/'' \<notin> set ''c'' \<longrightarrow> claimCoversPath q ''c'' = Inr False)"
    using freeze_keeps_work [OF q] by blast
  then show ?thesis using q by (simp add: w e)
qed

text \<open>
  C14 A declaration does not disown work. When a claim becomes the plan its holder described, every
  file it declared, named or was seen writing is accounted for; what it was seen writing and did not
  name is held whole, and nothing else is.
\<close>

theorem declaration_keeps_work:
  assumes "declaredPlanFromClaim p d observed stamp = Inr (Some q)"
    and "list_all settled_path (expectedFiles p)"
    and "set paths \<subseteq> set (expectedFiles p) \<union> seen_paths (filter usableRepositoryPath (holder_files d @ observed))"
  shows "filesOutsideClaim q paths = Inr [] \<and>
    claimOccupiesPath q f = Inr (f \<in> seen_paths (filter usableRepositoryPath observed) \<and>
      f \<notin> seen_paths (filter usableRepositoryPath (holder_files d))) \<and>
    expectedSymbols q \<noteq> []"
proof -
  have c: "declare_claim stamp p (d, observed) = Inr (Some q)" using assms(1) by (simp add: declare_claim_def)
  have s: "seen_paths (usable_answers (d, observed)) = seen_paths (filter usableRepositoryPath (holder_files d @ observed))"
    by (simp add: usable_answers_def)
  have "filesOutsideClaim q paths = Inr []"
    using declare_files.nothing_lost [OF c assms(2)] declared_no_drive [OF assms(1)] assms(3) s by metis
  then show ?thesis using declared_occupies [OF assms(1)] declared_law [OF assms(1)] by metis
qed

lemma demo_usable:
  "filter usableRepositoryPath [''./a'', ''../up''] = [''./a'']" "filter usableRepositoryPath [''b'', ''a''] = [''b'', ''a'']"
  by code_simp+

definition demo_answer :: holder_declaration where
  "demo_answer = \<lparr>holder_files = [''./a'', ''../up''], holder_symbols = ['' f '', ''f'', '''']\<rparr>"

theorem declaration_keeps_work_witness:
  "\<exists>q. declaredPlanFromClaim whole_claim demo_answer [''b'', ''a''] ''u'' = Inr (Some q) \<and>
     filesOutsideClaim q [''a'', ''b'', ''x''] = Inr [] \<and> claimOccupiesPath q ''b'' = Inr True \<and>
     claimOccupiesPath q ''a'' = Inr False"
proof -
  have n: "normalizeRepositoryPath ''./a'' = Inr ''a''" "normalizeRepositoryPath ''b'' = Inr ''b''"
    "normalizeRepositoryPath ''a'' = Inr ''a''" "normalizeRepositoryPath ''x'' = Inr ''x''"
    by code_simp+
  have "case declaredPlanFromClaim whole_claim demo_answer [''b'', ''a''] ''u'' of Inr (Some q) \<Rightarrow> True | _ \<Rightarrow> False"
    by code_simp
  then obtain q where q: "declaredPlanFromClaim whole_claim demo_answer [''b'', ''a''] ''u'' = Inr (Some q)"
    by (auto split: sum.splits option.splits)
  have s: "list_all settled_path (expectedFiles whole_claim)" using n by (simp add: settled_path_def whole_claim_def blanketPlan_def)
  have f: "filter usableRepositoryPath (holder_files demo_answer) = [''./a'']" using demo_usable by (simp add: demo_answer_def)
  have k: "set [''a'', ''b'', ''x''] \<subseteq> set (expectedFiles whole_claim) \<union>
      seen_paths (filter usableRepositoryPath (holder_files demo_answer @ [''b'', ''a'']))"
    using n f demo_usable by (auto simp: seen_paths_def whole_claim_def blanketPlan_def)
  show ?thesis
    using q declaration_keeps_work [OF q s k, of "''a''"] declaration_keeps_work [OF q s k, of "''b''"] n f demo_usable
    by (auto simp: seen_paths_def)
qed

text \<open>
  Answers that are not tidy. The test of a holder's paths trims them and the plan does not: a name
  between spaces is claimed with its spaces, which is not the file that was meant. A directory named with a
  backslash passes for a file. And a drive letter behind a dot passes the test that is to drop what
  would throw, and throws.
\<close>

theorem untidy_answers:
  "map_option expectedFiles (projr (declaredPlanFromClaim (whole_claim\<lparr>expectedFiles := []\<rparr>)
       \<lparr>holder_files = ['' a''], holder_symbols = [''f'']\<rparr> [] ''u'')) = Some ['' a''] \<and>
   map_option expectedFiles (projr (declaredPlanFromClaim (whole_claim\<lparr>expectedFiles := []\<rparr>)
       \<lparr>holder_files = [''d'' @ [CHR 0x5C]], holder_symbols = [''f'']\<rparr> [] ''u'')) = Some [''d/''] \<and>
   usableRepositoryPath ''./C:/a'' \<and>
   declaredPlanFromClaim whole_claim \<lparr>holder_files = [''./C:/a''], holder_symbols = [''f'']\<rparr> [] ''u'' = Inl InvalidPath"
  by (intro conjI; code_simp)

section \<open>Claims of open branches\<close>

text \<open>
  A branch claims the lines it changed. For hunks of a patch, emitted as the granted half of a divided
  patch is, the claim has one range per hunk in order, and the lines it names in the file the hunks lead
  to are the new text of that hunk; a hunk that only deletes claims a place and no line.
\<close>

theorem claimed_ranges_land:
  assumes "parseUnifiedPatch s = Some p" and "set (hs @ h # ks) \<subseteq> set (hunks p)" and "in_order (hs @ h # ks)"
    and "patch_text f = emitPatch p (hs @ h # ks)" and "apply_hunks base (hs @ h # ks) = Some out"
  shows "length (rangesFromPatches [f]) = length (hs @ h # ks) \<and>
    (let r = rangesFromPatches [f] ! length hs
     in range_file r = patch_path f \<and> range_end r - range_start r = newCount h \<and>
        cut_range out r = new_side (map edit_of (body h)))"
proof -
  have r: "rangesFromPatches [f] = landed (patch_path f) 0 (hs @ h # ks)"
    by (rule ranges_of_emitted_patch [OF assms(1-3) _ assms(4)]) simp
  have "list_all hunk_ok (hunks p)" using parse_law [OF assms(1)] by (simp add: patch_ok_def)
  then have ok: "list_all hunk_ok (hs @ h # ks)" unfolding list_all_iff using assms(2) by blast
  have "landed (patch_path f) 0 (hs @ h # ks) ! length hs = landed_at (patch_path f) (delta_of hs) h"
    by (simp add: landed_append nth_append)
  then have "rangesFromPatches [f] ! length hs = landed_at (patch_path f) (delta_of hs) h" by (simp only: r)
  moreover have "length (rangesFromPatches [f]) = length (hs @ h # ks)" by (simp only: r landed_length)
  ultimately show ?thesis using cut_landed [OF assms(5) ok] by (simp add: landed_at_def)
qed

theorem claimed_ranges_land_witness:
  "\<exists>r. rangesFromPatches [\<lparr>patch_path = ''f'', patch_status = Modified, patch_text = emitPatch demo_parsed demo_hunks\<rparr>] ! 1 = r \<and>
     cut_range [''x'', ''a'', ''b'', ''c'', ''y''] r = [''y'']"
proof -
  have s: "demo_hunks = take 1 demo_hunks @ last demo_hunks # []" by (simp add: demo_hunks_def)
  have e: "apply_hunks [''a'', ''b'', ''c'', ''d''] demo_hunks = Some [''x'', ''a'', ''b'', ''c'', ''y'']"
    "new_side (map edit_of (body (last demo_hunks))) = [''y'']" "length (take 1 demo_hunks) = 1"
    by code_simp+
  have o: "set demo_hunks \<subseteq> set (hunks demo_parsed)" "in_order demo_hunks"
    by (simp_all add: demo_hunks_def demo_parsed_def)
  show ?thesis
    using claimed_ranges_land [OF demo_parses, of "take 1 demo_hunks" "last demo_hunks" "[]"
        "\<lparr>patch_path = ''f'', patch_status = Modified, patch_text = emitPatch demo_parsed demo_hunks\<rparr>"] o e
    unfolding s [symmetric] by (simp add: Let_def)
qed

text \<open>
  What an open branch holds is kept from the plans of other branches. A plan approved while the claims
  of other open branches are among the active plans, each as its branch is seen from elsewhere, declares
  no route, schema or configuration key of any of them, however its name is capitalised.
\<close>

theorem branch_surface_protected:
  assumes "admit ctl input = Inr a" and "planAdmissionApproved a" and "listed_by_task input"
    and "narrowToBranch (xs @ branchClaimsAsActivePlans cs) branches branch v = Inr (active input)"
    and "c \<in> set cs" and "normal_plan (claim_plan c)" and "claim_task c \<noteq> taskId (candidate_plan input)"
    and "or_else (branches (claim_task c)) [] \<noteq> or_else branch []" and "weighs_names (ctl_conflicts ctl)"
  shows "\<exists>p ds. deferredResources a = (if ds = [] then None else Some ds) \<and>
    (if ds = [] then p = candidate_plan input else reduced_by (candidate_plan input) ds = Inr p) \<and> keeps_off p c"
proof -
  obtain narrowed occupied ds p where d: "deferredResources a = (if ds = [] then None else Some ds)"
    "if ds = [] then p = candidate_plan input
     else reduced_by (candidate_plan input) ds = Inr p \<and> expectedFiles p \<noteq> []"
    "runs_beside ctl input p (occupancy_of input narrowed occupied) (ownershipGrants a)"
    using approved_part [OF assms(1-3)] by metis
  then have p: "deferredResources a = (if ds = [] then None else Some ds)"
    "if ds = [] then p = candidate_plan input else reduced_by (candidate_plan input) ds = Inr p"
    "runs_beside ctl input p (occupancy_of input narrowed occupied) (ownershipGrants a)"
    by (simp_all split: if_splits)
  have t: "taskId p = taskId (candidate_plan input)" using p(2) reduced_task by (cases "ds = []") auto
  have "keeps_off p c"
  proof (cases "\<exists>x \<in> set (plan_refs (claim_plan c)). crossesBranches v x")
    case True
    obtain e where e: "e \<in> set (active input)" "active_task e = claim_task c" "running e = narrowed_claim c v"
      using narrowed_claim_active [OF assms(4,5,6,8) True] by blast
    then have "e \<in> set (others_of input (taskId p))" using assms(7) t by (simp add: others_of_def)
    then show ?thesis by (rule off_the_claim [OF p(3) _ e(3) assms(9)])
  next
    case False
    then show ?thesis by (rule nothing_to_keep_off)
  qed
  then show ?thesis using p(1,2) by blast
qed

definition open_branch :: branch_claim where
  "open_branch =
     \<lparr>claim_repository = ''R'', claim_branch = ''w'', claim_task = ''q'', claim_revision = ''r'', claim_symbols = [],
      claim_apis = [''GET /u''], claim_schemas = [], claim_configKeys = [], claim_services = [], claim_lines = [],
      claim_shapes = [], claim_moved = None, branch_claim_id = ''i''\<rparr>"

definition demo_visibility :: symbol_visibility where
  "demo_visibility = symbolVisibility [] []"

definition beside_branch :: admission_input where
  "beside_branch =
     (demo_input (narrowed_claim open_branch demo_visibility))
       \<lparr>active := [\<lparr>active_task = ''q'', active_agent = ''branch:w'', running = narrowed_claim open_branch demo_visibility\<rparr>]\<rparr>"

lemma open_branch_normal: "normal_plan (claim_plan open_branch)"
  unfolding normal_plan_def by code_simp

lemma open_branch_seen:
  "narrowToBranch ([] @ branchClaimsAsActivePlans [open_branch]) [''q'' \<mapsto> ''w''] None demo_visibility = Inr (active beside_branch)"
proof -
  have c: "filter (crossesBranches demo_visibility) (plan_refs (claim_plan open_branch)) \<noteq> []"
    by (simp add: claim_plan_refs open_branch_def refs_def)
  have i: "interfaceScopeOf (claim_plan open_branch) demo_visibility = Inr (Some (narrowed_claim open_branch demo_visibility))"
    using claim_interface [OF open_branch_normal, of demo_visibility] c by simp
  show ?thesis
    by (simp add: narrowToBranch_def narrow_entry_def branchClaimsAsActivePlans_def beside_branch_def i or_else_def)
       (simp add: open_branch_def)
qed

lemma beside_branch_decided:
  "case decide demo_controller beside_branch (plain_plan ''p'' [''a'', ''b'']) (occupancy_of beside_branch [] []) False of
     Inl _ \<Rightarrow> False | Inr a \<Rightarrow> planAdmissionApproved a \<and> deferredResources a = None"
  by code_simp

lemma beside_branch_admitted:
  "\<exists>a. admit demo_controller beside_branch = Inr a \<and> planAdmissionApproved a \<and> deferredResources a = None"
proof -
  have b: "claimBlocked demo_controller beside_branch = Inr None" by code_simp
  have c: "candidate_plan beside_branch = plain_plan ''p'' [''a'', ''b'']" by (simp add: beside_branch_def demo_input_def)
  obtain a where "decide demo_controller beside_branch (plain_plan ''p'' [''a'', ''b'']) (occupancy_of beside_branch [] []) False = Inr a"
    "planAdmissionApproved a" "deferredResources a = None"
    using beside_branch_decided by (auto split: sum.splits)
  then show ?thesis by (simp add: admit_def b c Let_def)
qed

theorem branch_surface_protected_witness: "keeps_off (plain_plan ''p'' [''a'', ''b'']) open_branch"
proof -
  obtain a where a: "admit demo_controller beside_branch = Inr a" "planAdmissionApproved a" "deferredResources a = None"
    using beside_branch_admitted by blast
  have c: "candidate_plan beside_branch = plain_plan ''p'' [''a'', ''b'']" "claim_task open_branch = ''q''"
    by (simp_all add: beside_branch_def demo_input_def open_branch_def)
  have l: "listed_by_task beside_branch"
    by (simp add: listed_by_task_def beside_branch_def demo_input_def narrowed_claim_fields open_branch_def)
  have w: "weighs_names (ctl_conflicts demo_controller)"
    by (simp add: weighs_names_def demo_controller_def DEFAULT_CONFLICT_OPTIONS_def)
  have t: "claim_task open_branch \<noteq> taskId (candidate_plan beside_branch)"
    "or_else ([''q'' \<mapsto> ''w''] (claim_task open_branch)) [] \<noteq> or_else (None :: string option) []"
    by (simp_all add: c plain_plan_def or_else_def)
  show ?thesis
    using branch_surface_protected [OF a(1,2) l open_branch_seen _ open_branch_normal t w] a(3) c(1)
    by (auto split: if_splits)
qed

text \<open>
  A measured claim is quiet exactly when nothing moved. A claim whose resources were read from an index
  and compared with canonical crosses branches if and only if one of the four lists of names differs as
  a set, or a contract moved; where somebody compared, mere presence does not count.
\<close>

theorem measured_claim_crosses:
  "claimCrossesBranches
     (claimFromChangeSet repository branch revision cs p (Some r) shapes (Some (movedAgainstCanonical r s))) \<longleftrightarrow>
   \<not> same_names r s \<or>
   (if \<forall>x \<in> set (or_empty shapes). shape_moved x \<noteq> None
    then \<exists>x \<in> set (or_empty shapes). shape_moved x = Some True else shapes \<noteq> None)"
  unfolding measured_claim_quiet shapesCross_def
  by (cases shapes) (auto simp: list_all_iff list_ex_iff)

definition demo_resources :: observed_resources where
  "demo_resources = \<lparr>seen_symbols = [], seen_apis = [''GET /u''], seen_schemas = [], seen_configKeys = [], seen_services = []\<rparr>"

definition demo_landed :: landed_changes where
  "demo_landed = \<lparr>landed_task = ''q'', symbolsChanged = [], landed_patches = []\<rparr>"

theorem measured_claim_crosses_witness:
  "\<not> claimCrossesBranches (claimFromChangeSet ''R'' ''w'' ''r'' demo_landed None (Some demo_resources) None
       (Some (movedAgainstCanonical demo_resources demo_resources))) \<and>
   claimCrossesBranches (claimFromChangeSet ''R'' ''w'' ''r'' demo_landed None (Some demo_resources) None None)"
proof
  show "\<not> claimCrossesBranches (claimFromChangeSet ''R'' ''w'' ''r'' demo_landed None (Some demo_resources) None
       (Some (movedAgainstCanonical demo_resources demo_resources)))"
    unfolding measured_claim_crosses by (simp add: same_names_def)
  show "claimCrossesBranches (claimFromChangeSet ''R'' ''w'' ''r'' demo_landed None (Some demo_resources) None None)"
    by (simp add: claimCrossesBranches_def claimFromChangeSet_def namesCross_def demo_resources_def Let_def)
qed

text \<open>
  The fast path refuses what the planned path does not see. A claim nobody measured, with no services
  and no contracts, that crosses branches is also seen when its plan is narrowed to what crosses. With a
  service it need not be: a claim on one service alone crosses branches, and nothing of its plan does.
\<close>

theorem fast_path_services:
  "(normal_plan (claim_plan c) \<and> claim_moved c = None \<and> claim_services c = [] \<and> claim_shapes c = [] \<and> claimCrossesBranches c \<longrightarrow>
      interfaceScopeOf (claim_plan c) v = Inr (Some (narrowed_claim c v))) \<and>
   (\<exists>d :: branch_claim. normal_plan (claim_plan d) \<and> claimCrossesBranches d \<and> interfaceScopeOf (claim_plan d) v = Inr None)"
proof
  show "normal_plan (claim_plan c) \<and> claim_moved c = None \<and> claim_services c = [] \<and> claim_shapes c = [] \<and> claimCrossesBranches c \<longrightarrow>
      interfaceScopeOf (claim_plan c) v = Inr (Some (narrowed_claim c v))"
    using claim_interface [of c v] unmeasured_claim_crosses [of c] by (auto simp: claim_plan_refs refs_def)
  let ?d = "open_branch\<lparr>claim_apis := [], claim_services := [''S'']\<rparr>"
  have n: "normal_plan (claim_plan ?d)" unfolding normal_plan_def by code_simp
  have "claimCrossesBranches ?d" by (simp add: claimCrossesBranches_def open_branch_def namesCross_def)
  moreover have "interfaceScopeOf (claim_plan ?d) v = Inr None"
    using claim_interface [OF n, of v] by (simp add: claim_plan_refs open_branch_def refs_def js_set_def)
  ultimately show "\<exists>d :: branch_claim. normal_plan (claim_plan d) \<and> claimCrossesBranches d \<and> interfaceScopeOf (claim_plan d) v = Inr None"
    using n by blast
qed

theorem fast_path_services_witness:
  "claimCrossesBranches open_branch \<and>
   interfaceScopeOf (claim_plan open_branch) demo_visibility = Inr (Some (narrowed_claim open_branch demo_visibility))"
proof -
  have "claim_moved open_branch = None \<and> claim_services open_branch = [] \<and> claim_shapes open_branch = [] \<and> claimCrossesBranches open_branch"
    by (simp add: open_branch_def claimCrossesBranches_def namesCross_def)
  then show ?thesis using fast_path_services [of open_branch demo_visibility] open_branch_normal by blast
qed

section \<open>Asking a holder\<close>

text \<open>
  A holder is asked once at a time. In every run of the registry, whoever asks while an ask of the same
  task is running, started since its entries were last cleared, is given what was already said or joins
  that ask; an answer once recorded is what everybody hears; and of two running asks of one round there
  is only one.
\<close>

theorem one_ask_at_a_time:
  assumes "holder_run r" and "running_ask r (session_task s) p"
  shows "(fst (askBlanketHolderOnce s r) = Joined p \<or> (\<exists>d. fst (askBlanketHolderOnce s r) = Said d \<and> answered r (session_task s) = Some d)) \<and>
    snd (askBlanketHolderOnce s r) = r \<and> (running_ask r (session_task s) q \<longrightarrow> q = p)"
proof -
  have a: "running_ask r (session_task s) q \<Longrightarrow> asking r (session_task s) = Some q" for q
    using holder_run_ok [OF assms(1)] unfolding registry_ok_def by blast
  then show ?thesis using a [OF assms(2)]
    by (auto simp: askBlanketHolderOnce_def Let_def split: option.splits dest: a)
qed

definition first_run :: holder_session where
  "first_run = \<lparr>session_object = 1, session_task = ''h'', session_repository = ''R''\<rparr>"

definition second_run :: holder_session where
  "second_run = \<lparr>session_object = 2, session_task = ''h'', session_repository = ''R''\<rparr>"

definition asked_once :: holder_registry where
  "asked_once = snd (askBlanketHolderOnce first_run (registerBlanketHolder first_run no_holders))"

lemma asked_once_run: "holder_run asked_once"
  unfolding asked_once_def by (rule holder_run.step [OF holder_run.step [OF holder_run.start registers] asks])

theorem one_ask_at_a_time_witness:
  "fst (askBlanketHolderOnce first_run asked_once) = Joined 0"
proof -
  have "running_ask asked_once (session_task first_run) 0" "answered asked_once (session_task first_run) = None"
    by (simp_all add: running_ask_def asked_once_def askBlanketHolderOnce_def registerBlanketHolder_def no_holders_def
        first_run_def)
  then show ?thesis using one_ask_at_a_time [OF asked_once_run, of first_run 0 0] by auto
qed

text \<open>
  A declaration can outlive its run. An ask in flight when its holder leaves still records its answer:
  in a run of the registry a second session of the task, registered after the first was deregistered
  and never asked, is answered with what the first one said.
\<close>

theorem declaration_outlives_run:
  "\<exists>r. holder_run r \<and> holders r ''h'' = Some second_run \<and> ask_of ` set (asks r) = {first_run} \<and>
     fst (askBlanketHolderOnce second_run r) = Said (Some demo_answer)"
proof -
  let ?r = "registerBlanketHolder second_run (settle_ask 0 (Some demo_answer) (deregister first_run asked_once))"
  have t: "session_task first_run = ''h''" by (simp add: first_run_def)
  have e: "asks (deregister first_run asked_once) = [\<lparr>ask_of = first_run, ask_settled = False, ask_round = 0\<rparr>]"
    by (simp add: asked_once_def askBlanketHolderOnce_def registerBlanketHolder_def no_holders_def deregister_def first_run_def
        Let_def)
  have "holder_step (deregister first_run asked_once) (settle_ask 0 (Some demo_answer) (deregister first_run asked_once))"
    by (rule settles) (simp_all add: e)
  then have "holder_run ?r"
    using holder_run.step [OF asked_once_run leaves [of asked_once first_run]] holder_run.step registers by blast
  moreover have "holders ?r ''h'' = Some second_run" by (simp add: registerBlanketHolder_def second_run_def)
  moreover have "ask_of ` set (asks ?r) = {first_run}"
    by (simp add: registerBlanketHolder_def settle_ask_def e)
  moreover have "answered ?r ''h'' = Some (Some demo_answer)"
    by (simp add: registerBlanketHolder_def settle_ask_def e t)
  then have "fst (askBlanketHolderOnce second_run ?r) = Said (Some demo_answer)"
    by (simp add: askBlanketHolderOnce_def second_run_def)
  ultimately show ?thesis by blast
qed

end
