(* ===== verification/Zip_Archive.thy ===== *)
theory Zip_Archive
  imports Path_Names "HOL-Library.Word"
begin

unbundle bit_operations_syntax

text \<open>
  \<open>services/repository-service/src/zip-archive.ts\<close>: reading a ZIP that arrived from a browser, and
  writing it out under a folder. Bytes are 8-bit words, offsets and sizes natural numbers, flags and
  modes 16-bit words. UTF-8 decoding and \<open>inflateRawSync\<close> are arguments. What reaches the file system
  is the list of files written, in order, also when a later entry throws; paths are POSIX paths.
\<close>

section \<open>Reading numbers\<close>

type_synonym byte = "8 word"

datatype zip_error =
    Truncated
  | ImpossibleSize
  | TooSmall
  | NotArchive
  | MissingIndex64
  | DamagedIndex64
  | TooManyFiles
  | DamagedIndex
  | Encrypted
  | DamagedAround string
  | UnknownCompression string nat
  | NotDecompressed string
  | OutsideFolder string
  | UnpacksTooLarge

definition LOCAL_HEADER :: nat where "LOCAL_HEADER = 0x04034b50"
definition CENTRAL_ENTRY :: nat where "CENTRAL_ENTRY = 0x02014b50"
definition END_OF_CENTRAL_DIRECTORY :: nat where "END_OF_CENTRAL_DIRECTORY = 0x06054b50"
definition ZIP64_END_OF_CENTRAL_DIRECTORY :: nat where "ZIP64_END_OF_CENTRAL_DIRECTORY = 0x06064b50"
definition ZIP64_LOCATOR :: nat where "ZIP64_LOCATOR = 0x07064b50"
definition STORED :: nat where "STORED = 0"
definition DEFLATED :: nat where "DEFLATED = 8"
definition MAX_ARCHIVE_ENTRIES :: nat where "MAX_ARCHIVE_ENTRIES = 200000"
definition MAX_ARCHIVE_EXTRACTED_BYTES :: nat where "MAX_ARCHIVE_EXTRACTED_BYTES = 2 * 1024 * 1024 * 1024"

text \<open>The little-endian number of some bytes.\<close>

fun le_value :: "byte list \<Rightarrow> nat" where
  "le_value [] = 0"
| "le_value (b # bs) = unat b + 256 * le_value bs"

definition number_at :: "nat \<Rightarrow> byte list \<Rightarrow> nat \<Rightarrow> nat" where
  "number_at width archive offset = le_value (take width (drop offset archive))"

definition readUInt32 :: "byte list \<Rightarrow> nat \<Rightarrow> zip_error + nat" where
  "readUInt32 archive offset =
     (if offset + 4 > length archive then Inl Truncated else Inr (number_at 4 archive offset))"

definition readUInt16 :: "byte list \<Rightarrow> nat \<Rightarrow> zip_error + nat" where
  "readUInt16 archive offset =
     (if offset + 2 > length archive then Inl Truncated else Inr (number_at 2 archive offset))"

definition readUInt64 :: "byte list \<Rightarrow> nat \<Rightarrow> zip_error + nat" where
  "readUInt64 archive offset =
     (if offset + 8 > length archive then Inl Truncated
      else if int (number_at 8 archive offset) > max_safe_integer then Inl ImpossibleSize
      else Inr (number_at 8 archive offset))"

section \<open>The central directory\<close>

definition end_record :: "byte list \<Rightarrow> nat option" where
  "end_record archive =
     find (\<lambda>at. number_at 4 archive at = END_OF_CENTRAL_DIRECTORY)
       (rev [length archive - 22 - 0xffff ..< length archive - 22 + 1])"

definition locateCentralDirectory :: "byte list \<Rightarrow> zip_error + nat \<times> nat" where
  "locateCentralDirectory archive =
     (if length archive < 22 then Inl TooSmall
      else
        (case end_record archive of
           None \<Rightarrow> Inl NotArchive
         | Some stop \<Rightarrow>
             res_bind (readUInt16 archive (stop + 10)) (\<lambda>entries.
             res_bind (readUInt32 archive (stop + 16)) (\<lambda>offset.
               if entries = 0xffff \<or> offset = 0xffffffff then
                 (if stop < 20 then Inl MissingIndex64
                  else
                    res_bind (readUInt32 archive (stop - 20)) (\<lambda>signature.
                      if signature \<noteq> ZIP64_LOCATOR then Inl MissingIndex64
                      else
                        res_bind (readUInt64 archive (stop - 20 + 8)) (\<lambda>record.
                        res_bind (readUInt32 archive record) (\<lambda>signature.
                          if signature \<noteq> ZIP64_END_OF_CENTRAL_DIRECTORY then Inl DamagedIndex64
                          else
                            res_bind (readUInt64 archive (record + 32)) (\<lambda>wide_entries.
                            res_bind (readUInt64 archive (record + 48)) (\<lambda>wide_offset.
                              Inr (wide_offset, wide_entries)))))))
               else Inr (offset, entries)))))"

record wide_sizes =
  wide_uncompressed :: "nat option"
  wide_compressed :: "nat option"
  wide_header :: "nat option"

text \<open>\<open>next()\<close>: the next number of the field, and where it leaves the cursor.\<close>

definition next_size :: "byte list \<Rightarrow> bool \<Rightarrow> nat \<Rightarrow> zip_error + nat option \<times> nat" where
  "next_size bytes wanted cursor =
     (if \<not> wanted then Inr (None, cursor)
      else if cursor + 8 > length bytes then Inr (None, cursor)
      else res_bind (readUInt64 bytes cursor) (\<lambda>v. Inr (Some v, cursor + 8)))"

function zip64Sizes :: "byte list \<Rightarrow> bool \<Rightarrow> bool \<Rightarrow> bool \<Rightarrow> zip_error + wide_sizes" where
  "zip64Sizes extra uncompressed compressed header =
     (if length extra < 4 \<or> 4 + number_at 2 extra 2 > length extra
      then Inr \<lparr>wide_uncompressed = None, wide_compressed = None, wide_header = None\<rparr>
      else if number_at 2 extra 0 = 1 then
        (let bytes = take (number_at 2 extra 2) (drop 4 extra)
         in res_bind (next_size bytes uncompressed 0) (\<lambda>(u, c1).
            res_bind (next_size bytes compressed c1) (\<lambda>(c, c2).
            res_bind (next_size bytes header c2) (\<lambda>(h, c3).
              Inr \<lparr>wide_uncompressed = u, wide_compressed = c, wide_header = h\<rparr>))))
      else zip64Sizes (drop (4 + number_at 2 extra 2) extra) uncompressed compressed header)"
  by pat_completeness auto
termination
  by (relation "measure (\<lambda>(extra, _). length extra)") auto

declare zip64Sizes.simps [simp del]

record zip_entry =
  entry_name :: string
  entry_directory :: bool
  entry_mode :: "16 word option"
  compressionMethod :: nat
  compressedSize :: nat
  uncompressedSize :: nat
  localHeaderOffset :: nat

definition unix_mode :: "nat \<Rightarrow> nat \<Rightarrow> 16 word option" where
  "unix_mode madeBy attributes =
     (if drop_bit 8 (of_nat madeBy :: 16 word) = 3 then Some (ucast (drop_bit 16 (of_nat attributes :: 32 word)))
      else None)"

definition ends_as_directory :: "string \<Rightarrow> bool" where
  "ends_as_directory name \<longleftrightarrow> suffix ''/'' name \<or> suffix [CHR 0x5C] name"

text \<open>One turn of the loop: the entry at an offset and the offset of the next.\<close>

definition read_entry :: "(byte list \<Rightarrow> string) \<Rightarrow> byte list \<Rightarrow> nat \<Rightarrow> zip_error + zip_entry \<times> nat" where
  "read_entry decode archive at =
     res_bind (readUInt32 archive at) (\<lambda>signature.
     if signature \<noteq> CENTRAL_ENTRY then Inl DamagedIndex
     else
       res_bind (readUInt16 archive (at + 4)) (\<lambda>madeBy.
       res_bind (readUInt16 archive (at + 8)) (\<lambda>flags.
       res_bind (readUInt16 archive (at + 10)) (\<lambda>compression.
       res_bind (readUInt16 archive (at + 28)) (\<lambda>nameLength.
       res_bind (readUInt16 archive (at + 30)) (\<lambda>extraLength.
       res_bind (readUInt16 archive (at + 32)) (\<lambda>commentLength.
       res_bind (readUInt32 archive (at + 38)) (\<lambda>attributes.
       res_bind (readUInt32 archive (at + 20)) (\<lambda>compressed.
       res_bind (readUInt32 archive (at + 24)) (\<lambda>uncompressed.
       res_bind (readUInt32 archive (at + 42)) (\<lambda>header.
         let nameStart = at + 46; nameBytes = take nameLength (drop nameStart archive)
         in if length nameBytes \<noteq> nameLength then Inl Truncated
            else
              (let name = decode nameBytes;
                   extra = take extraLength (drop (nameStart + nameLength) archive);
                   saturated = (compressed = 0xffffffff \<or> uncompressed = 0xffffffff \<or> header = 0xffffffff)
               in res_bind
                    (if saturated
                     then zip64Sizes extra (uncompressed = 0xffffffff) (compressed = 0xffffffff) (header = 0xffffffff)
                     else Inr \<lparr>wide_uncompressed = None, wide_compressed = None, wide_header = None\<rparr>)
                    (\<lambda>wide.
                  if (of_nat flags :: 16 word) AND 1 \<noteq> 0 then Inl Encrypted
                  else Inr
                    (\<lparr>entry_name = name, entry_directory = ends_as_directory name,
                      entry_mode = unix_mode madeBy attributes, compressionMethod = compression,
                      compressedSize = (case wide_compressed wide of None \<Rightarrow> compressed | Some v \<Rightarrow> v),
                      uncompressedSize = (case wide_uncompressed wide of None \<Rightarrow> uncompressed | Some v \<Rightarrow> v),
                      localHeaderOffset = (case wide_header wide of None \<Rightarrow> header | Some v \<Rightarrow> v)\<rparr>,
                     nameStart + nameLength + extraLength + commentLength))))))))))))))"

fun read_entries :: "(byte list \<Rightarrow> string) \<Rightarrow> byte list \<Rightarrow> nat \<Rightarrow> nat \<Rightarrow> zip_error + zip_entry list" where
  "read_entries decode archive at 0 = Inr []"
| "read_entries decode archive at (Suc n) =
     res_bind (read_entry decode archive at) (\<lambda>(e, following).
     res_bind (read_entries decode archive following n) (\<lambda>es. Inr (e # es)))"

definition readZipEntries :: "(byte list \<Rightarrow> string) \<Rightarrow> byte list \<Rightarrow> zip_error + zip_entry list" where
  "readZipEntries decode archive =
     res_bind (locateCentralDirectory archive) (\<lambda>(offset, declared).
       if declared > MAX_ARCHIVE_ENTRIES then Inl TooManyFiles
       else read_entries decode archive offset declared)"

section \<open>One entry\<close>

definition entryBytes :: "(byte list \<Rightarrow> nat \<Rightarrow> byte list option) \<Rightarrow> byte list \<Rightarrow> zip_entry \<Rightarrow> zip_error + byte list" where
  "entryBytes inflate archive e =
     res_bind (readUInt32 archive (localHeaderOffset e)) (\<lambda>signature.
     if signature \<noteq> LOCAL_HEADER then Inl (DamagedAround (entry_name e))
     else
       res_bind (readUInt16 archive (localHeaderOffset e + 26)) (\<lambda>nameLength.
       res_bind (readUInt16 archive (localHeaderOffset e + 28)) (\<lambda>extraLength.
         let start = localHeaderOffset e + 30 + nameLength + extraLength; stop = start + compressedSize e
         in if stop > length archive then Inl Truncated
            else
              (let raw = take (compressedSize e) (drop start archive)
               in if compressionMethod e = STORED then Inr raw
                  else if compressionMethod e \<noteq> DEFLATED
                  then Inl (UnknownCompression (entry_name e) (compressionMethod e))
                  else
                    (case inflate raw (max (uncompressedSize e) 1) of
                       None \<Rightarrow> Inl (NotDecompressed (entry_name e))
                     | Some bytes \<Rightarrow> Inr bytes)))))"

definition name_segments :: "string \<Rightarrow> string list" where
  "name_segments normalized = filter (\<lambda>s. s \<noteq> []) (split_on CHR ''/'' normalized)"

text \<open>\<open>/^[A-Za-z]:/\<close>\<close>

definition drive_letter :: "string \<Rightarrow> bool" where
  "drive_letter s \<longleftrightarrow> (case s of c # d # _ \<Rightarrow> ascii_letter c \<and> d = CHR '':'' | _ \<Rightarrow> False)"

text \<open>\<open>path.resolve\<close> of an absolute path and relative segments: dots go, two dots climb.\<close>

definition resolve_step :: "string list \<Rightarrow> string \<Rightarrow> string list" where
  "resolve_step out seg =
     (if seg = [] \<or> seg = ''.'' then out else if seg = ''..'' then butlast out else out @ [seg])"

definition resolve_path :: "string \<Rightarrow> string list \<Rightarrow> string" where
  "resolve_path root segments =
     CHR ''/'' # join_with CHR ''/'' (foldl resolve_step [] (split_on CHR ''/'' root @ segments))"

definition zipEntryTargetPath :: "string \<Rightarrow> string \<Rightarrow> string option" where
  "zipEntryTargetPath destination name =
     (let normalized = forward_slashes name
      in if normalized = [] \<or> absolute normalized \<or> drive_letter normalized \<or> CHR 0x00 \<in> set normalized then None
         else
           (let segments = name_segments normalized
            in if segments = [] \<or> ''..'' \<in> set segments then None
               else
                 (let root = resolve_path destination []; target = resolve_path root segments
                  in if target \<noteq> root \<and> \<not> prefix (root @ ''/'') target then None else Some target)))"

fun single_root :: "string list \<Rightarrow> string option \<Rightarrow> string option" where
  "single_root [] root = root"
| "single_root (name # names) root =
     (let normalized = forward_slashes name
      in case name_segments normalized of
           [] \<Rightarrow> single_root names root
         | first # rest \<Rightarrow>
             if rest = [] \<and> \<not> suffix ''/'' normalized then None
             else (case root of
                     None \<Rightarrow> single_root names (Some first)
                   | Some r \<Rightarrow> if r \<noteq> first then None else single_root names root))"

definition singleRootDirectory :: "zip_entry list \<Rightarrow> string option" where
  "singleRootDirectory es = single_root (map entry_name es) None"

section \<open>Unpacking\<close>

record written_file =
  file_path :: string
  file_bytes :: "byte list"
  file_executable :: bool

record extracted =
  extracted_files :: nat
  extracted_skipped :: nat
  extracted_bytes :: nat

definition not_a_file :: "16 word option \<Rightarrow> bool" where
  "not_a_file m \<longleftrightarrow> (case m of None \<Rightarrow> False | Some w \<Rightarrow> w AND 0xf000 \<noteq> 0 \<and> w AND 0xf000 \<noteq> 0x8000)"

definition executable_mode :: "16 word option \<Rightarrow> bool" where
  "executable_mode m \<longleftrightarrow> (case m of None \<Rightarrow> False | Some w \<Rightarrow> w AND 0x49 \<noteq> 0)"

fun extract_entries ::
  "(byte list \<Rightarrow> nat \<Rightarrow> byte list option) \<Rightarrow> byte list \<Rightarrow> string \<Rightarrow> nat \<Rightarrow> zip_entry list \<Rightarrow> extracted
   \<Rightarrow> (zip_error + extracted) \<times> written_file list"
where
  "extract_entries inflate archive destination limit [] done = (Inr done, [])"
| "extract_entries inflate archive destination limit (e # es) done =
     (case zipEntryTargetPath destination (entry_name e) of
        None \<Rightarrow> (Inl (OutsideFolder (entry_name e)), [])
      | Some target \<Rightarrow>
          if entry_directory e then extract_entries inflate archive destination limit es done
          else if not_a_file (entry_mode e)
          then extract_entries inflate archive destination limit es (done\<lparr>extracted_skipped := extracted_skipped done + 1\<rparr>)
          else if extracted_bytes done + uncompressedSize e > limit then (Inl UnpacksTooLarge, [])
          else
            (case entryBytes inflate archive e of
               Inl problem \<Rightarrow> (Inl problem, [])
             | Inr bytes \<Rightarrow>
                 (let (r, ws) = extract_entries inflate archive destination limit es
                        (done\<lparr>extracted_files := extracted_files done + 1,
                              extracted_bytes := extracted_bytes done + uncompressedSize e\<rparr>)
                  in (r, \<lparr>file_path = target, file_bytes = bytes, file_executable = executable_mode (entry_mode e)\<rparr> # ws))))"

definition extractZipArchive ::
  "(byte list \<Rightarrow> string) \<Rightarrow> (byte list \<Rightarrow> nat \<Rightarrow> byte list option) \<Rightarrow> byte list \<Rightarrow> string \<Rightarrow> nat option
   \<Rightarrow> (zip_error + extracted) \<times> written_file list"
where
  "extractZipArchive decode inflate archive destination maxBytes =
     (case readZipEntries decode archive of
        Inl problem \<Rightarrow> (Inl problem, [])
      | Inr es \<Rightarrow>
          extract_entries inflate archive destination
            (case maxBytes of None \<Rightarrow> MAX_ARCHIVE_EXTRACTED_BYTES | Some m \<Rightarrow> m) es
            \<lparr>extracted_files = 0, extracted_skipped = 0, extracted_bytes = 0\<rparr>)"

end
