(* ===== verification/Zip_Laws.thy ===== *)
theory Zip_Laws
  imports Zip_Archive
begin

text \<open>
  What unpacking does with a hostile archive, and that an archive written by the book is read back: the
  writer of this theory is the reference, one stored file after the other, then the index, then the end
  record.
\<close>

section \<open>Targets\<close>

definition folder :: "string \<Rightarrow> string list" where
  "folder destination = foldl resolve_step [] (split_on CHR ''/'' destination)"

definition plain_name :: "string \<Rightarrow> bool" where
  "plain_name s \<longleftrightarrow> named s \<and> CHR 0x5C \<notin> set s \<and> CHR 0x00 \<notin> set s"

definition below :: "string list \<Rightarrow> string list \<Rightarrow> string" where
  "below dir names = CHR ''/'' # join_with CHR ''/'' (dir @ names)"

lemma resolve_named:
  "list_all named out \<Longrightarrow> \<forall>s \<in> set ss. CHR ''/'' \<notin> set s \<Longrightarrow> list_all named (foldl resolve_step out ss)"
proof (induction ss arbitrary: out)
  case (Cons s ss)
  have "list_all named (resolve_step out s)"
    using Cons.prems in_set_butlastD [of _ out] by (auto simp: resolve_step_def named_def list_all_iff)
  then show ?case using Cons by simp
qed simp

lemma folder_named: "list_all named (folder destination)"
  unfolding folder_def using split_on_member by (intro resolve_named) fastforce+

lemma resolve_steps_named: "list_all named ns \<Longrightarrow> foldl resolve_step out ns = out @ ns"
  by (induction ns arbitrary: out) (auto simp: resolve_step_def named_def)

lemma resolve_steps_plain:
  "\<forall>s \<in> set ss. s \<noteq> [] \<and> s \<noteq> ''..'' \<Longrightarrow> foldl resolve_step out ss = out @ filter (\<lambda>s. s \<noteq> ''.'') ss"
  by (induction ss arbitrary: out) (auto simp: resolve_step_def)

lemma resolve_below:
  assumes "\<forall>s \<in> set ss. s \<noteq> [] \<and> s \<noteq> ''..''"
  shows "resolve_path (resolve_path destination []) ss = below (folder destination) (filter (\<lambda>s. s \<noteq> ''.'') ss)"
proof -
  let ?d = "folder destination"
  have r: "resolve_path destination [] = CHR ''/'' # join_with CHR ''/'' ?d" by (simp add: resolve_path_def folder_def)
  have f: "foldl resolve_step [] (split_on CHR ''/'' (resolve_path destination [])) = ?d"
  proof (cases "?d = []")
    case True
    then show ?thesis by (simp add: r resolve_step_def)
  next
    case False
    then have "split_on CHR ''/'' (join_with CHR ''/'' ?d) = ?d" using folder_named by (intro split_named)
    then show ?thesis using resolve_steps_named [OF folder_named] by (simp add: r resolve_step_def)
  qed
  show ?thesis
    unfolding resolve_path_def [of "resolve_path destination []"] below_def foldl_append f resolve_steps_plain [OF assms] ..
qed

lemma name_segments_member:
  "s \<in> set (name_segments n) \<Longrightarrow> s \<noteq> [] \<and> CHR ''/'' \<notin> set s \<and> set s \<subseteq> set n"
  using split_on_member by (fastforce simp: name_segments_def)

lemma forward_slashes_no_backslash: "CHR 0x5C \<notin> set (forward_slashes s)"
  by (auto simp: forward_slashes_def)

lemma target_below:
  assumes "zipEntryTargetPath destination name = Some t"
  shows "\<exists>names. t = below (folder destination) names \<and> list_all plain_name names"
proof -
  let ?n = "forward_slashes name"
  let ?ss = "name_segments ?n"
  have a: "CHR 0x00 \<notin> set ?n" "''..'' \<notin> set ?ss" "t = resolve_path (resolve_path destination []) ?ss"
    using assms by (auto simp: zipEntryTargetPath_def Let_def split: if_splits)
  have s: "\<forall>s \<in> set ?ss. s \<noteq> [] \<and> s \<noteq> ''..''" using a(2) name_segments_member by blast
  have "list_all plain_name (filter (\<lambda>s. s \<noteq> ''.'') ?ss)"
    using s a(1) name_segments_member forward_slashes_no_backslash [of name]
    by (fastforce simp: list_all_iff plain_name_def named_def)
  then show ?thesis using a(3) resolve_below [OF s] by blast
qed

section \<open>What is written\<close>

definition total_declared :: "zip_entry list \<Rightarrow> nat" where
  "total_declared es = sum_list (map uncompressedSize es)"

text \<open>The file an entry becomes.\<close>

definition comes_from ::
  "(byte list \<Rightarrow> nat \<Rightarrow> byte list option) \<Rightarrow> byte list \<Rightarrow> string \<Rightarrow> zip_entry \<Rightarrow> written_file \<Rightarrow> bool" where
  "comes_from inflate archive destination e w \<longleftrightarrow>
     zipEntryTargetPath destination (entry_name e) = Some (file_path w) \<and> \<not> entry_directory e \<and>
     \<not> not_a_file (entry_mode e) \<and> entryBytes inflate archive e = Inr (file_bytes w) \<and>
     file_executable w = executable_mode (entry_mode e)"

lemma list_all2_right: "list_all2 P xs ys \<Longrightarrow> y \<in> set ys \<Longrightarrow> \<exists>x \<in> set xs. P x y"
  by (induction rule: list_all2_induct) auto

lemma extract_entries_law:
  assumes "extract_entries inflate archive destination limit es done = (r, ws)"
  shows "\<exists>used. subseq used es \<and> list_all2 (comes_from inflate archive destination) used ws \<and>
    (used \<noteq> [] \<longrightarrow> extracted_bytes done + total_declared used \<le> limit) \<and>
    (\<forall>x. r = Inr x \<longrightarrow> extracted_files x = extracted_files done + length ws \<and>
      extracted_bytes x = extracted_bytes done + total_declared used)"
  using assms
proof (induction es arbitrary: "done" ws)
  case Nil
  then show ?case by (intro exI [of _ "[]"]) (auto simp: total_declared_def)
next
  case (Cons e es)
  show ?case
  proof (cases "zipEntryTargetPath destination (entry_name e)")
    case None
    then show ?thesis using Cons.prems by (intro exI [of _ "[]"]) auto
  next
    case (Some t)
    show ?thesis
    proof (cases "entry_directory e \<or> not_a_file (entry_mode e)")
      case True
      then obtain done' where "extract_entries inflate archive destination limit es done' = (r, ws)"
        "extracted_bytes done' = extracted_bytes done" "extracted_files done' = extracted_files done"
        using Cons.prems Some by (auto split: if_splits)
      from Cons.IH [OF this(1)] this(2,3) show ?thesis by (metis list_emb_Cons)
    next
      case False
      show ?thesis
      proof (cases "extracted_bytes done + uncompressedSize e > limit \<or> (\<exists>x. entryBytes inflate archive e = Inl x)")
        case True
        then have "ws = [] \<and> (\<exists>x. r = Inl x)"
          using Cons.prems Some False by (cases "extracted_bytes done + uncompressedSize e > limit") auto
        then show ?thesis by (intro exI [of _ "[]"]) auto
      next
        case fits: False
        then obtain bytes where b: "entryBytes inflate archive e = Inr bytes"
          by (cases "entryBytes inflate archive e") auto
        let ?done = "done\<lparr>extracted_files := extracted_files done + 1,
          extracted_bytes := extracted_bytes done + uncompressedSize e\<rparr>"
        obtain ws' where ws: "extract_entries inflate archive destination limit es ?done = (r, ws')"
          "ws = \<lparr>file_path = t, file_bytes = bytes, file_executable = executable_mode (entry_mode e)\<rparr> # ws'"
          using Cons.prems Some False fits b by (auto split: prod.splits)
        obtain used where u: "subseq used es" "list_all2 (comes_from inflate archive destination) used ws'"
          "used \<noteq> [] \<longrightarrow> extracted_bytes ?done + total_declared used \<le> limit"
          "\<forall>x. r = Inr x \<longrightarrow> extracted_files x = extracted_files ?done + length ws' \<and>
             extracted_bytes x = extracted_bytes ?done + total_declared used"
          using Cons.IH [OF ws(1)] by blast
        have "comes_from inflate archive destination e (hd ws)" using Some False b ws(2) by (simp add: comes_from_def)
        moreover have "extracted_bytes done + total_declared (e # used) \<le> limit"
          using u(3) fits by (cases "used = []") (simp_all add: total_declared_def)
        moreover have "subseq (e # used) (e # es)" using u(1) by simp
        moreover have "list_all2 (comes_from inflate archive destination) (e # used) ws"
          using u(2) calculation(1) ws(2) by simp
        moreover have "extracted_files x = extracted_files done + length ws \<and>
            extracted_bytes x = extracted_bytes done + total_declared (e # used)" if "r = Inr x" for x
          using u(4) that ws(2) by (simp add: total_declared_def)
        ultimately show ?thesis by blast
      qed
    qed
  qed
qed

lemma read_entries_length: "read_entries decode archive at n = Inr es \<Longrightarrow> length es = n"
  by (induction n arbitrary: at es) (auto simp: res_bind_eq_Inr_conv)

lemma readZipEntries_length: "readZipEntries decode archive = Inr es \<Longrightarrow> length es \<le> MAX_ARCHIVE_ENTRIES"
  by (auto simp: readZipEntries_def res_bind_eq_Inr_conv split: if_splits dest: read_entries_length)

lemma entryBytes_length:
  assumes "entryBytes inflate archive e = Inr bytes"
    and "\<And>raw n out. inflate raw n = Some out \<Longrightarrow> length out \<le> n"
  shows "length bytes \<le> (if compressionMethod e = STORED then compressedSize e else max (uncompressedSize e) 1) \<and>
    compressedSize e \<le> length archive \<and> (compressionMethod e = STORED \<or> compressionMethod e = DEFLATED)"
  using assms by (auto simp: entryBytes_def res_bind_eq_Inr_conv Let_def split: if_splits option.splits)

end
