(* ===== verification/Zip_Writer.thy ===== *)
theory Zip_Writer
  imports Zip_Laws
begin

text \<open>
  The reference writer: an archive by the book with stored files, one local header and its bytes after
  the other, then the index, then the end record. Reading it back gives the files again. The size the
  index declares for a file is a field of its own, which an honest writer sets to the length.
\<close>

section \<open>Numbers\<close>

fun le_bytes :: "nat \<Rightarrow> nat \<Rightarrow> byte list" where
  "le_bytes 0 v = []"
| "le_bytes (Suc w) v = of_nat v # le_bytes w (v div 256)"

lemma le_bytes_length [simp]: "length (le_bytes w v) = w"
  by (induction w arbitrary: v) auto

lemma le_value_le_bytes: "v < 256 ^ w \<Longrightarrow> le_value (le_bytes w v) = v"
proof (induction w arbitrary: v)
  case (Suc w)
  have "v div 256 < 256 ^ w" using Suc.prems by (simp add: less_mult_imp_div_less mult.commute)
  then show ?case using Suc.IH by (simp add: unat_of_nat)
qed simp

lemma number_at_within:
  assumes "k + w \<le> length part"
  shows "number_at w (before @ part @ after) (length before + k) = le_value (take w (drop k part))"
  using assms by (simp add: number_at_def)

lemma number_at_here: "v < 256 ^ w \<Longrightarrow> number_at w (before @ le_bytes w v @ after) (length before) = v"
  by (simp add: number_at_def le_value_le_bytes)

section \<open>The writer\<close>

record stored_file =
  stored_name :: "byte list"
  stored_bytes :: "byte list"
  stored_declared :: nat
  stored_executable :: bool

definition local_part :: "stored_file \<Rightarrow> byte list" where
  "local_part f =
     le_bytes 4 LOCAL_HEADER @ le_bytes 22 0 @ le_bytes 2 (length (stored_name f)) @ le_bytes 2 0 @
     stored_name f @ stored_bytes f"

definition file_attributes :: "bool \<Rightarrow> nat" where
  "file_attributes x = (if x then 0x81ED0000 else 0x81A40000)"

definition central_part :: "stored_file \<Rightarrow> nat \<Rightarrow> byte list" where
  "central_part f header =
     le_bytes 4 CENTRAL_ENTRY @ le_bytes 2 0x0314 @ le_bytes 2 20 @ le_bytes 2 0 @ le_bytes 2 STORED @
     le_bytes 8 0 @ le_bytes 4 (length (stored_bytes f)) @ le_bytes 4 (stored_declared f) @
     le_bytes 2 (length (stored_name f)) @ le_bytes 2 0 @ le_bytes 2 0 @ le_bytes 4 0 @
     le_bytes 4 (file_attributes (stored_executable f)) @ le_bytes 4 header @ stored_name f"

fun local_parts :: "stored_file list \<Rightarrow> byte list" where
  "local_parts [] = []"
| "local_parts (f # fs) = local_part f @ local_parts fs"

fun central_parts :: "nat \<Rightarrow> stored_file list \<Rightarrow> byte list" where
  "central_parts at [] = []"
| "central_parts at (f # fs) = central_part f at @ central_parts (at + length (local_part f)) fs"

definition end_part :: "nat \<Rightarrow> nat \<Rightarrow> nat \<Rightarrow> byte list" where
  "end_part entries bytes offset =
     le_bytes 4 END_OF_CENTRAL_DIRECTORY @ le_bytes 4 0 @ le_bytes 2 entries @ le_bytes 2 entries @
     le_bytes 4 bytes @ le_bytes 4 offset @ le_bytes 2 0"

definition zip_of :: "stored_file list \<Rightarrow> byte list" where
  "zip_of fs =
     local_parts fs @ central_parts 0 fs @
     end_part (length fs) (length (central_parts 0 fs)) (length (local_parts fs))"

definition writable :: "stored_file list \<Rightarrow> bool" where
  "writable fs \<longleftrightarrow> length fs < 0xffff \<and> length (local_parts fs) < 0xffffffff \<and>
     (\<forall>f \<in> set fs. length (stored_name f) < 0x10000 \<and> stored_declared f < 0xffffffff)"

section \<open>Reading the index back\<close>

definition entry_of :: "(byte list \<Rightarrow> string) \<Rightarrow> stored_file \<Rightarrow> nat \<Rightarrow> zip_entry" where
  "entry_of decode f header =
     \<lparr>entry_name = decode (stored_name f), entry_directory = ends_as_directory (decode (stored_name f)),
      entry_mode = Some (if stored_executable f then 0x81ED else 0x81A4), compressionMethod = STORED,
      compressedSize = length (stored_bytes f), uncompressedSize = stored_declared f,
      localHeaderOffset = header\<rparr>"

fun entries_of :: "(byte list \<Rightarrow> string) \<Rightarrow> nat \<Rightarrow> stored_file list \<Rightarrow> zip_entry list" where
  "entries_of decode at [] = []"
| "entries_of decode at (f # fs) = entry_of decode f at # entries_of decode (at + length (local_part f)) fs"

lemma locate_zip_of:
  assumes "writable fs"
  shows "locateCentralDirectory (zip_of fs) = Inr (length (local_parts fs), length fs)"
proof -
  let ?before = "local_parts fs @ central_parts 0 fs"
  let ?e = "end_part (length fs) (length (central_parts 0 fs)) (length (local_parts fs))"
  have z: "zip_of fs = ?before @ ?e @ []" by (simp add: zip_of_def)
  have l: "length ?e = 22" by (simp add: end_part_def)
  have b: "length fs < 256 ^ 2" "length (local_parts fs) < 256 ^ 4" using assms by (auto simp: writable_def)
  have n: "number_at 4 (zip_of fs) (length ?before + 0) = END_OF_CENTRAL_DIRECTORY"
    "number_at 2 (zip_of fs) (length ?before + 10) = length fs"
    "number_at 4 (zip_of fs) (length ?before + 16) = length (local_parts fs)"
    unfolding z using b
    by (subst number_at_within, simp add: l, simp add: end_part_def le_value_le_bytes END_OF_CENTRAL_DIRECTORY_def)+
  have le: "length (zip_of fs) = length ?before + 22" using l by (simp add: z)
  have "end_record (zip_of fs) = Some (length ?before)"
    using n(1) le by (simp add: end_record_def)
  moreover have "readUInt16 (zip_of fs) (length ?before + 10) = Inr (length fs)"
    "readUInt32 (zip_of fs) (length ?before + 16) = Inr (length (local_parts fs))"
    using n(2,3) le by (simp_all add: readUInt16_def readUInt32_def)
  ultimately show ?thesis using le assms by (simp add: locateCentralDirectory_def writable_def)
qed

lemma mode_of_attributes:
  "unix_mode 0x0314 (file_attributes x) = Some (if x then 0x81ED else 0x81A4)"
  by (cases x; simp add: unix_mode_def file_attributes_def; code_simp)

lemma central_part_length: "length (central_part f header) = 46 + length (stored_name f)"
  by (simp add: central_part_def)

lemma read_entry_written:
  assumes "header < 0xffffffff" "length (stored_bytes f) < 0xffffffff" "stored_declared f < 0xffffffff"
    "length (stored_name f) < 0x10000"
  shows "read_entry decode (before @ central_part f header @ after) (length before) =
    Inr (entry_of decode f header, length before + length (central_part f header))"
proof -
  let ?p = "central_part f header"
  let ?a = "before @ ?p @ after"
  have l: "length ?p = 46 + length (stored_name f)" by (rule central_part_length)
  have at: "number_at w ?a (length before + k) = le_value (take w (drop k ?p))" if "k + w \<le> 46" for w k
    using that l by (intro number_at_within) simp
  have fa: "file_attributes x < 256 ^ 4" for x by (simp add: file_attributes_def)
  have n: "number_at 4 ?a (length before) = CENTRAL_ENTRY" "number_at 2 ?a (length before + 4) = 0x0314"
    "number_at 2 ?a (length before + 8) = 0" "number_at 2 ?a (length before + 10) = STORED"
    "number_at 2 ?a (length before + 28) = length (stored_name f)" "number_at 2 ?a (length before + 30) = 0"
    "number_at 2 ?a (length before + 32) = 0"
    "number_at 4 ?a (length before + 38) = file_attributes (stored_executable f)"
    "number_at 4 ?a (length before + 20) = length (stored_bytes f)"
    "number_at 4 ?a (length before + 24) = stored_declared f" "number_at 4 ?a (length before + 42) = header"
    using at [of 0 4] at [of 4 2] at [of 8 2] at [of 10 2] at [of 28 2] at [of 30 2] at [of 32 2] at [of 38 4]
      at [of 20 4] at [of 24 4] at [of 42 4] assms fa
    by (simp_all add: central_part_def le_value_le_bytes CENTRAL_ENTRY_def STORED_def)
  have nm: "take (length (stored_name f)) (drop (length before + 46) ?a) = stored_name f"
    by (simp add: central_part_def)
  have d: "drop 46 ?p = stored_name f" by (simp add: central_part_def)
  show ?thesis
    using l assms d
    by (simp add: read_entry_def readUInt32_def readUInt16_def n nm Let_def entry_of_def mode_of_attributes)
qed

lemma local_part_length: "length (local_part f) = 30 + length (stored_name f) + length (stored_bytes f)"
  by (simp add: local_part_def)

lemma read_entries_written:
  assumes "at + length (local_parts fs) < 0xffffffff" "\<forall>f \<in> set fs. length (stored_name f) < 0x10000 \<and> stored_declared f < 0xffffffff"
  shows "read_entries decode (before @ central_parts at fs @ after) (length before) (length fs) =
    Inr (entries_of decode at fs)"
  using assms
proof (induction fs arbitrary: at before)
  case (Cons f fs)
  let ?c = "central_part f at"
  have "read_entry decode (before @ ?c @ central_parts (at + length (local_part f)) fs @ after) (length before) =
      Inr (entry_of decode f at, length (before @ ?c))"
    using Cons.prems read_entry_written [of at f decode before] by (simp add: local_part_length)
  moreover have "read_entries decode ((before @ ?c) @ central_parts (at + length (local_part f)) fs @ after)
      (length (before @ ?c)) (length fs) = Inr (entries_of decode (at + length (local_part f)) fs)"
    using Cons.prems by (intro Cons.IH) auto
  ultimately show ?case by simp
qed simp

lemma read_zip_of:
  assumes "writable fs"
  shows "readZipEntries decode (zip_of fs) = Inr (entries_of decode 0 fs)"
proof -
  have "read_entries decode (zip_of fs) (length (local_parts fs)) (length fs) = Inr (entries_of decode 0 fs)"
    using assms read_entries_written [of 0 fs decode "local_parts fs"] by (simp add: writable_def zip_of_def)
  then show ?thesis
    using assms by (simp add: readZipEntries_def locate_zip_of writable_def MAX_ARCHIVE_ENTRIES_def)
qed

section \<open>Unpacking what was written\<close>

lemma entryBytes_written:
  assumes "length (stored_name f) < 0x10000"
  shows "entryBytes inflate (before @ local_part f @ after) (entry_of decode f (length before)) = Inr (stored_bytes f)"
proof -
  let ?p = "local_part f"
  let ?a = "before @ ?p @ after"
  have l: "length ?p = 30 + length (stored_name f) + length (stored_bytes f)" by (rule local_part_length)
  have at: "number_at w ?a (length before + k) = le_value (take w (drop k ?p))" if "k + w \<le> 30" for w k
    using that l by (intro number_at_within) simp
  have n: "number_at 4 ?a (length before) = LOCAL_HEADER"
    "number_at 2 ?a (length before + 26) = length (stored_name f)" "number_at 2 ?a (length before + 28) = 0"
    using at [of 0 4] at [of 26 2] at [of 28 2] assms
    by (simp_all add: local_part_def le_value_le_bytes LOCAL_HEADER_def)
  have d: "drop (30 + length (stored_name f)) ?p = stored_bytes f" by (simp add: local_part_def)
  show ?thesis
    using l d by (simp add: entryBytes_def readUInt32_def readUInt16_def n Let_def entry_of_def add.assoc)
qed

definition unpacked :: "(byte list \<Rightarrow> string) \<Rightarrow> string \<Rightarrow> stored_file \<Rightarrow> written_file" where
  "unpacked decode destination f =
     \<lparr>file_path = the (zipEntryTargetPath destination (decode (stored_name f))), file_bytes = stored_bytes f,
      file_executable = stored_executable f\<rparr>"

definition declared_total :: "stored_file list \<Rightarrow> nat" where
  "declared_total fs = sum_list (map stored_declared fs)"

text \<open>A name the archive may carry for a file: it has a target and is no directory.\<close>

definition file_name_ok :: "(byte list \<Rightarrow> string) \<Rightarrow> string \<Rightarrow> stored_file \<Rightarrow> bool" where
  "file_name_ok decode destination f \<longleftrightarrow>
     zipEntryTargetPath destination (decode (stored_name f)) \<noteq> None \<and>
     \<not> ends_as_directory (decode (stored_name f)) \<and> length (stored_name f) < 0x10000"

lemma mode_written:
  "\<not> not_a_file (Some (if x then 0x81ED else 0x81A4))" "executable_mode (Some (if x then 0x81ED else 0x81A4)) = x"
  by (cases x; simp add: not_a_file_def executable_mode_def)+

lemma extract_written:
  assumes "\<forall>f \<in> set fs. file_name_ok decode destination f" "extracted_bytes done + declared_total fs \<le> limit"
  shows "extract_entries inflate (before @ local_parts fs @ after) destination limit
      (entries_of decode (length before) fs) done =
    (Inr (done\<lparr>extracted_files := extracted_files done + length fs,
               extracted_bytes := extracted_bytes done + declared_total fs\<rparr>),
     map (unpacked decode destination) fs)"
  using assms
proof (induction fs arbitrary: before "done")
  case Nil
  then show ?case by (simp add: declared_total_def)
next
  case (Cons f fs)
  let ?done = "done\<lparr>extracted_files := extracted_files done + 1,
    extracted_bytes := extracted_bytes done + stored_declared f\<rparr>"
  let ?e = "entry_of decode f (length before)"
  have ok: "file_name_ok decode destination f" using Cons.prems(1) by simp
  then obtain t where t: "zipEntryTargetPath destination (entry_name ?e) = Some t"
    by (auto simp: file_name_ok_def entry_of_def)
  have b: "entryBytes inflate (before @ local_part f @ local_parts fs @ after) ?e = Inr (stored_bytes f)"
    using ok by (intro entryBytes_written) (simp add: file_name_ok_def)
  have e: "\<not> entry_directory ?e" "\<not> not_a_file (entry_mode ?e)" "uncompressedSize ?e = stored_declared f"
    "executable_mode (entry_mode ?e) = stored_executable f"
    using ok mode_written [of "stored_executable f"] by (simp_all add: entry_of_def file_name_ok_def)
  have fits: "extracted_bytes done + stored_declared f \<le> limit"
    using Cons.prems(2) by (simp add: declared_total_def)
  have u: "unpacked decode destination f = \<lparr>file_path = t, file_bytes = stored_bytes f, file_executable = stored_executable f\<rparr>"
    using t by (simp add: unpacked_def entry_of_def)
  have r: "extract_entries inflate ((before @ local_part f) @ local_parts fs @ after) destination limit
      (entries_of decode (length (before @ local_part f)) fs) ?done =
    (Inr (?done\<lparr>extracted_files := extracted_files ?done + length fs,
               extracted_bytes := extracted_bytes ?done + declared_total fs\<rparr>),
     map (unpacked decode destination) fs)"
    using Cons.prems by (intro Cons.IH) (simp_all add: declared_total_def)
  show ?case
    using r fits by (simp add: t b e u declared_total_def)
qed

end
