(* ===== verification/Zip_Properties.thy ===== *)
theory Zip_Properties
  imports Zip_Writer
begin

text \<open>
  The properties of archive reading: what a hostile archive cannot do, what bounds it is held to and where
  they leak, the wrapper folder, and the round trip with the reference writer.
\<close>

section \<open>Concrete archives\<close>

definition ascii_decode :: "byte list \<Rightarrow> string" where
  "ascii_decode bs = map (\<lambda>b. char_of (unat b)) bs"

text \<open>A stored block inside a deflate stream would be given back; here the decoder copies, held to its limit.\<close>

definition copying_inflate :: "byte list \<Rightarrow> nat \<Rightarrow> byte list option" where
  "copying_inflate raw n = (if length raw \<le> n then Some raw else None)"

definition sample_files :: "stored_file list" where
  "sample_files =
     [\<lparr>stored_name = [97, 47, 98], stored_bytes = [1, 2], stored_declared = 2, stored_executable = False\<rparr>,
      \<lparr>stored_name = [114], stored_bytes = [], stored_declared = 0, stored_executable = True\<rparr>]"

definition understated :: "byte list \<Rightarrow> stored_file" where
  "understated bytes =
     \<lparr>stored_name = [114], stored_bytes = bytes, stored_declared = 0, stored_executable = False\<rparr>"

lemma sample_names:
  "ascii_decode [97, 47, 98] = ''a/b''" "ascii_decode [114] = ''r''"
  by code_simp+

lemma sample_writable: "writable sample_files"
  by (simp add: writable_def sample_files_def local_part_length)


lemma sample_targets:
  "zipEntryTargetPath ''/d'' ''a/b'' = Some ''/d/a/b''" "zipEntryTargetPath ''/d'' ''r'' = Some ''/d/r''"
  by code_simp+

lemma sample_no_directory: "\<not> ends_as_directory ''a/b''" "\<not> ends_as_directory ''r''"
  by code_simp+


lemma understated_writable: "length bytes < 0xffff0000 \<Longrightarrow> writable [understated bytes]"
  by (simp add: writable_def understated_def local_part_length)

lemma understated_ok: "file_name_ok ascii_decode ''/d'' ` set [understated bytes] \<subseteq> {True}"
  by (simp add: understated_def file_name_ok_def sample_names sample_targets sample_no_directory)

lemma written_archive:
  assumes "writable fs" "file_name_ok decode destination ` set fs \<subseteq> {True}" "declared_total fs \<le> limit"
  shows "extractZipArchive decode inflate (zip_of fs) destination (Some limit) =
    (Inr \<lparr>extracted_files = length fs, extracted_skipped = 0, extracted_bytes = declared_total fs\<rparr>,
     map (unpacked decode destination) fs)"
proof -
  have "\<forall>f \<in> set fs. file_name_ok decode destination f" using assms(2) by blast
  then show ?thesis
    using assms(3) read_zip_of [OF assms(1), of decode]
      extract_written [of fs decode destination "\<lparr>extracted_files = 0, extracted_skipped = 0, extracted_bytes = 0\<rparr>"
        limit inflate "[]" "central_parts 0 fs @ end_part (length fs) (length (central_parts 0 fs)) (length (local_parts fs))"]
    by (simp add: extractZipArchive_def zip_of_def)
qed

section \<open>The wrapper folder\<close>

definition segments_of :: "string \<Rightarrow> string list" where
  "segments_of name = name_segments (forward_slashes name)"

definition top_level_file :: "string \<Rightarrow> bool" where
  "top_level_file name \<longleftrightarrow> length (segments_of name) = 1 \<and> \<not> suffix ''/'' (forward_slashes name)"

lemma single_root_given:
  "single_root names (Some r) = Some q \<longleftrightarrow>
     q = r \<and> (\<forall>n \<in> set names. segments_of n = [] \<or> hd (segments_of n) = r \<and> \<not> top_level_file n)"
  by (induction names) (auto simp: Let_def segments_of_def top_level_file_def split: list.splits)

lemma single_root_none:
  "single_root names None = Some r \<longleftrightarrow>
     (\<exists>n \<in> set names. segments_of n \<noteq> []) \<and>
     (\<forall>n \<in> set names. segments_of n = [] \<or> hd (segments_of n) = r \<and> \<not> top_level_file n)"
  by (induction names)
    (auto simp: Let_def segments_of_def top_level_file_def single_root_given split: list.splits)

section \<open>Safety\<close>

text \<open>
  C33 \<open>extractZipArchive\<close>, whatever the bytes: every file it writes, also when it throws midway, lies
  below the destination folder, at a path of plain names (no empty name, no dots, no separator of either
  kind, no NUL).
\<close>

theorem unpacking_stays_inside:
  "file_path ` set (snd (extractZipArchive decode inflate archive destination maxBytes)) \<subseteq>
     {below (folder destination) names | names. list_all plain_name names}"
proof (cases "readZipEntries decode archive")
  case (Inl x)
  then show ?thesis by (simp add: extractZipArchive_def)
next
  case (Inr es)
  let ?limit = "case maxBytes of None \<Rightarrow> MAX_ARCHIVE_EXTRACTED_BYTES | Some m \<Rightarrow> m"
  obtain r ws where x: "extract_entries inflate archive destination ?limit es
      \<lparr>extracted_files = 0, extracted_skipped = 0, extracted_bytes = 0\<rparr> = (r, ws)" by (meson surj_pair)
  obtain used where "list_all2 (comes_from inflate archive destination) used ws"
    using extract_entries_law [OF x] by blast
  then have "\<exists>e. comes_from inflate archive destination e w" if "w \<in> set ws" for w
    using that by (blast dest: list_all2_right)
  then have "file_path w \<in> {below (folder destination) names | names. list_all plain_name names}"
    if "w \<in> set ws" for w
    using that target_below [of destination _ "file_path w"] unfolding comes_from_def by blast
  moreover have "snd (extractZipArchive decode inflate archive destination maxBytes) = ws"
    using x Inr by (simp add: extractZipArchive_def)
  ultimately show ?thesis by (simp only: image_subset_iff) blast
qed

text \<open>
  C35 \<open>extractZipArchive\<close> with a decompressor that honours \<open>maxOutputLength\<close>: at most
  \<open>MAX_ARCHIVE_ENTRIES\<close> files are written, also when it throws midway; each comes from an index entry that
  is neither a directory nor a link or device; the declared sizes of the used entries stay within the limit;
  an inflated file is no longer than declared (or one byte), a stored one no longer than the archive.
\<close>

theorem unpacking_bounded:
  assumes "\<And>raw n out. inflate raw n = Some out \<Longrightarrow> length out \<le> n"
    and "readZipEntries decode archive = Inr es"
  shows "\<exists>used. subseq used es \<and>
    list_all2 (\<lambda>e w. comes_from inflate archive destination e w \<and>
      length (file_bytes w) \<le> (if compressionMethod e = STORED then length archive else max (uncompressedSize e) 1))
      used (snd (extractZipArchive decode inflate archive destination (Some limit))) \<and>
    total_declared used \<le> limit \<and> length used \<le> MAX_ARCHIVE_ENTRIES"
proof -
  obtain r ws where x: "extract_entries inflate archive destination limit es
      \<lparr>extracted_files = 0, extracted_skipped = 0, extracted_bytes = 0\<rparr> = (r, ws)" by (meson surj_pair)
  obtain used where u: "subseq used es" "list_all2 (comes_from inflate archive destination) used ws"
    "used \<noteq> [] \<longrightarrow> total_declared used \<le> limit"
    using extract_entries_law [OF x] by auto
  have b: "length (file_bytes w) \<le> (if compressionMethod e = STORED then length archive else max (uncompressedSize e) 1)"
    if "comes_from inflate archive destination e w" for e w
    using that entryBytes_length [OF _ assms(1)] by (fastforce simp: comes_from_def split: if_splits)
  have "list_all2 (\<lambda>e w. comes_from inflate archive destination e w \<and>
      length (file_bytes w) \<le> (if compressionMethod e = STORED then length archive else max (uncompressedSize e) 1))
      used ws"
    using b by (intro list_all2_mono [OF u(2)]) blast
  moreover have "total_declared used \<le> limit" using u(3) by (cases used) (auto simp: total_declared_def)
  moreover have "length used \<le> MAX_ARCHIVE_ENTRIES"
    using list_emb_length [OF u(1)] readZipEntries_length [OF assms(2)] by linarith
  ultimately show ?thesis using u(1) x assms(2) by (auto simp: extractZipArchive_def)
qed

theorem unpacking_bounded_witness:
  "\<exists>used. subseq used (entries_of ascii_decode 0 sample_files) \<and>
    list_all2 (\<lambda>e w. comes_from copying_inflate (zip_of sample_files) ''/d'' e w \<and>
      length (file_bytes w) \<le> (if compressionMethod e = STORED then length (zip_of sample_files)
        else max (uncompressedSize e) 1))
      used (snd (extractZipArchive ascii_decode copying_inflate (zip_of sample_files) ''/d'' (Some 2))) \<and>
    total_declared used \<le> 2 \<and> length used \<le> MAX_ARCHIVE_ENTRIES"
  using sample_writable
  by (intro unpacking_bounded read_zip_of) (auto simp: copying_inflate_def split: if_splits)

section \<open>Reading back\<close>



text \<open>
  The limit on what an archive unpacks to holds the declared sizes only, though the code says the header
  is not trusted: a stored file of any length whose index entry declares no bytes is written whole even
  when the limit is zero, and no bytes are reported.
\<close>

theorem stored_bytes_escape_limit:
  assumes "length bytes < 0xffff0000"
  shows "extractZipArchive ascii_decode inflate (zip_of [understated bytes]) ''/d'' (Some 0) =
     (Inr \<lparr>extracted_files = 1, extracted_skipped = 0, extracted_bytes = 0\<rparr>,
      [\<lparr>file_path = ''/d/r'', file_bytes = bytes, file_executable = False\<rparr>])"
  using written_archive [OF understated_writable [OF assms] understated_ok, of 0 inflate]
  by (simp add: declared_total_def understated_def unpacked_def sample_names sample_targets)

theorem stored_bytes_escape_limit_witness:
  "extractZipArchive ascii_decode copying_inflate (zip_of [understated [7]]) ''/d'' (Some 0) =
     (Inr \<lparr>extracted_files = 1, extracted_skipped = 0, extracted_bytes = 0\<rparr>,
      [\<lparr>file_path = ''/d/r'', file_bytes = [7], file_executable = False\<rparr>])"
  by (rule stored_bytes_escape_limit) simp

text \<open>
  \<open>singleRootDirectory\<close> names a folder exactly when some entry has a name and every entry with a name
  lies in that folder, none being a file at the top level.
\<close>

theorem wrapper_folder_exact:
  "singleRootDirectory es = Some r \<longleftrightarrow>
     segments_of ` entry_name ` set es - {[]} \<noteq> {} \<and>
     hd ` (segments_of ` entry_name ` set es - {[]}) \<subseteq> {r} \<and>
     Collect top_level_file \<inter> entry_name ` set es = {}"
  unfolding singleRootDirectory_def single_root_none by (auto simp: top_level_file_def)

end
