(* ===== verification/Access_Model.thy ===== *)
theory Access_Model
  imports Path_Names
begin

text \<open>
  Who may do what: the roles, permissions and rows that \<open>authorization.ts\<close> reads, the rules of
  \<open>billing.ts\<close> about what a subscription entitles to, and the reads of \<open>sqlite-store.ts\<close> they go
  through. A table is the list of its rows in the order its queries list them. The clock, the switch for
  payments and \<open>Date.parse\<close> are a \<open>deployment\<close>.
\<close>

section \<open>Roles and permissions\<close>

datatype organization_role = Viewer | Developer | Admin | Owner

definition ROLE_RANK :: "organization_role \<Rightarrow> nat" where
  "ROLE_RANK r = (case r of Viewer \<Rightarrow> 0 | Developer \<Rightarrow> 1 | Admin \<Rightarrow> 2 | Owner \<Rightarrow> 3)"

instantiation organization_role :: linorder
begin

definition less_eq_organization_role :: "organization_role \<Rightarrow> organization_role \<Rightarrow> bool" where
  "less_eq_organization_role r q \<longleftrightarrow> ROLE_RANK r \<le> ROLE_RANK q"

definition less_organization_role :: "organization_role \<Rightarrow> organization_role \<Rightarrow> bool" where
  "less_organization_role r q \<longleftrightarrow> ROLE_RANK r < ROLE_RANK q"

instance
  by standard
    (auto simp: less_eq_organization_role_def less_organization_role_def ROLE_RANK_def
      split: organization_role.splits)

end

instantiation organization_role :: order_bot
begin

definition bot_organization_role :: organization_role where
  "bot_organization_role = Viewer"

instance
  by standard (simp add: bot_organization_role_def less_eq_organization_role_def ROLE_RANK_def)

end

datatype permission =
    View
  | Submit_task
  | Run_task
  | Import_repository
  | Review
  | Manage_project
  | Manage_members
  | Manage_organization

definition permission_name :: "permission \<Rightarrow> string" where
  "permission_name p =
     (case p of
        View \<Rightarrow> ''view''
      | Submit_task \<Rightarrow> ''submit_task''
      | Run_task \<Rightarrow> ''run_task''
      | Import_repository \<Rightarrow> ''import_repository''
      | Review \<Rightarrow> ''review''
      | Manage_project \<Rightarrow> ''manage_project''
      | Manage_members \<Rightarrow> ''manage_members''
      | Manage_organization \<Rightarrow> ''manage_organization'')"

definition ROLE_PERMISSIONS :: "organization_role \<Rightarrow> permission list" where
  "ROLE_PERMISSIONS r =
     (case r of
        Viewer \<Rightarrow> [View]
      | Developer \<Rightarrow> [View, Submit_task, Run_task, Import_repository]
      | Admin \<Rightarrow> [View, Submit_task, Run_task, Import_repository, Review, Manage_project, Manage_members]
      | Owner \<Rightarrow> [View, Submit_task, Run_task, Import_repository, Review, Manage_project, Manage_members,
                  Manage_organization])"

definition ALL_PERMISSIONS :: "permission list" where
  "ALL_PERMISSIONS = ROLE_PERMISSIONS Owner"

definition isPermission :: "string \<Rightarrow> bool" where
  "isPermission value \<longleftrightarrow> value \<in> set (map permission_name ALL_PERMISSIONS)"

definition permissionsForRole :: "organization_role \<Rightarrow> permission list" where
  "permissionsForRole r = filter (\<lambda>p. p \<in> set (ROLE_PERMISSIONS r)) ALL_PERMISSIONS"

definition higherRole :: "organization_role option \<Rightarrow> organization_role option \<Rightarrow> organization_role option" where
  "higherRole left right =
     (case left of
        None \<Rightarrow> right
      | Some l \<Rightarrow> (case right of None \<Rightarrow> left | Some r \<Rightarrow> if ROLE_RANK l \<ge> ROLE_RANK r then left else right))"

definition canAssignRole :: "organization_role \<Rightarrow> organization_role \<Rightarrow> bool" where
  "canAssignRole actor target \<longleftrightarrow> actor = Owner \<or> actor = Admin \<and> target \<noteq> Owner"

section \<open>Rows\<close>

text \<open>Fields that nothing here reads (pictures, policies, display names, times of use) are left out.\<close>

record organization =
  org_id :: string
  org_slug :: string
  org_name :: string
  org_created :: string

record membership =
  member_organization :: string
  member_user :: string
  member_role :: organization_role
  member_comped :: bool
  member_created :: string

record repository_grant =
  grant_repository :: string
  grant_user :: string
  grant_role :: organization_role
  grant_by :: "string option"
  grant_comped :: bool
  grant_created :: string

datatype subscription_status = Comped | Trialing | Active | PastDue | Canceled

record subscription =
  sub_organization :: string
  sub_status :: subscription_status
  trialEndsAt :: "string option"
  currentPeriodEnd :: "string option"
  stripeCustomerId :: "string option"
  stripeSubscriptionId :: "string option"

record project_record =
  project_id :: string
  project_organization :: string
  project_slug :: string
  project_name :: string
  project_archived :: bool

record stored_repository =
  repo_id :: string
  repo_path :: string
  repo_branch :: string
  repo_createdBy :: "string option"

record user_account =
  user_id :: string
  user_email :: string
  user_systemAdmin :: bool
  user_disabled :: bool

datatype invitation_status = InvPending | InvAccepted | InvRevoked | InvExpired

record invitation_record =
  inv_id :: string
  inv_organization :: string
  inv_repository :: "string option"
  inv_email :: string
  inv_role :: organization_role
  inv_secretHash :: string
  inv_by :: string
  inv_comped :: bool
  inv_expires :: int
  inv_accepted :: "string option"
  inv_revoked :: bool

record api_token =
  tok_id :: string
  tok_user :: string
  tok_organization :: "string option"
  tok_name :: string
  tok_secretHash :: string
  tok_scopes :: "string list"
  tok_byToken :: "string option"
  tok_expires :: "int option"
  tok_revoked :: bool

record access_store =
  organization_rows :: "organization list"
  user_rows :: "user_account list"
  membership_rows :: "membership list"
  project_rows :: "project_record list"
  project_repository_rows :: "(string \<times> string) list"
  repository_rows :: "stored_repository list"
  grant_rows :: "repository_grant list"
  subscription_rows :: "subscription list"
  invitation_rows :: "invitation_record list"
  token_rows :: "api_token list"

section \<open>Reads\<close>

definition getOrganization :: "access_store \<Rightarrow> string \<Rightarrow> organization option" where
  "getOrganization s i = find (\<lambda>r. org_id r = i) (organization_rows s)"

definition getProject :: "access_store \<Rightarrow> string \<Rightarrow> project_record option" where
  "getProject s i = find (\<lambda>r. project_id r = i) (project_rows s)"

definition getRepository :: "access_store \<Rightarrow> string \<Rightarrow> stored_repository option" where
  "getRepository s i = find (\<lambda>r. repo_id r = i) (repository_rows s)"

definition getUser :: "access_store \<Rightarrow> string \<Rightarrow> user_account option" where
  "getUser s i = find (\<lambda>r. user_id r = i) (user_rows s)"

text \<open>\<open>COLLATE NOCASE\<close> folds the ASCII letters.\<close>

definition nocase :: "string \<Rightarrow> string" where
  "nocase x = map (\<lambda>c. if 65 \<le> (of_char c :: nat) \<and> (of_char c :: nat) \<le> 90 then char_of ((of_char c :: nat) + 32) else c) x"

definition getUserByEmail :: "access_store \<Rightarrow> string \<Rightarrow> user_account option" where
  "getUserByEmail s email = find (\<lambda>r. nocase (user_email r) = nocase (js_trim email)) (user_rows s)"

definition getSubscription :: "access_store \<Rightarrow> string \<Rightarrow> subscription option" where
  "getSubscription s i = find (\<lambda>r. sub_organization r = i) (subscription_rows s)"

definition getMembership :: "access_store \<Rightarrow> string \<Rightarrow> string \<Rightarrow> membership option" where
  "getMembership s o' u = find (\<lambda>r. member_organization r = o' \<and> member_user r = u) (membership_rows s)"

definition listMemberships :: "access_store \<Rightarrow> string \<Rightarrow> membership list" where
  "listMemberships s o' = filter (\<lambda>r. member_organization r = o') (membership_rows s)"

definition listProjects :: "access_store \<Rightarrow> string \<Rightarrow> project_record list" where
  "listProjects s o' = filter (\<lambda>r. project_organization r = o') (project_rows s)"

definition projectHasRepository :: "access_store \<Rightarrow> string \<Rightarrow> string \<Rightarrow> bool" where
  "projectHasRepository s p r \<longleftrightarrow> (p, r) \<in> set (project_repository_rows s)"

definition listProjectRepositories :: "access_store \<Rightarrow> string \<Rightarrow> stored_repository list" where
  "listProjectRepositories s p = filter (\<lambda>r. projectHasRepository s p (repo_id r)) (repository_rows s)"

definition listGrantsForUser :: "access_store \<Rightarrow> string \<Rightarrow> repository_grant list" where
  "listGrantsForUser s u = filter (\<lambda>g. grant_user g = u) (grant_rows s)"

definition listRepositoryGrants :: "access_store \<Rightarrow> string \<Rightarrow> repository_grant list" where
  "listRepositoryGrants s r = filter (\<lambda>g. grant_repository g = r) (grant_rows s)"

text \<open>\<open>listOrganizations\<close> with a user joins the memberships, of which a user has one per organization.\<close>

definition listOrganizations :: "access_store \<Rightarrow> string option \<Rightarrow> organization list" where
  "listOrganizations s user =
     (case user of
        None \<Rightarrow> organization_rows s
      | Some u \<Rightarrow> filter (\<lambda>x. getMembership s (org_id x) u \<noteq> None) (organization_rows s))"

section \<open>What a subscription entitles to\<close>

record deployment =
  dep_now :: int
  dep_payments :: bool
  dep_parse :: "string \<Rightarrow> int option"

definition paymentsEnabled :: "string option \<Rightarrow> bool" where
  "paymentsEnabled variable =
     (let v = js_lower (js_trim (case variable of None \<Rightarrow> [] | Some x \<Rightarrow> x))
      in v = ''1'' \<or> v = ''true'' \<or> v = ''yes'' \<or> v = ''on'')"

definition TRIAL_DAYS :: int where "TRIAL_DAYS = 14"

definition trialEndsAtFrom :: "(int \<Rightarrow> string) \<Rightarrow> int \<Rightarrow> string" where
  "trialEndsAtFrom render start = render (start + TRIAL_DAYS * 24 * 60 * 60 * 1000)"

definition roleIsBillable :: "organization_role \<Rightarrow> bool" where
  "roleIsBillable r \<longleftrightarrow> r \<in> {Developer, Admin, Owner}"

definition billableSeats :: "membership list \<Rightarrow> repository_grant list \<Rightarrow> nat" where
  "billableSeats ms gs =
     length (remdups
       (map member_user (filter (\<lambda>m. roleIsBillable (member_role m) \<and> \<not> member_comped m) ms) @
        map grant_user (filter (\<lambda>g. roleIsBillable (grant_role g) \<and> \<not> grant_comped g) gs)))"

definition trialRemainsOn :: "deployment \<Rightarrow> subscription \<Rightarrow> bool" where
  "trialRemainsOn d x =
     (case trialEndsAt x of
        None \<Rightarrow> False
      | Some t \<Rightarrow> (case dep_parse d t of None \<Rightarrow> False | Some stop \<Rightarrow> stop > dep_now d))"

definition subscriptionAllowsWork :: "deployment \<Rightarrow> subscription option \<Rightarrow> bool" where
  "subscriptionAllowsWork d subscription =
     (if \<not> dep_payments d then True
      else (case subscription of
              None \<Rightarrow> False
            | Some x \<Rightarrow>
                (case sub_status x of
                   Comped \<Rightarrow> True
                 | Active \<Rightarrow> True
                 | PastDue \<Rightarrow> True
                 | Trialing \<Rightarrow> if stripeSubscriptionId x \<noteq> None then True else trialRemainsOn d x
                 | Canceled \<Rightarrow> False)))"

definition effectiveRole :: "deployment \<Rightarrow> organization_role \<Rightarrow> subscription option \<Rightarrow> organization_role" where
  "effectiveRole d r subscription = (if subscriptionAllowsWork d subscription then r else Viewer)"

end
