(* ===== verification/Authorization.thy ===== *)
theory Authorization
  imports Access_Model
begin

text \<open>
  \<open>services/api-gateway/src/authorization.ts\<close>: what a caller may do in an organization, a project and a
  repository. A caller is who signed in, with the memberships read when they did, and the bearer token
  they used, if any. Refusals are values.
\<close>

record public_user =
  pub_id :: string
  pub_systemAdmin :: bool

record token_principal =
  token_id :: string
  token_scopes :: "string list"
  token_organization :: "string option"

datatype credential_kind = SessionCredential | TokenCredential

record principal =
  p_user :: public_user
  p_credential :: credential_kind
  p_token :: "token_principal option"
  p_memberships :: "membership list"

datatype access_error =
    OrganizationNotFound
  | ProjectNotFound
  | RepositoryNotFound
  | Forbidden
  | TokenOrganizationMismatch
  | TokenScopeMissing
  | ProjectArchived
  | CannotAssignRole
  | LastOwner
  | MembershipNotFound
  | UserNotFound
  | NotAMember
  | GrantNotFound
  | ReachedByMembership
  | RepositoryRequired
  | InvitationNotFound
  | InvitationNot invitation_status
  | InvalidInvitationCode
  | InvalidRole
  | EmailRequired
  | SignInRequired
  | InvitationUsed
  | AccountExists
  | SessionRequired
  | UnknownScope string
  | ScopeExceedsRole
  | ScopeExceedsToken
  | TokenWithoutScopes
  | TokenName
  | TokenLifetime
  | TokenInvalid
  | TokenNotFound

record authorized_organization =
  auth_organization :: organization
  auth_role :: organization_role

record authorized_reach =
  reach_organization :: organization
  reach_role :: organization_role
  reach_repositories :: "string set option"

record authorized_project =
  ap_project :: project_record
  ap_organization :: organization
  ap_role :: organization_role
  ap_repositories :: "string set option"

section \<open>The checks\<close>

definition roleFor :: "principal \<Rightarrow> string \<Rightarrow> organization_role option" where
  "roleFor p organization =
     (if pub_systemAdmin (p_user p) then Some Owner
      else map_option member_role (find (\<lambda>m. member_organization m = organization) (p_memberships p)))"

definition entitledRole ::
  "deployment \<Rightarrow> access_store \<Rightarrow> principal \<Rightarrow> organization \<Rightarrow> organization_role option \<Rightarrow> organization_role option"
where
  "entitledRole d s p organization role' =
     (case role' of
        None \<Rightarrow> None
      | Some r \<Rightarrow>
          if pub_systemAdmin (p_user p) then Some r
          else Some (effectiveRole d r (getSubscription s (org_id organization))))"

definition assertTokenOrganization :: "principal \<Rightarrow> string \<Rightarrow> access_error + unit" where
  "assertTokenOrganization p organization =
     (case p_token p of
        None \<Rightarrow> Inr ()
      | Some t \<Rightarrow>
          (case token_organization t of
             None \<Rightarrow> Inr ()
           | Some bound \<Rightarrow> if bound \<noteq> organization then Inl TokenOrganizationMismatch else Inr ()))"

definition assertTokenScope :: "principal \<Rightarrow> permission \<Rightarrow> access_error + unit" where
  "assertTokenScope p permission =
     (case p_token p of
        None \<Rightarrow> Inr ()
      | Some t \<Rightarrow> if permission_name permission \<notin> set (token_scopes t) then Inl TokenScopeMissing else Inr ())"

definition assertPermission :: "organization_role option \<Rightarrow> permission \<Rightarrow> access_error + organization_role" where
  "assertPermission role' permission =
     (case role' of
        None \<Rightarrow> Inl Forbidden
      | Some r \<Rightarrow> if permission \<notin> set (ROLE_PERMISSIONS r) then Inl Forbidden else Inr r)"

definition found_organization :: "access_store \<Rightarrow> string \<Rightarrow> access_error + organization" where
  "found_organization s i = (case getOrganization s i of None \<Rightarrow> Inl OrganizationNotFound | Some x \<Rightarrow> Inr x)"

definition found_project :: "access_store \<Rightarrow> string \<Rightarrow> access_error + project_record" where
  "found_project s i = (case getProject s i of None \<Rightarrow> Inl ProjectNotFound | Some x \<Rightarrow> Inr x)"

section \<open>An organization\<close>

definition authorizeOrganization ::
  "deployment \<Rightarrow> access_store \<Rightarrow> principal \<Rightarrow> string \<Rightarrow> permission \<Rightarrow> bool \<Rightarrow> access_error + authorized_organization"
where
  "authorizeOrganization d s p organizationId permission ignoreEntitlement =
     res_bind (assertTokenOrganization p organizationId) (\<lambda>_.
     res_bind (found_organization s organizationId) (\<lambda>organization.
       let stored = roleFor p organizationId;
           role' = (if ignoreEntitlement then stored else entitledRole d s p organization stored)
       in res_bind (assertPermission role' permission) (\<lambda>r.
          res_bind (assertTokenScope p permission) (\<lambda>_.
            Inr \<lparr>auth_organization = organization, auth_role = r\<rparr>))))"

text \<open>
  \<open>held\<close> is a \<open>Map\<close> over the grants, in which the last entry of a repository wins.
\<close>

definition held_grant :: "repository_grant list \<Rightarrow> string \<Rightarrow> repository_grant option" where
  "held_grant gs repository = find (\<lambda>g. grant_repository g = repository) (rev gs)"

definition grantsInOrganization :: "access_store \<Rightarrow> principal \<Rightarrow> string \<Rightarrow> repository_grant list" where
  "grantsInOrganization s p organizationId =
     (let gs = listGrantsForUser s (pub_id (p_user p))
      in if gs = [] then []
         else
           List.maps
             (\<lambda>project. List.map_filter (\<lambda>r. held_grant gs (repo_id r)) (listProjectRepositories s (project_id project)))
             (listProjects s organizationId))"

definition grantsInProject :: "access_store \<Rightarrow> principal \<Rightarrow> project_record \<Rightarrow> repository_grant list" where
  "grantsInProject s p project =
     (let gs = listGrantsForUser s (pub_id (p_user p));
          owned = set (map repo_id (listProjectRepositories s (project_id project)))
      in if gs = [] then [] else filter (\<lambda>g. grant_repository g \<in> owned) gs)"

definition highest_grant :: "repository_grant list \<Rightarrow> organization_role option" where
  "highest_grant gs = foldl (\<lambda>highest g. higherRole highest (Some (grant_role g))) None gs"

definition authorizeOrganizationOrGrant ::
  "deployment \<Rightarrow> access_store \<Rightarrow> principal \<Rightarrow> string \<Rightarrow> permission \<Rightarrow> access_error + authorized_reach"
where
  "authorizeOrganizationOrGrant d s p organizationId permission =
     res_bind (assertTokenOrganization p organizationId) (\<lambda>_.
     res_bind (found_organization s organizationId) (\<lambda>organization.
       let grants = grantsInOrganization s p organizationId;
           compedRole = highest_grant (filter grant_comped grants)
       in (case roleFor p organizationId of
             Some stored \<Rightarrow>
               res_bind (assertPermission (higherRole (entitledRole d s p organization (Some stored)) compedRole) permission) (\<lambda>r.
               res_bind (assertTokenScope p permission) (\<lambda>_.
                 Inr \<lparr>reach_organization = organization, reach_role = r, reach_repositories = None\<rparr>))
           | None \<Rightarrow>
               res_bind (assertPermission (higherRole (entitledRole d s p organization (highest_grant grants)) compedRole) permission) (\<lambda>r.
               res_bind (assertTokenScope p permission) (\<lambda>_.
                 Inr \<lparr>reach_organization = organization, reach_role = r,
                      reach_repositories = Some (set (map grant_repository grants))\<rparr>)))))"

datatype refusal_reason = NoStanding | Entitlement | TokenScope

definition explainOrganizationRefusal :: "access_store \<Rightarrow> principal \<Rightarrow> string \<Rightarrow> permission \<Rightarrow> refusal_reason" where
  "explainOrganizationRefusal s p organizationId permission =
     (let stored = higherRole (roleFor p organizationId) (highest_grant (grantsInOrganization s p organizationId))
      in case stored of
           None \<Rightarrow> NoStanding
         | Some r \<Rightarrow>
             if permission \<notin> set (ROLE_PERMISSIONS r) then NoStanding
             else (case p_token p of
                     None \<Rightarrow> Entitlement
                   | Some t \<Rightarrow> if permission_name permission \<notin> set (token_scopes t) then TokenScope else Entitlement))"

section \<open>A project and a repository\<close>

definition authorizeProject ::
  "deployment \<Rightarrow> access_store \<Rightarrow> principal \<Rightarrow> string \<Rightarrow> permission \<Rightarrow> access_error + authorized_project"
where
  "authorizeProject d s p projectId permission =
     res_bind (found_project s projectId) (\<lambda>project.
     res_bind (assertTokenOrganization p (project_organization project)) (\<lambda>_.
     res_bind (found_organization s (project_organization project)) (\<lambda>organization.
       let organizationRole = roleFor p (project_organization project);
           grants = (if organizationRole = None then grantsInProject s p project else []);
           role' = higherRole (entitledRole d s p organization (higherRole organizationRole (highest_grant grants)))
                     (highest_grant (filter grant_comped grants))
       in res_bind (assertPermission role' permission) (\<lambda>r.
          res_bind (assertTokenScope p permission) (\<lambda>_.
            if project_archived project \<and> permission \<noteq> View then Inl ProjectArchived
            else Inr \<lparr>ap_project = project, ap_organization = organization, ap_role = r,
                      ap_repositories =
                        (if organizationRole = None then Some (set (map grant_repository grants)) else None)\<rparr>)))))"

definition authorizeRepository ::
  "deployment \<Rightarrow> access_store \<Rightarrow> principal \<Rightarrow> string \<Rightarrow> string \<Rightarrow> permission \<Rightarrow> access_error + authorized_project"
where
  "authorizeRepository d s p projectId repositoryId permission =
     res_bind (found_project s projectId) (\<lambda>project.
     res_bind (assertTokenOrganization p (project_organization project)) (\<lambda>_.
     res_bind (found_organization s (project_organization project)) (\<lambda>organization.
       let organizationRole = roleFor p (project_organization project);
           grants = (if organizationRole = None then grantsInProject s p project
                     else listGrantsForUser s (pub_id (p_user p)));
           repositoryGrant = find (\<lambda>g. grant_repository g = repositoryId) grants
       in if organizationRole = None \<and> grants = [] then Inl Forbidden
          else if organizationRole = None \<and> repositoryGrant = None then Inl RepositoryNotFound
          else
            (let granted = higherRole organizationRole (map_option grant_role repositoryGrant);
                 role' = (if map_option grant_comped repositoryGrant = Some True then granted
                          else entitledRole d s p organization granted)
             in res_bind (assertPermission role' permission) (\<lambda>r.
                res_bind (assertTokenScope p permission) (\<lambda>_.
                  if project_archived project \<and> permission \<noteq> View then Inl ProjectArchived
                  else Inr \<lparr>ap_project = project, ap_organization = organization, ap_role = r,
                            ap_repositories = (if organizationRole = None then Some {repositoryId} else None)\<rparr>))))))"

end
