(* ===== verification/Access_Requests.thy ===== *)
theory Access_Requests
  imports Authorization
begin

text \<open>
  The requests that change who may do what: members, invitations and tokens of
  \<open>routes/organizations.ts\<close>, accepting an invitation of \<open>routes/public.ts\<close>, repository grants of
  \<open>routes/repositories.ts\<close>, with the checks and walks of \<open>server.ts\<close> and \<open>auth.ts\<close> they go through. A
  request runs to its end before the next one starts; its body arrives with the fields already read.
  Fresh identifiers, secrets and creation times come with the request, \<open>digest\<close> is an argument.
\<close>

section \<open>Callers\<close>

definition membershipsFor :: "access_store \<Rightarrow> user_account \<Rightarrow> membership list" where
  "membershipsFor s u =
     (if \<not> user_systemAdmin u then
        List.map_filter (\<lambda>x. getMembership s (org_id x) (user_id u)) (listOrganizations s (Some (user_id u)))
      else
        map (\<lambda>x. case getMembership s (org_id x) (user_id u) of
                    Some m \<Rightarrow> m
                  | None \<Rightarrow> \<lparr>member_organization = org_id x, member_user = user_id u, member_role = Owner,
                             member_comped = True, member_created = []\<rparr>)
          (listOrganizations s None))"

definition publicUser :: "user_account \<Rightarrow> public_user" where
  "publicUser u = \<lparr>pub_id = user_id u, pub_systemAdmin = user_systemAdmin u\<rparr>"

definition getApiToken :: "access_store \<Rightarrow> string \<Rightarrow> api_token option" where
  "getApiToken s i = find (\<lambda>t. tok_id t = i) (token_rows s)"

definition authenticateToken ::
  "(string \<Rightarrow> string) \<Rightarrow> int \<Rightarrow> access_store \<Rightarrow> string \<Rightarrow> string \<Rightarrow> access_error + principal"
where
  "authenticateToken digest now s i secret =
     (case getApiToken s i of
        None \<Rightarrow> Inl TokenInvalid
      | Some t \<Rightarrow>
          if tok_revoked t \<or> (case tok_expires t of None \<Rightarrow> False | Some e \<Rightarrow> e \<le> now) \<or> digest secret \<noteq> tok_secretHash t
          then Inl TokenInvalid
          else
            (case getUser s (tok_user t) of
               None \<Rightarrow> Inl TokenInvalid
             | Some u \<Rightarrow>
                 if user_disabled u then Inl TokenInvalid
                 else Inr
                   \<lparr>p_user = publicUser u, p_credential = TokenCredential,
                    p_token = Some \<lparr>token_id = tok_id t, token_scopes = tok_scopes t,
                                    token_organization = tok_organization t\<rparr>,
                    p_memberships = membershipsFor s u\<rparr>))"

text \<open>A live session of a user; the sessions themselves are not modelled.\<close>

definition authenticate :: "access_store \<Rightarrow> string \<Rightarrow> access_error + principal" where
  "authenticate s u =
     (case getUser s u of
        None \<Rightarrow> Inl SignInRequired
      | Some a \<Rightarrow>
          if user_disabled a then Inl SignInRequired
          else Inr \<lparr>p_user = publicUser a, p_credential = SessionCredential, p_token = None,
                    p_memberships = membershipsFor s a\<rparr>)"

datatype credential = NoCredential | SessionOf string | BearerToken string string

section \<open>What a caller can reach\<close>

definition some_granted :: "access_store \<Rightarrow> repository_grant list \<Rightarrow> project_record \<Rightarrow> bool" where
  "some_granted s gs project \<longleftrightarrow>
     list_ex (\<lambda>r. repo_id r \<in> set (map grant_repository gs)) (listProjectRepositories s (project_id project))"

definition reachableOrganizations :: "access_store \<Rightarrow> principal \<Rightarrow> organization list" where
  "reachableOrganizations s p =
     (let byMembership = listOrganizations s (Some (pub_id (p_user p)));
          others = filter (\<lambda>x. org_id x \<notin> set (map org_id byMembership)) (listOrganizations s None);
          grants = listGrantsForUser s (pub_id (p_user p))
      in if pub_systemAdmin (p_user p) then byMembership @ others
         else if grants = [] then byMembership
         else byMembership @ filter (\<lambda>x. list_ex (some_granted s grants) (listProjects s (org_id x))) others)"

definition reachableProjects :: "access_store \<Rightarrow> principal \<Rightarrow> string \<Rightarrow> bool \<Rightarrow> project_record list" where
  "reachableProjects s p organizationId hasOrganizationRole =
     (if hasOrganizationRole \<or> pub_systemAdmin (p_user p) then listProjects s organizationId
      else filter (some_granted s (listGrantsForUser s (pub_id (p_user p)))) (listProjects s organizationId))"

definition visible_in_project :: "deployment \<Rightarrow> access_store \<Rightarrow> principal \<Rightarrow> project_record \<Rightarrow> (string \<times> stored_repository) list" where
  "visible_in_project d s p project =
     (case authorizeProject d s p (project_id project) View of
        Inl _ \<Rightarrow> []
      | Inr a \<Rightarrow>
          map (Pair (project_id project))
            (case ap_repositories a of
               None \<Rightarrow> listProjectRepositories s (project_id project)
             | Some rs \<Rightarrow> filter (\<lambda>r. repo_id r \<in> rs) (listProjectRepositories s (project_id project))))"

definition mcpReachable :: "deployment \<Rightarrow> access_store \<Rightarrow> principal \<Rightarrow> (string \<times> stored_repository) list" where
  "mcpReachable d s p =
     List.maps (\<lambda>x. List.maps (visible_in_project d s p) (listProjects s (org_id x))) (reachableOrganizations s p)"

definition found_in_project :: "access_store \<Rightarrow> string \<Rightarrow> string \<Rightarrow> access_error + stored_repository" where
  "found_in_project s projectId repositoryId =
     (if \<not> projectHasRepository s projectId repositoryId then Inl RepositoryNotFound
      else (case getRepository s repositoryId of None \<Rightarrow> Inl RepositoryNotFound | Some r \<Rightarrow> Inr r))"

definition authorizeRepositoryOwnerAction ::
  "deployment \<Rightarrow> access_store \<Rightarrow> principal \<Rightarrow> string \<Rightarrow> string \<Rightarrow> permission \<Rightarrow> access_error + stored_repository"
where
  "authorizeRepositoryOwnerAction d s p projectId repositoryId permission =
     (case authorizeRepository d s p projectId repositoryId permission of
        Inl problem \<Rightarrow>
          if problem \<noteq> Forbidden then Inl problem
          else
            res_bind (authorizeRepository d s p projectId repositoryId View) (\<lambda>_.
              case (if projectHasRepository s projectId repositoryId then getRepository s repositoryId else None) of
                None \<Rightarrow> Inl Forbidden
              | Some r \<Rightarrow>
                  if repo_createdBy r \<noteq> Some (pub_id (p_user p)) then Inl Forbidden
                  else res_bind (assertTokenScope p permission) (\<lambda>_. Inr r))
      | Inr _ \<Rightarrow> found_in_project s projectId repositoryId)"

definition authorizeRepositoryDeletion ::
  "deployment \<Rightarrow> access_store \<Rightarrow> principal \<Rightarrow> string \<Rightarrow> string \<Rightarrow> access_error + stored_repository"
where
  "authorizeRepositoryDeletion d s p projectId repositoryId =
     res_bind (authorizeRepository d s p projectId repositoryId Manage_project) (\<lambda>a.
       if ap_role a \<noteq> Owner then Inl Forbidden else found_in_project s projectId repositoryId)"

section \<open>Members\<close>

definition ROLES :: "(string \<times> organization_role) list" where
  "ROLES = [(''owner'', Owner), (''admin'', Admin), (''developer'', Developer), (''viewer'', Viewer)]"

definition role_field :: "string option \<Rightarrow> access_error + organization_role" where
  "role_field value =
     (case value of
        None \<Rightarrow> Inl InvalidRole
      | Some v \<Rightarrow> (case map_of ROLES v of None \<Rightarrow> Inl InvalidRole | Some r \<Rightarrow> Inr r))"

definition is_member :: "string \<Rightarrow> string \<Rightarrow> membership \<Rightarrow> bool" where
  "is_member o' u m \<longleftrightarrow> member_organization m = o' \<and> member_user m = u"

definition saveMembership :: "string \<Rightarrow> string \<Rightarrow> organization_role \<Rightarrow> string \<Rightarrow> access_store \<Rightarrow> access_store" where
  "saveMembership o' u r stamp s =
     s\<lparr>membership_rows :=
         (if list_ex (is_member o' u) (membership_rows s)
          then map (\<lambda>m. if is_member o' u m then m\<lparr>member_role := r\<rparr> else m) (membership_rows s)
          else membership_rows s @
            [\<lparr>member_organization = o', member_user = u, member_role = r, member_comped = False, member_created = stamp\<rparr>])\<rparr>"

definition removeMembership :: "string \<Rightarrow> string \<Rightarrow> access_store \<Rightarrow> access_store" where
  "removeMembership o' u s = s\<lparr>membership_rows := filter (\<lambda>m. \<not> is_member o' u m) (membership_rows s)\<rparr>"

definition owners_of :: "access_store \<Rightarrow> string \<Rightarrow> membership list" where
  "owners_of s o' = filter (\<lambda>m. member_role m = Owner) (listMemberships s o')"

definition named_user :: "access_store \<Rightarrow> string option \<Rightarrow> string option \<Rightarrow> user_account option" where
  "named_user s userId email =
     (case userId of
        None \<Rightarrow> (case email of None \<Rightarrow> None | Some e \<Rightarrow> getUserByEmail s e)
      | Some i \<Rightarrow> getUser s i)"

definition post_member ::
  "deployment \<Rightarrow> access_store \<Rightarrow> principal \<Rightarrow> string \<Rightarrow> string option \<Rightarrow> string option \<Rightarrow> string option \<Rightarrow> string
   \<Rightarrow> access_error + access_store"
where
  "post_member d s p organizationId role' userId email stamp =
     res_bind (authorizeOrganization d s p organizationId Manage_members False) (\<lambda>authorized.
     res_bind (role_field role') (\<lambda>r.
       if \<not> canAssignRole (auth_role authorized) r then Inl CannotAssignRole
       else
         (case named_user s userId email of
            None \<Rightarrow> Inl UserNotFound
          | Some u \<Rightarrow> Inr (saveMembership organizationId (user_id u) r stamp s))))"

definition patch_member ::
  "deployment \<Rightarrow> access_store \<Rightarrow> principal \<Rightarrow> string \<Rightarrow> string option \<Rightarrow> string \<Rightarrow> access_error + access_store"
where
  "patch_member d s p organizationId role' u =
     res_bind (authorizeOrganization d s p organizationId Manage_members False) (\<lambda>authorized.
       case getMembership s organizationId u of
         None \<Rightarrow> Inl MembershipNotFound
       | Some current \<Rightarrow>
           res_bind (role_field role') (\<lambda>r.
             if \<not> canAssignRole (auth_role authorized) r then Inl CannotAssignRole
             else if member_role current = Owner \<and> r \<noteq> Owner \<and> length (owners_of s organizationId) \<le> 1 then Inl LastOwner
             else Inr (saveMembership organizationId u r [] s)))"

definition delete_member ::
  "deployment \<Rightarrow> access_store \<Rightarrow> principal \<Rightarrow> string \<Rightarrow> string \<Rightarrow> access_error + access_store"
where
  "delete_member d s p organizationId u =
     res_bind (authorizeOrganization d s p organizationId Manage_members False) (\<lambda>authorized.
       case getMembership s organizationId u of
         None \<Rightarrow> Inl MembershipNotFound
       | Some current \<Rightarrow>
           if member_role current = Owner \<and> length (owners_of s organizationId) \<le> 1 then Inl LastOwner
           else Inr (removeMembership organizationId u s))"

section \<open>Grants\<close>

definition is_grant :: "string \<Rightarrow> string \<Rightarrow> repository_grant \<Rightarrow> bool" where
  "is_grant r u g \<longleftrightarrow> grant_repository g = r \<and> grant_user g = u"

definition saveRepositoryGrant :: "repository_grant \<Rightarrow> access_store \<Rightarrow> access_store" where
  "saveRepositoryGrant new s =
     s\<lparr>grant_rows :=
         (if list_ex (is_grant (grant_repository new) (grant_user new)) (grant_rows s)
          then map (\<lambda>g. if is_grant (grant_repository new) (grant_user new) g
                        then g\<lparr>grant_role := grant_role new, grant_comped := grant_comped new\<rparr> else g) (grant_rows s)
          else grant_rows s @ [new])\<rparr>"

definition removeRepositoryGrant :: "string \<Rightarrow> string \<Rightarrow> access_store \<Rightarrow> access_store" where
  "removeRepositoryGrant r u s = s\<lparr>grant_rows := filter (\<lambda>g. \<not> is_grant r u g) (grant_rows s)\<rparr>"

definition post_grant ::
  "deployment \<Rightarrow> access_store \<Rightarrow> principal \<Rightarrow> string \<Rightarrow> string \<Rightarrow> string \<Rightarrow> string option \<Rightarrow> string
   \<Rightarrow> access_error + access_store"
where
  "post_grant d s p projectId repositoryId u role' stamp =
     res_bind (authorizeRepositoryOwnerAction d s p projectId repositoryId Manage_members) (\<lambda>_.
     res_bind (role_field role') (\<lambda>r.
       if getUser s u = None then Inl UserNotFound
       else
         (let membership = (case getProject s projectId of
                              None \<Rightarrow> None | Some project \<Rightarrow> getMembership s (project_organization project) u)
          in if membership = None \<and> \<not> list_ex (\<lambda>g. grant_user g = u) (listRepositoryGrants s repositoryId)
             then Inl NotAMember
             else Inr (saveRepositoryGrant
               \<lparr>grant_repository = repositoryId, grant_user = u, grant_role = r,
                grant_by = Some (pub_id (p_user p)), grant_comped = False, grant_created = stamp\<rparr> s))))"

definition delete_grant ::
  "deployment \<Rightarrow> access_store \<Rightarrow> principal \<Rightarrow> string \<Rightarrow> string \<Rightarrow> string \<Rightarrow> access_error + access_store"
where
  "delete_grant d s p projectId repositoryId u =
     (let existing = find (\<lambda>g. grant_user g = u) (listRepositoryGrants s repositoryId)
      in if u = pub_id (p_user p) then
           res_bind (authorizeRepository d s p projectId repositoryId View) (\<lambda>authorized.
             if \<not> projectHasRepository s projectId repositoryId then Inl RepositoryNotFound
             else if ap_repositories authorized = None then Inl ReachedByMembership
             else if existing = None then Inl GrantNotFound
             else Inr (removeRepositoryGrant repositoryId u s))
         else
           res_bind (authorizeRepositoryOwnerAction d s p projectId repositoryId Manage_members) (\<lambda>_.
             if existing = None then Inl GrantNotFound else Inr (removeRepositoryGrant repositoryId u s)))"

end
