(* ===== verification/Access_Links.thy ===== *)
theory Access_Links
  imports Access_Requests
begin

text \<open>
  Invitations and API tokens, the two things that carry access away from the person who gave it, and the
  whole of the requests as one function \<open>serve\<close> from tables to tables.
\<close>

section \<open>Invitations\<close>

text \<open>\<open>toUpperCase\<close> up to the characters it leaves outside ASCII, which the pattern of a code refuses.\<close>

definition upper_char :: "char \<Rightarrow> string" where
  "upper_char c =
     (let n = (of_char c :: nat)
      in if 97 \<le> n \<and> n \<le> 122 \<or> 224 \<le> n \<and> n \<le> 254 \<and> n \<noteq> 247 then [char_of (n - 32)]
         else if n = 223 then ''SS'' else [c])"

fun dashes :: "string \<Rightarrow> string" where
  "dashes [] = []"
| "dashes [c] = (if is_js_space c then ''-'' else [c])"
| "dashes (c # d # cs) =
     (if \<not> is_js_space c then c # dashes (d # cs)
      else if is_js_space d then dashes (d # cs) else CHR ''-'' # dashes (d # cs))"

definition code_char :: "char \<Rightarrow> bool" where
  "code_char c \<longleftrightarrow>
     (65 \<le> (of_char c :: nat) \<and> (of_char c :: nat) \<le> 90) \<or> (48 \<le> (of_char c :: nat) \<and> (of_char c :: nat) \<le> 57)"

definition normalizeInvitationCode :: "string \<Rightarrow> string option" where
  "normalizeInvitationCode value =
     (let code = dashes (concat (map upper_char (js_trim value)))
      in if code = [] \<or> length code > 48 \<or>
            \<not> list_all (\<lambda>part. part \<noteq> [] \<and> list_all code_char part) (split_on CHR ''-'' code)
         then None else Some code)"

definition invitationIdForCode :: "(string \<Rightarrow> string) \<Rightarrow> string \<Rightarrow> string" where
  "invitationIdForCode digest code = ''inv_code_'' @ digest code"

definition INVITATION_TTL_MS :: int where "INVITATION_TTL_MS = 7 * 24 * 60 * 60 * 1000"

definition getInvitation :: "access_store \<Rightarrow> string \<Rightarrow> invitation_record option" where
  "getInvitation s i = find (\<lambda>r. inv_id r = i) (invitation_rows s)"

record invitation_body =
  ib_email :: "string option"
  ib_recipient :: "string option"
  ib_role :: "string option"
  ib_project :: "string option"
  ib_repository :: "string option"

definition post_invitation ::
  "deployment \<Rightarrow> (string \<Rightarrow> string) \<Rightarrow> access_store \<Rightarrow> principal \<Rightarrow> string \<Rightarrow> invitation_body \<Rightarrow> string \<Rightarrow> string
   \<Rightarrow> access_error + access_store"
where
  "post_invitation d digest s p organizationId body i random =
     res_bind (authorizeOrganization d s p organizationId Manage_members False) (\<lambda>authorized.
       let code = Option.bind (ib_recipient body) normalizeInvitationCode
       in if ib_recipient body \<noteq> None \<and> code = None then Inl InvalidInvitationCode
          else
            res_bind (role_field (ib_role body)) (\<lambda>r.
              if \<not> canAssignRole (auth_role authorized) r then Inl CannotAssignRole
              else
                (case ib_repository body of
                   None \<Rightarrow> Inl RepositoryRequired
                 | Some repositoryId \<Rightarrow>
                     if repositoryId = [] then Inl RepositoryRequired
                     else
                       res_bind (authorizeRepository d s p (case ib_project body of None \<Rightarrow> [] | Some x \<Rightarrow> x)
                                   repositoryId Manage_members) (\<lambda>invited.
                         if project_organization (ap_project invited) \<noteq> organizationId then Inl RepositoryNotFound
                         else Inr (s\<lparr>invitation_rows := invitation_rows s @
                           [\<lparr>inv_id = i, inv_organization = organizationId, inv_repository = Some repositoryId,
                             inv_email = (case ib_email body of None \<Rightarrow> [] | Some e \<Rightarrow> e), inv_role = r,
                             inv_secretHash = digest (case code of None \<Rightarrow> random | Some c \<Rightarrow> c),
                             inv_by = pub_id (p_user p), inv_comped = pub_systemAdmin (p_user p),
                             inv_expires = dep_now d + INVITATION_TTL_MS, inv_accepted = None, inv_revoked = False\<rparr>]\<rparr>)))))"

definition revokeInvitation :: "string \<Rightarrow> access_store \<Rightarrow> access_store" where
  "revokeInvitation i s = s\<lparr>invitation_rows :=
     map (\<lambda>r. if inv_id r = i \<and> \<not> inv_revoked r then r\<lparr>inv_revoked := True\<rparr> else r) (invitation_rows s)\<rparr>"

definition delete_invitation ::
  "deployment \<Rightarrow> access_store \<Rightarrow> principal \<Rightarrow> string \<Rightarrow> string \<Rightarrow> access_error + access_store"
where
  "delete_invitation d s p organizationId i =
     res_bind (authorizeOrganization d s p organizationId Manage_members False) (\<lambda>_.
       if map_option inv_organization (getInvitation s i) \<noteq> Some organizationId then Inl InvitationNotFound
       else Inr (revokeInvitation i s))"

definition invitation_state :: "int \<Rightarrow> invitation_record \<Rightarrow> invitation_status" where
  "invitation_state now r =
     (if inv_revoked r then InvRevoked
      else if inv_accepted r \<noteq> None then InvAccepted
      else if inv_expires r < now then InvExpired else InvPending)"

text \<open>The id and the secret of a token: one with no dot is a code.\<close>

definition index_of :: "char \<Rightarrow> string \<Rightarrow> nat option" where
  "index_of c t = (let n = length (takeWhile (\<lambda>x. x \<noteq> c) t) in if n = length t then None else Some n)"

definition invitation_of :: "(string \<Rightarrow> string) \<Rightarrow> access_store \<Rightarrow> string \<Rightarrow> access_error + invitation_record" where
  "invitation_of digest s t =
     (let code = (case index_of CHR ''.'' t of None \<Rightarrow> normalizeInvitationCode t | Some _ \<Rightarrow> None);
          cut = (case index_of CHR ''.'' t of None \<Rightarrow> 0 | Some n \<Rightarrow> n);
          i = (case code of
                 Some c \<Rightarrow> Some (invitationIdForCode digest c)
               | None \<Rightarrow> if cut > 0 then Some (take cut t) else None);
          secret = (case code of Some c \<Rightarrow> c | None \<Rightarrow> if cut > 0 then drop (cut + 1) t else [])
      in case Option.bind i (getInvitation s) of
           None \<Rightarrow> Inl InvitationNotFound
         | Some r \<Rightarrow> if digest secret \<noteq> inv_secretHash r then Inl InvitationNotFound else Inr r)"

definition acceptInvitation :: "string \<Rightarrow> string \<Rightarrow> access_store \<Rightarrow> bool \<times> access_store" where
  "acceptInvitation i u s =
     (list_ex (\<lambda>r. inv_id r = i \<and> inv_accepted r = None \<and> \<not> inv_revoked r) (invitation_rows s),
      s\<lparr>invitation_rows :=
         map (\<lambda>r. if inv_id r = i \<and> inv_accepted r = None \<and> \<not> inv_revoked r then r\<lparr>inv_accepted := Some u\<rparr> else r)
           (invitation_rows s)\<rparr>)"

definition createUser :: "string \<Rightarrow> string \<Rightarrow> access_store \<Rightarrow> user_account \<times> access_store" where
  "createUser i email s =
     (let u = \<lparr>user_id = i, user_email = js_lower (js_trim email), user_systemAdmin = False, user_disabled = False\<rparr>
      in (u, s\<lparr>user_rows := user_rows s @ [u]\<rparr>))"

text \<open>Whose account takes the invitation, and the tables with it, should it be new.\<close>

definition accepting_user ::
  "access_store \<Rightarrow> principal option \<Rightarrow> invitation_record \<Rightarrow> string option \<Rightarrow> string
   \<Rightarrow> access_error + user_account \<times> access_store"
where
  "accepting_user s signedIn invitation email fresh =
     (if inv_email invitation = [] then
        (case signedIn of
           Some p \<Rightarrow> (case getUser s (pub_id (p_user p)) of None \<Rightarrow> Inl SignInRequired | Some u \<Rightarrow> Inr (u, s))
         | None \<Rightarrow>
             (case email of
                None \<Rightarrow> Inl EmailRequired
              | Some e \<Rightarrow> if getUserByEmail s e \<noteq> None then Inl AccountExists else Inr (createUser fresh e s)))
      else
        (case getUserByEmail s (inv_email invitation) of
           None \<Rightarrow> Inr (createUser fresh (inv_email invitation) s)
         | Some u \<Rightarrow>
             if map_option (\<lambda>p. pub_id (p_user p)) signedIn \<noteq> Some (user_id u) then Inl AccountExists
             else Inr (u, s)))"

definition admit_user :: "invitation_record \<Rightarrow> user_account \<Rightarrow> string \<Rightarrow> access_store \<Rightarrow> access_store" where
  "admit_user invitation u stamp s =
     (case inv_repository invitation of
        None \<Rightarrow> saveMembership (inv_organization invitation) (user_id u) (inv_role invitation) stamp s
      | Some r \<Rightarrow>
          saveRepositoryGrant
            \<lparr>grant_repository = r, grant_user = user_id u, grant_role = inv_role invitation,
             grant_by = Some (inv_by invitation), grant_comped = inv_comped invitation, grant_created = stamp\<rparr> s)"

text \<open>The account stays when the claim fails after it was created.\<close>

definition accept_invitation ::
  "deployment \<Rightarrow> (string \<Rightarrow> string) \<Rightarrow> access_store \<Rightarrow> principal option \<Rightarrow> string \<Rightarrow> string option \<Rightarrow> string \<Rightarrow> string
   \<Rightarrow> (access_error + unit) \<times> access_store"
where
  "accept_invitation d digest s signedIn t email fresh stamp =
     (case invitation_of digest s t of
        Inl problem \<Rightarrow> (Inl problem, s)
      | Inr invitation \<Rightarrow>
          if invitation_state (dep_now d) invitation \<noteq> InvPending
          then (Inl (InvitationNot (invitation_state (dep_now d) invitation)), s)
          else
            (case accepting_user s signedIn invitation email fresh of
               Inl problem \<Rightarrow> (Inl problem, s)
             | Inr (u, s1) \<Rightarrow>
                 (let (claimed, s2) = (if inv_email invitation = [] then (True, s1)
                                       else acceptInvitation (inv_id invitation) (user_id u) s1)
                  in if \<not> claimed then (Inl InvitationUsed, s2)
                     else (Inr (), admit_user invitation u stamp s2))))"

section \<open>Tokens\<close>

record token_body =
  tb_scopes :: "string list"
  tb_organization :: "string option"
  tb_name :: string
  tb_days :: "int option"

definition grantable_scopes ::
  "deployment \<Rightarrow> access_store \<Rightarrow> principal \<Rightarrow> string option \<Rightarrow> access_error + string set"
where
  "grantable_scopes d s p organizationId =
     (if pub_systemAdmin (p_user p) \<and> organizationId = None then Inr (set (map permission_name ALL_PERMISSIONS))
      else
        (case organizationId of
           Some o' \<Rightarrow>
             res_bind (authorizeOrganization d s p o' View False) (\<lambda>a.
               Inr (set (map permission_name (permissionsForRole (auth_role a)))))
         | None \<Rightarrow>
             Inr (set (map permission_name
               (List.maps (\<lambda>m. permissionsForRole (member_role m)) (p_memberships p) @
                List.maps (\<lambda>g. permissionsForRole (grant_role g)) (listGrantsForUser s (pub_id (p_user p))))))))"

definition token_lifetime :: "int option \<Rightarrow> int \<Rightarrow> access_error + int" where
  "token_lifetime days usual =
     (let n = (case days of None \<Rightarrow> usual | Some k \<Rightarrow> k)
      in if n \<noteq> 0 \<and> (\<not> is_safe_integer n \<or> n < 1 \<or> n > 365) then Inl TokenLifetime else Inr n)"

text \<open>\<open>[...new Set(xs)]\<close>: the first of equals stays.\<close>

definition unique_scopes :: "string list \<Rightarrow> string list" where
  "unique_scopes xs = rev (remdups (rev xs))"

definition issueApiToken ::
  "deployment \<Rightarrow> (string \<Rightarrow> string) \<Rightarrow> int \<Rightarrow> access_store \<Rightarrow> user_account \<Rightarrow> token_body \<Rightarrow> string option \<Rightarrow> string \<Rightarrow> string
   \<Rightarrow> access_error + access_store"
where
  "issueApiToken d digest usual s u body parent i secret =
     (let name = js_trim (tb_name body)
      in if name = [] \<or> length name > 120 then Inl TokenName
         else if tb_scopes body = [] then Inl TokenWithoutScopes
         else
           res_bind (token_lifetime (tb_days body) usual) (\<lambda>days.
             if getUser s (user_id u) = None then Inl UserNotFound
             else if (case tb_organization body of None \<Rightarrow> False | Some x \<Rightarrow> getOrganization s x = None)
             then Inl OrganizationNotFound
             else Inr (s\<lparr>token_rows := token_rows s @
               [\<lparr>tok_id = i, tok_user = user_id u, tok_organization = tb_organization body, tok_name = name,
                 tok_secretHash = digest secret, tok_scopes = unique_scopes (tb_scopes body), tok_byToken = parent,
                 tok_expires = (if days = 0 then None else Some (dep_now d + days * 24 * 60 * 60 * 1000)),
                 tok_revoked = False\<rparr>]\<rparr>)))"

definition post_token ::
  "deployment \<Rightarrow> (string \<Rightarrow> string) \<Rightarrow> int \<Rightarrow> access_store \<Rightarrow> principal \<Rightarrow> token_body \<Rightarrow> string \<Rightarrow> string
   \<Rightarrow> access_error + access_store"
where
  "post_token d digest usual s p body i secret =
     (let parent = (if p_credential p = TokenCredential then p_token p else None)
      in if p_credential p \<noteq> SessionCredential \<and> parent = None then Inl SessionRequired
         else
           (case find (\<lambda>x. \<not> isPermission x) (tb_scopes body) of
              Some x \<Rightarrow> Inl (UnknownScope x)
            | None \<Rightarrow>
                res_bind (grantable_scopes d s p (tb_organization body)) (\<lambda>allowed.
                  if \<not> set (tb_scopes body) \<subseteq> allowed then Inl ScopeExceedsRole
                  else
                    res_bind
                      (case parent of
                         None \<Rightarrow> Inr ()
                       | Some t \<Rightarrow>
                           if Option.bind (getApiToken s (token_id t)) tok_byToken \<noteq> None then Inl SessionRequired
                           else if \<not> set (tb_scopes body) \<subseteq> set (token_scopes t) then Inl ScopeExceedsToken
                           else Inr ())
                      (\<lambda>_.
                        if (case tb_days body of None \<Rightarrow> False | Some k \<Rightarrow> \<not> is_safe_integer k) then Inl TokenLifetime
                        else
                          (case getUser s (pub_id (p_user p)) of
                             None \<Rightarrow> Inl UserNotFound
                           | Some u \<Rightarrow> issueApiToken d digest usual s u body (map_option token_id parent) i secret)))))"

definition revokeApiToken :: "string \<Rightarrow> access_store \<Rightarrow> access_store" where
  "revokeApiToken i s = s\<lparr>token_rows :=
     map (\<lambda>x. if (tok_id x = i \<or> tok_byToken x = Some i) \<and> \<not> tok_revoked x then x\<lparr>tok_revoked := True\<rparr> else x)
       (token_rows s)\<rparr>"

definition delete_token :: "access_store \<Rightarrow> principal \<Rightarrow> string \<Rightarrow> access_error + access_store" where
  "delete_token s p i =
     (case getApiToken s i of
        None \<Rightarrow> Inl TokenNotFound
      | Some t \<Rightarrow>
          if tok_user t \<noteq> pub_id (p_user p) \<and> \<not> pub_systemAdmin (p_user p) then Inl TokenNotFound
          else Inr (revokeApiToken i s))"

section \<open>Serving a request\<close>

datatype access_request =
    PostMember string "string option" "string option" "string option" string
  | PatchMember string "string option" string
  | DeleteMember string string
  | PostGrant string string string "string option" string
  | DeleteGrant string string string
  | PostInvitation string invitation_body string string
  | DeleteInvitation string string
  | AcceptInvitation string "string option" string string
  | PostToken token_body string string
  | DeleteToken string

definition authenticated ::
  "deployment \<Rightarrow> (string \<Rightarrow> string) \<Rightarrow> access_store \<Rightarrow> credential \<Rightarrow> access_error + principal" where
  "authenticated d digest s c =
     (case c of
        NoCredential \<Rightarrow> Inl SignInRequired
      | SessionOf u \<Rightarrow> authenticate s u
      | BearerToken i secret \<Rightarrow> authenticateToken digest (dep_now d) s i secret)"

definition handle_request ::
  "deployment \<Rightarrow> (string \<Rightarrow> string) \<Rightarrow> int \<Rightarrow> access_store \<Rightarrow> principal \<Rightarrow> access_request \<Rightarrow> access_error + access_store"
where
  "handle_request d digest usual s p q =
     (case q of
        PostMember o' r i e stamp \<Rightarrow> post_member d s p o' r i e stamp
      | PatchMember o' r u \<Rightarrow> patch_member d s p o' r u
      | DeleteMember o' u \<Rightarrow> delete_member d s p o' u
      | PostGrant j r u role' stamp \<Rightarrow> post_grant d s p j r u role' stamp
      | DeleteGrant j r u \<Rightarrow> delete_grant d s p j r u
      | PostInvitation o' body i secret \<Rightarrow> post_invitation d digest s p o' body i secret
      | DeleteInvitation o' i \<Rightarrow> delete_invitation d s p o' i
      | AcceptInvitation t e i stamp \<Rightarrow> Inl SignInRequired
      | PostToken body i secret \<Rightarrow> post_token d digest usual s p body i secret
      | DeleteToken i \<Rightarrow> delete_token s p i)"

text \<open>Accepting looks for a session only, and needs none.\<close>

definition serve ::
  "deployment \<Rightarrow> (string \<Rightarrow> string) \<Rightarrow> int \<Rightarrow> access_store \<Rightarrow> credential \<Rightarrow> access_request
   \<Rightarrow> (access_error + unit) \<times> access_store"
where
  "serve d digest usual s c q =
     (case q of
        AcceptInvitation t e i stamp \<Rightarrow>
          accept_invitation d digest s
            (case c of SessionOf u \<Rightarrow> (case authenticate s u of Inl _ \<Rightarrow> None | Inr p \<Rightarrow> Some p) | _ \<Rightarrow> None) t e i stamp
      | _ \<Rightarrow>
          (case res_bind (authenticated d digest s c) (\<lambda>p. handle_request d digest usual s p q) of
             Inl problem \<Rightarrow> (Inl problem, s)
           | Inr s' \<Rightarrow> (Inr (), s')))"

end
