(* ===== verification/Access_Laws.thy ===== *)
theory Access_Laws
  imports Access_Links
begin

text \<open>
  The laws of the access checks: roles as a chain, what the highest grant is, when each check passes, and
  the contract the four authorizing functions share.
\<close>

section \<open>Roles\<close>

lemmas role_order = less_eq_organization_role_def less_organization_role_def ROLE_RANK_def

lemma higherRole_simps [simp]:
  "higherRole None r = r" "higherRole r None = r" "higherRole (Some a) (Some b) = Some (max a b)"
proof -
  show "higherRole None r = r" "higherRole r None = r" by (simp_all add: higherRole_def split: option.splits)
  show "higherRole (Some a) (Some b) = Some (max a b)"
    by (cases a; cases b; simp add: higherRole_def max_def role_order)
qed

lemma permissions_mono: "a \<le> b \<Longrightarrow> set (ROLE_PERMISSIONS a) \<subseteq> set (ROLE_PERMISSIONS b)"
  by (cases a; cases b; simp add: role_order ROLE_PERMISSIONS_def)

lemma view_for_all [simp]: "View \<in> set (ROLE_PERMISSIONS r)"
  by (cases r; simp add: ROLE_PERMISSIONS_def)

lemma viewer_permissions [simp]: "set (ROLE_PERMISSIONS Viewer) = {View}"
  by (simp add: ROLE_PERMISSIONS_def)

lemma viewer_least [simp]: "Viewer \<le> r" "max Viewer r = r" "max r Viewer = r"
  by (cases r; simp add: role_order max_def)+

lemma owner_greatest [simp]: "r \<le> Owner" "Owner \<le> r \<longleftrightarrow> r = Owner" "max r Owner = Owner" "max Owner r = Owner"
  by (cases r; simp add: role_order max_def)+

lemma permission_of_max: "q \<in> set (ROLE_PERMISSIONS (max a b)) \<longleftrightarrow> q \<in> set (ROLE_PERMISSIONS a) \<or> q \<in> set (ROLE_PERMISSIONS b)"
  using permissions_mono [of a b] permissions_mono [of b a] linear [of a b] by (cases "a \<le> b") (auto simp: max_def)

lemma permission_name_inject [simp]: "permission_name a = permission_name b \<longleftrightarrow> a = b"
  by (cases a; cases b; simp add: permission_name_def)

lemma set_permissionsForRole [simp]: "set (permissionsForRole r) = set (ROLE_PERMISSIONS r)"
  using permissions_mono [of r Owner] by (auto simp: permissionsForRole_def ALL_PERMISSIONS_def)

section \<open>The highest grant\<close>

lemma highest_from:
  "foldl (\<lambda>h g. higherRole h (Some (grant_role g))) (Some r) gs = Some (Max (insert r (set (map grant_role gs))))"
proof (induction gs arbitrary: r)
  case (Cons g gs)
  have "insert r (insert (grant_role g) (grant_role ` set gs)) = {r, grant_role g} \<union> (grant_role ` set gs)" by auto
  have "Max (insert (max r (grant_role g)) (grant_role ` set gs)) =
      Max (insert r (insert (grant_role g) (grant_role ` set gs)))"
    by (cases "set gs = {}") (simp_all add: max.assoc)
  then show ?case using Cons by simp
qed simp

lemma highest_grant_iff:
  "highest_grant gs = (if gs = [] then None else Some (Max (set (map grant_role gs))))"
  by (cases gs) (simp_all add: highest_grant_def highest_from)

lemma highest_grant_None [simp]: "highest_grant gs = None \<longleftrightarrow> gs = []"
  by (simp add: highest_grant_iff)

lemma highest_grant_Nil [simp]: "highest_grant [] = None"
  by simp

lemma highest_grant_member: "highest_grant gs = Some r \<Longrightarrow> \<exists>g \<in> set gs. grant_role g = r"
proof -
  assume "highest_grant gs = Some r"
  then have "r = Max (grant_role ` set gs)" "gs \<noteq> []" by (auto simp: highest_grant_iff split: if_splits)
  then have "r \<in> grant_role ` set gs" using Max_in [of "grant_role ` set gs"] by simp
  then show ?thesis by blast
qed

lemma highest_grant_bound: "highest_grant gs = Some r \<Longrightarrow> g \<in> set gs \<Longrightarrow> grant_role g \<le> r"
  by (auto simp: highest_grant_iff split: if_splits)

section \<open>When a check passes\<close>

definition token_allows :: "principal \<Rightarrow> permission \<Rightarrow> bool" where
  "token_allows p q \<longleftrightarrow> (case p_token p of None \<Rightarrow> True | Some t \<Rightarrow> permission_name q \<in> set (token_scopes t))"

definition token_admits :: "principal \<Rightarrow> string \<Rightarrow> bool" where
  "token_admits p o' \<longleftrightarrow> (case p_token p of None \<Rightarrow> True | Some t \<Rightarrow> token_organization t \<in> {None, Some o'})"

lemma assertPermission_Inr [simp]: "assertPermission x q = Inr r \<longleftrightarrow> x = Some r \<and> q \<in> set (ROLE_PERMISSIONS r)"
  by (auto simp: assertPermission_def split: option.splits)

lemma assertTokenScope_Inr [simp]: "assertTokenScope p q = Inr u \<longleftrightarrow> token_allows p q"
  by (auto simp: assertTokenScope_def token_allows_def split: option.splits)

lemma assertTokenOrganization_Inr [simp]: "assertTokenOrganization p o' = Inr u \<longleftrightarrow> token_admits p o'"
  by (auto simp: assertTokenOrganization_def token_admits_def split: option.splits)

lemma found_Inr [simp]:
  "found_organization s i = Inr x \<longleftrightarrow> getOrganization s i = Some x"
  "found_project s i = Inr j \<longleftrightarrow> getProject s i = Some j"
  by (auto simp: found_organization_def found_project_def split: option.splits)

lemma no_token [simp]:
  "token_allows (p\<lparr>p_token := None\<rparr>) q" "token_admits (p\<lparr>p_token := None\<rparr>) o'"
  "roleFor (p\<lparr>p_token := None\<rparr>) o' = roleFor p o'"
  "entitledRole d s (p\<lparr>p_token := None\<rparr>) x r = entitledRole d s p x r"
  "grantsInOrganization s (p\<lparr>p_token := None\<rparr>) o' = grantsInOrganization s p o'"
  "grantsInProject s (p\<lparr>p_token := None\<rparr>) j = grantsInProject s p j"
  by (simp_all add: token_allows_def token_admits_def roleFor_def entitledRole_def grantsInOrganization_def
      grantsInProject_def split: option.split)

lemma authorizeOrganization_Inr:
  "authorizeOrganization d s p o' q e = Inr a \<longleftrightarrow>
     token_admits p o' \<and> getOrganization s o' = Some (auth_organization a) \<and>
     (if e then roleFor p o' else entitledRole d s p (auth_organization a) (roleFor p o')) = Some (auth_role a) \<and>
     q \<in> set (ROLE_PERMISSIONS (auth_role a)) \<and> token_allows p q"
  by (cases a) (auto simp: authorizeOrganization_def res_bind_eq_Inr_conv Let_def)

definition reach_of :: "deployment \<Rightarrow> access_store \<Rightarrow> principal \<Rightarrow> string \<Rightarrow> organization \<Rightarrow> organization_role option" where
  "reach_of d s p o' x =
     higherRole
       (entitledRole d s p x
         (case roleFor p o' of None \<Rightarrow> highest_grant (grantsInOrganization s p o') | Some r \<Rightarrow> Some r))
       (highest_grant (filter grant_comped (grantsInOrganization s p o')))"

lemma authorizeOrganizationOrGrant_Inr:
  "authorizeOrganizationOrGrant d s p o' q = Inr a \<longleftrightarrow>
     token_admits p o' \<and> getOrganization s o' = Some (reach_organization a) \<and>
     reach_of d s p o' (reach_organization a) = Some (reach_role a) \<and>
     q \<in> set (ROLE_PERMISSIONS (reach_role a)) \<and> token_allows p q \<and>
     reach_repositories a =
       (if roleFor p o' = None then Some (set (map grant_repository (grantsInOrganization s p o'))) else None)"
  by (cases a) (auto simp: authorizeOrganizationOrGrant_def reach_of_def res_bind_eq_Inr_conv Let_def split: option.splits)

definition project_grants :: "access_store \<Rightarrow> principal \<Rightarrow> project_record \<Rightarrow> repository_grant list" where
  "project_grants s p j = (if roleFor p (project_organization j) = None then grantsInProject s p j else [])"

definition project_role :: "deployment \<Rightarrow> access_store \<Rightarrow> principal \<Rightarrow> project_record \<Rightarrow> organization \<Rightarrow> organization_role option" where
  "project_role d s p j x =
     higherRole
       (entitledRole d s p x (higherRole (roleFor p (project_organization j)) (highest_grant (project_grants s p j))))
       (highest_grant (filter grant_comped (project_grants s p j)))"

lemma authorizeProject_Inr:
  "authorizeProject d s p i q = Inr a \<longleftrightarrow>
     getProject s i = Some (ap_project a) \<and> token_admits p (project_organization (ap_project a)) \<and>
     getOrganization s (project_organization (ap_project a)) = Some (ap_organization a) \<and>
     project_role d s p (ap_project a) (ap_organization a) = Some (ap_role a) \<and>
     q \<in> set (ROLE_PERMISSIONS (ap_role a)) \<and> token_allows p q \<and> (project_archived (ap_project a) \<longrightarrow> q = View) \<and>
     ap_repositories a =
       (if roleFor p (project_organization (ap_project a)) = None
        then Some (set (map grant_repository (project_grants s p (ap_project a)))) else None)"
  by (cases a) (auto simp: authorizeProject_def project_grants_def project_role_def res_bind_eq_Inr_conv Let_def)

definition repository_grants :: "access_store \<Rightarrow> principal \<Rightarrow> project_record \<Rightarrow> repository_grant list" where
  "repository_grants s p j =
     (if roleFor p (project_organization j) = None then grantsInProject s p j
      else listGrantsForUser s (pub_id (p_user p)))"

definition repository_grant_of :: "access_store \<Rightarrow> principal \<Rightarrow> project_record \<Rightarrow> string \<Rightarrow> repository_grant option" where
  "repository_grant_of s p j r = find (\<lambda>g. grant_repository g = r) (repository_grants s p j)"

definition repository_role ::
  "deployment \<Rightarrow> access_store \<Rightarrow> principal \<Rightarrow> project_record \<Rightarrow> string \<Rightarrow> organization \<Rightarrow> organization_role option" where
  "repository_role d s p j r x =
     (let g = repository_grant_of s p j r;
          granted = higherRole (roleFor p (project_organization j)) (map_option grant_role g)
      in if map_option grant_comped g = Some True then granted else entitledRole d s p x granted)"

lemma authorizeRepository_alt:
  "authorizeRepository d s p i r q =
     res_bind (found_project s i) (\<lambda>j.
     res_bind (assertTokenOrganization p (project_organization j)) (\<lambda>_.
     res_bind (found_organization s (project_organization j)) (\<lambda>x.
       if roleFor p (project_organization j) = None \<and> repository_grant_of s p j r = None
       then Inl (if repository_grants s p j = [] then Forbidden else RepositoryNotFound)
       else
         res_bind (assertPermission (repository_role d s p j r x) q) (\<lambda>role'.
         res_bind (assertTokenScope p q) (\<lambda>_.
           if project_archived j \<and> q \<noteq> View then Inl ProjectArchived
           else Inr \<lparr>ap_project = j, ap_organization = x, ap_role = role',
                     ap_repositories = (if roleFor p (project_organization j) = None then Some {r} else None)\<rparr>)))))"
  unfolding authorizeRepository_def repository_role_def repository_grant_of_def repository_grants_def Let_def
  by (intro arg_cong2 [where f = res_bind] refl ext) auto

lemma authorizeRepository_Inr:
  "authorizeRepository d s p i r q = Inr a \<longleftrightarrow>
     getProject s i = Some (ap_project a) \<and> token_admits p (project_organization (ap_project a)) \<and>
     getOrganization s (project_organization (ap_project a)) = Some (ap_organization a) \<and>
     (roleFor p (project_organization (ap_project a)) = None \<longrightarrow> repository_grant_of s p (ap_project a) r \<noteq> None) \<and>
     repository_role d s p (ap_project a) r (ap_organization a) = Some (ap_role a) \<and>
     q \<in> set (ROLE_PERMISSIONS (ap_role a)) \<and> token_allows p q \<and> (project_archived (ap_project a) \<longrightarrow> q = View) \<and>
     ap_repositories a = (if roleFor p (project_organization (ap_project a)) = None then Some {r} else None)"
  by (cases a) (auto simp: authorizeRepository_alt res_bind_eq_Inr_conv)

lemmas authorize_iffs =
  authorizeOrganization_Inr authorizeOrganizationOrGrant_Inr authorizeProject_Inr authorizeRepository_Inr

lemma token_free_grants [simp]:
  "project_grants s (p\<lparr>p_token := None\<rparr>) j = project_grants s p j"
  "repository_grant_of s (p\<lparr>p_token := None\<rparr>) j r = repository_grant_of s p j r"
  by (simp_all add: project_grants_def repository_grants_def repository_grant_of_def)

lemma token_free_roles [simp]:
  "reach_of d s (p\<lparr>p_token := None\<rparr>) o' x = reach_of d s p o' x"
  "project_role d s (p\<lparr>p_token := None\<rparr>) j x = project_role d s p j x"
  "repository_role d s (p\<lparr>p_token := None\<rparr>) j r x = repository_role d s p j r x"
  by (simp_all only: reach_of_def project_role_def repository_role_def no_token token_free_grants)

section \<open>The contract of an authorizing function\<close>

text \<open>
  What a client may rely on: an answer carries a role that has the permission; a token is only ever a
  further condition; and what passes for one permission passes for viewing.
\<close>

locale authorizer =
  fixes check :: "principal \<Rightarrow> permission \<Rightarrow> access_error + 'a"
    and answer_role :: "'a \<Rightarrow> organization_role"
  assumes carries: "check p q = Inr a \<Longrightarrow> q \<in> set (ROLE_PERMISSIONS (answer_role a))"
    and scoped: "check p q = Inr a \<Longrightarrow> token_allows p q"
    and untokened: "check p q = Inr a \<Longrightarrow> check (p\<lparr>p_token := None\<rparr>) q = Inr a"
    and view_too: "check p q = Inr a \<Longrightarrow> token_allows p View \<Longrightarrow> check p View = Inr a"
begin

lemma narrows: "{(q, a). check p q = Inr a} \<subseteq> {(q, a). token_allows p q \<and> check (p\<lparr>p_token := None\<rparr>) q = Inr a}"
  using scoped untokened by blast

lemma viewer_only_views: "check p q = Inr a \<Longrightarrow> answer_role a = Viewer \<Longrightarrow> q = View"
  using carries [of p q a] by simp

lemma refusal_is_total: "token_allows p View \<Longrightarrow> check p View = Inl e \<Longrightarrow> \<nexists>a. check p q = Inr a"
  using view_too by fastforce

end

interpretation at_organization: authorizer "\<lambda>p q. authorizeOrganization d s p o' q e" auth_role
  by unfold_locales (auto simp: authorizeOrganization_Inr)

interpretation at_reach: authorizer "\<lambda>p q. authorizeOrganizationOrGrant d s p o' q" reach_role
  by unfold_locales (auto simp: authorizeOrganizationOrGrant_Inr)

interpretation at_project: authorizer "\<lambda>p q. authorizeProject d s p i q" ap_role
  by unfold_locales (auto simp: authorizeProject_Inr)

interpretation at_repository: authorizer "\<lambda>p q. authorizeRepository d s p i r q" ap_role
  by unfold_locales (auto simp: authorizeRepository_Inr)

section \<open>Grants of a caller\<close>

lemma grantsInProject_iff:
  "g \<in> set (grantsInProject s p j) \<longleftrightarrow>
     g \<in> set (grant_rows s) \<and> grant_user g = pub_id (p_user p) \<and>
     grant_repository g \<in> repo_id ` set (listProjectRepositories s (project_id j))"
  by (auto simp: grantsInProject_def listGrantsForUser_def Let_def filter_empty_conv)

lemma find_SomeD: "find P xs = Some x \<Longrightarrow> x \<in> set xs \<and> P x"
  by (induction xs) (auto split: if_splits)

lemma find_key: "distinct (map f xs) \<Longrightarrow> x \<in> set xs \<Longrightarrow> find (\<lambda>y. f y = f x) xs = Some x"
  by (induction xs) auto

lemma held_grant_Some: "held_grant gs r = Some g \<Longrightarrow> g \<in> set gs \<and> grant_repository g = r"
  by (auto simp: held_grant_def dest: find_SomeD)

lemma map_filter_member: "y \<in> set (List.map_filter f xs) \<longleftrightarrow> (\<exists>x \<in> set xs. f x = Some y)"
  by (induction xs) (auto split: option.splits)

lemma held_grant_None: "held_grant gs r = None \<longleftrightarrow> r \<notin> grant_repository ` set gs"
  by (auto simp: held_grant_def find_None_iff)

lemma grantsInOrganization_iff:
  "g \<in> set (grantsInOrganization s p o') \<longleftrightarrow>
     (\<exists>j \<in> set (listProjects s o'). \<exists>r \<in> set (listProjectRepositories s (project_id j)).
        held_grant (listGrantsForUser s (pub_id (p_user p))) (repo_id r) = Some g)"
proof (cases "listGrantsForUser s (pub_id (p_user p)) = []")
  case True
  then show ?thesis by (simp add: grantsInOrganization_def held_grant_def)
next
  case False
  then show ?thesis
    by (simp add: grantsInOrganization_def Let_def map_filter_member)
qed

lemma some_granted_iff:
  "some_granted s gs j \<longleftrightarrow> (\<exists>r \<in> set (listProjectRepositories s (project_id j)). held_grant gs (repo_id r) \<noteq> None)"
  by (simp add: some_granted_def list_ex_iff held_grant_None)

lemma grantsInOrganization_empty:
  "grantsInOrganization s p o' = [] \<longleftrightarrow>
     \<not> list_ex (some_granted s (listGrantsForUser s (pub_id (p_user p)))) (listProjects s o')"
proof
  assume e: "grantsInOrganization s p o' = []"
  show "\<not> list_ex (some_granted s (listGrantsForUser s (pub_id (p_user p)))) (listProjects s o')"
  proof
    assume "list_ex (some_granted s (listGrantsForUser s (pub_id (p_user p)))) (listProjects s o')"
    then obtain j r g where "j \<in> set (listProjects s o')" "r \<in> set (listProjectRepositories s (project_id j))"
      "held_grant (listGrantsForUser s (pub_id (p_user p))) (repo_id r) = Some g"
      unfolding list_ex_iff some_granted_iff by fast
    then have "g \<in> set (grantsInOrganization s p o')" unfolding grantsInOrganization_iff by fast
    then show False using e by simp
  qed
next
  assume n: "\<not> list_ex (some_granted s (listGrantsForUser s (pub_id (p_user p)))) (listProjects s o')"
  show "grantsInOrganization s p o' = []"
  proof (rule ccontr)
    assume "grantsInOrganization s p o' \<noteq> []"
    then have "hd (grantsInOrganization s p o') \<in> set (grantsInOrganization s p o')" by simp
    then obtain j r where j: "j \<in> set (listProjects s o')" "r \<in> set (listProjectRepositories s (project_id j))"
      "held_grant (listGrantsForUser s (pub_id (p_user p))) (repo_id r) = Some (hd (grantsInOrganization s p o'))"
      unfolding grantsInOrganization_iff by fast
    then have "some_granted s (listGrantsForUser s (pub_id (p_user p))) j" by (auto simp: some_granted_iff)
    then show False using n j(1) by (auto simp: list_ex_iff)
  qed
qed

end
