(* ===== verification/Access_Runs.thy ===== *)
theory Access_Runs
  imports Access_Laws
begin

text \<open>
  Runs of requests and what they keep. Each request is first reduced to its effect on the tables; the
  invariants are then shown request by request.
\<close>

section \<open>Effects\<close>

lemma entitled_owner: "entitledRole d s p x r = Some Owner \<Longrightarrow> r = Some Owner"
  by (auto simp: entitledRole_def effectiveRole_def split: option.splits if_splits)

definition assigns :: "access_store \<Rightarrow> principal \<Rightarrow> string \<Rightarrow> organization_role \<Rightarrow> bool" where
  "assigns s p o' r \<longleftrightarrow> r = Owner \<longrightarrow> roleFor p o' = Some Owner"

lemma authorized_assigns:
  "authorizeOrganization d s p o' q False = Inr a \<Longrightarrow> canAssignRole (auth_role a) r \<Longrightarrow> assigns s p o' r"
  by (auto simp: assigns_def authorizeOrganization_Inr canAssignRole_def dest: entitled_owner)

lemma post_member_effect:
  "post_member d s p o' r i e stamp = Inr s' \<Longrightarrow> \<exists>u role'. s' = saveMembership o' u role' stamp s \<and> assigns s p o' role'"
  by (auto simp: post_member_def res_bind_eq_Inr_conv split: if_splits option.splits dest: authorized_assigns)

lemma patch_member_effect:
  "patch_member d s p o' r u = Inr s' \<Longrightarrow>
     \<exists>role' m. s' = saveMembership o' u role' [] s \<and> assigns s p o' role' \<and> getMembership s o' u = Some m \<and>
       (member_role m = Owner \<longrightarrow> role' = Owner \<or> length (owners_of s o') > 1)"
  by (auto simp: patch_member_def res_bind_eq_Inr_conv split: if_splits option.splits dest: authorized_assigns)

lemma delete_member_effect:
  "delete_member d s p o' u = Inr s' \<Longrightarrow>
     \<exists>m. s' = removeMembership o' u s \<and> getMembership s o' u = Some m \<and>
       (member_role m = Owner \<longrightarrow> length (owners_of s o') > 1)"
  by (auto simp: delete_member_def res_bind_eq_Inr_conv split: if_splits option.splits)

lemma post_grant_effect: "post_grant d s p j r u role' stamp = Inr s' \<Longrightarrow> \<exists>g. s' = saveRepositoryGrant g s"
  by (auto simp: post_grant_def res_bind_eq_Inr_conv Let_def split: if_splits)

lemma delete_grant_effect: "delete_grant d s p j r u = Inr s' \<Longrightarrow> s' = removeRepositoryGrant r u s"
  by (auto simp: delete_grant_def res_bind_eq_Inr_conv Let_def split: if_splits)

lemma post_invitation_effect:
  "post_invitation d digest s p o' body i secret = Inr s' \<Longrightarrow>
     \<exists>r. s' = s\<lparr>invitation_rows := invitation_rows s @ [r]\<rparr> \<and> inv_repository r \<noteq> None"
  by (cases "ib_repository body") (auto simp: post_invitation_def res_bind_eq_Inr_conv Let_def split: if_splits)

lemma delete_invitation_effect:
  "delete_invitation d s p o' i = Inr s' \<Longrightarrow>
     \<exists>f. s' = s\<lparr>invitation_rows := map f (invitation_rows s)\<rparr> \<and> (\<forall>r. inv_repository (f r) = inv_repository r)"
  by (auto simp: delete_invitation_def revokeInvitation_def res_bind_eq_Inr_conv split: if_splits)

lemma issueApiToken_effect:
  "issueApiToken d digest usual s u body parent i secret = Inr s' \<Longrightarrow>
     \<exists>t. s' = s\<lparr>token_rows := token_rows s @ [t]\<rparr> \<and> tok_id t = i \<and> \<not> tok_revoked t \<and>
       tok_byToken t = parent \<and> set (tok_scopes t) = set (tb_scopes body)"
  by (auto simp: issueApiToken_def unique_scopes_def res_bind_eq_Inr_conv Let_def split: if_splits)

definition minting_token :: "principal \<Rightarrow> token_principal option" where
  "minting_token p = (if p_credential p = TokenCredential then p_token p else None)"

lemma post_token_issues:
  assumes "post_token d digest usual s p body i secret = Inr s'"
  shows "\<exists>u. issueApiToken d digest usual s u body (map_option token_id (minting_token p)) i secret = Inr s' \<and>
    (\<forall>x. minting_token p = Some x \<longrightarrow> set (tb_scopes body) \<subseteq> set (token_scopes x) \<and>
       Option.bind (getApiToken s (token_id x)) tok_byToken = None)"
proof (cases "minting_token p")
  case None
  then show ?thesis
    using assms unfolding post_token_def minting_token_def [symmetric] Let_def
    by (auto simp: res_bind_eq_Inr_conv split: option.splits if_splits)
next
  case (Some x)
  then show ?thesis
    using assms unfolding post_token_def minting_token_def [symmetric] Let_def
    by (auto simp: res_bind_eq_Inr_conv split: option.splits if_splits)
qed

lemma post_token_effect:
  assumes "post_token d digest usual s p body i secret = Inr s'"
  shows "\<exists>t. s' = s\<lparr>token_rows := token_rows s @ [t]\<rparr> \<and> tok_id t = i \<and> \<not> tok_revoked t \<and>
    tok_byToken t = map_option token_id (minting_token p) \<and>
    (\<forall>x. minting_token p = Some x \<longrightarrow> set (tok_scopes t) \<subseteq> set (token_scopes x) \<and>
       Option.bind (getApiToken s (token_id x)) tok_byToken = None)"
  using post_token_issues [OF assms] by (fast dest: issueApiToken_effect)

lemma delete_token_effect:
  "delete_token s p i = Inr s' \<Longrightarrow>
     s' = s\<lparr>token_rows := map (\<lambda>x. if (tok_id x = i \<or> tok_byToken x = Some i) \<and> \<not> tok_revoked x
                                   then x\<lparr>tok_revoked := True\<rparr> else x) (token_rows s)\<rparr>"
  by (auto simp: delete_token_def revokeApiToken_def split: if_splits option.splits)

lemma rows_unchanged [simp]:
  "membership_rows (saveRepositoryGrant g s) = membership_rows s" "user_rows (saveRepositoryGrant g s) = user_rows s"
  "invitation_rows (saveRepositoryGrant g s) = invitation_rows s" "token_rows (saveRepositoryGrant g s) = token_rows s"
  "membership_rows (removeRepositoryGrant r u s) = membership_rows s" "user_rows (removeRepositoryGrant r u s) = user_rows s"
  "invitation_rows (removeRepositoryGrant r u s) = invitation_rows s" "token_rows (removeRepositoryGrant r u s) = token_rows s"
  "user_rows (saveMembership o' u r' stamp s) = user_rows s" "token_rows (saveMembership o' u r' stamp s) = token_rows s"
  "invitation_rows (saveMembership o' u r' stamp s) = invitation_rows s"
  "user_rows (removeMembership o' u s) = user_rows s" "token_rows (removeMembership o' u s) = token_rows s"
  "invitation_rows (removeMembership o' u s) = invitation_rows s"
  by (simp_all add: saveRepositoryGrant_def removeRepositoryGrant_def saveMembership_def removeMembership_def)

text \<open>Accepting may add an account and mark the invitation, and then admits the account.\<close>

definition keeps_invitations :: "access_store \<Rightarrow> access_store \<Rightarrow> bool" where
  "keeps_invitations s s' \<longleftrightarrow> map inv_repository (invitation_rows s') = map inv_repository (invitation_rows s)"

lemma invitation_of_member: "invitation_of digest s t = Inr r \<Longrightarrow> r \<in> set (invitation_rows s)"
  by (auto simp: invitation_of_def getInvitation_def Let_def Option.bind_eq_Some_conv split: option.splits if_splits
      dest: find_SomeD)

lemma accepting_user_effect:
  "accepting_user s signedIn r email fresh = Inr (u, s1) \<Longrightarrow>
     s1 = s \<or> (\<exists>a. s1 = s\<lparr>user_rows := user_rows s @ [a]\<rparr> \<and> \<not> user_systemAdmin a)"
  by (auto simp: accepting_user_def createUser_def Let_def split: if_splits option.splits)

lemma accept_invitation_effect:
  assumes "accept_invitation d digest s signedIn t email fresh stamp = (r, s')"
    and "\<forall>x \<in> set (invitation_rows s). inv_repository x \<noteq> None"
  shows "membership_rows s' = membership_rows s \<and> token_rows s' = token_rows s \<and> keeps_invitations s s' \<and>
    (user_rows s' = user_rows s \<or> (\<exists>a. user_rows s' = user_rows s @ [a] \<and> \<not> user_systemAdmin a))"
proof (cases "\<exists>inv u s1. invitation_of digest s t = Inr inv \<and> invitation_state (dep_now d) inv = InvPending \<and>
    accepting_user s signedIn inv email fresh = Inr (u, s1)")
  case False
  then have "s' = s" using assms(1) by (auto simp: accept_invitation_def split: sum.splits if_splits prod.splits)
  then show ?thesis by (simp add: keeps_invitations_def)
next
  case True
  then obtain inv u s1 where i: "invitation_of digest s t = Inr inv" "invitation_state (dep_now d) inv = InvPending"
    "accepting_user s signedIn inv email fresh = Inr (u, s1)" by blast
  define s2 where "s2 = (if inv_email inv = [] then s1 else snd (acceptInvitation (inv_id inv) (user_id u) s1))"
  have s2: "membership_rows s2 = membership_rows s" "token_rows s2 = token_rows s" "keeps_invitations s s2"
    "user_rows s2 = user_rows s \<or> (\<exists>a. user_rows s2 = user_rows s @ [a] \<and> \<not> user_systemAdmin a)"
    using accepting_user_effect [OF i(3)] by (auto simp: s2_def acceptInvitation_def keeps_invitations_def)
  obtain rep where "inv_repository inv = Some rep" using assms(2) invitation_of_member [OF i(1)] by fastforce
  then obtain g where g: "admit_user inv u stamp s2 = saveRepositoryGrant g s2" by (simp add: admit_user_def)
  have "s' = s2 \<or> s' = saveRepositoryGrant g s2"
    using assms(1) i g by (auto simp: accept_invitation_def s2_def split: prod.splits if_splits)
  then show ?thesis using s2 by (auto simp: keeps_invitations_def)
qed

section \<open>Runs\<close>

inductive run ::
  "(string \<Rightarrow> string) \<Rightarrow> int \<Rightarrow> (access_store \<Rightarrow> credential \<Rightarrow> access_request \<Rightarrow> bool) \<Rightarrow> access_store \<Rightarrow> access_store \<Rightarrow> bool"
  for digest usual P s
where
  run_start: "run digest usual P s s"
| run_serve: "run digest usual P s s' \<Longrightarrow> P s' c q \<Longrightarrow> run digest usual P s (snd (serve d digest usual s' c q))"

inductive_simps run_from [simp]: "run digest usual (\<lambda>_ _ _. False) s s'"

lemma run_invariant:
  assumes "run digest usual P s s'" "I s"
    and "\<And>s d c q. I s \<Longrightarrow> P s c q \<Longrightarrow> I (snd (serve d digest usual s c q))"
  shows "I s'"
  using assms by (induction rule: run.induct) blast+

text \<open>The account a credential speaks for.\<close>

definition credential_user :: "access_store \<Rightarrow> credential \<Rightarrow> string option" where
  "credential_user s c =
     (case c of NoCredential \<Rightarrow> None | SessionOf u \<Rightarrow> Some u | BearerToken i _ \<Rightarrow> map_option tok_user (getApiToken s i))"

lemma getUser_id: "getUser s i = Some u \<Longrightarrow> user_id u = i \<and> u \<in> set (user_rows s)"
  by (auto simp: getUser_def dest: find_SomeD)

lemma getMembership_row:
  "getMembership s o' u = Some m \<Longrightarrow> m \<in> set (membership_rows s) \<and> member_organization m = o' \<and> member_user m = u"
  by (auto simp: getMembership_def dest: find_SomeD)

lemma authenticate_Inr:
  "authenticate s i = Inr p \<Longrightarrow>
     \<exists>u. getUser s i = Some u \<and> p_user p = publicUser u \<and> p_memberships p = membershipsFor s u"
  by (auto simp: authenticate_def split: option.splits if_splits)

lemma authenticateToken_Inr:
  "authenticateToken digest now s i secret = Inr p \<Longrightarrow>
     \<exists>t u. getApiToken s i = Some t \<and> \<not> tok_revoked t \<and> getUser s (tok_user t) = Some u \<and>
       p_user p = publicUser u \<and> p_memberships p = membershipsFor s u \<and>
       p_token p = Some \<lparr>token_id = tok_id t, token_scopes = tok_scopes t, token_organization = tok_organization t\<rparr>"
  by (auto simp: authenticateToken_def split: option.splits if_splits)

lemma authenticated_account:
  assumes "authenticated d digest s c = Inr p"
  shows "\<exists>u \<in> set (user_rows s). credential_user s c = Some (user_id u) \<and> p_user p = publicUser u \<and>
    p_memberships p = membershipsFor s u"
proof (cases c)
  case NoCredential
  then show ?thesis using assms by (simp add: authenticated_def)
next
  case (SessionOf i)
  then obtain u where "getUser s i = Some u" "p_user p = publicUser u" "p_memberships p = membershipsFor s u"
    using assms authenticate_Inr [of s i p] by (auto simp: authenticated_def)
  then show ?thesis using getUser_id [of s i u] SessionOf by (auto simp: credential_user_def)
next
  case (BearerToken i secret)
  then obtain t u where "getApiToken s i = Some t" "getUser s (tok_user t) = Some u" "p_user p = publicUser u"
    "p_memberships p = membershipsFor s u"
    using assms authenticateToken_Inr [of digest "dep_now d" s i secret p] by (auto simp: authenticated_def)
  then show ?thesis using getUser_id [of s "tok_user t" u] BearerToken
    by (intro bexI [of _ u]) (auto simp: credential_user_def)
qed

lemma owner_role_row:
  assumes "authenticated d digest s c = Inr p" "roleFor p o' = Some Owner"
  shows "\<exists>u. credential_user s c = Some u \<and>
    ((\<exists>a \<in> set (user_rows s). user_id a = u \<and> user_systemAdmin a) \<or>
     (\<exists>m \<in> set (membership_rows s). member_user m = u \<and> member_organization m = o' \<and> member_role m = Owner))"
proof -
  obtain a where a: "a \<in> set (user_rows s)" "credential_user s c = Some (user_id a)" "p_user p = publicUser a"
    "p_memberships p = membershipsFor s a"
    using authenticated_account [OF assms(1)] by blast
  show ?thesis
  proof (cases "user_systemAdmin a")
    case True
    then show ?thesis using a by blast
  next
    case False
    then obtain m where m: "find (\<lambda>m. member_organization m = o') (membershipsFor s a) = Some m" "member_role m = Owner"
      using assms(2) a by (auto simp: roleFor_def publicUser_def)
    then have "m \<in> set (membershipsFor s a)" "member_organization m = o'" by (auto dest: find_SomeD)
    then have "m \<in> set (membership_rows s) \<and> member_user m = user_id a"
      using False by (auto simp: membershipsFor_def map_filter_member dest: getMembership_row)
    then show ?thesis using a m(2) \<open>member_organization m = o'\<close> by blast
  qed
qed

section \<open>The effect of serving\<close>

lemma serve_handled:
  assumes "\<And>t e i stamp. q \<noteq> AcceptInvitation t e i stamp"
  shows "snd (serve d digest usual s c q) = s \<or>
    (\<exists>p s'. authenticated d digest s c = Inr p \<and> handle_request d digest usual s p q = Inr s' \<and>
       snd (serve d digest usual s c q) = s')"
proof -
  have "serve d digest usual s c q =
      (case res_bind (authenticated d digest s c) (\<lambda>p. handle_request d digest usual s p q) of
         Inl problem \<Rightarrow> (Inl problem, s) | Inr s' \<Rightarrow> (Inr (), s'))"
    using assms by (cases q) (auto simp: serve_def)
  then show ?thesis
    by (cases "res_bind (authenticated d digest s c) (\<lambda>p. handle_request d digest usual s p q)")
      (auto simp: res_bind_eq_Inr_conv)
qed

lemma serve_accept:
  "\<exists>signedIn r. accept_invitation d digest s signedIn t e i stamp = (r, snd (serve d digest usual s c (AcceptInvitation t e i stamp)))"
  unfolding serve_def by (simp, metis surj_pair snd_conv)

definition scoped_invitations :: "access_store \<Rightarrow> bool" where
  "scoped_invitations s \<longleftrightarrow> None \<notin> inv_repository ` set (invitation_rows s)"

lemma scoped_iff: "scoped_invitations s \<longleftrightarrow> (\<forall>x \<in> set (invitation_rows s). inv_repository x \<noteq> None)"
  unfolding scoped_invitations_def by (metis image_iff)

lemma keeps_scoped: "keeps_invitations s s' \<Longrightarrow> scoped_invitations s' = scoped_invitations s"
  unfolding keeps_invitations_def scoped_invitations_def by (metis set_map)

text \<open>How members change: a row is saved by somebody who may assign its role, or removed, or nothing.\<close>

definition saved_by :: "access_store \<Rightarrow> principal \<Rightarrow> access_request \<Rightarrow> access_store \<Rightarrow> bool" where
  "saved_by s p q s' \<longleftrightarrow>
     (\<exists>o' u r stamp. s' = saveMembership o' u r stamp s \<and> assigns s p o' r \<and>
        ((\<exists>a b e t. q = PostMember o' a b e t) \<or>
         (\<exists>m. getMembership s o' u = Some m \<and> (member_role m = Owner \<longrightarrow> r = Owner \<or> length (owners_of s o') > 1))))"

definition removed_by :: "access_store \<Rightarrow> access_store \<Rightarrow> bool" where
  "removed_by s s' \<longleftrightarrow>
     (\<exists>o' u m. s' = removeMembership o' u s \<and> getMembership s o' u = Some m \<and>
        (member_role m = Owner \<longrightarrow> length (owners_of s o') > 1))"

lemma handle_effect:
  assumes "handle_request d digest usual s p q = Inr s'"
  shows "(saved_by s p q s' \<or> removed_by s s' \<or> membership_rows s' = membership_rows s) \<and>
    user_rows s' = user_rows s \<and> (scoped_invitations s \<longrightarrow> scoped_invitations s')"
proof (cases q)
  case (PostMember o' r i e stamp)
  then obtain u role' where "s' = saveMembership o' u role' stamp s" "assigns s p o' role'"
    using assms post_member_effect by (fastforce simp: handle_request_def)
  then show ?thesis using PostMember by (auto simp: saved_by_def scoped_invitations_def)
next
  case (PatchMember o' r u)
  then obtain role' m where "s' = saveMembership o' u role' [] s" "assigns s p o' role'" "getMembership s o' u = Some m"
    "member_role m = Owner \<longrightarrow> role' = Owner \<or> length (owners_of s o') > 1"
    using assms patch_member_effect by (fastforce simp: handle_request_def)
  then have "saved_by s p q s' \<and> user_rows s' = user_rows s \<and> (scoped_invitations s \<longrightarrow> scoped_invitations s')"
    unfolding saved_by_def scoped_invitations_def by (simp, blast)
  then show ?thesis by simp
next
  case (DeleteMember o' u)
  then have "removed_by s s'" using assms delete_member_effect by (fastforce simp: handle_request_def removed_by_def)
  then show ?thesis by (auto simp: removed_by_def scoped_invitations_def)
next
  case (PostInvitation o' body i secret)
  then obtain r where "s' = s\<lparr>invitation_rows := invitation_rows s @ [r]\<rparr>" "inv_repository r \<noteq> None"
    using assms post_invitation_effect by (fastforce simp: handle_request_def)
  then show ?thesis by (auto simp: scoped_invitations_def)
next
  case (DeleteInvitation o' i)
  then obtain f where "s' = s\<lparr>invitation_rows := map f (invitation_rows s)\<rparr>" "\<forall>r. inv_repository (f r) = inv_repository r"
    using assms delete_invitation_effect by (fastforce simp: handle_request_def)
  then show ?thesis by (simp add: scoped_invitations_def image_iff)
next
  case (PostGrant j r u role' stamp)
  then show ?thesis
    using assms by (auto simp: handle_request_def scoped_invitations_def dest!: post_grant_effect)
next
  case (DeleteGrant j r u)
  then show ?thesis
    using assms by (auto simp: handle_request_def scoped_invitations_def dest!: delete_grant_effect)
next
  case (AcceptInvitation t e i stamp)
  then show ?thesis using assms by (simp add: handle_request_def)
next
  case (PostToken body i secret)
  then show ?thesis
    using assms by (auto simp: handle_request_def scoped_invitations_def dest!: post_token_effect)
next
  case (DeleteToken i)
  then show ?thesis
    using assms by (auto simp: handle_request_def scoped_invitations_def dest!: delete_token_effect)
qed

lemma serve_effect:
  assumes "scoped_invitations s" and s'_def: "s' = snd (serve d digest usual s c q)"
  shows "((\<exists>p. authenticated d digest s c = Inr p \<and> saved_by s p q s') \<or> removed_by s s' \<or>
      membership_rows s' = membership_rows s) \<and>
    (user_rows s' = user_rows s \<or> (\<exists>a. user_rows s' = user_rows s @ [a] \<and> \<not> user_systemAdmin a)) \<and>
    scoped_invitations s'"
proof (cases "\<exists>t e i stamp. q = AcceptInvitation t e i stamp")
  case True
  then obtain t e i stamp where q: "q = AcceptInvitation t e i stamp" by blast
  obtain signedIn r where "accept_invitation d digest s signedIn t e i stamp = (r, s')"
    using serve_accept unfolding s'_def q by blast
  then have a: "membership_rows s' = membership_rows s" "keeps_invitations s s'"
    "user_rows s' = user_rows s \<or> (\<exists>a. user_rows s' = user_rows s @ [a] \<and> \<not> user_systemAdmin a)"
    using accept_invitation_effect assms(1) unfolding scoped_iff by blast+
  then show ?thesis using assms(1) keeps_scoped [OF a(2)] by simp
next
  case False
  then consider (same) "s' = s" | (handled) p where "authenticated d digest s c = Inr p" "handle_request d digest usual s p q = Inr s'"
    using serve_handled [of q d digest usual s c] unfolding s'_def by blast
  then show ?thesis
  proof cases
    case same
    then show ?thesis using assms(1) by simp
  next
    case handled
    then show ?thesis using handle_effect [OF handled(2)] assms(1) by blast
  qed
qed

section \<open>Ownership\<close>

text \<open>Every owner of an organization, and whoever runs the deployment, is among some accounts.\<close>

definition owned_by :: "access_store \<Rightarrow> string \<Rightarrow> string set \<Rightarrow> bool" where
  "owned_by s o' U \<longleftrightarrow>
     member_user ` set (owners_of s o') \<subseteq> U \<and> user_id ` set (filter user_systemAdmin (user_rows s)) \<subseteq> U"

lemma owners_of_member: "m \<in> set (owners_of s o') \<longleftrightarrow>
    m \<in> set (membership_rows s) \<and> member_organization m = o' \<and> member_role m = Owner"
  by (auto simp: owners_of_def listMemberships_def)

lemma saved_owner:
  assumes "m \<in> set (owners_of (saveMembership o' u r stamp s) k)"
  shows "(\<exists>x \<in> set (owners_of s k). member_user x = member_user m) \<or> (r = Owner \<and> k = o')"
proof (cases "r = Owner \<and> k = o'")
  case False
  have m: "m \<in> set (membership_rows (saveMembership o' u r stamp s))" "member_organization m = k" "member_role m = Owner"
    using assms by (auto simp: owners_of_member)
  have "m \<in> set (membership_rows s)"
    using m False by (auto simp: saveMembership_def is_member_def split: if_splits)
  then show ?thesis using m(2,3) owners_of_member by blast
qed simp

lemma removed_owner: "set (owners_of (removeMembership o' u s) k) \<subseteq> set (owners_of s k)"
  by (auto simp: owners_of_member removeMembership_def)

lemma owner_acts:
  assumes "owned_by s o' U" "authenticated d digest s c = Inr p" "roleFor p o' = Some Owner"
  shows "credential_user s c \<in> Some ` U"
proof -
  obtain u where u: "credential_user s c = Some u"
    "(\<exists>a \<in> set (user_rows s). user_id a = u \<and> user_systemAdmin a) \<or>
     (\<exists>m \<in> set (membership_rows s). member_user m = u \<and> member_organization m = o' \<and> member_role m = Owner)"
    using owner_role_row [OF assms(2,3)] by blast
  then have "u \<in> user_id ` set (filter user_systemAdmin (user_rows s)) \<or> u \<in> member_user ` set (owners_of s o')"
    using owners_of_member by (auto simp: image_iff)
  then have "u \<in> U" using assms(1) unfolding owned_by_def by blast
  then show ?thesis using u(1) by simp
qed

lemma serve_ownership:
  assumes "owned_by s o' U \<and> scoped_invitations s" "credential_user s c \<notin> Some ` U"
  shows "owned_by (snd (serve d digest usual s c q)) o' U \<and> scoped_invitations (snd (serve d digest usual s c q))"
proof -
  let ?t = "snd (serve d digest usual s c q)"
  note e = serve_effect [where d = d and digest = digest and usual = usual and c = c and q = q, OF conjunct2 [OF assms(1)] refl]
  have "filter user_systemAdmin (user_rows ?t) = filter user_systemAdmin (user_rows s)" using e by fastforce
  then have users: "user_id ` set (filter user_systemAdmin (user_rows ?t)) \<subseteq> U"
    using assms(1) by (simp add: owned_by_def)
  have "member_user ` set (owners_of ?t o') \<subseteq> U"
  proof -
    consider (saved) p where "authenticated d digest s c = Inr p" "saved_by s p q ?t" | (removed) "removed_by s ?t" |
      (same) "membership_rows ?t = membership_rows s" using e by blast
    then show ?thesis
    proof cases
      case saved
      then obtain k u r stamp where k: "?t = saveMembership k u r stamp s" "assigns s p k r" by (auto simp: saved_by_def)
      have "\<not> (r = Owner \<and> o' = k)"
        using k(2) owner_acts [OF conjunct1 [OF assms(1)] saved(1)] assms(2) by (auto simp: assigns_def)
      then have n: "\<exists>x \<in> set (owners_of s o'). member_user x = member_user m" if "m \<in> set (owners_of ?t o')" for m
        using that saved_owner [of m k u r stamp s o'] unfolding k(1) by blast
      show ?thesis
      proof (rule image_subsetI)
        fix m assume "m \<in> set (owners_of ?t o')"
        then obtain x where "x \<in> set (owners_of s o')" "member_user x = member_user m" using n by blast
        then show "member_user m \<in> U" using assms(1) unfolding owned_by_def by (metis image_subset_iff)
      qed
    next
      case removed
      then obtain k u where k: "?t = removeMembership k u s" unfolding removed_by_def by blast
      have "member_user ` set (owners_of ?t o') \<subseteq> member_user ` set (owners_of s o')"
        unfolding k by (rule image_mono [OF removed_owner])
      then show ?thesis using assms(1) unfolding owned_by_def by fast
    next
      case same
      then show ?thesis using assms(1) by (simp add: owned_by_def owners_of_def listMemberships_def)
    qed
  qed
  then show ?thesis using users e by (simp add: owned_by_def)
qed

section \<open>The last owner\<close>

text \<open>The primary key of the members, and an owner.\<close>

definition still_owned :: "access_store \<Rightarrow> string \<Rightarrow> bool" where
  "still_owned s o' \<longleftrightarrow>
     distinct (map (\<lambda>m. (member_organization m, member_user m)) (membership_rows s)) \<and> owners_of s o' \<noteq> []"

lemma key_unique:
  assumes "distinct (map (\<lambda>m. (member_organization m, member_user m)) ms)" "m \<in> set ms" "x \<in> set ms"
    "member_organization m = member_organization x" "member_user m = member_user x"
  shows "m = x"
proof -
  have "inj_on (\<lambda>m. (member_organization m, member_user m)) (set ms)" using assms(1) by (simp add: distinct_map)
  then show ?thesis by (rule inj_onD) (simp_all add: assms)
qed

lemma other_owner:
  assumes "distinct (map (\<lambda>m. (member_organization m, member_user m)) (membership_rows s))" "length (owners_of s o') > 1"
  shows "\<exists>m \<in> set (owners_of s o'). member_user m \<noteq> u"
proof (rule ccontr)
  assume "\<not> ?thesis"
  then have all: "\<forall>m \<in> set (owners_of s o'). member_user m = u" by blast
  obtain a b rest where ab: "owners_of s o' = a # b # rest"
  proof (cases "owners_of s o'")
    case Nil
    then show ?thesis using assms(2) by simp
  next
    case (Cons a as)
    then show ?thesis using assms(2) that [of a "hd as" "tl as"] by (cases "as = []") simp_all
  qed
  have "distinct (owners_of s o')" using assms(1) by (simp add: owners_of_def listMemberships_def distinct_map)
  moreover have "a = b"
  proof -
    have m: "a \<in> set (owners_of s o')" "b \<in> set (owners_of s o')" by (simp_all add: ab)
    then have "member_user a = member_user b" using all by simp
    then show ?thesis using m unfolding owners_of_member by (intro key_unique [OF assms(1)]) auto
  qed
  ultimately show False using ab by simp
qed

lemma saved_rows:
  "membership_rows (saveMembership o' u r stamp s) =
     (if list_ex (is_member o' u) (membership_rows s)
      then map (\<lambda>m. if is_member o' u m then m\<lparr>member_role := r\<rparr> else m) (membership_rows s)
      else membership_rows s @
        [\<lparr>member_organization = o', member_user = u, member_role = r, member_comped = False, member_created = stamp\<rparr>])"
  by (simp add: saveMembership_def)

lemma save_keeps_keys:
  assumes "distinct (map (\<lambda>m. (member_organization m, member_user m)) (membership_rows s))"
  shows "distinct (map (\<lambda>m. (member_organization m, member_user m)) (membership_rows (saveMembership o' u r stamp s)))"
proof (cases "list_ex (is_member o' u) (membership_rows s)")
  case True
  have "(\<lambda>m. (member_organization m, member_user m)) \<circ> (\<lambda>m. if is_member o' u m then m\<lparr>member_role := r\<rparr> else m) =
      (\<lambda>m. (member_organization m, member_user m))" by (rule ext) simp
  then show ?thesis using True assms by (simp add: saved_rows)
next
  case False
  then have "(o', u) \<notin> set (map (\<lambda>m. (member_organization m, member_user m)) (membership_rows s))"
    unfolding list_ex_iff is_member_def by force
  then show ?thesis using False assms by (simp add: saved_rows)
qed

lemma saved_still_owned:
  assumes "still_owned s o'" "getMembership s k u = Some m" "member_role m = Owner \<longrightarrow> r = Owner \<or> length (owners_of s k) > 1"
  shows "still_owned (saveMembership k u r stamp s) o'"
proof -
  note d = conjunct1 [OF assms(1) [unfolded still_owned_def]]
  have m: "m \<in> set (membership_rows s)" "member_organization m = k" "member_user m = u"
    using getMembership_row [OF assms(2)] by auto
  then have ex: "list_ex (is_member k u) (membership_rows s)" by (auto simp: list_ex_iff is_member_def)
  have "\<exists>x \<in> set (owners_of s o'). \<not> is_member k u x \<or> r = Owner"
  proof (cases "\<exists>x \<in> set (owners_of s o'). \<not> is_member k u x")
    case False
    obtain x where x: "x \<in> set (owners_of s o')" using assms(1) by (cases "owners_of s o'") (auto simp: still_owned_def)
    then have "is_member k u x" using False by blast
    then have "k = o'" "x = m"
      using x key_unique [OF d, of x m] m owners_of_member [of x s o'] by (auto simp: is_member_def)
    then have "r = Owner"
      using assms(3) x owners_of_member [of x s o'] other_owner [OF d, of o' u] False by (auto simp: is_member_def)
    then show ?thesis using x by blast
  qed blast
  then obtain x where x: "x \<in> set (owners_of s o')" "\<not> is_member k u x \<or> r = Owner" by blast
  then have "(if is_member k u x then x\<lparr>member_role := r\<rparr> else x) \<in> set (owners_of (saveMembership k u r stamp s) o')"
    using ex owners_of_member [of x s o'] by (auto simp: owners_of_member saveMembership_def)
  then show ?thesis using save_keeps_keys [OF d] by (auto simp: still_owned_def)
qed

lemma removed_still_owned:
  assumes "still_owned s o'" "getMembership s k u = Some m" "member_role m = Owner \<longrightarrow> length (owners_of s k) > 1"
  shows "still_owned (removeMembership k u s) o'"
proof -
  note d = conjunct1 [OF assms(1) [unfolded still_owned_def]]
  have m: "m \<in> set (membership_rows s)" "member_organization m = k" "member_user m = u"
    using getMembership_row [OF assms(2)] by auto
  obtain x where x: "x \<in> set (owners_of s o')" "\<not> is_member k u x"
  proof (cases "\<exists>x \<in> set (owners_of s o'). \<not> is_member k u x")
    case False
    obtain y where y: "y \<in> set (owners_of s o')" using assms(1) by (cases "owners_of s o'") (auto simp: still_owned_def)
    then have "k = o'" "y = m"
      using False key_unique [OF d, of y m] m owners_of_member [of y s o'] by (auto simp: is_member_def)
    then have "length (owners_of s o') > 1" using assms(3) y owners_of_member [of y s o'] by simp
    then show ?thesis using other_owner [OF d, of o' u] False by (auto simp: is_member_def)
  qed blast
  then have "x \<in> set (owners_of (removeMembership k u s) o')"
    by (auto simp: owners_of_member removeMembership_def)
  then show ?thesis using d by (auto simp: still_owned_def removeMembership_def distinct_map_filter)
qed

definition adds_no_member :: "access_store \<Rightarrow> credential \<Rightarrow> access_request \<Rightarrow> bool" where
  "adds_no_member s c q \<longleftrightarrow> (case q of PostMember _ _ _ _ _ \<Rightarrow> False | _ \<Rightarrow> True)"

lemma serve_still_owned:
  assumes "still_owned s o' \<and> scoped_invitations s" "adds_no_member s c q"
  shows "still_owned (snd (serve d digest usual s c q)) o' \<and> scoped_invitations (snd (serve d digest usual s c q))"
proof -
  let ?t = "snd (serve d digest usual s c q)"
  note e = serve_effect [where d = d and digest = digest and usual = usual and c = c and q = q,
      OF conjunct2 [OF assms(1)] refl]
  consider (saved) p where "saved_by s p q ?t" | (removed) "removed_by s ?t" |
    (same) "membership_rows ?t = membership_rows s" using e by blast
  then have "still_owned ?t o'"
  proof cases
    case saved
    then show ?thesis
      using assms saved_still_owned unfolding saved_by_def by (auto simp: adds_no_member_def)
  next
    case removed
    then show ?thesis using assms removed_still_owned unfolding removed_by_def by auto
  next
    case same
    then show ?thesis using assms(1) by (simp add: still_owned_def owners_of_def listMemberships_def)
  qed
  then show ?thesis using e by blast
qed

end
