(* ===== verification/Access_Reach.thy ===== *)
theory Access_Reach
  imports Access_Runs
begin

text \<open>
  What the gateway lists for a caller against what its checks let through.
\<close>

definition account_of :: "access_store \<Rightarrow> principal \<Rightarrow> user_account \<Rightarrow> bool" where
  "account_of s p u \<longleftrightarrow> p_user p = publicUser u \<and> p_memberships p = membershipsFor s u"

lemma authenticated_account_of: "authenticated d digest s c = Inr p \<Longrightarrow> \<exists>u. account_of s p u"
  using authenticated_account by (fastforce simp: account_of_def)

lemma entitled_None [simp]: "entitledRole d s p x r = None \<longleftrightarrow> r = None"
  by (auto simp: entitledRole_def split: option.splits)

lemma higher_None [simp]: "higherRole a b = None \<longleftrightarrow> a = None \<and> b = None"
  by (cases a; cases b) auto

lemma member_of_organization:
  assumes "account_of s p u" "x \<in> set (organization_rows s)"
  shows "roleFor p (org_id x) \<noteq> None \<longleftrightarrow> user_systemAdmin u \<or> getMembership s (org_id x) (user_id u) \<noteq> None"
proof (cases "user_systemAdmin u")
  case True
  then show ?thesis using assms(1) by (simp add: roleFor_def account_of_def publicUser_def)
next
  case False
  have "(\<exists>m \<in> set (membershipsFor s u). member_organization m = org_id x) \<longleftrightarrow> getMembership s (org_id x) (user_id u) \<noteq> None"
    (is "?l \<longleftrightarrow> ?r")
  proof
    assume ?l
    then obtain m and y :: organization where "getMembership s (org_id y) (user_id u) = Some m" "member_organization m = org_id x"
      using False by (auto simp: membershipsFor_def map_filter_member)
    moreover then have "org_id y = org_id x" by (auto dest: getMembership_row)
    ultimately show ?r by simp
  next
    assume ?r
    then obtain m where m: "getMembership s (org_id x) (user_id u) = Some m" by blast
    then have "m \<in> set (membershipsFor s u)"
      using False assms(2) by (auto simp: membershipsFor_def map_filter_member listOrganizations_def)
    then show ?l using getMembership_row [OF m] by blast
  qed
  moreover have "roleFor p (org_id x) \<noteq> None \<longleftrightarrow> (\<exists>m \<in> set (membershipsFor s u). member_organization m = org_id x)"
    using False assms(1) by (auto simp: roleFor_def account_of_def publicUser_def find_None_iff)
  ultimately show ?thesis using False by simp
qed

lemma no_role:
  "reach_of d s p o' x = None \<longleftrightarrow> roleFor p o' = None \<and> grantsInOrganization s p o' = []"
  "project_role d s p j x = None \<longleftrightarrow> roleFor p (project_organization j) = None \<and> grantsInProject s p j = []"
  "repository_role d s p j r x = None \<longleftrightarrow>
     roleFor p (project_organization j) = None \<and> repository_grant_of s p j r = None"
proof -
  show "reach_of d s p o' x = None \<longleftrightarrow> roleFor p o' = None \<and> grantsInOrganization s p o' = []"
    by (cases "roleFor p o'") (auto simp: reach_of_def simp del: not_None_eq)
  show "project_role d s p j x = None \<longleftrightarrow> roleFor p (project_organization j) = None \<and> grantsInProject s p j = []"
    by (cases "roleFor p (project_organization j)")
      (auto simp: project_role_def project_grants_def simp del: not_None_eq)
  show "repository_role d s p j r x = None \<longleftrightarrow>
      roleFor p (project_organization j) = None \<and> repository_grant_of s p j r = None"
    by (cases "repository_grant_of s p j r"; cases "roleFor p (project_organization j)")
      (simp_all add: repository_role_def Let_def del: not_None_eq)
qed

lemma reach_of_Some:
  "reach_of d s p o' x \<noteq> None \<longleftrightarrow> roleFor p o' \<noteq> None \<or> grantsInOrganization s p o' \<noteq> []"
  unfolding no_role by simp

lemma reachable_iff:
  assumes "account_of s p u"
  shows "x \<in> set (reachableOrganizations s p) \<longleftrightarrow>
    x \<in> set (organization_rows s) \<and> (roleFor p (org_id x) \<noteq> None \<or> grantsInOrganization s p (org_id x) \<noteq> [])"
proof (cases "x \<in> set (organization_rows s)")
  case False
  then show ?thesis by (auto simp: reachableOrganizations_def listOrganizations_def Let_def)
next
  case True
  let ?gs = "listGrantsForUser s (user_id u)"
  have u: "pub_id (p_user p) = user_id u" "pub_systemAdmin (p_user p) = user_systemAdmin u"
    using assms by (simp_all add: account_of_def publicUser_def)
  have g: "grantsInOrganization s p (org_id x) \<noteq> [] \<longleftrightarrow> list_ex (some_granted s ?gs) (listProjects s (org_id x))"
    by (simp add: grantsInOrganization_empty u)
  have e: "?gs = [] \<Longrightarrow> \<not> list_ex (some_granted s ?gs) (listProjects s (org_id x))"
    by (auto simp: list_ex_iff some_granted_def)
  show ?thesis
    using True e unfolding g member_of_organization [OF assms True]
    by (auto simp: reachableOrganizations_def listOrganizations_def Let_def u)
qed

lemma row_of_key:
  "distinct (map org_id (organization_rows s)) \<Longrightarrow> x \<in> set (organization_rows s) \<Longrightarrow> getOrganization s (org_id x) = Some x"
  "distinct (map project_id (project_rows s)) \<Longrightarrow> j \<in> set (project_rows s) \<Longrightarrow> getProject s (project_id j) = Some j"
  by (simp_all add: getOrganization_def getProject_def find_key)

lemma row_found:
  "getOrganization s i = Some x \<Longrightarrow> x \<in> set (organization_rows s) \<and> org_id x = i"
  "getProject s i = Some j \<Longrightarrow> j \<in> set (project_rows s) \<and> project_id j = i"
  by (auto simp: getOrganization_def getProject_def dest: find_SomeD)

section \<open>What is listed opens\<close>

lemma listed_organizations:
  assumes "account_of s p u" "distinct (map org_id (organization_rows s))" "p_token p = None"
  shows "x \<in> set (reachableOrganizations s p) \<longleftrightarrow>
    (\<exists>a. authorizeOrganizationOrGrant d s p (org_id x) View = Inr a \<and> reach_organization a = x)"
proof -
  have t: "token_admits p o'" "token_allows p q" for o' q using assms(3) by (simp_all add: token_admits_def token_allows_def)
  have "(\<exists>a. authorizeOrganizationOrGrant d s p (org_id x) View = Inr a \<and> reach_organization a = x) \<longleftrightarrow>
      getOrganization s (org_id x) = Some x \<and> reach_of d s p (org_id x) x \<noteq> None" (is "?l \<longleftrightarrow> ?r")
  proof
    assume ?r
    then obtain r where "reach_of d s p (org_id x) x = Some r" "getOrganization s (org_id x) = Some x" by blast
    then have "authorizeOrganizationOrGrant d s p (org_id x) View =
        Inr \<lparr>reach_organization = x, reach_role = r, reach_repositories =
          (if roleFor p (org_id x) = None then Some (set (map grant_repository (grantsInOrganization s p (org_id x)))) else None)\<rparr>"
      by (simp add: authorizeOrganizationOrGrant_Inr t)
    then show ?l by simp
  qed (auto simp: authorizeOrganizationOrGrant_Inr)
  then show ?thesis
    unfolding reachable_iff [OF assms(1)] reach_of_Some using row_of_key(1) [OF assms(2)] row_found(1) by blast
qed

lemma project_open:
  "(\<exists>a. authorizeProject d s p (project_id j) View = Inr a \<and> ap_project a = j \<and> ap_repositories a = rs) \<longleftrightarrow>
     getProject s (project_id j) = Some j \<and> token_admits p (project_organization j) \<and> token_allows p View \<and>
     getOrganization s (project_organization j) \<noteq> None \<and>
     (roleFor p (project_organization j) \<noteq> None \<or> grantsInProject s p j \<noteq> []) \<and>
     rs = (if roleFor p (project_organization j) = None then Some (set (map grant_repository (grantsInProject s p j))) else None)"
  (is "?l \<longleftrightarrow> ?r")
proof
  assume ?r
  then obtain x where x: "getOrganization s (project_organization j) = Some x" by blast
  have "project_role d s p j x \<noteq> None" using \<open>?r\<close> unfolding no_role by simp
  then obtain r where r: "project_role d s p j x = Some r" by blast
  have "authorizeProject d s p (project_id j) View =
      Inr \<lparr>ap_project = j, ap_organization = x, ap_role = r, ap_repositories = rs\<rparr>"
    using \<open>?r\<close> x r by (simp add: authorizeProject_Inr project_grants_def)
  then show ?l by simp
next
  assume ?l
  then obtain a where a: "authorizeProject d s p (project_id j) View = Inr a" "ap_project a = j" "ap_repositories a = rs" by blast
  have "project_role d s p j (ap_organization a) \<noteq> None" using a by (auto simp: authorizeProject_Inr)
  then have "roleFor p (project_organization j) \<noteq> None \<or> grantsInProject s p j \<noteq> []"
    unfolding no_role by simp
  then show ?r using a by (auto simp: authorizeProject_Inr project_grants_def)
qed

lemma repository_open:
  "(\<exists>a. authorizeRepository d s p (project_id j) r View = Inr a \<and> ap_project a = j) \<longleftrightarrow>
     getProject s (project_id j) = Some j \<and> token_admits p (project_organization j) \<and> token_allows p View \<and>
     getOrganization s (project_organization j) \<noteq> None \<and>
     (roleFor p (project_organization j) \<noteq> None \<or> r \<in> grant_repository ` set (grantsInProject s p j))"
  (is "?l \<longleftrightarrow> ?r")
proof
  have g: "roleFor p (project_organization j) = None \<Longrightarrow>
      repository_grant_of s p j r \<noteq> None \<longleftrightarrow> r \<in> grant_repository ` set (grantsInProject s p j)"
    by (auto simp: repository_grant_of_def repository_grants_def find_None_iff)
  {
    assume ?r
    then obtain x where x: "getOrganization s (project_organization j) = Some x" by blast
    have "repository_role d s p j r x \<noteq> None"
      using \<open>?r\<close> g unfolding no_role by (cases "roleFor p (project_organization j)") auto
    then obtain role' where "repository_role d s p j r x = Some role'" by blast
    then have "authorizeRepository d s p (project_id j) r View =
        Inr \<lparr>ap_project = j, ap_organization = x, ap_role = role',
             ap_repositories = (if roleFor p (project_organization j) = None then Some {r} else None)\<rparr>"
      using \<open>?r\<close> x g by (auto simp: authorizeRepository_Inr)
    then show ?l by simp
  next
    assume ?l
    then obtain a where a: "authorizeRepository d s p (project_id j) r View = Inr a" "ap_project a = j" by blast
    then show ?r using g by (auto simp: authorizeRepository_Inr)
  }
qed

lemma project_grants_reach:
  assumes "g \<in> set (grantsInProject s p j)" "j \<in> set (listProjects s o')"
  shows "grantsInOrganization s p o' \<noteq> []"
proof -
  have "g \<in> set (listGrantsForUser s (pub_id (p_user p)))" "grant_repository g \<in> repo_id ` set (listProjectRepositories s (project_id j))"
    using assms(1) by (auto simp: grantsInProject_iff listGrantsForUser_def)
  then obtain r where "g \<in> set (listGrantsForUser s (pub_id (p_user p)))" "r \<in> set (listProjectRepositories s (project_id j))"
    "grant_repository g = repo_id r" by blast
  then have "some_granted s (listGrantsForUser s (pub_id (p_user p))) j"
    by (auto simp: some_granted_def list_ex_iff intro!: bexI [of _ r]) (metis image_eqI)
  then show ?thesis using assms(2) by (auto simp: grantsInOrganization_empty list_ex_iff)
qed

lemma mcpReachable_member:
  "(i, r) \<in> set (mcpReachable d s p) \<longleftrightarrow>
     (\<exists>x \<in> set (reachableOrganizations s p). \<exists>j \<in> set (listProjects s (org_id x)). project_id j = i \<and>
        (\<exists>a. authorizeProject d s p i View = Inr a \<and> r \<in> set (listProjectRepositories s i) \<and>
           (case ap_repositories a of None \<Rightarrow> True | Some rs \<Rightarrow> repo_id r \<in> rs)))"
proof -
  have v: "(i, r) \<in> set (visible_in_project d s p j) \<longleftrightarrow>
    project_id j = i \<and>
      (\<exists>a. authorizeProject d s p i View = Inr a \<and> r \<in> set (listProjectRepositories s i) \<and>
         (case ap_repositories a of None \<Rightarrow> True | Some rs \<Rightarrow> repo_id r \<in> rs))" for j
  proof (cases "authorizeProject d s p (project_id j) View")
    case (Inr a)
    then show ?thesis by (cases "ap_repositories a") (auto simp: visible_in_project_def)
  qed (auto simp: visible_in_project_def)
  show ?thesis by (simp add: mcpReachable_def v)
qed

lemma listed_repositories:
  assumes "account_of s p u" "distinct (map org_id (organization_rows s))" "distinct (map project_id (project_rows s))"
  shows "(i, r) \<in> set (mcpReachable d s p) \<longleftrightarrow>
    r \<in> set (listProjectRepositories s i) \<and> (\<exists>a. authorizeRepository d s p i (repo_id r) View = Inr a)"
proof
  assume "(i, r) \<in> set (mcpReachable d s p)"
  then obtain j a where a: "project_id j = i" "authorizeProject d s p i View = Inr a" "j \<in> set (project_rows s)"
    "r \<in> set (listProjectRepositories s i)" "case ap_repositories a of None \<Rightarrow> True | Some rs \<Rightarrow> repo_id r \<in> rs"
    unfolding mcpReachable_member listProjects_def by auto
  have "ap_project a = j" using a(1-3) row_of_key(2) [OF assms(3)] by (auto simp: authorizeProject_Inr)
  then have o': "getProject s (project_id j) = Some j" "token_admits p (project_organization j)" "token_allows p View"
    "getOrganization s (project_organization j) \<noteq> None"
    "ap_repositories a = (if roleFor p (project_organization j) = None
       then Some (set (map grant_repository (grantsInProject s p j))) else None)"
    using project_open [of d s p j "ap_repositories a"] a(1,2) by blast+
  have "roleFor p (project_organization j) \<noteq> None \<or> repo_id r \<in> grant_repository ` set (grantsInProject s p j)"
    using a(5) o'(5) by (cases "roleFor p (project_organization j)") auto
  then have "\<exists>b. authorizeRepository d s p (project_id j) (repo_id r) View = Inr b \<and> ap_project b = j"
    using o' repository_open [of d s p j "repo_id r"] by blast
  then show "r \<in> set (listProjectRepositories s i) \<and> (\<exists>a. authorizeRepository d s p i (repo_id r) View = Inr a)"
    using a(1,4) by blast
next
  assume *: "r \<in> set (listProjectRepositories s i) \<and> (\<exists>a. authorizeRepository d s p i (repo_id r) View = Inr a)"
  then obtain b where b: "authorizeRepository d s p i (repo_id r) View = Inr b" by blast
  define j where "j = ap_project b"
  have j: "getProject s i = Some j" using b by (simp add: authorizeRepository_Inr j_def)
  then have i: "project_id j = i" "j \<in> set (project_rows s)" using row_found(2) [of s i j] by auto
  then have o': "token_admits p (project_organization j)" "token_allows p View"
    "getOrganization s (project_organization j) \<noteq> None"
    "roleFor p (project_organization j) \<noteq> None \<or> repo_id r \<in> grant_repository ` set (grantsInProject s p j)"
    using repository_open [of d s p j "repo_id r"] b j_def by blast+
  obtain x where x: "getOrganization s (project_organization j) = Some x" using o'(3) by blast
  have org: "x \<in> set (organization_rows s)" "org_id x = project_organization j" using row_found(1) [OF x] by auto
  have l: "j \<in> set (listProjects s (org_id x))" using i(2) org(2) by (simp add: listProjects_def)
  have "x \<in> set (reachableOrganizations s p)"
    using reachable_iff [OF assms(1), of x] org o'(4) project_grants_reach [OF _ l] by auto
  moreover have "\<exists>a. authorizeProject d s p (project_id j) View = Inr a \<and> ap_project a = j \<and> ap_repositories a =
      (if roleFor p (project_organization j) = None then Some (set (map grant_repository (grantsInProject s p j))) else None)"
    unfolding project_open using o' i j x by auto
  then obtain a where "authorizeProject d s p i View = Inr a" "ap_repositories a =
      (if roleFor p (project_organization j) = None then Some (set (map grant_repository (grantsInProject s p j))) else None)"
    using i(1) by blast
  moreover have "case ap_repositories a of None \<Rightarrow> True | Some rs \<Rightarrow> repo_id r \<in> rs"
    using o'(4) calculation(3) by (cases "roleFor p (project_organization j)") auto
  ultimately show "(i, r) \<in> set (mcpReachable d s p)" unfolding mcpReachable_member using * l i(1) by blast
qed

section \<open>A lapsed organization\<close>

lemma viewing: "role' \<in> {None, Some Viewer} \<Longrightarrow> role' = Some r \<Longrightarrow> q \<in> set (ROLE_PERMISSIONS r) \<Longrightarrow> q = View"
  by auto

lemma lapsed_roles:
  assumes "\<not> subscriptionAllowsWork d (getSubscription s o')" "\<not> pub_systemAdmin (p_user p)"
    "grant_comped ` set (listGrantsForUser s (pub_id (p_user p))) \<subseteq> {False}" "getOrganization s o' = Some x"
  shows "entitledRole d s p x role' \<in> {None, Some Viewer}" "reach_of d s p k x \<in> {None, Some Viewer}"
    "project_role d s p j x \<in> {None, Some Viewer}" "repository_role d s p j r x \<in> {None, Some Viewer}"
proof -
  have e: "entitledRole d s p x role' \<in> {None, Some Viewer}" for role'
    using assms(1,2) row_found(1) [OF assms(4)]
    by (auto simp: entitledRole_def effectiveRole_def split: option.splits)
  have nc: "\<not> grant_comped g" if "g \<in> set (listGrantsForUser s (pub_id (p_user p)))" for g using assms(3) that by blast
  have "g \<in> set (listGrantsForUser s (pub_id (p_user p)))" if "g \<in> set (grantsInOrganization s p k)" for g
    using that unfolding grantsInOrganization_iff by (blast dest: held_grant_Some)
  then have o': "filter grant_comped (grantsInOrganization s p k) = []"
    unfolding filter_empty_conv using nc by blast
  have m: "set (grantsInProject s p j) \<subseteq> set (listGrantsForUser s (pub_id (p_user p)))"
    by (auto simp: grantsInProject_iff listGrantsForUser_def)
  have j: "filter grant_comped (project_grants s p j) = []"
    unfolding filter_empty_conv project_grants_def using m nc by auto
  show "entitledRole d s p x role' \<in> {None, Some Viewer}" by (rule e)
  show "reach_of d s p k x \<in> {None, Some Viewer}" unfolding reach_of_def o' highest_grant_def using e by simp
  show "project_role d s p j x \<in> {None, Some Viewer}"
    using e [of "higherRole (roleFor p (project_organization j)) (highest_grant (project_grants s p j))"]
    unfolding project_role_def j by (simp add: highest_grant_def [of "[]"])
  have "set (repository_grants s p j) \<subseteq> set (listGrantsForUser s (pub_id (p_user p)))"
    using m by (simp add: repository_grants_def)
  then have "map_option grant_comped (repository_grant_of s p j r) \<noteq> Some True"
    using nc by (auto simp: repository_grant_of_def dest: find_SomeD)
  then have "repository_role d s p j r x =
      entitledRole d s p x (higherRole (roleFor p (project_organization j)) (map_option grant_role (repository_grant_of s p j r)))"
    unfolding repository_role_def Let_def by (rule if_not_P)
  then show "repository_role d s p j r x \<in> {None, Some Viewer}" by (simp only: e)
qed

section \<open>Refusals\<close>

lemma highest_permission:
  "highest_grant gs = Some r \<Longrightarrow> q \<in> set (ROLE_PERMISSIONS r) \<longleftrightarrow> (\<exists>g \<in> set gs. q \<in> set (ROLE_PERMISSIONS (grant_role g)))"
  using highest_grant_member [of gs r] highest_grant_bound [of gs r] permissions_mono by blast

lemma authorizeOrganizationOrGrant_alt:
  "authorizeOrganizationOrGrant d s p o' q =
     res_bind (assertTokenOrganization p o') (\<lambda>_.
     res_bind (found_organization s o') (\<lambda>x.
     res_bind (assertPermission (reach_of d s p o' x) q) (\<lambda>r.
     res_bind (assertTokenScope p q) (\<lambda>_.
       Inr \<lparr>reach_organization = x, reach_role = r, reach_repositories =
         (if roleFor p o' = None then Some (set (map grant_repository (grantsInOrganization s p o'))) else None)\<rparr>))))"
  by (cases "roleFor p o'") (simp_all add: authorizeOrganizationOrGrant_def reach_of_def Let_def)

lemma not_forbidden [simp]:
  "assertTokenOrganization p o' \<noteq> Inl Forbidden" "found_organization s o' \<noteq> Inl Forbidden"
  "assertTokenScope p q \<noteq> Inl Forbidden"
  by (auto simp: assertTokenOrganization_def found_organization_def assertTokenScope_def split: option.splits)

lemma assertPermission_Forbidden:
  "assertPermission role' q = Inl Forbidden \<longleftrightarrow> (\<forall>r. role' = Some r \<longrightarrow> q \<notin> set (ROLE_PERMISSIONS r))"
  by (auto simp: assertPermission_def split: option.splits)

lemma refused_reach:
  assumes "authorizeOrganizationOrGrant d s p o' q = Inl Forbidden"
  shows "\<exists>x. getOrganization s o' = Some x \<and> (\<forall>r. reach_of d s p o' x = Some r \<longrightarrow> q \<notin> set (ROLE_PERMISSIONS r))"
  using assms unfolding authorizeOrganizationOrGrant_alt by (auto simp: res_bind_eq_Inl_conv assertPermission_Forbidden)

text \<open>What a caller holds in an organization, with nothing folded.\<close>

definition holds :: "access_store \<Rightarrow> principal \<Rightarrow> string \<Rightarrow> permission \<Rightarrow> bool" where
  "holds s p o' q \<longleftrightarrow>
     (case roleFor p o' of None \<Rightarrow> False | Some r \<Rightarrow> q \<in> set (ROLE_PERMISSIONS r)) \<or>
     list_ex (\<lambda>g. q \<in> set (ROLE_PERMISSIONS (grant_role g))) (grantsInOrganization s p o')"

lemma stored_holds:
  "(case higherRole (roleFor p o') (highest_grant (grantsInOrganization s p o')) of
      None \<Rightarrow> False | Some r \<Rightarrow> q \<in> set (ROLE_PERMISSIONS r)) \<longleftrightarrow> holds s p o' q"
proof (cases "highest_grant (grantsInOrganization s p o')")
  case None
  then show ?thesis by (simp add: holds_def)
next
  case (Some r)
  then show ?thesis
    using highest_permission [OF Some, of q]
    by (cases "roleFor p o'") (auto simp: holds_def list_ex_iff permission_of_max)
qed

lemma explained_standing: "explainOrganizationRefusal s p o' q = NoStanding \<longleftrightarrow> \<not> holds s p o' q"
  unfolding stored_holds [symmetric] explainOrganizationRefusal_def by (auto simp: Let_def split: option.splits)

lemma refused_though_held:
  assumes "authorizeOrganizationOrGrant d s p o' q = Inl Forbidden" "holds s p o' q"
    "case roleFor p o' of None \<Rightarrow> True | Some r \<Rightarrow> q \<in> set (ROLE_PERMISSIONS r)"
  shows "\<not> subscriptionAllowsWork d (getSubscription s o')"
proof
  assume w: "subscriptionAllowsWork d (getSubscription s o')"
  obtain x where x: "getOrganization s o' = Some x" "\<forall>r. reach_of d s p o' x = Some r \<longrightarrow> q \<notin> set (ROLE_PERMISSIONS r)"
    using refused_reach [OF assms(1)] by blast
  have e: "entitledRole d s p x r = r" for r
    using w row_found(1) [OF x(1)] by (auto simp: entitledRole_def effectiveRole_def split: option.splits)
  let ?base = "case roleFor p o' of None \<Rightarrow> highest_grant (grantsInOrganization s p o') | Some r \<Rightarrow> Some r"
  have "\<exists>r. ?base = Some r \<and> q \<in> set (ROLE_PERMISSIONS r)"
  proof (cases "roleFor p o'")
    case None
    then obtain g where g: "g \<in> set (grantsInOrganization s p o')" "q \<in> set (ROLE_PERMISSIONS (grant_role g))"
      using assms(2) by (auto simp: holds_def list_ex_iff)
    then obtain r where "highest_grant (grantsInOrganization s p o') = Some r"
      by (cases "highest_grant (grantsInOrganization s p o')") auto
    then show ?thesis using None g highest_permission by auto
  qed (use assms(3) in auto)
  then obtain r where "?base = Some r" "q \<in> set (ROLE_PERMISSIONS r)" by blast
  then have "\<exists>b. reach_of d s p o' x = Some b \<and> q \<in> set (ROLE_PERMISSIONS b)"
    unfolding reach_of_def e
    by (cases "highest_grant (filter grant_comped (grantsInOrganization s p o'))") (auto simp: permission_of_max)
  then show False using x(2) by blast
qed

end
