(* ===== verification/Access_Tokens.thy ===== *)
theory Access_Tokens
  imports Access_Runs
begin

text \<open>
  Tokens that mint tokens: every run keeps the chain one link long, a minted token within the scopes of
  its parent, and revoked with it.
\<close>

definition minted_within :: "api_token \<Rightarrow> api_token \<Rightarrow> bool" where
  "minted_within parent t \<longleftrightarrow>
     tok_byToken parent = None \<and> set (tok_scopes t) \<subseteq> set (tok_scopes parent) \<and> (tok_revoked parent \<longrightarrow> tok_revoked t)"

definition tokens_ok :: "api_token list \<Rightarrow> bool" where
  "tokens_ok ts \<longleftrightarrow> distinct (map tok_id ts) \<and>
     (\<forall>t \<in> set ts. \<forall>i. tok_byToken t = Some i \<longrightarrow> (\<exists>parent \<in> set ts. tok_id parent = i \<and> minted_within parent t))"

definition token_by_id :: "api_token list \<Rightarrow> string \<Rightarrow> api_token option" where
  "token_by_id ts i = find (\<lambda>t. tok_id t = i) ts"

lemma getApiToken_rows: "getApiToken s i = token_by_id (token_rows s) i"
  by (simp add: getApiToken_def token_by_id_def)

lemma token_by_id_unique:
  assumes "distinct (map tok_id ts)" "t \<in> set ts"
  shows "token_by_id ts (tok_id t) = Some t"
  using assms by (simp add: token_by_id_def find_key)

lemma token_by_id_Some: "token_by_id ts i = Some t \<Longrightarrow> t \<in> set ts \<and> tok_id t = i"
  by (auto simp: token_by_id_def dest: find_SomeD)

lemma token_by_id_None: "token_by_id ts i = None \<longleftrightarrow> i \<notin> tok_id ` set ts"
  by (auto simp: token_by_id_def find_None_iff)

lemma tokens_ok_issue:
  assumes "tokens_ok ts" "token_by_id ts (tok_id t) = None"
    and "\<And>i. tok_byToken t = Some i \<Longrightarrow> \<exists>parent \<in> set ts. tok_id parent = i \<and> minted_within parent t"
  shows "tokens_ok (ts @ [t])"
proof -
  have "distinct (map tok_id (ts @ [t]))" using assms(1,2) by (auto simp: tokens_ok_def token_by_id_None)
  moreover have "\<exists>parent \<in> set (ts @ [t]). tok_id parent = i \<and> minted_within parent x"
    if "x \<in> set (ts @ [t])" "tok_byToken x = Some i" for x i
    using that assms(1,3) unfolding tokens_ok_def by auto
  ultimately show ?thesis unfolding tokens_ok_def by blast
qed

definition revoked_with :: "string \<Rightarrow> api_token \<Rightarrow> api_token" where
  "revoked_with i x =
     (if (tok_id x = i \<or> tok_byToken x = Some i) \<and> \<not> tok_revoked x then x\<lparr>tok_revoked := True\<rparr> else x)"

lemma revoked_with_simps [simp]:
  "tok_id (revoked_with i x) = tok_id x" "tok_byToken (revoked_with i x) = tok_byToken x"
  "tok_scopes (revoked_with i x) = tok_scopes x"
  "tok_revoked (revoked_with i x) \<longleftrightarrow> tok_revoked x \<or> tok_id x = i \<or> tok_byToken x = Some i"
  by (auto simp: revoked_with_def)

lemma tokens_ok_revoke:
  assumes "tokens_ok ts"
  shows "tokens_ok (map (revoked_with i) ts)"
proof -
  have "map tok_id (map (revoked_with i) ts) = map tok_id ts" by simp
  moreover have "\<exists>parent \<in> set (map (revoked_with i) ts). tok_id parent = k \<and> minted_within parent (revoked_with i t)"
    if t: "t \<in> set ts" "tok_byToken t = Some k" for t k
  proof -
    obtain parent where "parent \<in> set ts" "tok_id parent = k" "minted_within parent t"
      using assms t unfolding tokens_ok_def by blast
    then have "revoked_with i parent \<in> set (map (revoked_with i) ts)" "tok_id (revoked_with i parent) = k"
      "minted_within (revoked_with i parent) (revoked_with i t)"
      using t(2) by (auto simp: minted_within_def)
    then show ?thesis by blast
  qed
  ultimately show ?thesis using assms unfolding tokens_ok_def by (auto simp: comp_def)
qed

definition fresh_tokens :: "access_store \<Rightarrow> credential \<Rightarrow> access_request \<Rightarrow> bool" where
  "fresh_tokens s c q \<longleftrightarrow> (case q of PostToken _ i _ \<Rightarrow> getApiToken s i = None | _ \<Rightarrow> True)"

lemma minting_token_row:
  assumes "authenticated d digest s c = Inr p" "minting_token p = Some x"
  shows "\<exists>t. token_by_id (token_rows s) (token_id x) = Some t \<and> \<not> tok_revoked t \<and> token_scopes x = tok_scopes t"
proof (cases c)
  case NoCredential
  then show ?thesis using assms by (simp add: authenticated_def)
next
  case (SessionOf u)
  then have "p_credential p = SessionCredential"
    using assms(1) by (auto simp: authenticated_def authenticate_def split: option.splits if_splits)
  then show ?thesis using assms(2) by (simp add: minting_token_def)
next
  case (BearerToken i secret)
  then have "authenticateToken digest (dep_now d) s i secret = Inr p" using assms(1) by (simp add: authenticated_def)
  from authenticateToken_Inr [OF this] obtain t where t: "getApiToken s i = Some t" "\<not> tok_revoked t"
    "p_token p = Some \<lparr>token_id = tok_id t, token_scopes = tok_scopes t, token_organization = tok_organization t\<rparr>" by blast
  have "tok_id t = i" using t(1) by (simp add: getApiToken_rows token_by_id_Some)
  then show ?thesis using t assms(2) by (auto simp: minting_token_def getApiToken_rows split: if_splits)
qed

lemma handle_other_tokens:
  assumes "handle_request d digest usual s p q = Inr s'"
    and "\<And>body i secret. q \<noteq> PostToken body i secret" "\<And>i. q \<noteq> DeleteToken i"
  shows "token_rows s' = token_rows s"
  using assms
  by (cases q)
    (auto simp: handle_request_def dest!: post_member_effect patch_member_effect delete_member_effect post_grant_effect
      delete_grant_effect post_invitation_effect delete_invitation_effect)

lemma handle_tokens_ok:
  assumes "handle_request d digest usual s p q = Inr s'" "authenticated d digest s c = Inr p"
    "tokens_ok (token_rows s)" "fresh_tokens s c q"
  shows "tokens_ok (token_rows s')"
proof -
  consider (post) body i secret where "q = PostToken body i secret" | (delete) i where "q = DeleteToken i" |
    (other) "\<And>body i secret. q \<noteq> PostToken body i secret" "\<And>i. q \<noteq> DeleteToken i" by blast
  then show ?thesis
  proof cases
    case post
    then have "post_token d digest usual s p body i secret = Inr s'" using assms(1) by (simp add: handle_request_def)
    from post_token_effect [OF this] obtain t where t: "s' = s\<lparr>token_rows := token_rows s @ [t]\<rparr>" "tok_id t = i"
      "\<not> tok_revoked t" "tok_byToken t = map_option token_id (minting_token p)"
      "\<forall>x. minting_token p = Some x \<longrightarrow> set (tok_scopes t) \<subseteq> set (token_scopes x) \<and>
         Option.bind (getApiToken s (token_id x)) tok_byToken = None" by blast
    have "tokens_ok (token_rows s @ [t])"
    proof (rule tokens_ok_issue [OF assms(3)])
      show "token_by_id (token_rows s) (tok_id t) = None"
        using assms(4) post t(2) by (simp add: fresh_tokens_def getApiToken_rows)
    next
      fix k assume "tok_byToken t = Some k"
      then obtain x where x: "minting_token p = Some x" "token_id x = k" using t(4) by auto
      obtain parent where "token_by_id (token_rows s) k = Some parent" "\<not> tok_revoked parent"
        "token_scopes x = tok_scopes parent" using minting_token_row [OF assms(2) x(1)] x(2) by auto
      then show "\<exists>parent \<in> set (token_rows s). tok_id parent = k \<and> minted_within parent t"
        using t(5) x token_by_id_Some [of "token_rows s" k parent]
        by (auto simp: minted_within_def getApiToken_rows)
    qed
    then show ?thesis by (simp add: t(1))
  next
    case delete
    then have "token_rows s' = map (revoked_with i) (token_rows s)"
      using assms(1) by (auto simp: handle_request_def revoked_with_def dest: delete_token_effect)
    then show ?thesis using tokens_ok_revoke [OF assms(3)] by simp
  next
    case other
    then show ?thesis using handle_other_tokens [OF assms(1)] assms(3) by simp
  qed
qed

lemma serve_tokens_ok:
  assumes "tokens_ok (token_rows s) \<and> scoped_invitations s" "fresh_tokens s c q"
  shows "tokens_ok (token_rows (snd (serve d digest usual s c q))) \<and> scoped_invitations (snd (serve d digest usual s c q))"
proof -
  let ?t = "snd (serve d digest usual s c q)"
  note e = serve_effect [where d = d and digest = digest and usual = usual and c = c and q = q,
      OF conjunct2 [OF assms(1)] refl]
  have "tokens_ok (token_rows ?t)"
  proof (cases "\<exists>t e i stamp. q = AcceptInvitation t e i stamp")
    case True
    then obtain t e i stamp where q: "q = AcceptInvitation t e i stamp" by blast
    obtain signedIn r where "accept_invitation d digest s signedIn t e i stamp = (r, ?t)"
      using serve_accept unfolding q by blast
    then have "token_rows ?t = token_rows s"
      using accept_invitation_effect assms(1) unfolding scoped_iff by blast
    then show ?thesis using assms(1) by simp
  next
    case False
    then consider (same) "?t = s" |
      (handled) p where "authenticated d digest s c = Inr p" "handle_request d digest usual s p q = Inr ?t"
      using serve_handled [of q d digest usual s c] by blast
    then show ?thesis
    proof cases
      case same
      then show ?thesis using assms(1) by simp
    next
      case handled
      then show ?thesis using handle_tokens_ok [OF handled(2,1)] assms by blast
    qed
  qed
  then show ?thesis using e by blast
qed

lemma minted_dies:
  assumes "tokens_ok (token_rows s)" "getApiToken s i = Some t" "tok_byToken t = Some j"
  shows "\<exists>parent. getApiToken s j = Some parent \<and> tok_byToken parent = None \<and>
    set (tok_scopes t) \<subseteq> set (tok_scopes parent) \<and>
    (tok_revoked parent \<longrightarrow> (\<forall>digest now secret. authenticateToken digest now s i secret = Inl TokenInvalid))"
proof -
  have "t \<in> set (token_rows s)" using assms(2) by (simp add: getApiToken_rows token_by_id_Some)
  then obtain parent where p: "parent \<in> set (token_rows s)" "tok_id parent = j" "minted_within parent t"
    using assms(1,3) unfolding tokens_ok_def by blast
  have "getApiToken s j = Some parent"
    using token_by_id_unique [of "token_rows s" parent] assms(1) p(1,2) by (simp add: tokens_ok_def getApiToken_rows)
  then show ?thesis using p(3) assms(2) by (auto simp: minted_within_def authenticateToken_def)
qed

end
