(* ===== verification/Access_Properties.thy ===== *)
theory Access_Properties
  imports Access_Reach Access_Tokens
begin

text \<open>
  The properties of access control: what a token, a grant and a lapsed subscription can do, that listings
  and checks agree, what runs of requests keep, and where a request gives away what its caller does not hold.
\<close>

section \<open>A concrete deployment\<close>

definition free_house :: deployment where
  "free_house = \<lparr>dep_now = 0, dep_payments = False, dep_parse = (\<lambda>_. None)\<rparr>"

definition paid_house :: deployment where
  "paid_house = \<lparr>dep_now = 0, dep_payments = True, dep_parse = (\<lambda>_. None)\<rparr>"

definition account :: "string \<Rightarrow> user_account" where
  "account i = \<lparr>user_id = i, user_email = i, user_systemAdmin = False, user_disabled = False\<rparr>"

definition member :: "string \<Rightarrow> string \<Rightarrow> organization_role \<Rightarrow> membership" where
  "member o' u r = \<lparr>member_organization = o', member_user = u, member_role = r, member_comped = False, member_created = []\<rparr>"

text \<open>
  Two organizations with a repository each: ann owns acme, where adm is an admin, and dev has a grant on
  acme's repository; mal owns the other one. Ann has an API token bound to acme.
\<close>

definition town :: access_store where
  "town =
     \<lparr>organization_rows =
        [\<lparr>org_id = ''acme'', org_slug = [], org_name = [], org_created = []\<rparr>,
         \<lparr>org_id = ''mals'', org_slug = [], org_name = [], org_created = []\<rparr>],
      user_rows = map account [''ann'', ''adm'', ''dev'', ''mal''],
      membership_rows = [member ''acme'' ''ann'' Owner, member ''acme'' ''adm'' Admin, member ''mals'' ''mal'' Owner,
                         member ''mals'' ''ann'' Developer],
      project_rows =
        [\<lparr>project_id = ''pa'', project_organization = ''acme'', project_slug = [], project_name = [], project_archived = False\<rparr>,
         \<lparr>project_id = ''pm'', project_organization = ''mals'', project_slug = [], project_name = [], project_archived = False\<rparr>],
      project_repository_rows = [(''pa'', ''ra''), (''pm'', ''rm'')],
      repository_rows =
        [\<lparr>repo_id = ''ra'', repo_path = [], repo_branch = [], repo_createdBy = None\<rparr>,
         \<lparr>repo_id = ''rm'', repo_path = [], repo_branch = [], repo_createdBy = None\<rparr>],
      grant_rows =
        [\<lparr>grant_repository = ''ra'', grant_user = ''dev'', grant_role = Developer, grant_by = None, grant_comped = False,
          grant_created = []\<rparr>],
      subscription_rows = [], invitation_rows = [],
      token_rows =
        [\<lparr>tok_id = ''t'', tok_user = ''ann'', tok_organization = Some ''acme'', tok_name = ''t'', tok_secretHash = ''s'',
          tok_scopes = [''view'', ''submit_task''], tok_byToken = None, tok_expires = None, tok_revoked = False\<rparr>]\<rparr>"

text \<open>Someone signed in, and ann with the token.\<close>

definition signed_in :: "access_store \<Rightarrow> string \<Rightarrow> principal" where
  "signed_in s u =
     \<lparr>p_user = publicUser (account u), p_credential = SessionCredential, p_token = None,
      p_memberships = membershipsFor s (account u)\<rparr>"

lemma town_sessions:
  "authenticate town ''ann'' = Inr (signed_in town ''ann'')" "authenticate town ''adm'' = Inr (signed_in town ''adm'')"
  "authenticate town ''dev'' = Inr (signed_in town ''dev'')" "authenticate town ''mal'' = Inr (signed_in town ''mal'')"
  by code_simp+

lemma town_keys: "distinct (map org_id (organization_rows town))" "distinct (map project_id (project_rows town))"
  by code_simp+

section \<open>Tokens, grants, subscriptions\<close>


text \<open>
  C26 \<open>authorizeRepository\<close> for a caller without a role in the organization: it passes only on a repository
  of the project that the caller holds a grant on, with at most the role of that very grant, and reaches
  that repository alone.
\<close>

theorem grant_confined:
  assumes "authorizeRepository d s p i r q = Inr a" "roleFor p (project_organization (ap_project a)) = None"
  shows "\<exists>g \<in> set (grant_rows s). grant_user g = pub_id (p_user p) \<and> grant_repository g = r \<and>
    projectHasRepository s (project_id (ap_project a)) r \<and> ap_role a \<le> grant_role g \<and>
    q \<in> set (ROLE_PERMISSIONS (grant_role g)) \<and> ap_repositories a = Some {r}"
proof -
  have a: "repository_grant_of s p (ap_project a) r \<noteq> None" "q \<in> set (ROLE_PERMISSIONS (ap_role a))"
    "repository_role d s p (ap_project a) r (ap_organization a) = Some (ap_role a)" "ap_repositories a = Some {r}"
    using assms by (simp_all add: authorizeRepository_Inr)
  then obtain g where g: "repository_grant_of s p (ap_project a) r = Some g" by blast
  have m: "g \<in> set (grantsInProject s p (ap_project a))" "grant_repository g = r"
    using find_SomeD [OF g [unfolded repository_grant_of_def]] assms(2) by (simp_all add: repository_grants_def)
  have "ap_role a \<le> grant_role g"
    using a(3) g assms(2)
    by (auto simp: repository_role_def Let_def entitledRole_def effectiveRole_def split: if_splits)
  moreover have "projectHasRepository s (project_id (ap_project a)) r"
    using m by (auto simp: grantsInProject_iff listProjectRepositories_def)
  ultimately show ?thesis
    using m a permissions_mono by (intro bexI [of _ g]) (auto simp: grantsInProject_iff)
qed

lemma dev_on_ra:
  "authorizeRepository free_house town (signed_in town ''dev'') ''pa'' ''ra'' Run_task =
     Inr \<lparr>ap_project = hd (project_rows town), ap_organization = hd (organization_rows town), ap_role = Developer,
          ap_repositories = Some {''ra''}\<rparr>"
  by code_simp

theorem grant_confined_witness:
  "\<exists>g \<in> set (grant_rows town). grant_user g = ''dev'' \<and> grant_repository g = ''ra'' \<and>
    projectHasRepository town ''pa'' ''ra'' \<and> Developer \<le> grant_role g \<and> Run_task \<in> set (ROLE_PERMISSIONS (grant_role g))"
  using grant_confined [OF dev_on_ra]
  by (simp add: town_def signed_in_def publicUser_def account_def roleFor_def membershipsFor_def listOrganizations_def
      getMembership_def member_def)

text \<open>
  C28 Where the subscription of the organization does not allow work, a caller who is not an operator and
  holds no comped grant is authorized for viewing and nothing else, by all four functions (and the first one
  unless it is told to ignore the entitlement).
\<close>

theorem lapsed_only_views:
  assumes "\<not> subscriptionAllowsWork d (getSubscription s o')" "\<not> pub_systemAdmin (p_user p)"
    "grant_comped ` set (listGrantsForUser s (pub_id (p_user p))) \<subseteq> {False}" "getOrganization s o' = Some x"
  shows "{q. \<exists>a. authorizeOrganization d s p o' q False = Inr a} \<subseteq> {View} \<and>
    {q. \<exists>a. authorizeOrganizationOrGrant d s p o' q = Inr a} \<subseteq> {View} \<and>
    {q. \<exists>a. authorizeProject d s p i q = Inr a \<and> project_organization (ap_project a) = o'} \<subseteq> {View} \<and>
    {q. \<exists>a. authorizeRepository d s p i r q = Inr a \<and> project_organization (ap_project a) = o'} \<subseteq> {View}"
proof -
  note l = lapsed_roles [OF assms]
  have "q = View" if a: "authorizeOrganization d s p o' q False = Inr a" for q a
  proof (rule viewing [OF l(1)])
    show "entitledRole d s p x (roleFor p o') = Some (auth_role a)" "q \<in> set (ROLE_PERMISSIONS (auth_role a))"
      using a assms(4) by (auto simp: authorizeOrganization_Inr)
  qed
  moreover have "q = View" if a: "authorizeOrganizationOrGrant d s p o' q = Inr a" for q a
  proof (rule viewing [OF l(2)])
    show "reach_of d s p o' x = Some (reach_role a)" "q \<in> set (ROLE_PERMISSIONS (reach_role a))"
      using a assms(4) by (auto simp: authorizeOrganizationOrGrant_Inr)
  qed
  moreover have "q = View" if a: "authorizeProject d s p i q = Inr a" and "project_organization (ap_project a) = o'" for q a
  proof (rule viewing [OF l(3)])
    show "project_role d s p (ap_project a) x = Some (ap_role a)" "q \<in> set (ROLE_PERMISSIONS (ap_role a))"
      using a assms(4) that(2) by (auto simp: authorizeProject_Inr)
  qed
  moreover have "q = View" if a: "authorizeRepository d s p i r q = Inr a" and "project_organization (ap_project a) = o'" for q a
  proof (rule viewing [OF l(4)])
    show "repository_role d s p (ap_project a) r x = Some (ap_role a)" "q \<in> set (ROLE_PERMISSIONS (ap_role a))"
      using a assms(4) that(2) by (auto simp: authorizeRepository_Inr)
  qed
  ultimately show ?thesis by blast
qed

lemma town_lapsed:
  "\<not> subscriptionAllowsWork paid_house (getSubscription town ''acme'')" "getOrganization town ''acme'' = Some (hd (organization_rows town))"
  by code_simp+

theorem lapsed_only_views_witness:
  "{q. \<exists>a. authorizeOrganizationOrGrant paid_house town (signed_in town ''dev'') ''acme'' q = Inr a} \<subseteq> {View}"
  by (rule lapsed_only_views [OF town_lapsed(1) _ _ town_lapsed(2), THEN conjunct2, THEN conjunct1])
    (simp_all add: signed_in_def publicUser_def account_def town_def listGrantsForUser_def)

section \<open>Listings and refusals\<close>

text \<open>
  C29 For a signed-in caller, what is listed is what opens: \<open>reachableOrganizations\<close> holds exactly the
  organizations \<open>authorizeOrganizationOrGrant\<close> lets them view, and \<open>mcpReachable\<close> exactly the repositories
  of projects \<open>authorizeRepository\<close> lets them view.
\<close>

theorem listed_is_open:
  assumes "authenticate s u = Inr p" "distinct (map org_id (organization_rows s))"
    "distinct (map project_id (project_rows s))"
  shows "set (reachableOrganizations s p) =
      {x. \<exists>a. authorizeOrganizationOrGrant d s p (org_id x) View = Inr a \<and> reach_organization a = x} \<and>
    set (mcpReachable d s p) =
      {(i, r). r \<in> set (listProjectRepositories s i) \<and> (\<exists>a. authorizeRepository d s p i (repo_id r) View = Inr a)}"
proof -
  obtain v where v: "account_of s p v" using authenticate_Inr [OF assms(1)] by (auto simp: account_of_def)
  have "p_token p = None" using assms(1) by (auto simp: authenticate_def split: option.splits if_splits)
  then show ?thesis
    using listed_organizations [OF v assms(2), of _ d] listed_repositories [OF v assms(2,3), of _ _ d] by auto
qed

theorem listed_is_open_witness:
  "set (reachableOrganizations town (signed_in town ''dev'')) =
      {x. \<exists>a. authorizeOrganizationOrGrant free_house town (signed_in town ''dev'') (org_id x) View = Inr a \<and>
        reach_organization a = x} \<and>
    set (mcpReachable free_house town (signed_in town ''dev'')) =
      {(i, r). r \<in> set (listProjectRepositories town i) \<and>
        (\<exists>a. authorizeRepository free_house town (signed_in town ''dev'') i (repo_id r) View = Inr a)}"
  by (rule listed_is_open [OF town_sessions(3) town_keys])

text \<open>
  \<open>explainOrganizationRefusal\<close> of a refusal: it says no standing exactly when nothing the caller holds in
  the organization carries the permission; when it says otherwise to a caller without a role there, or
  whose role carries the permission, the subscription does not allow work.
\<close>

theorem refusal_explained:
  assumes "authorizeOrganizationOrGrant d s p o' q = Inl Forbidden"
    "case roleFor p o' of None \<Rightarrow> True | Some r \<Rightarrow> q \<in> set (ROLE_PERMISSIONS r)"
  shows "(explainOrganizationRefusal s p o' q = NoStanding) = (\<not> holds s p o' q) \<and>
    (explainOrganizationRefusal s p o' q = NoStanding \<or> \<not> subscriptionAllowsWork d (getSubscription s o'))"
  using refused_though_held [OF assms(1) _ assms(2)] by (auto simp: explained_standing)

lemma dev_refused:
  "authorizeOrganizationOrGrant paid_house town (signed_in town ''dev'') ''acme'' Run_task = Inl Forbidden"
  "roleFor (signed_in town ''dev'') ''acme'' = None"
  by code_simp+

lemma dev_explained: "explainOrganizationRefusal town (signed_in town ''dev'') ''acme'' Run_task = Entitlement"
  by code_simp

theorem refusal_explained_witness:
  "holds town (signed_in town ''dev'') ''acme'' Run_task \<and>
   subscriptionAllowsWork paid_house (getSubscription town ''acme'') = False"
  using refusal_explained [OF dev_refused(1)] by (simp add: dev_refused(2) dev_explained)

text \<open>
  A member whose grant on a repository carries more than their role is refused and told that the
  organization has not paid, where nothing is sold.
\<close>

definition town_with_viewer :: access_store where
  "town_with_viewer = saveMembership ''acme'' ''dev'' Viewer [] town"

theorem member_misled:
  "authorizeOrganizationOrGrant free_house town_with_viewer (signed_in town_with_viewer ''dev'') ''acme'' Run_task =
     Inl Forbidden \<and>
   explainOrganizationRefusal town_with_viewer (signed_in town_with_viewer ''dev'') ''acme'' Run_task = Entitlement"
  by code_simp

section \<open>What runs keep\<close>

text \<open>
  C25 Ownership comes from owners: let a set of accounts hold every owner of an organization and every
  operator. Whatever requests are served to callers outside the set, in any number, every owner of the
  organization stays within it (from tables in which each invitation names a repository).
\<close>

theorem ownership_from_owners:
  assumes "run digest usual (\<lambda>s c q. credential_user s c \<notin> Some ` U) s s'" "owned_by s o' U" "scoped_invitations s"
  shows "owned_by s' o' U"
proof -
  have "owned_by s' o' U \<and> scoped_invitations s'"
  proof (rule run_invariant [where I = "\<lambda>s. owned_by s o' U \<and> scoped_invitations s", OF assms(1)])
    show "owned_by s o' U \<and> scoped_invitations s" using assms(2,3) ..
  qed (rule serve_ownership)
  then show ?thesis by blast
qed

lemma town_owned: "owned_by town ''acme'' {''ann''}" "scoped_invitations town"
  by code_simp+

theorem ownership_from_owners_witness:
  "owned_by (snd (serve free_house id 90 town (SessionOf ''adm'')
     (PostMember ''acme'' (Some ''owner'') (Some ''dev'') None []))) ''acme'' {''ann''}"
  by (rule ownership_from_owners [OF run_serve [OF run_start] town_owned]) (simp add: credential_user_def)





definition mint_request :: access_request where
  "mint_request =
     PostToken \<lparr>tb_scopes = [''view''], tb_organization = None, tb_name = ''u'', tb_days = Some 0\<rparr> ''u'' ''w''"

definition minted_town :: access_store where
  "minted_town = snd (serve free_house id 90 town (BearerToken ''t'' ''s'') mint_request)"





section \<open>What a request gives away\<close>






definition promoted_town :: access_store where
  "promoted_town = snd (serve free_house id 90 town (SessionOf ''adm'') (PostGrant ''pa'' ''ra'' ''adm'' (Some ''owner'') []))"

text \<open>
  An admin, who may not delete a repository, grants themself ownership of it and then may: the grant
  route asks for \<open>manage_members\<close> and not whether the caller could assign the role.
\<close>

theorem admin_becomes_owner:
  "authorizeRepositoryDeletion free_house town (signed_in town ''adm'') ''pa'' ''ra'' = Inl Forbidden \<and>
   authorizeRepositoryDeletion free_house promoted_town (signed_in promoted_town ''adm'') ''pa'' ''ra'' =
     Inr \<lparr>repo_id = ''ra'', repo_path = [], repo_branch = [], repo_createdBy = None\<rparr>"
  unfolding promoted_town_def by code_simp

text \<open>
  A token bound to one organization mints one that is bound to none and is let into another.
\<close>

theorem token_leaves_organization:
  "res_bind (authenticated free_house id minted_town (BearerToken ''t'' ''s'')) (\<lambda>p.
     map_sum id auth_role (authorizeOrganization free_house minted_town p ''mals'' View False)) = Inl TokenOrganizationMismatch \<and>
   res_bind (authenticated free_house id minted_town (BearerToken ''u'' ''w'')) (\<lambda>p.
     map_sum id auth_role (authorizeOrganization free_house minted_town p ''mals'' View False)) = Inr Developer"
  unfolding minted_town_def by code_simp

text \<open>Adding the only owner again, as a viewer, leaves the organization without an owner.\<close>

theorem last_owner_added_away:
  "owners_of (snd (serve free_house id 90 town (SessionOf ''adm'')
     (PostMember ''acme'' (Some ''viewer'') (Some ''ann'') None []))) ''acme'' = []"
  by code_simp

end
