(* ===== verification/Work_Queue.thy ===== *)
theory Work_Queue
  imports Plan_Admission
begin

text \<open>
  The queue of submitted tasks and the work leases on them, as the SQLite store keeps them
  (\<open>services/persistence/src/sqlite-store.ts\<close>, \<open>store.ts\<close>). A table is the list of its rows in the
  order of their \<open>rowid\<close>; a transaction that throws leaves the tables as they were. The code compares
  instants as ISO strings, which are ordered as the instants are: an instant is its number of
  milliseconds. \<open>createId\<close> is an argument, the clock is another.
\<close>

section \<open>Rows\<close>

datatype task_status =
  TaskSubmitted | TaskClaimed | TaskPlanned | TaskPaused | TaskOpen | TaskIntegrated | TaskFailed | TaskCancelled

datatype task_kind = KindTask | KindQuestion

type_synonym instant = int

record submitted_task =
  t_id :: string
  t_kind :: task_kind
  t_answerTo :: "string option"
  t_repository :: string
  t_project :: "string option"
  t_branch :: "string option"
  t_objective :: string
  t_agent :: string
  t_validation :: "string list"
  t_submittedBy :: "string option"
  t_after :: "string option"
  t_context :: "string option"
  t_conversation :: "string option"
  t_model :: "string option"
  t_effort :: "string option"
  t_status :: task_status
  t_submittedAt :: instant
  t_claimedAt :: "instant option"
  t_completedAt :: "instant option"
  t_openedAt :: "instant option"
  t_run :: "string option"

datatype lease_status = LeaseActive | LeaseCompleted | LeaseFailed | LeaseExpired | LeaseReleased

record work_lease_plan =
  wlp_plan :: agent_plan
  wlp_admission :: full_admission

record lease_row =
  l_id :: string
  l_task :: string
  l_worker :: string
  l_repository :: string
  l_project :: "string option"
  l_status :: lease_status
  l_base :: string
  l_branch :: "string option"
  l_issuedAt :: instant
  l_expiresAt :: instant
  l_heartbeatAt :: instant
  l_finishedAt :: "instant option"
  l_outcome :: "lease_status option"
  l_detail :: "string option"
  l_plan :: "work_lease_plan option"

text \<open>The tables: the queue, the leases, and the keys of the rows the queue refers to.\<close>

record work_store =
  workers :: "string list"
  repositories :: "string list"
  projects :: "string list"
  accounts :: "string list"
  tasks :: "submitted_task list"
  leases :: "lease_row list"

datatype queue_error =
    UnknownWorker string | UnknownRepository string | UnknownProject string | UnknownUser string
  | TtlNotPositive | EmptyBaseRevision | ParallelismNotPositive
  | ConstraintViolated
  | UnknownTask string
  | NotFromStatus string task_status

definition DEFAULT_PROJECT_ID :: string where
  "DEFAULT_PROJECT_ID = ''project_local''"

definition update_tasks :: "(submitted_task \<Rightarrow> bool) \<Rightarrow> (submitted_task \<Rightarrow> submitted_task) \<Rightarrow> work_store \<Rightarrow> work_store" where
  "update_tasks P f st = st\<lparr>tasks := map (\<lambda>t. if P t then f t else t) (tasks st)\<rparr>"

definition update_leases :: "(lease_row \<Rightarrow> bool) \<Rightarrow> (lease_row \<Rightarrow> lease_row) \<Rightarrow> work_store \<Rightarrow> work_store" where
  "update_leases P f st = st\<lparr>leases := map (\<lambda>l. if P l then f l else l) (leases st)\<rparr>"

definition row_of :: "string \<Rightarrow> work_store \<Rightarrow> submitted_task option" where
  "row_of i st = find (\<lambda>t. t_id t = i) (tasks st)"

definition lease_active :: "lease_row \<Rightarrow> bool" where
  "lease_active l \<longleftrightarrow> l_status l = LeaseActive"

definition requeued :: "submitted_task \<Rightarrow> submitted_task" where
  "requeued t = t\<lparr>t_status := TaskSubmitted, t_claimedAt := None\<rparr>"

section \<open>Leasing\<close>

record lease_input =
  li_worker :: string
  li_base :: string
  li_ttl :: int
  li_task :: "string option"
  li_repository :: "string option"
  li_project :: "string option"
  li_parallelism :: "int option"
  li_claimableBy :: "string option"
  li_excluded :: "string list"
  li_kinds :: "task_kind list option"

definition settled :: "lease_status \<Rightarrow> instant \<Rightarrow> string option \<Rightarrow> lease_row \<Rightarrow> lease_row" where
  "settled s at' why l = l\<lparr>l_status := s, l_finishedAt := Some at', l_outcome := Some s, l_detail := why\<rparr>"

definition lapsed :: "instant \<Rightarrow> lease_row \<Rightarrow> bool" where
  "lapsed now l \<longleftrightarrow> lease_active l \<and> l_expiresAt l \<le> now"

text \<open>What \<open>leaseNextTask\<close> does first: leases past their expiry end, and their claimed tasks return to the queue.\<close>

definition lapse :: "instant \<Rightarrow> work_store \<Rightarrow> work_store" where
  "lapse now st =
     (let expired = map l_task (filter (lapsed now) (leases st))
      in update_tasks (\<lambda>t. t_id t \<in> set expired \<and> t_status t = TaskClaimed) requeued
           (update_leases (lapsed now) (settled LeaseExpired now (Some ''lease expired'')) st))"

definition unfinished :: "task_status \<Rightarrow> bool" where
  "unfinished s \<longleftrightarrow> s \<in> {TaskSubmitted, TaskClaimed, TaskPlanned, TaskPaused}"

definition waits_for_predecessor :: "work_store \<Rightarrow> submitted_task \<Rightarrow> bool" where
  "waits_for_predecessor st t \<longleftrightarrow> list_ex (\<lambda>p. t_after t = Some (t_id p) \<and> unfinished (t_status p)) (tasks st)"

definition active_in :: "string \<Rightarrow> work_store \<Rightarrow> lease_row list" where
  "active_in r st = filter (\<lambda>l. l_repository l = r \<and> lease_active l) (leases st)"

definition parallelism_of :: "lease_input \<Rightarrow> int" where
  "parallelism_of input = or_else (li_parallelism input) 1"

definition kinds_of :: "lease_input \<Rightarrow> task_kind list" where
  "kinds_of input = or_else (li_kinds input) [KindTask]"

definition may_take :: "lease_input \<Rightarrow> work_store \<Rightarrow> submitted_task \<Rightarrow> bool" where
  "may_take input st t \<longleftrightarrow>
     t_status t = TaskSubmitted \<and>
     \<not> waits_for_predecessor st t \<and>
     (case li_task input of None \<Rightarrow> True | Some i \<Rightarrow> t_id t = i) \<and>
     (case li_repository input of None \<Rightarrow> True | Some r \<Rightarrow> t_repository t = r) \<and>
     (case li_project input of None \<Rightarrow> True | Some p \<Rightarrow> t_project t = Some p) \<and>
     t_kind t \<in> set (kinds_of input) \<and>
     (case li_claimableBy input of None \<Rightarrow> True | Some u \<Rightarrow> t_submittedBy t = None \<or> t_submittedBy t = Some u) \<and>
     (case t_submittedBy t of None \<Rightarrow> True | Some u \<Rightarrow> u \<notin> set (li_excluded input)) \<and>
     int (length (active_in (t_repository t) st)) < parallelism_of input"

definition kind_rank :: "submitted_task \<Rightarrow> nat" where
  "kind_rank t = (if t_kind t = KindQuestion then 0 else 1)"

definition next_row :: "lease_input \<Rightarrow> work_store \<Rightarrow> submitted_task option" where
  "next_row input st =
     (case sort_key kind_rank (sort_key t_submittedAt (filter (may_take input st) (tasks st))) of
        [] \<Rightarrow> None
      | t # _ \<Rightarrow> Some t)"

definition issued_lease :: "instant \<Rightarrow> string \<Rightarrow> lease_input \<Rightarrow> submitted_task \<Rightarrow> lease_row" where
  "issued_lease now i input t =
     \<lparr>l_id = i, l_task = t_id t, l_worker = li_worker input, l_repository = t_repository t, l_project = t_project t,
      l_status = LeaseActive, l_base = li_base input, l_branch = t_branch t,
      l_issuedAt = now, l_expiresAt = now + li_ttl input, l_heartbeatAt = now,
      l_finishedAt = None, l_outcome = None, l_detail = None, l_plan = None\<rparr>"

definition claimed_at :: "instant \<Rightarrow> submitted_task \<Rightarrow> submitted_task" where
  "claimed_at now t = t\<lparr>t_status := TaskClaimed, t_claimedAt := Some now\<rparr>"

text \<open>The primary key of the leases and the unique index of active leases by task.\<close>

definition lease_fits :: "lease_row \<Rightarrow> work_store \<Rightarrow> bool" where
  "lease_fits l st \<longleftrightarrow>
     list_all (\<lambda>m. l_id m \<noteq> l_id l \<and> (lease_active m \<longrightarrow> l_task m \<noteq> l_task l)) (leases st)"

definition lease_request_error :: "lease_input \<Rightarrow> work_store \<Rightarrow> queue_error option" where
  "lease_request_error input st =
     (if li_worker input \<notin> set (workers st) then Some (UnknownWorker (li_worker input))
      else if \<not> is_safe_integer (li_ttl input) \<or> li_ttl input < 1 then Some TtlNotPositive
      else if js_trim (li_base input) = [] then Some EmptyBaseRevision
      else if \<not> is_safe_integer (parallelism_of input) \<or> parallelism_of input < 1 then Some ParallelismNotPositive
      else None)"

definition grant_lease :: "instant \<Rightarrow> string \<Rightarrow> lease_input \<Rightarrow> submitted_task \<Rightarrow> work_store \<Rightarrow>
    queue_error + (lease_row \<times> submitted_task) option \<times> work_store" where
  "grant_lease now i input t st =
     (let l = issued_lease now i input t
      in if lease_fits l st
         then Inr (Some (l, claimed_at now t),
                (update_tasks (\<lambda>u. t_id u = t_id t) (claimed_at now) st)\<lparr>leases := leases st @ [l]\<rparr>)
         else Inl ConstraintViolated)"

definition leaseNextTask :: "instant \<Rightarrow> string \<Rightarrow> lease_input \<Rightarrow> work_store \<Rightarrow>
    queue_error + (lease_row \<times> submitted_task) option \<times> work_store" where
  "leaseNextTask now i input st =
     (case lease_request_error input st of
        Some e \<Rightarrow> Inl e
      | None \<Rightarrow>
          (let st1 = lapse now st
           in case next_row input st1 of
                None \<Rightarrow> Inr (None, st1)
              | Some t \<Rightarrow> grant_lease now i input t st1))"

section \<open>Leases and their plans\<close>

definition getWorkLease :: "string \<Rightarrow> work_store \<Rightarrow> lease_row option" where
  "getWorkLease i st = find (\<lambda>l. l_id l = i) (leases st)"

record lease_filter =
  lf_worker :: "string option"
  lf_status :: "lease_status option"
  lf_project :: "string option"
  lf_repository :: "string option"
  lf_issuedAfter :: "instant option"

definition any_lease :: lease_filter where
  "any_lease = \<lparr>lf_worker = None, lf_status = None, lf_project = None, lf_repository = None, lf_issuedAfter = None\<rparr>"

text \<open>The latest lease first.\<close>

definition listWorkLeases :: "lease_filter \<Rightarrow> work_store \<Rightarrow> lease_row list" where
  "listWorkLeases f st =
     sort_key (\<lambda>l. - l_issuedAt l) (filter (\<lambda>l.
       (case lf_worker f of None \<Rightarrow> True | Some w \<Rightarrow> l_worker l = w) \<and>
       (case lf_status f of None \<Rightarrow> True | Some s \<Rightarrow> l_status l = s) \<and>
       (case lf_project f of None \<Rightarrow> True | Some p \<Rightarrow> l_project l = Some p) \<and>
       (case lf_repository f of None \<Rightarrow> True | Some r \<Rightarrow> l_repository l = r) \<and>
       (case lf_issuedAfter f of None \<Rightarrow> True | Some t \<Rightarrow> t < l_issuedAt l)) (leases st))"

definition active_lease :: "string \<Rightarrow> work_store \<Rightarrow> lease_row option" where
  "active_lease i st = find (\<lambda>l. l_id l = i \<and> lease_active l) (leases st)"

definition plan_approved :: "lease_row \<Rightarrow> bool" where
  "plan_approved l = (case l_plan l of None \<Rightarrow> False | Some p \<Rightarrow> planAdmissionApproved (wlp_admission p))"

definition approved_others :: "string \<Rightarrow> string \<Rightarrow> work_store \<Rightarrow> lease_row list" where
  "approved_others r i st = filter (\<lambda>l. l_id l \<noteq> i \<and> plan_approved l) (active_in r st)"

definition approvedPlanLeaseIds :: "string \<Rightarrow> string \<Rightarrow> work_store \<Rightarrow> string list" where
  "approvedPlanLeaseIds r i st = sort (map l_id (approved_others r i st))"

definition sameLeaseIdSet :: "string list \<Rightarrow> string list \<Rightarrow> bool" where
  "sameLeaseIdSet xs ys \<longleftrightarrow> length xs = length ys \<and> sort xs = sort ys"

datatype save_result = Saved lease_row | AlreadyAdmitted lease_row | Stale "string list" | LeaseLost

definition saveWorkLeasePlan ::
  "string \<Rightarrow> work_lease_plan \<Rightarrow> string list \<Rightarrow> bool \<Rightarrow> work_store \<Rightarrow> save_result \<times> work_store" where
  "saveWorkLeasePlan i submission observed replaceApproved st =
     (case active_lease i st of
        None \<Rightarrow> (LeaseLost, st)
      | Some l \<Rightarrow>
          if \<not> replaceApproved \<and> plan_approved l then (AlreadyAdmitted l, st)
          else (let approved = approvedPlanLeaseIds (l_repository l) (l_id l) st
                in if \<not> sameLeaseIdSet approved observed then (Stale approved, st)
                   else (Saved (l\<lparr>l_plan := Some submission\<rparr>),
                         update_leases (\<lambda>m. l_id m = l_id l) (l_plan_update (\<lambda>_. Some submission)) st)))"

definition heartbeatWorkLease :: "string \<Rightarrow> instant \<Rightarrow> instant \<Rightarrow> work_store \<Rightarrow> lease_row option \<times> work_store" where
  "heartbeatWorkLease i at' until st =
     (let alive = (\<lambda>l. l_id l = i \<and> lease_active l \<and> at' < l_expiresAt l)
      in if until \<le> at' \<or> \<not> list_ex alive (leases st) then (None, st)
         else (let st' = update_leases alive (\<lambda>l. l\<lparr>l_heartbeatAt := at', l_expiresAt := until\<rparr>) st
               in (getWorkLease i st', st')))"

definition finishWorkLease :: "string \<Rightarrow> lease_status \<Rightarrow> instant \<Rightarrow> string option \<Rightarrow> work_store \<Rightarrow> bool \<times> work_store" where
  "finishWorkLease i s at' why st =
     (case active_lease i st of
        None \<Rightarrow> (False, st)
      | Some l \<Rightarrow>
          if (s = LeaseExpired) \<noteq> (l_expiresAt l \<le> at') then (False, st)
          else (let st1 = update_leases (\<lambda>m. l_id m = i) (settled s at' why) st
                in (True, if s = LeaseReleased \<or> s = LeaseExpired
                          then update_tasks (\<lambda>t. t_id t = l_task l \<and> t_status t = TaskClaimed) requeued st1
                          else st1)))"

definition expire_one :: "instant \<Rightarrow> lease_row list \<times> work_store \<Rightarrow> lease_row \<Rightarrow> lease_row list \<times> work_store" where
  "expire_one now acc l =
     (case finishWorkLease (l_id l) LeaseExpired now (Some ''lease expired'') (snd acc) of
        (False, st) \<Rightarrow> (fst acc, st)
      | (True, st) \<Rightarrow> (fst acc @ (case getWorkLease (l_id l) st of None \<Rightarrow> [] | Some m \<Rightarrow> [m]), st))"

definition expireWorkLeases :: "instant \<Rightarrow> work_store \<Rightarrow> lease_row list \<times> work_store" where
  "expireWorkLeases now st = foldl (expire_one now) ([], st) (filter (lapsed now) (leases st))"

end
