(* ===== verification/Work_Tasks.thy ===== *)
theory Work_Tasks
  imports Work_Queue
begin

text \<open>
  The statements that move a task from one status to another (\<open>sqlite-store.ts\<close>), and what the
  command line builds from them: stopping, pausing and resuming tasks, and leasing what a repository
  can run (\<open>apps/cli/src/commands.ts\<close>), requeueing work that nothing holds
  (\<open>apps/cli/src/recovery.ts\<close>). Audit entries and the registry of live sessions are left out.
\<close>

section \<open>Submitting and claiming\<close>

record submit_input =
  in_kind :: "task_kind option"
  in_answerTo :: "string option"
  in_repository :: string
  in_project :: "string option"
  in_branch :: "string option"
  in_objective :: string
  in_agent :: string
  in_validation :: "string list"
  in_submittedBy :: "string option"
  in_after :: "string option"
  in_queueAfterCurrent :: "bool option"
  in_context :: "string option"
  in_conversation :: "string option"
  in_planOnly :: "bool option"
  in_model :: "string option"
  in_effort :: "string option"

definition submitted_row :: "instant \<Rightarrow> string \<Rightarrow> submit_input \<Rightarrow> string \<Rightarrow> submitted_task" where
  "submitted_row now i input p =
     \<lparr>t_id = i, t_kind = or_else (in_kind input) KindTask, t_answerTo = in_answerTo input,
      t_repository = in_repository input, t_project = Some p, t_branch = in_branch input,
      t_objective = in_objective input, t_agent = in_agent input, t_validation = in_validation input,
      t_submittedBy = in_submittedBy input, t_after = in_after input, t_context = in_context input,
      t_conversation = in_conversation input, t_model = in_model input, t_effort = in_effort input,
      t_status = (if in_planOnly input = Some True then TaskPlanned else TaskSubmitted),
      t_submittedAt = now, t_claimedAt = None, t_completedAt = None, t_openedAt = None, t_run = None\<rparr>"

text \<open>The latest task of the same agent and owner that still waits or runs: ordered by submission, then row.\<close>

definition current_task :: "submitted_task \<Rightarrow> work_store \<Rightarrow> submitted_task option" where
  "current_task t st =
     at_last (sort_key t_submittedAt (filter (\<lambda>p. t_repository p = t_repository t \<and> t_project p = t_project t \<and>
       t_agent p = t_agent t \<and> t_submittedBy p = t_submittedBy t \<and>
       t_status p \<in> {TaskSubmitted, TaskClaimed}) (tasks st)))"

definition integrated_at :: "instant \<Rightarrow> submitted_task \<Rightarrow> submitted_task" where
  "integrated_at now t = t\<lparr>t_status := TaskIntegrated, t_completedAt := Some now\<rparr>"

definition placed :: "submit_input \<Rightarrow> work_store \<Rightarrow> submitted_task \<Rightarrow> submitted_task" where
  "placed input st t =
     (if t_after t = None \<and> in_queueAfterCurrent input = Some True
      then t\<lparr>t_after := map_option t_id (current_task t st)\<rparr> else t)"

text \<open>A new turn of a conversation settles the one that is open.\<close>

definition settle_turns :: "instant \<Rightarrow> string option \<Rightarrow> work_store \<Rightarrow> work_store" where
  "settle_turns now c st =
     (case c of
        None \<Rightarrow> st
      | Some _ \<Rightarrow> update_tasks (\<lambda>u. t_conversation u = c \<and> t_status u = TaskOpen) (integrated_at now) st)"

text \<open>The row is inserted unless its key is taken or its predecessor is no row.\<close>

definition insert_task :: "submitted_task \<Rightarrow> work_store \<Rightarrow> queue_error + submitted_task \<times> work_store" where
  "insert_task t st =
     (if row_of (t_id t) st \<noteq> None \<or> (case t_after t of None \<Rightarrow> False | Some a \<Rightarrow> row_of a st = None)
      then Inl ConstraintViolated
      else Inr (t, st\<lparr>tasks := tasks st @ [t]\<rparr>))"

definition submit_error :: "submit_input \<Rightarrow> string \<Rightarrow> work_store \<Rightarrow> queue_error option" where
  "submit_error input p st =
     (if in_repository input \<notin> set (repositories st) then Some (UnknownRepository (in_repository input))
      else if p \<notin> set (projects st) then Some (UnknownProject p)
      else case in_submittedBy input of
          None \<Rightarrow> None
        | Some u \<Rightarrow> if u \<in> set (accounts st) then None else Some (UnknownUser u))"

definition submitTask :: "instant \<Rightarrow> string \<Rightarrow> submit_input \<Rightarrow> work_store \<Rightarrow> queue_error + submitted_task \<times> work_store" where
  "submitTask now i input st =
     (let p = or_else (in_project input) DEFAULT_PROJECT_ID
      in case submit_error input p st of
           Some e \<Rightarrow> Inl e
         | None \<Rightarrow>
             (let t = placed input st (submitted_row now i input p)
              in insert_task t (settle_turns now (t_conversation t) st)))"

record task_filter =
  tf_repository :: "string option"
  tf_project :: "string option"
  tf_status :: "task_status option"
  tf_kind :: "task_kind option option"

text \<open>The kind of a filter: absent means work, \<open>Some None\<close> is \<open>any\<close>.\<close>

definition listSubmittedTasks :: "task_filter \<Rightarrow> work_store \<Rightarrow> submitted_task list" where
  "listSubmittedTasks f st =
     sort_key t_submittedAt (filter (\<lambda>t.
       (case tf_repository f of None \<Rightarrow> True | Some r \<Rightarrow> t_repository t = r) \<and>
       (case tf_project f of None \<Rightarrow> True | Some p \<Rightarrow> t_project t = Some p) \<and>
       (case tf_status f of None \<Rightarrow> True | Some s \<Rightarrow> t_status t = s) \<and>
       (case or_else (tf_kind f) (Some KindTask) of None \<Rightarrow> True | Some k \<Rightarrow> t_kind t = k)) (tasks st))"

definition any_task :: task_filter where
  "any_task = \<lparr>tf_repository = None, tf_project = None, tf_status = None, tf_kind = None\<rparr>"

definition claimSubmittedTasks :: "instant \<Rightarrow> string \<Rightarrow> string option \<Rightarrow> work_store \<Rightarrow> submitted_task list \<times> work_store" where
  "claimSubmittedTasks now r p st =
     (let rows = sort_key t_submittedAt (filter (\<lambda>t. t_repository t = r \<and>
            (case p of None \<Rightarrow> True | Some q \<Rightarrow> t_project t = Some q) \<and> t_status t = TaskSubmitted \<and>
            t_kind t = KindTask \<and> \<not> waits_for_predecessor st t) (tasks st))
      in (map (claimed_at now) rows, update_tasks (\<lambda>t. t_id t \<in> t_id ` set rows) (claimed_at now) st))"

section \<open>Statuses\<close>

text \<open>
  \<open>UPDATE ... WHERE id = ? AND status IN (...)\<close>; where no row matched, the status the row has is
  read to say why.
\<close>

definition moved :: "string \<Rightarrow> task_status set \<Rightarrow> (submitted_task \<Rightarrow> submitted_task) \<Rightarrow> work_store \<Rightarrow> work_store option" where
  "moved i from f st =
     (if list_ex (\<lambda>t. t_id t = i \<and> t_status t \<in> from) (tasks st)
      then Some (update_tasks (\<lambda>t. t_id t = i \<and> t_status t \<in> from) f st) else None)"

definition unmoved_error :: "string \<Rightarrow> work_store \<Rightarrow> queue_error" where
  "unmoved_error i st = (case row_of i st of None \<Rightarrow> UnknownTask i | Some t \<Rightarrow> NotFromStatus i (t_status t))"

definition or_refused :: "string \<Rightarrow> work_store \<Rightarrow> work_store option \<Rightarrow> queue_error + work_store" where
  "or_refused i st m = (case m of None \<Rightarrow> Inl (unmoved_error i st) | Some st' \<Rightarrow> Inr st')"

definition retrySubmittedTask :: "string \<Rightarrow> work_store \<Rightarrow> queue_error + work_store" where
  "retrySubmittedTask i st =
     or_refused i st (moved i {TaskClaimed, TaskFailed}
       (\<lambda>t. t\<lparr>t_status := TaskSubmitted, t_claimedAt := None, t_completedAt := None, t_run := None\<rparr>) st)"

definition cancelSubmittedTask :: "instant \<Rightarrow> string \<Rightarrow> work_store \<Rightarrow> queue_error + work_store" where
  "cancelSubmittedTask now i st =
     or_refused i st (moved i {TaskSubmitted, TaskClaimed, TaskPlanned, TaskOpen, TaskPaused}
       (\<lambda>t. t\<lparr>t_status := TaskCancelled, t_completedAt := Some now\<rparr>) st)"

definition pauseSubmittedTask :: "string \<Rightarrow> work_store \<Rightarrow> work_store option" where
  "pauseSubmittedTask i st = moved i {TaskSubmitted, TaskClaimed} (\<lambda>t. t\<lparr>t_status := TaskPaused\<rparr>) st"

definition resumePausedTask :: "string \<Rightarrow> work_store \<Rightarrow> work_store option" where
  "resumePausedTask i st =
     moved i {TaskPaused} (\<lambda>t. t\<lparr>t_status := TaskSubmitted, t_claimedAt := None, t_run := None\<rparr>) st"

definition releasePlannedTask :: "string \<Rightarrow> work_store \<Rightarrow> work_store option" where
  "releasePlannedTask i st = moved i {TaskPlanned} (\<lambda>t. t\<lparr>t_status := TaskSubmitted\<rparr>) st"

text \<open>A completion is one of the three terminal statuses.\<close>

datatype completion = EndIntegrated | EndFailed | EndCancelled

fun completion_status :: "completion \<Rightarrow> task_status" where
  "completion_status EndIntegrated = TaskIntegrated"
| "completion_status EndFailed = TaskFailed"
| "completion_status EndCancelled = TaskCancelled"

definition completeSubmittedTask ::
  "instant \<Rightarrow> string \<Rightarrow> completion \<Rightarrow> string option \<Rightarrow> work_store \<Rightarrow> queue_error + work_store" where
  "completeSubmittedTask now i c run st =
     or_refused i st (moved i {TaskClaimed}
       (\<lambda>t. t\<lparr>t_status := completion_status c, t_completedAt := Some now, t_run := run\<rparr>) st)"

definition openSubmittedTask :: "instant \<Rightarrow> string \<Rightarrow> string option \<Rightarrow> work_store \<Rightarrow> queue_error + work_store" where
  "openSubmittedTask now i run st =
     or_refused i st (moved i {TaskClaimed}
       (\<lambda>t. t\<lparr>t_status := TaskOpen, t_openedAt := Some now, t_run := run\<rparr>) st)"

definition open_before :: "instant \<Rightarrow> string option \<Rightarrow> submitted_task \<Rightarrow> bool" where
  "open_before cutoff r t \<longleftrightarrow> t_status t = TaskOpen \<and>
     (case t_openedAt t of None \<Rightarrow> False | Some o' \<Rightarrow> o' \<le> cutoff) \<and>
     (case r of None \<Rightarrow> True | Some q \<Rightarrow> t_repository t = q)"

definition expireOpenTasks :: "instant \<Rightarrow> instant \<Rightarrow> string option \<Rightarrow> work_store \<Rightarrow> submitted_task list \<times> work_store" where
  "expireOpenTasks now cutoff r st =
     (let rows = sort_key t_submittedAt (filter (open_before cutoff r) (tasks st))
      in (map (integrated_at now) rows,
          update_tasks (\<lambda>t. t_id t \<in> t_id ` set rows \<and> t_status t = TaskOpen) (integrated_at now) st))"

section \<open>Stopping, pausing and resuming\<close>

text \<open>
  What a stop reads before it acts: the tasks it is about, and the active leases, which are only read
  when one of those tasks is claimed.
\<close>

definition stop_leases :: "string \<Rightarrow> submitted_task list \<Rightarrow> work_store \<Rightarrow> lease_row list" where
  "stop_leases r candidates st =
     (if list_ex (\<lambda>t. t_status t = TaskClaimed) candidates then active_in r st else [])"

definition release_held :: "instant \<Rightarrow> string \<Rightarrow> lease_row list \<Rightarrow> submitted_task \<Rightarrow> work_store \<Rightarrow> work_store" where
  "release_held now reason held t st =
     (case find (\<lambda>l. l_task l = t_id t) held of
        None \<Rightarrow> st
      | Some l \<Rightarrow> snd (finishWorkLease (l_id l) LeaseReleased now (Some reason) st))"

record cancel_input =
  ct_repository :: string
  ct_project :: "string option"
  ct_ids :: "string list option"
  ct_agent :: "string option"
  ct_submittedBy :: "string option"
  ct_reason :: string

definition cancellable :: "cancel_input \<Rightarrow> submitted_task \<Rightarrow> bool" where
  "cancellable input t \<longleftrightarrow>
     t_status t \<in> {TaskClaimed, TaskSubmitted, TaskPlanned, TaskPaused, TaskOpen} \<and>
     (case ct_ids input of
        Some ids \<Rightarrow> t_id t \<in> set ids
      | None \<Rightarrow> t_status t \<noteq> TaskOpen \<and> t_status t \<noteq> TaskPaused \<and>
          (case ct_agent input of None \<Rightarrow> True | Some a \<Rightarrow> t_agent t = a) \<and>
          (case ct_submittedBy input of None \<Rightarrow> True | Some u \<Rightarrow> t_submittedBy t = Some u))"

definition cancel_candidates :: "cancel_input \<Rightarrow> work_store \<Rightarrow> submitted_task list" where
  "cancel_candidates input st =
     filter (cancellable input) (listSubmittedTasks (any_task\<lparr>tf_repository := Some (ct_repository input), tf_project := ct_project input\<rparr>) st)"

definition cancel_one :: "instant \<Rightarrow> string \<Rightarrow> lease_row list \<Rightarrow> string list \<times> work_store \<Rightarrow> submitted_task \<Rightarrow> string list \<times> work_store" where
  "cancel_one now reason held acc t =
     (case cancelSubmittedTask now (t_id t) (snd acc) of
        Inl _ \<Rightarrow> acc
      | Inr st \<Rightarrow> (fst acc @ [t_id t], release_held now reason held t st))"

definition cancelTasks :: "instant \<Rightarrow> cancel_input \<Rightarrow> work_store \<Rightarrow> string list \<times> work_store" where
  "cancelTasks now input st =
     (let candidates = cancel_candidates input st
      in foldl (cancel_one now (ct_reason input) (stop_leases (ct_repository input) candidates st)) ([], st) candidates)"

definition pause_candidates :: "string \<Rightarrow> string option \<Rightarrow> string list \<Rightarrow> work_store \<Rightarrow> submitted_task list" where
  "pause_candidates r p ids st =
     filter (\<lambda>t. t_id t \<in> set ids \<and> t_status t \<in> {TaskSubmitted, TaskClaimed})
       (listSubmittedTasks (any_task\<lparr>tf_repository := Some r, tf_project := p\<rparr>) st)"

definition pause_one :: "instant \<Rightarrow> string \<Rightarrow> lease_row list \<Rightarrow> string list \<times> work_store \<Rightarrow> submitted_task \<Rightarrow> string list \<times> work_store" where
  "pause_one now reason held acc t =
     (case pauseSubmittedTask (t_id t) (snd acc) of
        None \<Rightarrow> acc
      | Some st \<Rightarrow> (fst acc @ [t_id t], release_held now reason held t st))"

definition pauseTasks :: "instant \<Rightarrow> string \<Rightarrow> string option \<Rightarrow> string list \<Rightarrow> string \<Rightarrow> work_store \<Rightarrow> string list \<times> work_store" where
  "pauseTasks now r p ids reason st =
     (let candidates = pause_candidates r p ids st
      in foldl (pause_one now reason (stop_leases r candidates st)) ([], st) candidates)"

definition resume_one :: "string list \<times> work_store \<Rightarrow> submitted_task \<Rightarrow> string list \<times> work_store" where
  "resume_one acc t =
     (case resumePausedTask (t_id t) (snd acc) of None \<Rightarrow> acc | Some st \<Rightarrow> (fst acc @ [t_id t], st))"

definition resumeTasks :: "string \<Rightarrow> string option \<Rightarrow> string list \<Rightarrow> work_store \<Rightarrow> string list \<times> work_store" where
  "resumeTasks r p ids st =
     foldl resume_one ([], st)
       (filter (\<lambda>t. t_id t \<in> set ids \<and> t_status t = TaskPaused)
          (listSubmittedTasks (any_task\<lparr>tf_repository := Some r, tf_project := p\<rparr>) st))"

section \<open>Work that nothing holds\<close>

definition CLAIMED_GRACE_MS :: int where
  "CLAIMED_GRACE_MS = 2 * 60000"

definition stranded :: "instant \<Rightarrow> work_store \<Rightarrow> submitted_task list" where
  "stranded claimedBefore st =
     filter (\<lambda>t. \<not> list_ex (\<lambda>l. lease_active l \<and> l_task l = t_id t) (leases st))
       (filter (\<lambda>t. case t_claimedAt t of None \<Rightarrow> True | Some c \<Rightarrow> c < claimedBefore)
          (listSubmittedTasks (any_task\<lparr>tf_status := Some TaskClaimed\<rparr>) st))"

definition reap_one :: "string list \<times> work_store \<Rightarrow> submitted_task \<Rightarrow> string list \<times> work_store" where
  "reap_one acc t =
     (case retrySubmittedTask (t_id t) (snd acc) of Inl _ \<Rightarrow> acc | Inr st \<Rightarrow> (fst acc @ [t_id t], st))"

definition reapStrandedWork :: "instant \<Rightarrow> instant option \<Rightarrow> work_store \<Rightarrow> string list \<times> work_store" where
  "reapStrandedWork now claimedBefore st =
     foldl reap_one ([], st) (stranded (or_else claimedBefore (now - CLAIMED_GRACE_MS)) st)"

end
