(* ===== verification/Work_Laws.thy ===== *)
theory Work_Laws
  imports Work_Tasks
begin

text \<open>
  What one operation of the queue does to the tables: the effects every proof about runs rests on.
\<close>

named_theorems queue_effects \<open>the tables after an operation\<close>

section \<open>Updates\<close>

lemma update_tasks_simps [simp]:
  "leases (update_tasks P f st) = leases st" "workers (update_tasks P f st) = workers st"
  "tasks (update_tasks P f st) = map (\<lambda>t. if P t then f t else t) (tasks st)"
  by (simp_all add: update_tasks_def)

lemma update_leases_simps [simp]:
  "tasks (update_leases P f st) = tasks st" "workers (update_leases P f st) = workers st"
  "leases (update_leases P f st) = map (\<lambda>l. if P l then f l else l) (leases st)"
  by (simp_all add: update_leases_def)

lemma row_simps [simp]:
  "t_id (requeued t) = t_id t" "t_status (requeued t) = TaskSubmitted"
  "t_id (claimed_at now t) = t_id t" "t_status (claimed_at now t) = TaskClaimed"
  "t_id (integrated_at now t) = t_id t" "t_status (integrated_at now t) = TaskIntegrated"
  by (simp_all add: requeued_def claimed_at_def integrated_at_def)

lemma settled_simps [simp]:
  "l_id (settled s at' why l) = l_id l" "l_task (settled s at' why l) = l_task l"
  "l_repository (settled s at' why l) = l_repository l" "l_plan (settled s at' why l) = l_plan l"
  "lease_active (settled s at' why l) \<longleftrightarrow> s = LeaseActive"
  by (simp_all add: settled_def lease_active_def)

lemma issued_lease_simps [simp]:
  "l_id (issued_lease now i input t) = i" "l_task (issued_lease now i input t) = t_id t"
  "l_repository (issued_lease now i input t) = t_repository t" "l_plan (issued_lease now i input t) = None"
  "lease_active (issued_lease now i input t)"
  by (simp_all add: issued_lease_def lease_active_def)

lemma submitted_row_simps [simp]:
  "t_id (submitted_row now i input p) = i"
  "t_status (submitted_row now i input p) \<in> {TaskSubmitted, TaskPlanned}"
  by (simp_all add: submitted_row_def)

lemma row_of_None: "row_of i st = None \<longleftrightarrow> i \<notin> t_id ` set (tasks st)"
  by (auto simp: row_of_def find_None_iff)

lemma active_lease_Some:
  "active_lease i st = Some l \<Longrightarrow> l \<in> set (leases st) \<and> l_id l = i \<and> lease_active l"
  by (auto simp: active_lease_def find_Some_iff)

lemma lapse_leases: "leases (lapse now st) =
    map (\<lambda>l. if lapsed now l then settled LeaseExpired now (Some ''lease expired'') l else l) (leases st)"
  by (simp add: lapse_def Let_def)

lemma lapse_tasks: "tasks (lapse now st) =
    map (\<lambda>t. if (\<exists>l \<in> set (leases st). lapsed now l \<and> l_task l = t_id t) \<and> t_status t = TaskClaimed
             then requeued t else t) (tasks st)"
  by (auto simp: lapse_def Let_def) (metis (mono_tags, lifting) image_eqI mem_Collect_eq)

section \<open>The row a request is given\<close>

lemma sort_key_hd_le:
  "sort_key k xs = x # ys \<Longrightarrow> y \<in> set xs \<Longrightarrow> k x \<le> k y"
proof -
  assume s: "sort_key k xs = x # ys" and y: "y \<in> set xs"
  have "sorted (map k (x # ys))" using sorted_sort_key [of k xs] s by simp
  moreover have "y \<in> set (x # ys)" using y s by (metis set_sort)
  ultimately show "k x \<le> k y" by auto
qed

lemma next_row_Some:
  assumes "next_row input st = Some t"
  shows "t \<in> set (tasks st)" "may_take input st t"
    "u \<in> set (tasks st) \<Longrightarrow> may_take input st u \<Longrightarrow> kind_rank t \<le> kind_rank u"
proof -
  let ?xs = "sort_key t_submittedAt (filter (may_take input st) (tasks st))"
  obtain rest where s: "sort_key kind_rank ?xs = t # rest"
    using assms by (auto simp: next_row_def split: list.splits)
  have "t \<in> set (filter (may_take input st) (tasks st))" by (metis list.set_intros(1) s set_sort)
  then show "t \<in> set (tasks st)" "may_take input st t" by auto
  show "kind_rank t \<le> kind_rank u" if "u \<in> set (tasks st)" "may_take input st u"
    by (rule sort_key_hd_le [OF s]) (use that in simp)
qed

lemma next_row_None: "next_row input st = None \<longleftrightarrow> (\<forall>t \<in> set (tasks st). \<not> may_take input st t)"
proof -
  let ?xs = "sort_key kind_rank (sort_key t_submittedAt (filter (may_take input st) (tasks st)))"
  have "next_row input st = None \<longleftrightarrow> ?xs = []" by (simp add: next_row_def split: list.splits)
  also have "\<dots> \<longleftrightarrow> set ?xs = {}" by (simp only: set_empty)
  finally show ?thesis by auto
qed

text \<open>Among rows of one kind the request takes the one submitted first.\<close>

lemma hd_of_same_rank:
  assumes s: "sort_key kind_rank xs = t # rest" and u: "u \<in> set xs" "kind_rank u = kind_rank t"
    and sorted: "sorted (map t_submittedAt xs)"
  shows "t_submittedAt t \<le> t_submittedAt u"
proof -
  let ?same = "filter (\<lambda>v. kind_rank v = kind_rank t)"
  have "?same (sort_key kind_rank xs) = ?same xs"
    by (rule sort_key_stable)
  moreover have "?same (sort_key kind_rank xs) = t # ?same rest" using s by simp
  ultimately have e: "?same xs = t # ?same rest" by simp
  have "sorted (map t_submittedAt (?same xs))" using sorted by (rule sorted_filter)
  moreover have "u \<in> set (?same xs)" using u by simp
  ultimately show ?thesis unfolding e by auto
qed

lemma next_row_first:
  assumes "next_row input st = Some t" and "u \<in> set (tasks st)" "may_take input st u" "kind_rank u = kind_rank t"
  shows "t_submittedAt t \<le> t_submittedAt u"
proof -
  let ?xs = "sort_key t_submittedAt (filter (may_take input st) (tasks st))"
  obtain rest where s: "sort_key kind_rank ?xs = t # rest"
    using assms(1) by (auto simp: next_row_def split: list.splits)
  show ?thesis by (rule hd_of_same_rank [OF s]) (use assms(2-) in auto)
qed

section \<open>Leasing\<close>

lemma leaseNextTask_cases:
  assumes "leaseNextTask now i input st = Inr (r, st')"
  obtains (none) "r = None" "st' = lapse now st" "next_row input (lapse now st) = None"
  | (some) t where "next_row input (lapse now st) = Some t" "r = Some (issued_lease now i input t, claimed_at now t)"
      "lease_fits (issued_lease now i input t) (lapse now st)"
      "tasks st' = map (\<lambda>u. if t_id u = t_id t then claimed_at now u else u) (tasks (lapse now st))"
      "leases st' = leases (lapse now st) @ [issued_lease now i input t]"
  using assms
  by (auto simp: leaseNextTask_def grant_lease_def Let_def split: option.splits if_splits)

lemma leaseNextTask_valid: "leaseNextTask now i input st = Inr x \<Longrightarrow> lease_request_error input st = None"
  by (auto simp: leaseNextTask_def split: option.splits)

lemma leaseNextTask_refused:
  assumes "lease_request_error input st = None" and "next_row input (lapse now st) = Some t"
    and "\<not> lease_fits (issued_lease now i input t) (lapse now st)"
  shows "leaseNextTask now i input st = Inl ConstraintViolated"
  using assms by (simp add: leaseNextTask_def grant_lease_def Let_def)

section \<open>Statuses\<close>

lemma moved_tasks:
  "moved i from f st = Some st' \<Longrightarrow>
     tasks st' = map (\<lambda>t. if t_id t = i \<and> t_status t \<in> from then f t else t) (tasks st) \<and> leases st' = leases st"
  by (auto simp: moved_def split: if_splits)

lemma or_refused_Inr [simp]: "or_refused i st m = Inr st' \<longleftrightarrow> m = Some st'"
  by (auto simp: or_refused_def split: option.splits)

end
