(* ===== verification/Work_Runs.thy ===== *)
theory Work_Runs
  imports Work_Laws
begin

text \<open>
  Runs of the queue: any sequence of its operations, each of which is one statement or one transaction
  of the store, so whatever processes call it their operations interleave in some such sequence. The
  compound operations of the callers are runs of these.
\<close>

section \<open>Operations as steps\<close>

datatype queue_op =
    OpSubmit instant string submit_input
  | OpLease instant string lease_input
  | OpSavePlan string work_lease_plan "string list" bool
  | OpHeartbeat string instant instant
  | OpFinish string lease_status instant "string option"
  | OpClaim instant string "string option"
  | OpRetry string
  | OpCancel instant string
  | OpPause string
  | OpResume string
  | OpRelease string
  | OpComplete instant string completion "string option"
  | OpOpen instant string "string option"
  | OpExpireOpen instant instant "string option"

definition kept :: "work_store \<Rightarrow> 'e + work_store \<Rightarrow> work_store" where
  "kept st r = (case r of Inl _ \<Rightarrow> st | Inr st' \<Rightarrow> st')"

text \<open>The store after an operation; one that throws or finds nothing leaves it as it was.\<close>

fun perform :: "queue_op \<Rightarrow> work_store \<Rightarrow> work_store" where
  "perform (OpSubmit now i input) st = kept st (map_sum id snd (submitTask now i input st))"
| "perform (OpLease now i input) st = kept st (map_sum id snd (leaseNextTask now i input st))"
| "perform (OpSavePlan i submission observed replace) st = snd (saveWorkLeasePlan i submission observed replace st)"
| "perform (OpHeartbeat i at' until) st = snd (heartbeatWorkLease i at' until st)"
| "perform (OpFinish i s at' why) st = (if s = LeaseActive then st else snd (finishWorkLease i s at' why st))"
| "perform (OpClaim now r p) st = snd (claimSubmittedTasks now r p st)"
| "perform (OpRetry i) st = kept st (retrySubmittedTask i st)"
| "perform (OpCancel now i) st = kept st (cancelSubmittedTask now i st)"
| "perform (OpPause i) st = or_else (pauseSubmittedTask i st) st"
| "perform (OpResume i) st = or_else (resumePausedTask i st) st"
| "perform (OpRelease i) st = or_else (releasePlannedTask i st) st"
| "perform (OpComplete now i c run) st = kept st (completeSubmittedTask now i c run st)"
| "perform (OpOpen now i run) st = kept st (openSubmittedTask now i run st)"
| "perform (OpExpireOpen now cutoff r) st = snd (expireOpenTasks now cutoff r st)"

text \<open>A run in which every operation is one that \<open>ok\<close> lets happen where it happens.\<close>

inductive queue_run :: "(queue_op \<Rightarrow> work_store \<Rightarrow> bool) \<Rightarrow> work_store \<Rightarrow> work_store \<Rightarrow> bool"
  for ok where
  start: "queue_run ok st st"
| next_op: "queue_run ok st st' \<Longrightarrow> ok op st' \<Longrightarrow> queue_run ok st (perform op st')"

inductive_cases queue_runE: "queue_run ok st st'"

lemma queue_run_invariant [consumes 1, case_names start step]:
  assumes "queue_run ok st st'" and "I st" and "\<And>op s. I s \<Longrightarrow> ok op s \<Longrightarrow> I (perform op s)"
  shows "I st'"
  using assms by (induction rule: queue_run.induct) auto

lemma queue_run_trans: "queue_run ok b c \<Longrightarrow> queue_run ok a b \<Longrightarrow> queue_run ok a c"
  by (induction rule: queue_run.induct) (auto intro: queue_run.intros)

lemma queue_run_mono: "queue_run ok a b \<Longrightarrow> (\<And>op s. ok op s \<Longrightarrow> ok' op s) \<Longrightarrow> queue_run ok' a b"
  by (induction rule: queue_run.induct) (auto intro: queue_run.intros)

section \<open>The effect of an operation on the tasks\<close>

text \<open>The edges of the statechart of a task, as \<open>store.ts\<close> describes the statuses.\<close>

definition edges :: "(task_status \<times> task_status) list" where
  "edges =
    [(TaskPlanned, TaskSubmitted), (TaskSubmitted, TaskClaimed), (TaskClaimed, TaskSubmitted),
     (TaskSubmitted, TaskPaused), (TaskClaimed, TaskPaused), (TaskPaused, TaskSubmitted),
     (TaskClaimed, TaskOpen), (TaskOpen, TaskIntegrated),
     (TaskClaimed, TaskIntegrated), (TaskClaimed, TaskFailed), (TaskFailed, TaskSubmitted),
     (TaskSubmitted, TaskCancelled), (TaskClaimed, TaskCancelled), (TaskPlanned, TaskCancelled),
     (TaskPaused, TaskCancelled), (TaskOpen, TaskCancelled)]"

definition edge :: "task_status \<Rightarrow> task_status \<Rightarrow> bool" where
  "edge s s' \<longleftrightarrow> (s, s') \<in> set edges"

lemma edge_intros [simp, intro]:
  "edge TaskPlanned TaskSubmitted" "edge TaskSubmitted TaskClaimed" "edge TaskClaimed TaskSubmitted"
  "edge TaskSubmitted TaskPaused" "edge TaskClaimed TaskPaused" "edge TaskPaused TaskSubmitted"
  "edge TaskClaimed TaskOpen" "edge TaskOpen TaskIntegrated"
  "edge TaskClaimed TaskIntegrated" "edge TaskClaimed TaskFailed" "edge TaskFailed TaskSubmitted"
  "edge TaskSubmitted TaskCancelled" "edge TaskClaimed TaskCancelled" "edge TaskPlanned TaskCancelled"
  "edge TaskPaused TaskCancelled" "edge TaskOpen TaskCancelled"
  by (simp_all add: edge_def edges_def)

lemma edge_final: "\<not> edge TaskIntegrated s" "\<not> edge TaskCancelled s"
  by (simp_all add: edge_def edges_def)

lemma edge_completion [simp]: "edge TaskClaimed (completion_status c)"
  by (cases c) simp_all

text \<open>A row that stands for the same task one operation later.\<close>

definition goes :: "submitted_task \<Rightarrow> submitted_task \<Rightarrow> bool" where
  "goes t t' \<longleftrightarrow> t_id t' = t_id t \<and> t_kind t' = t_kind t \<and> t_repository t' = t_repository t \<and>
     t_submittedBy t' = t_submittedBy t \<and> t_after t' = t_after t \<and>
     (t_status t' = t_status t \<or> edge (t_status t) (t_status t'))"

lemma goes_refl [simp]: "goes t t"
  by (simp add: goes_def)

lemma goes_intros [simp]:
  "t_status t = TaskClaimed \<Longrightarrow> goes t (requeued t)"
  "t_status t = TaskSubmitted \<Longrightarrow> goes t (claimed_at now t)"
  "t_status t = TaskOpen \<Longrightarrow> goes t (integrated_at now t)"
  by (simp_all add: goes_def requeued_def claimed_at_def integrated_at_def)

lemma goes_map: "(\<And>t. t \<in> set ts \<Longrightarrow> P t \<Longrightarrow> goes t (f t)) \<Longrightarrow>
    list_all2 goes ts (map (\<lambda>t. if P t then f t else t) ts)"
  by (simp add: list_all2_conv_all_nth)

definition distinct_tasks :: "work_store \<Rightarrow> bool" where
  "distinct_tasks st \<longleftrightarrow> distinct (map t_id (tasks st))"

lemma same_task: "distinct_tasks st \<Longrightarrow> t \<in> set (tasks st) \<Longrightarrow> u \<in> set (tasks st) \<Longrightarrow> t_id t = t_id u \<Longrightarrow> t = u"
  by (auto simp: distinct_tasks_def distinct_map inj_on_def)

lemma goes_moved:
  assumes "moved i from f st = Some st'" and "\<And>t. t_status t \<in> from \<Longrightarrow> goes t (f t)"
  shows "list_all2 goes (tasks st) (tasks st')"
  using moved_tasks [OF assms(1)] assms(2) by (auto intro: goes_map)

lemma goes_lapse: "list_all2 goes (tasks st) (tasks (lapse now st))"
  unfolding lapse_tasks by (rule goes_map) simp

lemma goes_ids: "list_all2 goes xs ys \<Longrightarrow> map t_id ys = map t_id xs"
  by (induction rule: list_all2_induct) (simp_all add: goes_def)

lemma goes_trans_claim:
  assumes "list_all2 goes xs ys" and "distinct (map t_id ys)" and "t \<in> set ys" "t_status t = TaskSubmitted"
    and "\<And>x. x \<in> set xs \<Longrightarrow> t_id x = t_id t \<Longrightarrow> t_status x \<in> {TaskSubmitted, TaskClaimed}"
  shows "list_all2 goes xs (map (\<lambda>u. if t_id u = t_id t then claimed_at now u else u) ys)"
proof (rule list_all2_all_nthI)
  show "length xs = length (map (\<lambda>u. if t_id u = t_id t then claimed_at now u else u) ys)"
    using assms(1) by (simp add: list_all2_lengthD)
  fix n assume n: "n < length xs"
  then have n': "n < length ys" using assms(1) by (simp add: list_all2_lengthD)
  have g: "goes (xs ! n) (ys ! n)" using assms(1) n by (simp add: list_all2_nthD)
  show "goes (xs ! n) (map (\<lambda>u. if t_id u = t_id t then claimed_at now u else u) ys ! n)"
  proof (cases "t_id (ys ! n) = t_id t")
    case True
    have "t_status (xs ! n) \<in> {TaskSubmitted, TaskClaimed}" using assms(5) [of "xs ! n"] n g True by (simp add: goes_def)
    then show ?thesis using True n' g by (auto simp: goes_def claimed_at_def)
  qed (use n' g in simp)
qed

text \<open>An operation moves the rows along the edges and appends at most one, under a new key.\<close>

definition advances :: "work_store \<Rightarrow> work_store \<Rightarrow> bool" where
  "advances st st' \<longleftrightarrow> (\<exists>ts new. tasks st' = ts @ new \<and> list_all2 goes (tasks st) ts \<and>
     (new = [] \<or> (\<exists>t. new = [t] \<and> t_id t \<notin> t_id ` set (tasks st) \<and> t_status t \<in> {TaskSubmitted, TaskPlanned})))"

lemma advances_goes: "list_all2 goes (tasks st) (tasks st') \<Longrightarrow> advances st st'"
  by (auto simp: advances_def intro: exI [of _ "tasks st'"])

lemma advances_refl [simp]: "advances st st"
  by (rule advances_goes) (simp add: list.rel_refl)

lemma advances_moved: "moved i from f st = Some st' \<Longrightarrow> (\<And>t. t_status t \<in> from \<Longrightarrow> goes t (f t)) \<Longrightarrow> advances st st'"
  by (rule advances_goes, rule goes_moved) auto

lemma advances_kept: "(\<And>st'. m = Some st' \<Longrightarrow> advances st st') \<Longrightarrow> advances st (kept st (or_refused i st m))"
  by (cases m) (simp_all add: or_refused_def kept_def)

lemma advances_else: "(\<And>st'. m = Some st' \<Longrightarrow> advances st st') \<Longrightarrow> advances st (or_else m st)"
  by (cases m) (simp_all add: or_else_def)

lemma advances_finish: "advances st (snd (finishWorkLease i s at' why st))"
  by (rule advances_goes)
     (auto simp: finishWorkLease_def Let_def list.rel_refl intro: goes_map split: option.splits)

lemma advances_plan: "tasks (snd (saveWorkLeasePlan i submission observed replace st)) = tasks st"
  "tasks (snd (heartbeatWorkLease i at' until st)) = tasks st"
  by (simp_all add: saveWorkLeasePlan_def heartbeatWorkLease_def Let_def split: option.splits)

lemma advances_rows:
  assumes "distinct_tasks st" and "\<And>t. t \<in> set (tasks st) \<Longrightarrow> P t \<Longrightarrow> goes t (f t)"
    and "\<And>t. Q t \<Longrightarrow> t_id t \<in> t_id ` {u \<in> set (tasks st). P u}"
  shows "list_all2 goes (tasks st) (map (\<lambda>t. if Q t then f t else t) (tasks st))"
proof (rule goes_map)
  fix t assume t: "t \<in> set (tasks st)" "Q t"
  obtain u where "u \<in> set (tasks st)" "P u" "t_id t = t_id u" using assms(3) [OF t(2)] by auto
  then have "P t" using same_task [OF assms(1) t(1)] by auto
  then show "goes t (f t)" using assms(2) t(1) by blast
qed

lemma advances_claim:
  assumes "distinct_tasks st"
  shows "advances st (snd (claimSubmittedTasks now r p st))"
proof (rule advances_goes)
  define C where "C t \<longleftrightarrow> t_repository t = r \<and> (case p of None \<Rightarrow> True | Some q \<Rightarrow> t_project t = Some q) \<and>
    t_status t = TaskSubmitted \<and> t_kind t = KindTask \<and> \<not> waits_for_predecessor st t" for t
  have "tasks (snd (claimSubmittedTasks now r p st)) =
      map (\<lambda>t. if t_id t \<in> t_id ` {u \<in> set (tasks st). C u} then claimed_at now t else t) (tasks st)"
    by (simp add: claimSubmittedTasks_def Let_def C_def)
  then show "list_all2 goes (tasks st) (tasks (snd (claimSubmittedTasks now r p st)))"
    by (simp only:) (rule advances_rows [OF assms, where P = C], simp_all add: C_def)
qed

lemma advances_expire_open:
  assumes "distinct_tasks st"
  shows "advances st (snd (expireOpenTasks now cutoff r st))"
  by (rule advances_goes) (auto simp: expireOpenTasks_def Let_def intro!: goes_map)

lemma goes_settle_turns: "list_all2 goes (tasks st) (tasks (settle_turns now c st))"
  by (auto simp: settle_turns_def list.rel_refl intro!: goes_map split: option.splits)

lemma placed_simps [simp]: "t_id (placed input st t) = t_id t" "t_status (placed input st t) = t_status t"
  "t_conversation (placed input st t) = t_conversation t" "t_repository (placed input st t) = t_repository t"
  by (simp_all add: placed_def)

lemma insert_task_Inr:
  "insert_task t st = Inr (u, st') \<Longrightarrow> u = t \<and> tasks st' = tasks st @ [t] \<and> leases st' = leases st \<and>
     t_id t \<notin> t_id ` set (tasks st)"
  by (auto simp: insert_task_def row_of_None split: if_splits)

lemma advances_submit:
  assumes "submitTask now i input st = Inr (t, st')"
  shows "advances st st'"
proof -
  define u where "u = placed input st (submitted_row now i input (or_else (in_project input) DEFAULT_PROJECT_ID))"
  define st1 where "st1 = settle_turns now (t_conversation u) st"
  have "insert_task u st1 = Inr (t, st')"
    using assms by (auto simp: submitTask_def Let_def u_def st1_def split: option.splits)
  then have e: "tasks st' = tasks st1 @ [u]" "t_id u \<notin> t_id ` set (tasks st1)" by (auto dest: insert_task_Inr)
  have g: "list_all2 goes (tasks st) (tasks st1)" by (simp add: st1_def goes_settle_turns)
  moreover have "t_id ` set (tasks st1) = t_id ` set (tasks st)" using goes_ids [OF g] by (metis list.set_map)
  moreover have "t_status u \<in> {TaskSubmitted, TaskPlanned}" using submitted_row_simps(2) by (simp add: u_def)
  ultimately show ?thesis unfolding advances_def using e by blast
qed

lemma advances_lease:
  assumes "leaseNextTask now i input st = Inr (r, st')" and d: "distinct_tasks st"
  shows "advances st st'"
  using assms(1)
proof (cases rule: leaseNextTask_cases)
  case none
  then show ?thesis by (simp add: advances_goes goes_lapse)
next
  case (some t)
  note g = goes_lapse [of st now]
  have ids: "distinct (map t_id (tasks (lapse now st)))" using d goes_ids [OF g] by (simp add: distinct_tasks_def)
  have t: "t \<in> set (tasks (lapse now st))" "t_status t = TaskSubmitted"
    using next_row_Some [OF some(1)] by (simp_all add: may_take_def)
  have "t_status x \<in> {TaskSubmitted, TaskClaimed}" if x: "x \<in> set (tasks st)" "t_id x = t_id t" for x
  proof -
    obtain y where y: "y \<in> set (tasks st)" "t = y \<or> t = requeued y \<and> t_status y = TaskClaimed"
      using t(1) unfolding lapse_tasks by (auto split: if_splits)
    then have "x = y" using same_task [OF d x(1)] x(2) by auto
    then show ?thesis using y(2) t(2) by auto
  qed
  then have "list_all2 goes (tasks st) (tasks st')"
    unfolding some(4) by (intro goes_trans_claim [OF g ids t]) auto
  then show ?thesis by (rule advances_goes)
qed

lemma perform_advances:
  assumes "distinct_tasks st"
  shows "advances st (perform op st)"
proof (cases op)
  case (OpSubmit now i input)
  then show ?thesis
    by (cases "submitTask now i input st") (auto simp: kept_def dest: advances_submit split: prod.splits)
next
  case (OpLease now i input)
  then show ?thesis
    by (cases "leaseNextTask now i input st") (auto simp: kept_def dest: advances_lease [OF _ assms] split: prod.splits)
next
  case (OpSavePlan i submission observed replace)
  then show ?thesis by (simp add: advances_goes advances_plan list.rel_refl)
next
  case (OpHeartbeat i at' until)
  then show ?thesis by (simp add: advances_goes advances_plan list.rel_refl)
next
  case (OpFinish i s at' why)
  then show ?thesis by (simp add: advances_finish)
next
  case (OpClaim now r p)
  then show ?thesis by (simp add: advances_claim [OF assms])
next
  case (OpExpireOpen now cutoff r)
  then show ?thesis by (simp add: advances_expire_open [OF assms])
qed (auto intro!: advances_kept advances_else dest!: advances_moved
       simp: retrySubmittedTask_def cancelSubmittedTask_def pauseSubmittedTask_def resumePausedTask_def
         releasePlannedTask_def completeSubmittedTask_def openSubmittedTask_def goes_def)

lemma advances_distinct: "advances st st' \<Longrightarrow> distinct_tasks st \<Longrightarrow> distinct_tasks st'"
  by (auto simp: advances_def distinct_tasks_def dest!: goes_ids)

end
