(* ===== verification/Work_Holds.thy ===== *)
theory Work_Holds
  imports Work_Runs
begin

text \<open>
  Who holds what: the leases in runs of the queue. A lease, once over, stays over; a task is held by at
  most one; and as long as nobody requeues a task that is held, what is in the queue is held by nobody.
\<close>

section \<open>The effect of an operation on the leases\<close>

definition lease_goes :: "lease_row \<Rightarrow> lease_row \<Rightarrow> bool" where
  "lease_goes l l' \<longleftrightarrow> l_id l' = l_id l \<and> l_task l' = l_task l \<and> l_repository l' = l_repository l \<and>
     (lease_active l' \<longrightarrow> lease_active l)"

lemma lease_goes_refl [simp]: "lease_goes l l"
  by (simp add: lease_goes_def)

lemma lease_goes_settled [simp]: "s \<noteq> LeaseActive \<Longrightarrow> lease_goes l (settled s at' why l)"
  by (simp add: lease_goes_def)

text \<open>The same, with the plan as it was: what every operation but the saving of a plan does to a lease.\<close>

definition lease_keeps :: "lease_row \<Rightarrow> lease_row \<Rightarrow> bool" where
  "lease_keeps l l' \<longleftrightarrow> lease_goes l l' \<and> l_plan l' = l_plan l"

lemma lease_keeps_refl [simp]: "lease_keeps l l"
  by (simp add: lease_keeps_def)

lemma lease_keeps_settled [simp]: "s \<noteq> LeaseActive \<Longrightarrow> lease_keeps l (settled s at' why l)"
  by (simp add: lease_keeps_def)

lemma lease_keeps_beat [simp]: "lease_keeps l (l\<lparr>l_heartbeatAt := at', l_expiresAt := until\<rparr>)"
  by (simp add: lease_keeps_def lease_goes_def lease_active_def)

lemma lease_map: "(\<And>l. R l l) \<Longrightarrow> (\<And>l. P l \<Longrightarrow> R l (f l)) \<Longrightarrow> list_all2 R ls (map (\<lambda>l. if P l then f l else l) ls)"
  by (simp add: list_all2_conv_all_nth)

lemma lease_goes_keeps: "list_all2 lease_keeps ls ls' \<Longrightarrow> list_all2 lease_goes ls ls'"
  by (erule list_all2_mono) (simp add: lease_keeps_def)

definition fits_beside :: "lease_row \<Rightarrow> lease_row list \<Rightarrow> bool" where
  "fits_beside l ls \<longleftrightarrow> (\<forall>m \<in> set ls. l_id m \<noteq> l_id l \<and> (lease_active m \<longrightarrow> l_task m \<noteq> l_task l))"

definition holds_advance :: "(lease_row \<Rightarrow> lease_row \<Rightarrow> bool) \<Rightarrow> work_store \<Rightarrow> work_store \<Rightarrow> bool" where
  "holds_advance R st st' \<longleftrightarrow> (\<exists>ls new. leases st' = ls @ new \<and> list_all2 R (leases st) ls \<and>
     (new = [] \<or> (\<exists>l. new = [l] \<and> fits_beside l ls \<and> l_plan l = None \<and> l_task l \<in> t_id ` set (tasks st))))"

lemma holds_goes: "list_all2 R (leases st) (leases st') \<Longrightarrow> holds_advance R st st'"
  by (auto simp: holds_advance_def intro: exI [of _ "leases st'"])

lemma holds_same: "leases st' = leases st \<Longrightarrow> holds_advance lease_keeps st st'"
  by (rule holds_goes) (simp add: list.rel_refl)

lemma lapse_keeps: "list_all2 lease_keeps (leases st) (leases (lapse now st))"
  unfolding lapse_leases by (rule lease_map) simp_all

lemma lapse_goes: "list_all2 lease_goes (leases st) (leases (lapse now st))"
  by (rule lease_goes_keeps [OF lapse_keeps])

lemma holds_lease:
  assumes "leaseNextTask now i input st = Inr (r, st')"
  shows "holds_advance lease_keeps st st'"
  using assms
proof (cases rule: leaseNextTask_cases)
  case none
  then show ?thesis by (simp add: holds_goes lapse_keeps)
next
  case (some t)
  have "t \<in> set (tasks (lapse now st))" using next_row_Some(1) [OF some(1)] .
  then have "t_id t \<in> t_id ` set (tasks st)" using goes_ids [OF goes_lapse [of st now]] by (metis imageI list.set_map)
  moreover have "fits_beside (issued_lease now i input t) (leases (lapse now st))"
    using some(3) by (simp add: lease_fits_def fits_beside_def list_all_iff)
  ultimately show ?thesis
    unfolding holds_advance_def some(5) using lapse_keeps [of st now]
    by (intro exI [of _ "leases (lapse now st)"] exI [of _ "[issued_lease now i input t]"]) simp
qed

lemma leases_moved [simp]:
  "leases (kept st (or_refused i st (moved i from f st))) = leases st"
  "leases (or_else (moved i from f st) st) = leases st"
  by (auto simp: kept_def or_refused_def or_else_def moved_def)

lemma leases_submit: "submitTask now i input st = Inr (t, st') \<Longrightarrow> leases st' = leases st"
  by (auto simp: submitTask_def Let_def settle_turns_def split: option.splits dest!: insert_task_Inr)

fun saves_plan :: "queue_op \<Rightarrow> bool" where
  "saves_plan (OpSavePlan i submission observed replace) = True"
| "saves_plan _ = False"

lemma holds_finish: "s \<noteq> LeaseActive \<Longrightarrow> list_all2 lease_keeps (leases st) (leases (snd (finishWorkLease i s at' why st)))"
  by (auto simp: finishWorkLease_def Let_def list.rel_refl intro!: lease_map split: option.splits)

lemma holds_heartbeat: "list_all2 lease_keeps (leases st) (leases (snd (heartbeatWorkLease i at' until st)))"
  by (auto simp: heartbeatWorkLease_def Let_def list.rel_refl intro!: lease_map)

lemma holds_save: "list_all2 lease_goes (leases st) (leases (snd (saveWorkLeasePlan i submission observed replace st)))"
  by (auto simp: saveWorkLeasePlan_def Let_def lease_goes_def lease_active_def list.rel_refl
      intro!: lease_map split: option.splits)

lemma perform_keeps: "\<not> saves_plan op \<Longrightarrow> holds_advance lease_keeps st (perform op st)"
proof (cases op)
  case (OpSubmit now i input)
  then show ?thesis
    by (cases "submitTask now i input st") (auto simp: kept_def intro!: holds_same dest: leases_submit split: prod.splits)
next
  case (OpLease now i input)
  then show ?thesis
    by (cases "leaseNextTask now i input st") (auto simp: kept_def holds_same dest: holds_lease split: prod.splits)
next
  case (OpHeartbeat i at' until)
  then show ?thesis by (simp add: holds_goes holds_heartbeat)
next
  case (OpFinish i s at' why)
  then show ?thesis by (simp add: holds_goes holds_finish holds_same)
qed (auto intro!: holds_same simp: claimSubmittedTasks_def expireOpenTasks_def Let_def
       retrySubmittedTask_def cancelSubmittedTask_def pauseSubmittedTask_def resumePausedTask_def
       releasePlannedTask_def completeSubmittedTask_def openSubmittedTask_def)

lemma perform_holds: "holds_advance lease_goes st (perform op st)"
proof (cases "saves_plan op")
  case True
  then show ?thesis by (cases op) (simp_all add: holds_goes holds_save)
next
  case False
  show ?thesis using perform_keeps [OF False, of st] lease_goes_keeps unfolding holds_advance_def by blast
qed

section \<open>One holder\<close>

definition held_by :: "work_store \<Rightarrow> string \<Rightarrow> lease_row list" where
  "held_by st i = filter (\<lambda>l. lease_active l \<and> l_task l = i) (leases st)"

definition queue_ok :: "work_store \<Rightarrow> bool" where
  "queue_ok st \<longleftrightarrow> distinct_tasks st \<and> distinct (map l_id (leases st)) \<and>
     (\<forall>l \<in> set (leases st). l_task l \<in> t_id ` set (tasks st)) \<and> (\<forall>i. length (held_by st i) \<le> 1)"

lemma held_goes:
  "list_all2 lease_goes ls ls' \<Longrightarrow>
     length (filter (\<lambda>l. lease_active l \<and> l_task l = i) ls') \<le> length (filter (\<lambda>l. lease_active l \<and> l_task l = i) ls)"
  by (induction rule: list_all2_induct) (auto simp: lease_goes_def)

lemma lease_goes_ids: "list_all2 lease_goes ls ls' \<Longrightarrow> map l_id ls' = map l_id ls"
  "list_all2 lease_goes ls ls' \<Longrightarrow> map l_task ls' = map l_task ls"
  by (induction rule: list_all2_induct) (simp_all add: lease_goes_def)

lemma tasks_kept: "advances st st' \<Longrightarrow> t_id ` set (tasks st) \<subseteq> t_id ` set (tasks st')"
proof -
  assume "advances st st'"
  then obtain ts new where e: "tasks st' = ts @ new" "list_all2 goes (tasks st) ts" by (auto simp: advances_def)
  have "t_id ` set ts = t_id ` set (tasks st)" using goes_ids [OF e(2)] by (metis list.set_map)
  then show ?thesis using e(1) by auto
qed

lemma perform_ok:
  assumes "queue_ok st"
  shows "queue_ok (perform op st)"
proof -
  let ?s = "perform op st"
  have d: "distinct_tasks st" using assms by (simp add: queue_ok_def)
  note a = perform_advances [OF d, of op]
  obtain ls new where e: "leases ?s = ls @ new" "list_all2 lease_goes (leases st) ls"
    and n: "new = [] \<or> (\<exists>l. new = [l] \<and> fits_beside l ls \<and> l_plan l = None \<and> l_task l \<in> t_id ` set (tasks st))"
    using perform_holds [of st op] by (auto simp: holds_advance_def)
  have ids: "distinct (map l_id ls)" using assms lease_goes_ids(1) [OF e(2)] by (simp add: queue_ok_def)
  have "\<forall>l \<in> set ls. l_task l \<in> t_id ` set (tasks st)"
  proof -
    have "l_task ` set ls = l_task ` set (leases st)" using lease_goes_ids(2) [OF e(2)] by (metis list.set_map)
    moreover have "l_task ` set (leases st) \<subseteq> t_id ` set (tasks st)" using assms by (auto simp: queue_ok_def)
    ultimately show ?thesis by blast
  qed
  then have "\<forall>l \<in> set (leases ?s). l_task l \<in> t_id ` set (tasks ?s)" using n tasks_kept [OF a] e(1) by auto
  moreover have "distinct (map l_id (leases ?s))" using ids n e(1) by (auto simp: fits_beside_def)
  moreover have "length (held_by ?s i) \<le> 1" for i
  proof -
    let ?held = "filter (\<lambda>l. lease_active l \<and> l_task l = i)"
    have "length (?held ls) \<le> 1"
      using order.trans [OF held_goes [OF e(2), of i]] assms by (simp add: queue_ok_def held_by_def)
    moreover have "?held ls = []" if "new = [l]" "lease_active l" "l_task l = i" for l
      using n that by (auto simp: fits_beside_def filter_empty_conv)
    ultimately show ?thesis using n e(1) by (auto simp: held_by_def)
  qed
  ultimately show ?thesis using advances_distinct [OF a d] by (simp add: queue_ok_def)
qed

lemma run_ok: "queue_run ok st st' \<Longrightarrow> queue_ok st \<Longrightarrow> queue_ok st'"
  by (erule queue_run_invariant [where I = queue_ok]) (simp_all add: perform_ok)

section \<open>What is queued is held by nobody\<close>

definition queue_free :: "work_store \<Rightarrow> bool" where
  "queue_free st \<longleftrightarrow> (\<forall>t \<in> set (tasks st). t_status t \<in> {TaskSubmitted, TaskPlanned} \<longrightarrow> held_by st (t_id t) = [])"

text \<open>A task is only put back by hand when nobody holds it.\<close>

fun orderly :: "queue_op \<Rightarrow> work_store \<Rightarrow> bool" where
  "orderly (OpRetry i) st = (held_by st i = [])"
| "orderly (OpResume i) st = (held_by st i = [])"
| "orderly _ st = True"

lemma held_by_empty: "held_by st i = [] \<longleftrightarrow> (\<forall>l \<in> set (leases st). lease_active l \<longrightarrow> l_task l \<noteq> i)"
  by (auto simp: held_by_def filter_empty_conv)

lemma held_by_same: "leases st' = leases st \<Longrightarrow> held_by st' i = held_by st i"
  by (simp add: held_by_def)

lemma held_by_lone:
  assumes "queue_ok st" and "l \<in> set (leases st)" "lease_active l" and "m \<in> set (leases st)" "lease_active m"
    and "l_task m = l_task l"
  shows "m = l"
proof -
  let ?h = "held_by st (l_task l)"
  have "l \<in> set ?h" using assms(2,3) by (simp add: held_by_def)
  moreover have "m \<in> set ?h" using assms(4-6) by (simp add: held_by_def)
  moreover have "length ?h \<le> 1" using assms(1) unfolding queue_ok_def by blast
  ultimately show ?thesis by (cases ?h) auto
qed

definition waiting_status :: "task_status \<Rightarrow> bool" where
  "waiting_status s \<longleftrightarrow> s = TaskSubmitted \<or> s = TaskPlanned"

lemma queue_free_alt: "queue_free st \<longleftrightarrow> (\<forall>t \<in> set (tasks st). waiting_status (t_status t) \<longrightarrow> held_by st (t_id t) = [])"
  by (simp add: queue_free_def waiting_status_def)

lemma queue_free_update:
  assumes "queue_free st" and "tasks st' = map (\<lambda>t. if P t then f t else t) (tasks st)"
    and "\<And>i. held_by st i = [] \<Longrightarrow> held_by st' i = []" and "\<And>t. t_id (f t) = t_id t"
    and "\<And>t. t \<in> set (tasks st) \<Longrightarrow> P t \<Longrightarrow> waiting_status (t_status (f t)) \<Longrightarrow> held_by st' (t_id t) = []"
  shows "queue_free st'"
  unfolding queue_free_alt
proof (intro ballI impI)
  fix t' assume t': "t' \<in> set (tasks st')" "waiting_status (t_status t')"
  then obtain t where t: "t \<in> set (tasks st)" "t' = (if P t then f t else t)" unfolding assms(2) by auto
  show "held_by st' (t_id t') = []"
  proof (cases "P t")
    case True
    then show ?thesis using t t'(2) assms(4,5) by auto
  next
    case False
    then show ?thesis using t t'(2) assms(1,3) by (auto simp: queue_free_alt)
  qed
qed

lemma held_by_goes:
  "list_all2 lease_goes (leases st) (leases st') \<Longrightarrow> held_by st i = [] \<Longrightarrow> held_by st' i = []"
  using held_goes [of "leases st" "leases st'" i] by (simp add: held_by_def)

text \<open>A lease that ends was the only one on its task.\<close>

lemma held_by_ended:
  assumes "queue_ok st" and "l \<in> set (leases st)" "lease_active l"
    and "leases st' = map (\<lambda>m. if P m then settled s at' why m else m) (leases st)" and "P l" "s \<noteq> LeaseActive"
  shows "held_by st' (l_task l) = []"
  unfolding held_by_empty
proof (intro ballI impI notI)
  fix m' assume m': "m' \<in> set (leases st')" "lease_active m'" "l_task m' = l_task l"
  then obtain m where m: "m \<in> set (leases st)" "m' = (if P m then settled s at' why m else m)" unfolding assms(4) by auto
  then have "\<not> P m" "m' = m" using m'(2) assms(6) by (auto split: if_splits)
  moreover have "m = l" using held_by_lone [OF assms(1-3) m(1)] m' \<open>m' = m\<close> by simp
  ultimately show False using assms(5) by simp
qed

lemma queue_free_lapse:
  assumes "queue_ok st" "queue_free st"
  shows "queue_free (lapse now st)"
proof (rule queue_free_update [OF assms(2) lapse_tasks])
  show "held_by (lapse now st) i = []" if "held_by st i = []" for i by (rule held_by_goes [OF lapse_goes that])
  fix t assume "(\<exists>l \<in> set (leases st). lapsed now l \<and> l_task l = t_id t) \<and> t_status t = TaskClaimed"
  then obtain l where l: "l \<in> set (leases st)" "lapsed now l" "l_task l = t_id t" by blast
  have "held_by (lapse now st) (l_task l) = []"
    by (rule held_by_ended [OF assms(1) l(1) _ lapse_leases]) (use l(2) in \<open>simp_all add: lapsed_def\<close>)
  then show "held_by (lapse now st) (t_id t) = []" using l(3) by simp
qed simp

lemma queue_free_finish:
  assumes "queue_ok st" "queue_free st" and s: "s \<noteq> LeaseActive"
  shows "queue_free (snd (finishWorkLease i s at' why st))"
proof (cases "\<exists>l. active_lease i st = Some l \<and> (s = LeaseExpired) = (l_expiresAt l \<le> at')")
  case True
  then obtain l where l: "active_lease i st = Some l" "(s = LeaseExpired) = (l_expiresAt l \<le> at')" by blast
  define st' where "st' = snd (finishWorkLease i s at' why st)"
  define P where "P t \<longleftrightarrow> (s = LeaseReleased \<or> s = LeaseExpired) \<and> t_id t = l_task l \<and> t_status t = TaskClaimed" for t :: submitted_task
  have ts: "tasks st' = map (\<lambda>t. if P t then requeued t else t) (tasks st)"
    and ls: "leases st' = map (\<lambda>m. if l_id m = i then settled s at' why m else m) (leases st)"
    using l by (simp_all add: st'_def finishWorkLease_def P_def Let_def)
  have a: "l \<in> set (leases st)" "l_id l = i" "lease_active l" using active_lease_Some [OF l(1)] by auto
  have "queue_free st'"
  proof (rule queue_free_update [OF assms(2) ts])
    have "list_all2 lease_goes (leases st) (leases st')" unfolding ls by (rule lease_map) (simp_all add: s)
    then show "held_by st' j = []" if "held_by st j = []" for j using that by (rule held_by_goes)
    fix t assume "P t"
    then show "held_by st' (t_id t) = []" using held_by_ended [OF assms(1) a(1,3) ls a(2) s] by (simp add: P_def)
  qed simp
  then show ?thesis by (simp add: st'_def)
next
  case False
  then have "snd (finishWorkLease i s at' why st) = st" by (auto simp: finishWorkLease_def split: option.splits)
  then show ?thesis using assms(2) by simp
qed

lemma queue_free_moved:
  assumes "queue_free st" and "moved i from f st = Some st'" and "\<And>t. t_id (f t) = t_id t"
    and "held_by st i = [] \<or> (\<forall>t :: submitted_task. t_status t \<in> from \<longrightarrow> waiting_status (t_status t)) \<or> (\<forall>t. t_status t \<in> from \<longrightarrow> \<not> waiting_status (t_status (f t)))"
  shows "queue_free st'"
proof -
  have m: "tasks st' = map (\<lambda>t. if t_id t = i \<and> t_status t \<in> from then f t else t) (tasks st)" "leases st' = leases st"
    using moved_tasks [OF assms(2)] by auto
  show ?thesis
  proof (rule queue_free_update [OF assms(1) m(1)])
    fix t assume t: "t \<in> set (tasks st)" "t_id t = i \<and> t_status t \<in> from" "waiting_status (t_status (f t))"
    from assms(4) have "held_by st (t_id t) = []"
    proof (elim disjE)
      assume "\<forall>t :: submitted_task. t_status t \<in> from \<longrightarrow> waiting_status (t_status t)"
      then show ?thesis using assms(1) t unfolding queue_free_alt by blast
    qed (use t in auto)
    then show "held_by st' (t_id t) = []" using held_by_same [OF m(2)] by simp
  qed (simp_all add: assms(3) held_by_same [OF m(2)])
qed

lemma queue_free_lease:
  assumes "queue_ok st" "queue_free st" and "leaseNextTask now i input st = Inr (r, st')"
  shows "queue_free st'"
  using assms(3)
proof (cases rule: leaseNextTask_cases)
  case none
  then show ?thesis using queue_free_lapse [OF assms(1,2)] by simp
next
  case (some t)
  have f: "queue_free (lapse now st)" by (rule queue_free_lapse [OF assms(1,2)])
  have h: "held_by st' j = (if j = t_id t then held_by (lapse now st) j @ [issued_lease now i input t] else held_by (lapse now st) j)" for j
    by (simp add: held_by_def some(5))
  show ?thesis
    unfolding queue_free_alt
  proof (intro ballI impI)
    fix u' assume u': "u' \<in> set (tasks st')" "waiting_status (t_status u')"
    then obtain u where u: "u \<in> set (tasks (lapse now st))" "u' = (if t_id u = t_id t then claimed_at now u else u)"
      unfolding some(4) by auto
    then have "t_id u \<noteq> t_id t" "u' = u" using u'(2) by (auto simp: waiting_status_def split: if_splits)
    then show "held_by st' (t_id u') = []" using f u(1) u'(2) by (auto simp: queue_free_alt h)
  qed
qed

lemma queue_free_submit:
  assumes "queue_ok st" "queue_free st" and "submitTask now i input st = Inr (t, st')"
  shows "queue_free st'"
proof -
  define u where "u = placed input st (submitted_row now i input (or_else (in_project input) DEFAULT_PROJECT_ID))"
  define st1 where "st1 = settle_turns now (t_conversation u) st"
  have "insert_task u st1 = Inr (t, st')"
    using assms(3) by (auto simp: submitTask_def Let_def u_def st1_def split: option.splits)
  then have e: "tasks st' = tasks st1 @ [u]" "leases st' = leases st1" "t_id u \<notin> t_id ` set (tasks st1)"
    by (auto dest: insert_task_Inr)
  have l: "leases st1 = leases st" by (simp add: st1_def settle_turns_def split: option.splits)
  have f: "queue_free st1"
  proof (cases "t_conversation u")
    case None
    then show ?thesis using assms(2) by (simp add: st1_def settle_turns_def)
  next
    case (Some c)
    show ?thesis
      by (rule queue_free_update [OF assms(2), where P = "\<lambda>v. t_conversation v = Some c \<and> t_status v = TaskOpen" and f = "integrated_at now"])
         (simp_all add: st1_def settle_turns_def Some waiting_status_def held_by_def)
  qed
  have "t_id ` set (tasks st1) = t_id ` set (tasks st)"
    using goes_ids [OF goes_settle_turns [of st now "t_conversation u"]] by (metis list.set_map st1_def)
  moreover have "l_task l \<in> t_id ` set (tasks st)" if "l \<in> set (leases st)" for l
    using assms(1) that unfolding queue_ok_def by blast
  ultimately have "held_by st (t_id u) = []" using e(3) unfolding held_by_empty by metis
  then show ?thesis using f unfolding queue_free_alt e(1) held_by_same [OF e(2)] held_by_same [OF l] by auto
qed

lemma leases_claim: "leases (snd (claimSubmittedTasks now r p st)) = leases st"
  "leases (snd (expireOpenTasks now cutoff q st)) = leases st"
  by (simp_all add: claimSubmittedTasks_def expireOpenTasks_def Let_def)

lemma claim_tasks:
  "\<exists>P. tasks (snd (claimSubmittedTasks now r p st)) = map (\<lambda>t. if P t then claimed_at now t else t) (tasks st)"
  unfolding claimSubmittedTasks_def Let_def snd_conv update_tasks_simps by (rule exI, rule refl)

lemma expire_open_tasks:
  "\<exists>P. tasks (snd (expireOpenTasks now cutoff r st)) = map (\<lambda>t. if P t then integrated_at now t else t) (tasks st)"
  unfolding expireOpenTasks_def Let_def snd_conv update_tasks_simps by (rule exI, rule refl)

lemma queue_free_busy:
  assumes "queue_free st" and "\<exists>P. tasks st' = map (\<lambda>t. if P t then f t else t) (tasks st)" and l: "leases st' = leases st"
    and "\<And>t. t_id (f t) = t_id t" "\<And>t. \<not> waiting_status (t_status (f t))"
  shows "queue_free st'"
proof -
  obtain P where P: "tasks st' = map (\<lambda>t. if P t then f t else t) (tasks st)" using assms(2) by blast
  show ?thesis by (rule queue_free_update [OF assms(1) P]) (simp_all add: assms(4,5) held_by_same [OF l])
qed

lemma perform_free:
  assumes "queue_ok st" "queue_free st" and "orderly op st"
  shows "queue_free (perform op st)"
proof (cases op)
  case (OpSubmit now i input)
  then show ?thesis
    using assms(2) queue_free_submit [OF assms(1,2)] by (cases "submitTask now i input st") (auto simp: kept_def split: prod.splits)
next
  case (OpLease now i input)
  then show ?thesis
    using assms(2) queue_free_lease [OF assms(1,2)] by (cases "leaseNextTask now i input st") (auto simp: kept_def split: prod.splits)
next
  case (OpFinish i s at' why)
  then show ?thesis using queue_free_finish [OF assms(1,2)] assms(2) by simp
next
  case (OpSavePlan i submission observed replace)
  then have t: "tasks (perform op st) = map (\<lambda>t. if False then t else t) (tasks st)" by (simp add: advances_plan)
  show ?thesis
  proof (rule queue_free_update [OF assms(2) t])
    have "list_all2 lease_goes (leases st) (leases (perform op st))" using OpSavePlan by (simp add: holds_save)
    then show "held_by (perform op st) i = []" if "held_by st i = []" for i using that by (rule held_by_goes)
  qed simp_all
next
  case (OpHeartbeat i at' until)
  then have t: "tasks (perform op st) = map (\<lambda>t. if False then t else t) (tasks st)" by (simp add: advances_plan)
  show ?thesis
  proof (rule queue_free_update [OF assms(2) t])
    have "list_all2 lease_goes (leases st) (leases (perform op st))"
      using OpHeartbeat by (simp add: lease_goes_keeps holds_heartbeat)
    then show "held_by (perform op st) i = []" if "held_by st i = []" for i using that by (rule held_by_goes)
  qed simp_all
next
  case (OpClaim now r p)
  show ?thesis unfolding OpClaim perform.simps
    by (rule queue_free_busy [OF assms(2) claim_tasks leases_claim(1)]) (simp_all add: waiting_status_def)
next
  case (OpExpireOpen now cutoff r)
  show ?thesis unfolding OpExpireOpen perform.simps
    by (rule queue_free_busy [OF assms(2) expire_open_tasks leases_claim(2)]) (simp_all add: waiting_status_def)
next
  case (OpRetry i)
  then show ?thesis using assms
    by (cases "moved i {TaskClaimed, TaskFailed} (\<lambda>t. t\<lparr>t_status := TaskSubmitted, t_claimedAt := None, t_completedAt := None, t_run := None\<rparr>) st")
       (auto simp: kept_def or_refused_def retrySubmittedTask_def elim!: queue_free_moved [OF assms(2)])
next
  case (OpResume i)
  then show ?thesis using assms
    by (cases "moved i {TaskPaused} (\<lambda>t. t\<lparr>t_status := TaskSubmitted, t_claimedAt := None, t_run := None\<rparr>) st")
       (auto simp: or_else_def resumePausedTask_def elim!: queue_free_moved [OF assms(2)])
next
  case (OpRelease i)
  then show ?thesis using assms
    by (cases "moved i {TaskPlanned} (\<lambda>t. t\<lparr>t_status := TaskSubmitted\<rparr>) st")
       (auto simp: or_else_def releasePlannedTask_def waiting_status_def elim!: queue_free_moved [OF assms(2)])
next
  case (OpComplete now i c run)
  have "\<not> waiting_status (completion_status c)" by (cases c) (simp_all add: waiting_status_def)
  then show ?thesis using assms(2)
    by (auto simp: OpComplete kept_def or_refused_def completeSubmittedTask_def
        split: option.splits elim!: queue_free_moved [OF assms(2)])
qed (auto simp: kept_def or_else_def or_refused_def cancelSubmittedTask_def pauseSubmittedTask_def
       openSubmittedTask_def waiting_status_def assms(2)
       split: option.splits elim!: queue_free_moved [OF assms(2)])

end
