(* ===== verification/Work_Arbitration.thy ===== *)
theory Work_Arbitration
  imports Work_Holds Conflict_Laws Plan_Splitting
begin

text \<open>
  How plans are arbitrated against each other on the leases (\<open>apps/cli/src/worker-operations.ts\<close>,
  \<open>apps/cli/src/lease-admission.ts\<close>): who decides on a plan reads the approved plans of the other active
  leases, decides, and saves with the set of leases it read, which the store compares with the set that
  is there. Between the reading and the saving anything else may happen.
\<close>

section \<open>Reading the executing plans\<close>

definition admitted_beside :: "lease_row \<Rightarrow> work_store \<Rightarrow> lease_row list" where
  "admitted_beside l st =
     filter (\<lambda>c. l_id c \<noteq> l_id l \<and> plan_approved c)
       (listWorkLeases (any_lease\<lparr>lf_status := Some LeaseActive, lf_repository := Some (l_repository l)\<rparr>) st)"

definition plan_of :: "lease_row \<Rightarrow> agent_plan" where
  "plan_of l = wlp_plan (the (l_plan l))"

text \<open>The agent of the last row of a task; the worker where no row of the repository is work of that key.\<close>

definition agent_of :: "work_store \<Rightarrow> lease_row \<Rightarrow> string" where
  "agent_of st l =
     (case at_last (filter (\<lambda>t. t_id t = l_task l) (listSubmittedTasks (any_task\<lparr>tf_repository := Some (l_repository l)\<rparr>) st)) of
        None \<Rightarrow> l_worker l
      | Some t \<Rightarrow> t_agent t)"

definition executing_for :: "lease_row \<Rightarrow> work_store \<Rightarrow> active_plan list \<times> string list" where
  "executing_for l st =
     (let admitted = admitted_beside l st
      in (map (\<lambda>c. \<lparr>active_task = l_task c, active_agent = agent_of st c, running = plan_of c\<rparr>) admitted,
          sort (map l_id admitted)))"

text \<open>
  A request to widen a plan in mid-execution: the revised plan is decided, all or nothing, against the
  executing plans as they were read, each grounded in the index unless it already is. Between this
  decision and the saving of the plan a person may be asked.
\<close>

definition scope_input ::
  "(agent_plan \<Rightarrow> agent_plan) \<Rightarrow> string \<Rightarrow> int \<Rightarrow> lease_row \<Rightarrow> agent_plan \<Rightarrow> work_store \<Rightarrow> admission_input" where
  "scope_input ground agent version l revised st =
     \<lparr>candidate_plan = ground revised, candidate_agent = agent, base_revision = l_base l, base_version = version,
      active = map (\<lambda>e. if grounding (running e) = None then e\<lparr>running := ground (running e)\<rparr> else e)
        (fst (executing_for l st)),
      plan_revision = None, retry_after = None, blockedAttempts = None, partialAdmission = Some False,
      resourcesInFile = None, symbolRangesInFile = None, intentAssessment = None\<rparr>"

definition scope_decision ::
  "controller \<Rightarrow> (agent_plan \<Rightarrow> agent_plan) \<Rightarrow> string \<Rightarrow> int \<Rightarrow> lease_row \<Rightarrow> agent_plan \<Rightarrow> work_store \<Rightarrow>
    work_lease_plan option" where
  "scope_decision ctl ground agent version l revised st =
     (case admit ctl (scope_input ground agent version l revised st) of
        Inl _ \<Rightarrow> None
      | Inr a \<Rightarrow> if planAdmissionApproved a
                 then Some \<lparr>wlp_plan = ground revised, wlp_admission = a\<rparr> else None)"

lemma admitted_beside_member:
  "c \<in> set (admitted_beside l st) \<longleftrightarrow>
     c \<in> set (leases st) \<and> lease_active c \<and> l_repository c = l_repository l \<and> l_id c \<noteq> l_id l \<and> plan_approved c"
  by (auto simp: admitted_beside_def listWorkLeases_def any_lease_def lease_active_def)

lemma approved_ids_member:
  "j \<in> set (approvedPlanLeaseIds r i st) \<longleftrightarrow>
     (\<exists>c \<in> set (leases st). l_id c = j \<and> lease_active c \<and> l_repository c = r \<and> l_id c \<noteq> i \<and> plan_approved c)"
  by (auto simp: approvedPlanLeaseIds_def approved_others_def active_in_def)

section \<open>Arbitration as steps\<close>

record arbitration =
  arb_store :: work_store
  arb_view :: "string \<Rightarrow> lease_row list option"

text \<open>
  A decision approves only what may run beside every plan it read, and a saved plan that replaces an
  approved one is approved and conflicts with nothing the old one did not conflict with.
\<close>

definition decided :: "(agent_plan \<Rightarrow> agent_plan \<Rightarrow> bool) \<Rightarrow> work_lease_plan \<Rightarrow> lease_row list \<Rightarrow> bool" where
  "decided beside s view \<longleftrightarrow> planAdmissionApproved (wlp_admission s) \<longrightarrow> (\<forall>l \<in> set view. beside (wlp_plan s) (plan_of l))"

definition narrower :: "(agent_plan \<Rightarrow> agent_plan \<Rightarrow> bool) \<Rightarrow> agent_plan \<Rightarrow> agent_plan \<Rightarrow> bool" where
  "narrower beside p p' \<longleftrightarrow> (\<forall>q. beside p q \<longrightarrow> beside p' q)"

definition only_narrows :: "(agent_plan \<Rightarrow> agent_plan \<Rightarrow> bool) \<Rightarrow> string \<Rightarrow> work_lease_plan \<Rightarrow> work_store \<Rightarrow> bool" where
  "only_narrows beside i s st \<longleftrightarrow> (\<forall>l \<in> set (leases st). l_id l = i \<and> plan_approved l \<longrightarrow>
     planAdmissionApproved (wlp_admission s) \<and> narrower beside (plan_of l) (wlp_plan s))"

inductive arb_step :: "(agent_plan \<Rightarrow> agent_plan \<Rightarrow> bool) \<Rightarrow> arbitration \<Rightarrow> arbitration \<Rightarrow> bool" for beside where
  read: "active_lease i (arb_store w) = Some l \<Longrightarrow>
     arb_step beside w (w\<lparr>arb_view := (arb_view w)(i \<mapsto> admitted_beside l (arb_store w))\<rparr>)"
| save: "arb_view w i = Some view \<Longrightarrow> decided beside s view \<Longrightarrow> (replace \<longrightarrow> only_narrows beside i s (arb_store w)) \<Longrightarrow>
     arb_step beside w (w\<lparr>arb_store := perform (OpSavePlan i s (sort (map l_id view)) replace) (arb_store w)\<rparr>)"
| other: "\<not> saves_plan op \<Longrightarrow> arb_step beside w (w\<lparr>arb_store := perform op (arb_store w)\<rparr>)"

inductive_cases arb_stepE: "arb_step beside w w'"

definition arb_run :: "(agent_plan \<Rightarrow> agent_plan \<Rightarrow> bool) \<Rightarrow> arbitration \<Rightarrow> arbitration \<Rightarrow> bool" where
  "arb_run beside = (arb_step beside)\<^sup>*\<^sup>*"

definition executing_apart :: "(agent_plan \<Rightarrow> agent_plan \<Rightarrow> bool) \<Rightarrow> work_store \<Rightarrow> bool" where
  "executing_apart beside st \<longleftrightarrow> (\<forall>l \<in> set (leases st). \<forall>m \<in> set (leases st).
     lease_active l \<and> plan_approved l \<and> lease_active m \<and> plan_approved m \<and>
     l_repository l = l_repository m \<and> l_id l \<noteq> l_id m \<longrightarrow> beside (plan_of l) (plan_of m))"

text \<open>What was read stays true but for plans that narrowed and leases that ended.\<close>

definition still_seen :: "(agent_plan \<Rightarrow> agent_plan \<Rightarrow> bool) \<Rightarrow> lease_row list \<Rightarrow> work_store \<Rightarrow> bool" where
  "still_seen beside view st \<longleftrightarrow> (\<forall>l \<in> set view. l_id l \<in> l_id ` set (leases st) \<and>
     (\<forall>m \<in> set (leases st). l_id m = l_id l \<and> lease_active m \<longrightarrow> plan_approved m \<and> narrower beside (plan_of l) (plan_of m)))"

definition arb_ok :: "(agent_plan \<Rightarrow> agent_plan \<Rightarrow> bool) \<Rightarrow> arbitration \<Rightarrow> bool" where
  "arb_ok beside w \<longleftrightarrow> queue_ok (arb_store w) \<and> executing_apart beside (arb_store w) \<and>
     (\<forall>i view. arb_view w i = Some view \<longrightarrow> still_seen beside view (arb_store w))"

section \<open>What the store keeps\<close>

text \<open>Every lease after an operation that saves no plan is one that was there, or is new and has no plan.\<close>

lemma lease_source:
  assumes "holds_advance lease_keeps st st'" and "m \<in> set (leases st')"
  obtains (old) l where "l \<in> set (leases st)" "lease_keeps l m"
  | (new) "l_plan m = None" "l_id m \<notin> l_id ` set (leases st)"
proof -
  obtain ls new' where e: "leases st' = ls @ new'" "list_all2 lease_keeps (leases st) ls"
    and n: "new' = [] \<or> (\<exists>l. new' = [l] \<and> fits_beside l ls \<and> l_plan l = None \<and> l_task l \<in> t_id ` set (tasks st))"
    using assms(1) unfolding holds_advance_def by blast
  show thesis
  proof (cases "m \<in> set ls")
    case True
    then obtain n where "n < length ls" "m = ls ! n" by (auto simp: in_set_conv_nth)
    then show thesis using old [of "leases st ! n"] e(2) by (simp add: list_all2_conv_all_nth)
  next
    case False
    then have "new' = [m]" using assms(2) e(1) n by auto
    then have f: "fits_beside m ls" "l_plan m = None" using n by auto
    have "l_id m \<notin> l_id ` set ls" using f(1) unfolding fits_beside_def by (metis imageE)
    moreover have "l_id ` set ls = l_id ` set (leases st)"
      using lease_goes_ids(1) [OF lease_goes_keeps [OF e(2)]] by (metis list.set_map)
    ultimately show thesis using new f(2) by simp
  qed
qed

lemma leases_kept: "holds_advance lease_keeps st st' \<Longrightarrow> l_id ` set (leases st) \<subseteq> l_id ` set (leases st')"
proof -
  assume "holds_advance lease_keeps st st'"
  then obtain ls new where e: "leases st' = ls @ new" "list_all2 lease_keeps (leases st) ls"
    unfolding holds_advance_def by blast
  have "l_id ` set ls = l_id ` set (leases st)"
    using lease_goes_ids(1) [OF lease_goes_keeps [OF e(2)]] by (metis list.set_map)
  then show ?thesis using e(1) by auto
qed

lemma same_lease: "queue_ok st \<Longrightarrow> l \<in> set (leases st) \<Longrightarrow> m \<in> set (leases st) \<Longrightarrow> l_id l = l_id m \<Longrightarrow> l = m"
  by (auto simp: queue_ok_def distinct_map inj_on_def)

lemma keeps_approved: "lease_keeps l m \<Longrightarrow> plan_approved m \<longleftrightarrow> plan_approved l" "lease_keeps l m \<Longrightarrow> plan_of m = plan_of l"
  by (simp_all add: lease_keeps_def plan_approved_def plan_of_def)

lemma approved_has_plan: "plan_approved l \<Longrightarrow> l_plan l \<noteq> None"
  by (simp add: plan_approved_def split: option.splits)

lemma apart_other:
  assumes "executing_apart beside st" and "holds_advance lease_keeps st st'"
  shows "executing_apart beside st'"
  unfolding executing_apart_def
proof (intro ballI impI)
  fix l m
  assume lm: "l \<in> set (leases st')" "m \<in> set (leases st')"
    "lease_active l \<and> plan_approved l \<and> lease_active m \<and> plan_approved m \<and> l_repository l = l_repository m \<and> l_id l \<noteq> l_id m"
  obtain l0 where l: "l0 \<in> set (leases st)" "lease_keeps l0 l"
    using lease_source [OF assms(2) lm(1)] lm(3) approved_has_plan by metis
  obtain m0 where m: "m0 \<in> set (leases st)" "lease_keeps m0 m"
    using lease_source [OF assms(2) lm(2)] lm(3) approved_has_plan by metis
  have "beside (plan_of l0) (plan_of m0)"
    using assms(1) l m lm(3) keeps_approved(1) [OF l(2)] keeps_approved(1) [OF m(2)]
    by (auto simp: executing_apart_def lease_keeps_def lease_goes_def)
  then show "beside (plan_of l) (plan_of m)" by (simp add: keeps_approved(2) [OF l(2)] keeps_approved(2) [OF m(2)])
qed

lemma seen_other:
  assumes "still_seen beside view st" and h: "holds_advance lease_keeps st st'"
  shows "still_seen beside view st'"
  unfolding still_seen_def
proof (intro ballI conjI impI)
  fix l assume l: "l \<in> set view"
  have i: "l_id l \<in> l_id ` set (leases st)" using assms(1) l by (simp add: still_seen_def)
  then show "l_id l \<in> l_id ` set (leases st')" using leases_kept [OF h] by blast
  fix m assume m: "m \<in> set (leases st')" "l_id m = l_id l \<and> lease_active m"
  obtain m0 where m0: "m0 \<in> set (leases st)" "lease_keeps m0 m"
    using lease_source [OF h m(1)] m(2) i by metis
  have "plan_approved m0 \<and> narrower beside (plan_of l) (plan_of m0)"
    using assms(1) l m0 m(2) by (auto simp: still_seen_def lease_keeps_def lease_goes_def)
  then show "plan_approved m" "narrower beside (plan_of l) (plan_of m)"
    by (simp_all add: keeps_approved(1) [OF m0(2)] keeps_approved(2) [OF m0(2)])
qed

text \<open>A plan is saved on one lease, and only where what was read is what is there.\<close>

lemma save_cases:
  assumes "st' = perform (OpSavePlan i s observed replace) st"
  obtains (same) "st' = st"
  | (saved) l where "active_lease i st = Some l" "replace \<or> \<not> plan_approved l"
      "sort (approvedPlanLeaseIds (l_repository l) i st) = sort observed"
      "leases st' = map (\<lambda>m. if l_id m = i then m\<lparr>l_plan := Some s\<rparr> else m) (leases st)"
proof (cases "active_lease i st")
  case None
  then show thesis using assms same by (simp add: saveWorkLeasePlan_def)
next
  case (Some l)
  have "l_id l = i" using active_lease_Some [OF Some] by simp
  then show thesis
    using assms same saved [OF Some] Some
    by (auto simp: saveWorkLeasePlan_def sameLeaseIdSet_def Let_def split: if_splits)
qed

section \<open>An arbiter\<close>

locale arbiter =
  fixes beside :: "agent_plan \<Rightarrow> agent_plan \<Rightarrow> bool"
  assumes mutual: "beside p q \<Longrightarrow> beside q p"
begin

lemma saved_apart:
  assumes ok: "queue_ok st" "executing_apart beside st" and view: "still_seen beside view st"
    and d: "decided beside s view"
    and a: "active_lease i st = Some l" "sort (approvedPlanLeaseIds (l_repository l) i st) = sort (sort (map l_id view))"
    and st': "leases st' = map (\<lambda>m. if l_id m = i then m\<lparr>l_plan := Some s\<rparr> else m) (leases st)"
  shows "executing_apart beside st'"
proof -
  have l: "l \<in> set (leases st)" "l_id l = i" using active_lease_Some [OF a(1)] by auto
  have fresh: "beside (wlp_plan s) (plan_of m)"
    if "planAdmissionApproved (wlp_admission s)" "m \<in> set (leases st)" "lease_active m" "plan_approved m"
      "l_repository m = l_repository l" "l_id m \<noteq> i" for m
  proof -
    have "l_id m \<in> set (approvedPlanLeaseIds (l_repository l) i st)" using that unfolding approved_ids_member by blast
    also have "\<dots> = l_id ` set view" using arg_cong [OF a(2), of set] by simp
    finally obtain v where v: "v \<in> set view" "l_id m = l_id v" by auto
    have "beside (plan_of v) (wlp_plan s)" using d that(1) v(1) by (simp add: decided_def mutual)
    moreover have "narrower beside (plan_of v) (plan_of m)" using view v that(2,3) unfolding still_seen_def by metis
    ultimately show ?thesis by (simp add: narrower_def mutual)
  qed
  show ?thesis
    unfolding executing_apart_def
  proof (intro ballI impI)
    fix x y
    assume xy: "x \<in> set (leases st')" "y \<in> set (leases st')"
      "lease_active x \<and> plan_approved x \<and> lease_active y \<and> plan_approved y \<and> l_repository x = l_repository y \<and> l_id x \<noteq> l_id y"
    obtain x0 where x: "x0 \<in> set (leases st)" "x = (if l_id x0 = i then x0\<lparr>l_plan := Some s\<rparr> else x0)" using xy(1) st' by auto
    obtain y0 where y: "y0 \<in> set (leases st)" "y = (if l_id y0 = i then y0\<lparr>l_plan := Some s\<rparr> else y0)" using xy(2) st' by auto
    consider "l_id x0 = i" "l_id y0 \<noteq> i" | "l_id x0 \<noteq> i" "l_id y0 = i" | "l_id x0 \<noteq> i" "l_id y0 \<noteq> i"
      using xy(3) x(2) y(2) by (auto split: if_splits)
    then show "beside (plan_of x) (plan_of y)"
    proof cases
      case 1
      then have "x0 = l" using same_lease [OF ok(1) x(1) l(1)] l(2) by simp
      then have "beside (wlp_plan s) (plan_of y0)"
        using fresh [of y0] 1 x y xy(3) by (simp add: plan_approved_def lease_active_def)
      then show ?thesis using 1 x(2) y(2) by (simp add: plan_of_def)
    next
      case 2
      then have "y0 = l" using same_lease [OF ok(1) y(1) l(1)] l(2) by simp
      then have "beside (wlp_plan s) (plan_of x0)"
        using fresh [of x0] 2 x y xy(3) by (simp add: plan_approved_def lease_active_def)
      then show ?thesis using 2 x(2) y(2) mutual by (simp add: plan_of_def)
    next
      case 3
      then show ?thesis using ok(2) x y xy(3) by (simp add: executing_apart_def)
    qed
  qed
qed

lemma saved_seen:
  assumes ok: "queue_ok st" and view: "still_seen beside view st"
    and r: "replace \<longrightarrow> only_narrows beside i s st"
    and a: "active_lease i st = Some l" "replace \<or> \<not> plan_approved l"
    and st': "leases st' = map (\<lambda>m. if l_id m = i then m\<lparr>l_plan := Some s\<rparr> else m) (leases st)"
  shows "still_seen beside view st'"
  unfolding still_seen_def
proof (intro ballI conjI impI)
  have l: "l \<in> set (leases st)" "l_id l = i" "lease_active l" using active_lease_Some [OF a(1)] by auto
  fix v assume v: "v \<in> set view"
  have "l_id ` set (leases st') = l_id ` set (leases st)"
    unfolding st' list.set_map image_image by (rule image_cong) simp_all
  then show "l_id v \<in> l_id ` set (leases st')" using view v by (simp add: still_seen_def)
  fix m assume m: "m \<in> set (leases st')" "l_id m = l_id v \<and> lease_active m"
  obtain m0 where m0: "m0 \<in> set (leases st)" "m = (if l_id m0 = i then m0\<lparr>l_plan := Some s\<rparr> else m0)" using m(1) st' by auto
  have seen: "plan_approved m0 \<and> narrower beside (plan_of v) (plan_of m0)"
    using view v m0 m(2) by (auto simp: still_seen_def lease_active_def split: if_splits)
  have "plan_approved m \<and> narrower beside (plan_of v) (plan_of m)"
  proof (cases "l_id m0 = i")
    case True
    then have "m0 = l" using same_lease [OF ok m0(1) l(1)] l(2) by simp
    then have "replace" using a(2) seen by simp
    then have "planAdmissionApproved (wlp_admission s) \<and> narrower beside (plan_of m0) (wlp_plan s)"
      using r True m0(1) seen unfolding only_narrows_def by blast
    then show ?thesis using seen True m0(2) by (simp add: plan_approved_def plan_of_def narrower_def)
  qed (use seen m0(2) in simp)
  then show "plan_approved m" "narrower beside (plan_of v) (plan_of m)" by simp_all
qed

lemma read_seen: "queue_ok st \<Longrightarrow> still_seen beside (admitted_beside l st) st"
  by (auto simp: still_seen_def admitted_beside_member narrower_def dest: same_lease)

lemma step_ok:
  assumes "arb_step beside w w'" and "arb_ok beside w"
  shows "arb_ok beside w'"
  using assms(1)
proof (cases rule: arb_step.cases)
  case (read i l)
  then show ?thesis using assms(2) read_seen by (auto simp: arb_ok_def)
next
  case (save i view s replace)
  note 2 = save
  let ?st = "arb_store w" and ?st' = "arb_store w'"
  have q: "queue_ok ?st'" using assms(2) 2(1) perform_ok by (simp add: arb_ok_def del: perform.simps)
  have seen: "still_seen beside v ?st" if "arb_view w j = Some v" for j v using assms(2) that by (auto simp: arb_ok_def)
  have e: "?st' = perform (OpSavePlan i s (sort (map l_id view)) replace) ?st" using 2(1) by simp
  have v: "arb_view w' = arb_view w" using 2(1) by simp
  show ?thesis using e
  proof (cases rule: save_cases)
    case same
    then show ?thesis using assms(2) v by (simp add: arb_ok_def)
  next
    case (saved l)
    have "executing_apart beside ?st'"
      by (rule saved_apart [OF _ _ seen [OF 2(2)] 2(3) saved(1,3,4)]) (use assms(2) in \<open>simp_all add: arb_ok_def\<close>)
    moreover have "still_seen beside v' ?st'" if "arb_view w j = Some v'" for j v'
      by (rule saved_seen [OF _ seen [OF that] 2(4) saved(1,2,4)]) (use assms(2) in \<open>simp add: arb_ok_def\<close>)
    ultimately show ?thesis using q v by (simp add: arb_ok_def)
  qed
next
  case (other op)
  note 3 = other
  have h: "holds_advance lease_keeps (arb_store w) (arb_store w')" using perform_keeps [OF 3(2)] 3(1) by simp
  have "queue_ok (arb_store w')" using assms(2) 3(1) perform_ok by (simp add: arb_ok_def)
  moreover have "arb_view w' = arb_view w" using 3(1) by simp
  ultimately show ?thesis using assms(2) apart_other [OF _ h] seen_other [OF _ h] by (simp add: arb_ok_def)
qed

lemma run_apart: "arb_run beside w w' \<Longrightarrow> arb_ok beside w \<Longrightarrow> executing_apart beside (arb_store w')"
proof -
  assume "arb_run beside w w'" "arb_ok beside w"
  then have "arb_ok beside w'" unfolding arb_run_def
    by (induction rule: rtranclp_induct) (blast intro: step_ok)+
  then show ?thesis by (simp add: arb_ok_def)
qed

end

text \<open>The structural test of the conflict detector is such an arbiter.\<close>

definition plans_apart :: "conflict_options \<Rightarrow> agent_plan \<Rightarrow> agent_plan \<Rightarrow> bool" where
  "plans_apart opts p q \<longleftrightarrow> conflictsForScheduling opts None p q = Inr False"

interpretation structural: arbiter "plans_apart opts" for opts
  by unfold_locales (unfold plans_apart_def, rule conflictsForScheduling_swap)

end
