(* ===== verification/Work_Facts.thy ===== *)
theory Work_Facts
  imports Work_Arbitration
begin

text \<open>
  What a run keeps of a single task, of the number of leases in a repository, and of work that nothing
  holds; and a small shop of two tasks on which the properties are shown to apply.
\<close>

section \<open>One task through a run\<close>

lemma row_of_member: "row_of i st = Some t \<Longrightarrow> t \<in> set (tasks st) \<and> t_id t = i"
  by (auto simp: row_of_def find_Some_iff)

lemma row_of_distinct: "distinct_tasks st \<Longrightarrow> t \<in> set (tasks st) \<Longrightarrow> row_of (t_id t) st = Some t"
proof -
  assume d: "distinct_tasks st" "t \<in> set (tasks st)"
  then obtain u where u: "row_of (t_id t) st = Some u" by (cases "row_of (t_id t) st") (auto simp: row_of_None)
  then have "u = t" using row_of_member [OF u] same_task [OF d(1) _ d(2)] by blast
  then show ?thesis using u by simp
qed

lemma row_advances:
  assumes "advances st st'" and d: "distinct_tasks st" and r: "row_of i st = Some t"
  obtains t' where "row_of i st' = Some t'" "goes t t'"
proof -
  obtain ts new where e: "tasks st' = ts @ new" "list_all2 goes (tasks st) ts"
    using assms(1) unfolding advances_def by blast
  have m: "t \<in> set (tasks st)" "t_id t = i" using row_of_member [OF r] by auto
  then obtain n where "n < length (tasks st)" "t = tasks st ! n" by (auto simp: in_set_conv_nth)
  then have "ts ! n \<in> set (tasks st')" "goes t (ts ! n)" using e by (auto simp: list_all2_conv_all_nth)
  moreover from this have "t_id (ts ! n) = i" using m(2) by (simp add: goes_def)
  ultimately show thesis using that row_of_distinct [OF advances_distinct [OF assms(1) d]] by blast
qed

definition follows :: "submitted_task \<Rightarrow> submitted_task \<Rightarrow> bool" where
  "follows t t' \<longleftrightarrow> edge\<^sup>*\<^sup>* (t_status t) (t_status t') \<and> t_repository t' = t_repository t \<and>
     t_submittedBy t' = t_submittedBy t \<and> t_kind t' = t_kind t \<and> t_after t' = t_after t"

lemma run_follows:
  assumes "queue_run ok st st'" and "queue_ok st" and "row_of i st = Some t"
  shows "\<exists>t'. row_of i st' = Some t' \<and> follows t t'"
  using assms
proof (induction rule: queue_run.induct)
  case (start st)
  then show ?case by (auto simp: follows_def)
next
  case (next_op st st' op)
  obtain u where u: "row_of i st' = Some u" "follows t u" using next_op.IH [OF next_op.prems] by blast
  have "queue_ok st'" by (rule run_ok [OF next_op.hyps(1) next_op.prems(1)])
  then have d: "distinct_tasks st'" by (simp add: queue_ok_def)
  obtain u' where u': "row_of i (perform op st') = Some u'" "goes u u'"
    by (rule row_advances [OF perform_advances [OF d, of op] d u(1)])
  have "follows t u'"
    using u(2) u'(2) by (auto simp: follows_def goes_def intro: rtranclp.rtrancl_into_rtrancl)
  then show ?case using u'(1) by blast
qed

lemma final_status:
  assumes "edge\<^sup>*\<^sup>* s s'" and "s = TaskIntegrated \<or> s = TaskCancelled"
  shows "s' = s"
  using assms by (induction rule: rtranclp_induct) (auto simp: edge_final)

section \<open>The number of leases in a repository\<close>

fun modest :: "int \<Rightarrow> queue_op \<Rightarrow> work_store \<Rightarrow> bool" where
  "modest P (OpLease now i input) st = (parallelism_of input \<le> P)"
| "modest P _ st = True"

lemma active_goes:
  "list_all2 lease_goes ls ls' \<Longrightarrow>
     length (filter (\<lambda>l. l_repository l = r \<and> lease_active l) ls') \<le> length (filter (\<lambda>l. l_repository l = r \<and> lease_active l) ls)"
  by (induction rule: list_all2_induct) (auto simp: lease_goes_def)

lemma lease_bounded:
  assumes "leaseNextTask now i input st = Inr (x, st')" and "parallelism_of input \<le> P"
    and "int (length (active_in r st)) \<le> P"
  shows "int (length (active_in r st')) \<le> P"
  using assms(1)
proof (cases rule: leaseNextTask_cases)
  case none
  then show ?thesis using active_goes [OF lapse_goes [of st now], of r] assms(3) by (simp add: active_in_def)
next
  case (some t)
  have "int (length (active_in (t_repository t) (lapse now st))) < P"
    using next_row_Some(2) [OF some(1)] assms(2) by (simp add: may_take_def)
  moreover have "length (active_in r (lapse now st)) \<le> length (active_in r st)"
    using active_goes [OF lapse_goes [of st now], of r] by (simp add: active_in_def)
  ultimately show ?thesis using assms(3) by (auto simp: active_in_def some(5))
qed

lemma leases_submit_kept: "leases (kept st (map_sum id snd (submitTask now i input st))) = leases st"
  by (cases "submitTask now i input st") (auto simp: kept_def dest: leases_submit split: prod.splits)

lemma perform_bounded:
  assumes "modest P op st" and b: "int (length (active_in r st)) \<le> P"
  shows "int (length (active_in r (perform op st))) \<le> P"
proof (cases "\<exists>now i input. op = OpLease now i input")
  case True
  then obtain now i input where o': "op = OpLease now i input" by blast
  show ?thesis
  proof (cases "leaseNextTask now i input st")
    case (Inl e)
    then show ?thesis using b by (simp add: o' kept_def)
  next
    case (Inr y)
    then obtain x st' where "leaseNextTask now i input st = Inr (x, st')" by (cases y) simp
    then show ?thesis using lease_bounded [OF _ _ b] assms(1) by (simp add: o' kept_def)
  qed
next
  case False
  have "list_all2 lease_goes (leases st) (leases (perform op st))"
  proof (cases "saves_plan op")
    case True
    then show ?thesis by (cases op) (simp_all add: holds_save)
  next
    case s: False
    have "leases (perform op st) = leases st \<or> list_all2 lease_keeps (leases st) (leases (perform op st))"
      using False s
      by (cases op) (auto simp: holds_heartbeat holds_finish leases_claim leases_submit_kept
          retrySubmittedTask_def cancelSubmittedTask_def pauseSubmittedTask_def resumePausedTask_def
          releasePlannedTask_def completeSubmittedTask_def openSubmittedTask_def)
    then show ?thesis by (auto simp: list.rel_refl intro: lease_goes_keeps)
  qed
  then show ?thesis using active_goes [of "leases st" "leases (perform op st)" r] b by (simp add: active_in_def)
qed

section \<open>Work that nothing holds\<close>

lemma stranded_member:
  "t \<in> set (stranded c st) \<longleftrightarrow> t \<in> set (tasks st) \<and> t_kind t = KindTask \<and> t_status t = TaskClaimed \<and>
     (case t_claimedAt t of None \<Rightarrow> True | Some x \<Rightarrow> x < c) \<and> held_by st (t_id t) = []"
  by (auto simp: stranded_def listSubmittedTasks_def any_task_def or_else_def held_by_empty list_ex_iff)

definition retried :: "submitted_task \<Rightarrow> submitted_task" where
  "retried t = t\<lparr>t_status := TaskSubmitted, t_claimedAt := None, t_completedAt := None, t_run := None\<rparr>"

lemma reap_fold:
  assumes "\<And>t. t \<in> set ts \<Longrightarrow> t \<in> set (tasks st) \<and> t_status t = TaskClaimed"
    and "distinct (map t_id ts)" and "distinct_tasks st"
  shows "foldl reap_one (ids, st) ts =
    (ids @ map t_id ts, st\<lparr>tasks := map (\<lambda>t. if t_id t \<in> t_id ` set ts then retried t else t) (tasks st)\<rparr>)"
  using assms
proof (induction ts arbitrary: ids st)
  case (Cons u us)
  have u: "u \<in> set (tasks st)" "t_status u = TaskClaimed" using Cons.prems(1) by auto
  define st1 where "st1 = st\<lparr>tasks := map (\<lambda>t. if t_id t = t_id u then retried t else t) (tasks st)\<rparr>"
  have only: "t_id t = t_id u \<and> t_status t \<in> {TaskClaimed, TaskFailed} \<longleftrightarrow> t_id t = t_id u" if "t \<in> set (tasks st)" for t
    using same_task [OF Cons.prems(3) that u(1)] u(2) by auto
  have "retrySubmittedTask (t_id u) st = Inr st1"
    using u only by (auto simp: retrySubmittedTask_def moved_def or_refused_def list_ex_iff update_tasks_def st1_def retried_def
        intro!: arg_cong [where f = "\<lambda>x. tasks_update x st"])
  then have one: "reap_one (ids, st) u = (ids @ [t_id u], st1)" by (simp add: reap_one_def)
  have "t \<in> set (tasks st1) \<and> t_status t = TaskClaimed" if "t \<in> set us" for t
    using Cons.prems(1,2) that by (auto simp: st1_def image_iff)
  moreover have "distinct_tasks st1"
    using Cons.prems(3) by (auto simp: distinct_tasks_def st1_def retried_def comp_def if_distrib cong: if_cong)
  ultimately have "foldl reap_one (ids @ [t_id u], st1) us =
      (ids @ [t_id u] @ map t_id us, st1\<lparr>tasks := map (\<lambda>t. if t_id t \<in> t_id ` set us then retried t else t) (tasks st1)\<rparr>)"
    using Cons.IH [of st1 "ids @ [t_id u]"] Cons.prems(2) by simp
  moreover have "map (\<lambda>t. if t_id t \<in> t_id ` set us then retried t else t) (tasks st1) =
      map (\<lambda>t. if t_id t \<in> t_id ` set (u # us) then retried t else t) (tasks st)"
    by (auto simp: st1_def retried_def)
  ultimately show ?case by (simp add: one st1_def)
qed simp

lemma distinct_sorted_rows: "distinct (map t_id xs) \<Longrightarrow> distinct (map t_id (sort_key k (filter P xs)))"
proof -
  assume d: "distinct (map t_id xs)"
  have "inj_on t_id (set (filter P xs))" "distinct (filter P xs)"
    using d by (auto simp: distinct_map intro: inj_on_subset)
  then show ?thesis by (simp add: distinct_map)
qed

lemma distinct_stranded: "distinct_tasks st \<Longrightarrow> distinct (map t_id (stranded c st))"
  by (simp add: stranded_def listSubmittedTasks_def distinct_tasks_def distinct_sorted_rows distinct_map_filter)

lemma reap_effect:
  assumes "queue_ok st"
  shows "reapStrandedWork now c st =
    (map t_id (stranded (or_else c (now - CLAIMED_GRACE_MS)) st),
     st\<lparr>tasks := map (\<lambda>t. if t_id t \<in> t_id ` set (stranded (or_else c (now - CLAIMED_GRACE_MS)) st) then retried t else t) (tasks st)\<rparr>)"
proof -
  have d: "distinct_tasks st" using assms by (simp add: queue_ok_def)
  show ?thesis
    unfolding reapStrandedWork_def
    by (subst reap_fold [OF _ distinct_stranded [OF d] d]) (simp_all add: stranded_member)
qed

section \<open>A small shop\<close>

definition plain_task :: "string \<Rightarrow> submitted_task" where
  "plain_task i =
     \<lparr>t_id = i, t_kind = KindTask, t_answerTo = None, t_repository = ''r'', t_project = Some ''p'', t_branch = None,
      t_objective = ''o'', t_agent = ''x'', t_validation = [], t_submittedBy = None, t_after = None, t_context = None,
      t_conversation = None, t_model = None, t_effort = None, t_status = TaskSubmitted, t_submittedAt = 0,
      t_claimedAt = None, t_completedAt = None, t_openedAt = None, t_run = None\<rparr>"

definition plain_request :: lease_input where
  "plain_request =
     \<lparr>li_worker = ''w'', li_base = ''rev'', li_ttl = 300000, li_task = None, li_repository = None, li_project = None,
      li_parallelism = Some 2, li_claimableBy = None, li_excluded = [], li_kinds = None\<rparr>"

definition shop :: work_store where
  "shop = \<lparr>workers = [''w''], repositories = [''r''], projects = [''p''], accounts = [],
     tasks = [plain_task ''a'', plain_task ''b''], leases = []\<rparr>"

definition busy_shop :: work_store where
  "busy_shop = perform (OpLease 1 ''la'' plain_request) shop"

end
