(* ===== verification/Work_Properties.thy ===== *)
theory Work_Properties
  imports Work_Facts Coordination_Properties
begin

text \<open>
  The properties of the task queue and of the arbitration of plans on its leases.
\<close>

section \<open>The shop\<close>

lemma shop_ok: "queue_ok shop" "queue_free shop"
  by (simp_all add: shop_def queue_ok_def distinct_tasks_def held_by_def plain_task_def queue_free_def)

lemma one_op: "ok op st \<Longrightarrow> queue_run ok st (perform op st)"
  by (rule queue_run.next_op [OF queue_run.start])

lemma busy_shop_run: "orderly (OpLease 1 ''la'' plain_request) shop \<Longrightarrow> queue_run orderly shop busy_shop"
  unfolding busy_shop_def by (rule one_op)

lemma busy_shop_ok: "queue_ok busy_shop"
  by (simp add: busy_shop_def perform_ok shop_ok(1) del: perform.simps)

section \<open>The statechart of a task\<close>




section \<open>Leasing\<close>

definition first_of :: "lease_input \<Rightarrow> work_store \<Rightarrow> submitted_task \<Rightarrow> bool" where
  "first_of input st t \<longleftrightarrow> t \<in> set (tasks st) \<and> may_take input st t \<and>
     (\<forall>u \<in> set (tasks st). may_take input st u \<longrightarrow>
        kind_rank t < kind_rank u \<or> kind_rank t = kind_rank u \<and> t_submittedAt t \<le> t_submittedAt u)"

definition lease_for :: "instant \<Rightarrow> lease_input \<Rightarrow> submitted_task \<Rightarrow> lease_row \<Rightarrow> bool" where
  "lease_for now input t l \<longleftrightarrow> lease_active l \<and> l_task l = t_id t \<and> l_repository l = t_repository t \<and>
     l_branch l = t_branch t \<and> l_base l = li_base input \<and> l_worker l = li_worker input \<and>
     l_expiresAt l = now + li_ttl input \<and> now < l_expiresAt l \<and> l_plan l = None"

text \<open>
  C10 A request for work is answered with the first row it may take. With leases past their expiry put
  back, the row is queued, waits for no predecessor, is of a kind asked for, in a repository below its
  limit; no such row is a question where this is none, or of the same kind and submitted earlier. The
  lease names its task, repository, branch and base and runs for the time asked for. Nothing is only
  answered when there is no such row.
\<close>

theorem lease_hands_first:
  assumes "leaseNextTask now i input st = Inr (r, st')"
  shows "case r of
      None \<Rightarrow> st' = lapse now st \<and> \<not> list_ex (may_take input (lapse now st)) (tasks st')
    | Some (l, t') \<Rightarrow> (\<exists>t. first_of input (lapse now st) t \<and> t' = claimed_at now t \<and> t' \<in> set (tasks st') \<and>
        lease_for now input t l \<and> leases st' = leases (lapse now st) @ [l])"
  using assms
proof (cases rule: leaseNextTask_cases)
  case none
  then show ?thesis by (simp add: next_row_None list_ex_iff)
next
  case (some t)
  have "kind_rank t < kind_rank u \<or> kind_rank t = kind_rank u \<and> t_submittedAt t \<le> t_submittedAt u"
    if "u \<in> set (tasks (lapse now st))" "may_take input (lapse now st) u" for u
    using next_row_Some(3) [OF some(1) that] next_row_first [OF some(1) that] by fastforce
  then have "first_of input (lapse now st) t" using next_row_Some(1,2) [OF some(1)] by (simp add: first_of_def)
  moreover have "lease_for now input t (issued_lease now i input t)"
    using leaseNextTask_valid [OF assms] by (auto simp: lease_for_def issued_lease_def lease_active_def lease_request_error_def split: if_splits)
  moreover have "claimed_at now t \<in> set (tasks st')" using next_row_Some(1) [OF some(1)] some(4) by force
  ultimately show ?thesis using some by auto
qed

theorem lease_hands_first_witness:
  "\<exists>t. first_of plain_request (lapse 1 shop) t \<and> t_id t = ''a''"
proof -
  obtain x where x: "leaseNextTask 1 ''la'' plain_request shop = Inr x" "map_option (\<lambda>(l, t). t_id t) (fst x) = Some ''a''"
  proof -
    have "case leaseNextTask 1 ''la'' plain_request shop of Inl _ \<Rightarrow> False | Inr x \<Rightarrow> map_option (\<lambda>(l, t). t_id t) (fst x) = Some ''a''"
      by code_simp
    then show ?thesis using that by (auto split: sum.splits)
  qed
  obtain r st' where r: "x = (r, st')" by (cases x)
  obtain l t' where "r = Some (l, t')" "t_id t' = ''a''" using x(2) r by auto
  then show ?thesis using lease_hands_first [OF x(1) [unfolded r]] by auto
qed

text \<open>
  C8 What is queued is held by nobody. In every run in which no task is put back by hand while it is
  held, a task never has two holders, no queued task has one, and no request for work fails on the
  index of active leases.
\<close>

theorem queued_unheld:
  assumes "queue_run orderly st st'" and "queue_ok st" and "queue_free st" and "i \<notin> l_id ` set (leases st')"
  shows "length (held_by st' k) \<le> 1 \<and> (\<forall>t \<in> set (tasks st'). t_status t = TaskSubmitted \<longrightarrow> held_by st' (t_id t) = []) \<and>
    leaseNextTask now i input st' \<noteq> Inl ConstraintViolated"
proof -
  have inv: "queue_ok st' \<and> queue_free st'"
    by (rule queue_run_invariant [OF assms(1), where I = "\<lambda>s. queue_ok s \<and> queue_free s"])
       (use assms(2,3) perform_ok perform_free in auto)
  have "lease_fits (issued_lease now i input t) (lapse now st')" if t: "next_row input (lapse now st') = Some t" for t
  proof -
    have "t \<in> set (tasks (lapse now st'))" "t_status t = TaskSubmitted"
      using next_row_Some(1,2) [OF t] by (simp_all add: may_take_def)
    then have "held_by (lapse now st') (t_id t) = []"
      using queue_free_lapse [of st' now] inv by (simp add: queue_free_def)
    moreover have "l_id ` set (leases (lapse now st')) = l_id ` set (leases st')"
      using lease_goes_ids(1) [OF lapse_goes [of st' now]] by (metis list.set_map)
    then have "l_id m \<noteq> i" if "m \<in> set (leases (lapse now st'))" for m using that assms(4) by blast
    ultimately show ?thesis by (auto simp: lease_fits_def list_all_iff held_by_empty)
  qed
  then have "leaseNextTask now i input st' \<noteq> Inl ConstraintViolated"
    by (auto simp: leaseNextTask_def grant_lease_def Let_def lease_request_error_def split: option.splits)
  then show ?thesis using inv by (auto simp: queue_ok_def queue_free_def)
qed

theorem queued_unheld_witness:
  "leaseNextTask 2 ''lb'' plain_request busy_shop \<noteq> Inl ConstraintViolated \<and> held_by busy_shop ''b'' = []"
proof -
  have "queue_run orderly shop busy_shop" by (rule busy_shop_run) simp
  moreover have "''lb'' \<notin> l_id ` set (leases busy_shop)" by code_simp
  ultimately have "leaseNextTask 2 ''lb'' plain_request busy_shop \<noteq> Inl ConstraintViolated"
    using queued_unheld [OF _ shop_ok] by blast
  moreover have "held_by busy_shop ''b'' = []" by code_simp
  ultimately show ?thesis by simp
qed

text \<open>
  C9 A retry of a task that is running jams the queue. Once it is put back while a lease on it is still
  good, every request for work whose turn it is throws, and hands out nothing, until that lease ends.
\<close>

theorem retry_jams_queue:
  assumes "retrySubmittedTask (l_task l) st = Inr st'" and "l \<in> set (leases st)" and "lease_active l"
    and "now < l_expiresAt l" and "lease_request_error input st' = None"
    and "next_row input (lapse now st') = Some t" and "t_id t = l_task l"
  shows "leaseNextTask now i input st' = Inl ConstraintViolated"
proof (rule leaseNextTask_refused [OF assms(5,6)])
  have "leases st' = leases st"
    using assms(1) by (auto simp: retrySubmittedTask_def dest: moved_tasks)
  then have "l \<in> set (leases (lapse now st'))" using assms(2,4) by (auto simp: lapse_leases lapsed_def image_iff)
  then show "\<not> lease_fits (issued_lease now i input t) (lapse now st')"
    using assms(3,7) by (auto simp: lease_fits_def list_all_iff)
qed

definition retried_shop :: work_store where
  "retried_shop = perform (OpRetry ''a'') busy_shop"

theorem retry_jams_queue_witness:
  "leaseNextTask 2 ''lb'' plain_request retried_shop = Inl ConstraintViolated \<and>
   map_option t_status (row_of ''b'' retried_shop) = Some TaskSubmitted"
proof -
  define l where "l = hd (leases busy_shop)"
  have r: "l \<in> set (leases busy_shop)" by (simp add: l_def) code_simp
  have l: "l_task l = ''a''" "lease_active l" "2 < l_expiresAt l" unfolding l_def by code_simp+
  have s: "retrySubmittedTask (l_task l) busy_shop = Inr retried_shop" unfolding l(1) by code_simp
  have e: "lease_request_error plain_request retried_shop = None" by code_simp
  have "map_option t_id (next_row plain_request (lapse 2 retried_shop)) = Some ''a''" by code_simp
  then obtain t where "next_row plain_request (lapse 2 retried_shop) = Some t" "t_id t = l_task l" using l(1) by auto
  then have "leaseNextTask 2 ''lb'' plain_request retried_shop = Inl ConstraintViolated"
    by (rule retry_jams_queue [OF s r l(2,3) e])
  moreover have "map_option t_status (row_of ''b'' retried_shop) = Some TaskSubmitted" by code_simp
  ultimately show ?thesis by simp
qed

text \<open>
  C11 The bound on parallel work holds. When no request asks for more than a number of leases at once, no
  repository ever has more active ones than that, or than it had.
\<close>

theorem parallelism_respected:
  assumes "queue_run (modest P) st st'" and "int (length (active_in r st)) \<le> P"
  shows "int (length (active_in r st')) \<le> P"
  by (rule queue_run_invariant [OF assms(1), where I = "\<lambda>s. int (length (active_in r s)) \<le> P"])
     (use assms(2) perform_bounded in auto)

theorem parallelism_respected_witness: "int (length (active_in ''r'' busy_shop)) \<le> 2"
proof (rule parallelism_respected)
  show "queue_run (modest 2) shop busy_shop"
    unfolding busy_shop_def by (rule one_op) (simp add: parallelism_of_def plain_request_def or_else_def)
qed (simp add: active_in_def shop_def)

section \<open>Arbitration\<close>

text \<open>
  C5 Approved plans stay apart. However readings, decisions, savings, leases and expiries interleave: as
  long as every approval is structurally apart from the plans that were read for it, and a plan that
  replaces an approved one conflicts with nothing new, no two approved plans on active leases of a
  repository ever conflict structurally. The comparison of the sets of leases makes a decision on a
  stale reading fail.
\<close>

theorem executing_plans_apart:
  assumes "arb_run (plans_apart opts) w w'" and "arb_ok (plans_apart opts) w"
  shows "executing_apart (plans_apart opts) (arb_store w')"
  by (rule structural.run_apart [OF assms])

definition lease_of :: "string \<Rightarrow> work_store \<Rightarrow> lease_row" where
  "lease_of i st = the (getWorkLease i st)"

definition decision_on :: "string \<Rightarrow> string list \<Rightarrow> work_store \<Rightarrow> work_lease_plan option" where
  "decision_on i files st =
     scope_decision demo_controller id ''x'' 1 (lease_of i st) (plain_plan (l_task (lease_of i st)) files) st"

text \<open>Decide on what was seen, then save.\<close>

definition save_as :: "string \<Rightarrow> string list \<Rightarrow> bool \<Rightarrow> work_store \<Rightarrow> work_store \<Rightarrow> work_store" where
  "save_as i files replace seen st =
     perform (OpSavePlan i (the (decision_on i files seen)) (snd (executing_for (lease_of i seen) seen)) replace) st"

definition both_leased :: work_store where
  "both_leased = perform (OpLease 2 ''lb'' plain_request) busy_shop"

definition one_admitted :: work_store where
  "one_admitted = save_as ''la'' [''fa''] False both_leased both_leased"

definition both_admitted :: work_store where
  "both_admitted = save_as ''lb'' [''fb''] False one_admitted one_admitted"

definition state_of :: "work_store \<Rightarrow> (string \<times> bool \<times> bool \<times> string list) list" where
  "state_of st = map (\<lambda>l. (l_id l, lease_active l, plan_approved l, if plan_approved l then expectedFiles (plan_of l) else [])) (leases st)"

lemma arb_save_as:
  assumes "active_lease i seen = Some l" and "lease_of i seen = l" and "decision_on i files seen = Some s"
    and "decided beside s (admitted_beside l seen)"
  shows "arb_run beside \<lparr>arb_store = seen, arb_view = v\<rparr>
    \<lparr>arb_store = save_as i files False seen seen, arb_view = v(i \<mapsto> admitted_beside l seen)\<rparr>"
proof -
  let ?w = "\<lparr>arb_store = seen, arb_view = v(i \<mapsto> admitted_beside l seen)\<rparr>"
  have "arb_step beside \<lparr>arb_store = seen, arb_view = v\<rparr> ?w"
    using arb_step.read [of i "\<lparr>arb_store = seen, arb_view = v\<rparr>" l beside] assms(1) by simp
  moreover have "arb_step beside ?w (?w\<lparr>arb_store := perform (OpSavePlan i s (sort (map l_id (admitted_beside l seen))) False) seen\<rparr>)"
    using arb_step.save [of ?w i "admitted_beside l seen" beside s False] assms(4) by simp
  ultimately show ?thesis
    using assms(2,3) by (simp add: arb_run_def save_as_def executing_for_def Let_def)
qed

lemma arb_op: "\<not> saves_plan op \<Longrightarrow> arb_run beside \<lparr>arb_store = st, arb_view = v\<rparr> \<lparr>arb_store = perform op st, arb_view = v\<rparr>"
  using arb_step.other [of op beside "\<lparr>arb_store = st, arb_view = v\<rparr>"] by (auto simp: arb_run_def)

lemma arb_run_trans: "arb_run beside a b \<Longrightarrow> arb_run beside b c \<Longrightarrow> arb_run beside a c"
  by (simp add: arb_run_def)

lemma decided_on_nothing: "decided beside s []"
  by (simp add: decided_def)

lemma first_decision: "admitted_beside (lease_of ''la'' both_leased) both_leased = []"
  "active_lease ''la'' both_leased = Some (lease_of ''la'' both_leased)"
  "decision_on ''la'' [''fa''] both_leased \<noteq> None"
  by code_simp+

lemma second_decision:
  "list_all (\<lambda>l. plans_apart DEFAULT_CONFLICT_OPTIONS (wlp_plan (the (decision_on ''lb'' [''fb''] one_admitted))) (plan_of l))
     (admitted_beside (lease_of ''lb'' one_admitted) one_admitted)"
  "active_lease ''lb'' one_admitted = Some (lease_of ''lb'' one_admitted)"
  "decision_on ''lb'' [''fb''] one_admitted \<noteq> None"
  by code_simp+

lemma both_admitted_run:
  "\<exists>v. arb_run (plans_apart DEFAULT_CONFLICT_OPTIONS) \<lparr>arb_store = shop, arb_view = (\<lambda>_. None)\<rparr>
     \<lparr>arb_store = both_admitted, arb_view = v\<rparr>"
proof -
  let ?b = "plans_apart DEFAULT_CONFLICT_OPTIONS" and ?none = "\<lambda>_ :: string. None :: lease_row list option"
  have a: "arb_run ?b \<lparr>arb_store = shop, arb_view = ?none\<rparr> \<lparr>arb_store = both_leased, arb_view = ?none\<rparr>"
    unfolding both_leased_def busy_shop_def by (rule arb_run_trans [OF arb_op arb_op]) simp_all
  obtain s where s: "decision_on ''la'' [''fa''] both_leased = Some s" using first_decision(3) by auto
  have "decided ?b s (admitted_beside (lease_of ''la'' both_leased) both_leased)"
    unfolding first_decision(1) by (rule decided_on_nothing)
  then obtain v where b: "arb_run ?b \<lparr>arb_store = both_leased, arb_view = ?none\<rparr> \<lparr>arb_store = one_admitted, arb_view = v\<rparr>"
    unfolding one_admitted_def by (blast intro: arb_save_as [OF first_decision(2) refl s])
  obtain t where t: "decision_on ''lb'' [''fb''] one_admitted = Some t" using second_decision(3) by auto
  have "decided ?b t (admitted_beside (lease_of ''lb'' one_admitted) one_admitted)"
    using second_decision(1) by (simp add: decided_def t list_all_iff)
  then obtain v' where c: "arb_run ?b \<lparr>arb_store = one_admitted, arb_view = v\<rparr> \<lparr>arb_store = both_admitted, arb_view = v'\<rparr>"
    unfolding both_admitted_def by (blast intro: arb_save_as [OF second_decision(2) refl t])
  show ?thesis using arb_run_trans [OF arb_run_trans [OF a b] c] by blast
qed

theorem executing_plans_apart_witness:
  "executing_apart (plans_apart DEFAULT_CONFLICT_OPTIONS) both_admitted \<and>
   state_of both_admitted = [(''la'', True, True, [''fa'']), (''lb'', True, True, [''fb''])]"
proof -
  obtain v where v: "arb_run (plans_apart DEFAULT_CONFLICT_OPTIONS) \<lparr>arb_store = shop, arb_view = (\<lambda>_. None)\<rparr>
      \<lparr>arb_store = both_admitted, arb_view = v\<rparr>" using both_admitted_run by blast
  have "arb_ok (plans_apart DEFAULT_CONFLICT_OPTIONS) \<lparr>arb_store = shop, arb_view = (\<lambda>_. None)\<rparr>"
    by (simp add: arb_ok_def shop_ok executing_apart_def) (simp add: shop_def)
  then have "executing_apart (plans_apart DEFAULT_CONFLICT_OPTIONS) both_admitted"
    using executing_plans_apart [OF v] by simp
  moreover have "state_of both_admitted = [(''la'', True, True, [''fa'']), (''lb'', True, True, [''fb''])]" by code_simp
  ultimately show ?thesis by simp
qed



section \<open>Work that nothing holds\<close>

text \<open>
  C12 The sweep for stranded work requeues exactly the work (not the questions) that is claimed, was
  claimed before the grace period and is held by nobody; everything else stays as it is. After it no such
  task is left, and what is queued is still held by nobody.
\<close>

theorem sweep_requeues_stranded:
  assumes "queue_ok st" and "queue_free st" and "reapStrandedWork now None st = (ids, st')"
  shows "set ids = {t_id t |t. t \<in> set (tasks st) \<and> t_kind t = KindTask \<and> t_status t = TaskClaimed \<and>
      (case t_claimedAt t of None \<Rightarrow> True | Some c \<Rightarrow> c < now - 120000) \<and> held_by st (t_id t) = []} \<and>
    tasks st' = map (\<lambda>t. if t_id t \<in> set ids then retried t else t) (tasks st) \<and>
    stranded (now - 120000) st' = [] \<and> queue_free st'"
proof -
  let ?ts = "stranded (now - 120000) st"
  have g: "or_else None (now - CLAIMED_GRACE_MS) = now - 120000" by (simp add: or_else_def CLAIMED_GRACE_MS_def)
  have e: "ids = map t_id ?ts" "st' = st\<lparr>tasks := map (\<lambda>t. if t_id t \<in> t_id ` set ?ts then retried t else t) (tasks st)\<rparr>"
    using assms(3) unfolding reap_effect [OF assms(1)] g by simp_all
  have t: "tasks st' = map (\<lambda>t. if t_id t \<in> set ids then retried t else t) (tasks st)" and l: "leases st' = leases st"
    by (simp_all add: e)
  have "set ids = {t_id t |t. t \<in> set (tasks st) \<and> t_kind t = KindTask \<and> t_status t = TaskClaimed \<and>
      (case t_claimedAt t of None \<Rightarrow> True | Some c \<Rightarrow> c < now - 120000) \<and> held_by st (t_id t) = []}"
    unfolding e(1) by (auto simp: stranded_member)
  moreover have "t \<notin> set (stranded (now - 120000) st')" for t
  proof
    assume s: "t \<in> set (stranded (now - 120000) st')"
    then obtain u where u: "u \<in> set (tasks st)" "t = (if t_id u \<in> set ids then retried u else u)"
      unfolding stranded_member t by auto
    have h: "t_kind t = KindTask" "t_status t = TaskClaimed"
      "case t_claimedAt t of None \<Rightarrow> True | Some c \<Rightarrow> c < now - 120000" "held_by st' (t_id t) = []"
      using iffD1 [OF stranded_member s] by blast+
    have "t_status (retried u) \<noteq> TaskClaimed" by (simp add: retried_def)
    then have n: "t = u" "t_id u \<notin> set ids" using u(2) h(2) by metis+
    have "held_by st (t_id t) = []" using h(4) held_by_same [OF l, of "t_id t"] by metis
    then have "t \<in> set ?ts" using h(1-3) u(1) unfolding stranded_member n(1) by blast
    then show False using n by (simp add: e(1))
  qed
  then have "stranded (now - 120000) st' = []" by (metis list.set_intros(1) neq_Nil_conv)
  moreover have "queue_free st'"
  proof (rule queue_free_update [OF assms(2) t])
    fix x assume "t_id x \<in> set ids"
    then have "held_by st (t_id x) = []" by (auto simp: e(1) stranded_member)
    then show "held_by st' (t_id x) = []" by (simp add: held_by_same [OF l])
  qed (simp_all add: held_by_same [OF l] retried_def)
  ultimately show ?thesis using t by blast
qed

text \<open>
  A worker hands in its result: the lease is settled and the changeset is being integrated.
\<close>

definition landing_shop :: work_store where
  "landing_shop = perform (OpFinish ''la'' LeaseCompleted 200000 None) busy_shop"

lemma landing_shop_ok: "queue_ok landing_shop" "queue_free landing_shop"
proof -
  have f: "queue_free busy_shop" unfolding busy_shop_def by (rule perform_free [OF shop_ok]) simp
  show "queue_ok landing_shop" by (simp add: landing_shop_def perform_ok busy_shop_ok del: perform.simps)
  show "queue_free landing_shop" unfolding landing_shop_def by (rule perform_free [OF busy_shop_ok f]) simp
qed

definition swept_shop :: work_store where
  "swept_shop = snd (reapStrandedWork 200001 None landing_shop)"

theorem sweep_requeues_stranded_witness:
  "fst (reapStrandedWork 200001 None landing_shop) = [''a''] \<and> queue_free swept_shop"
proof -
  have "reapStrandedWork 200001 None landing_shop = (fst (reapStrandedWork 200001 None landing_shop), swept_shop)"
    by (simp add: swept_shop_def)
  then have "queue_free swept_shop" using sweep_requeues_stranded [OF landing_shop_ok] by blast
  moreover have "fst (reapStrandedWork 200001 None landing_shop) = [''a'']" by code_simp
  ultimately show ?thesis by simp
qed

definition landed_shop :: work_store where
  "landed_shop = perform (OpComplete 200003 ''a'' EndIntegrated None) (perform (OpLease 200002 ''lc'' plain_request) swept_shop)"

text \<open>
  The sweep takes work that is landing. The grace period runs from the claim, not from the end of the
  lease: a task whose result is being integrated is requeued as soon as its claim is two minutes old, is
  handed out again, and is then completed as integrated while a worker works on it.
\<close>

theorem sweep_takes_landing:
  "map_option t_status (row_of ''a'' swept_shop) = Some TaskSubmitted \<and>
   map_option t_status (row_of ''a'' landed_shop) = Some TaskIntegrated \<and>
   map l_id (held_by landed_shop ''a'') = [''lc'']"
  by code_simp

section \<open>Stopping\<close>

definition stop_a :: cancel_input where
  "stop_a = \<lparr>ct_repository = ''r'', ct_project = Some ''p'', ct_ids = Some [''a''], ct_agent = None, ct_submittedBy = None,
     ct_reason = ''stop''\<rparr>"

definition listed_a :: "submitted_task list" where
  "listed_a = cancel_candidates stop_a shop"

definition stopped_shop :: work_store where
  "stopped_shop = snd (foldl (cancel_one 2 ''stop'' (stop_leases ''r'' listed_a shop)) ([], busy_shop) listed_a)"

text \<open>
  A stop misses a lease that is taken between its listing and its write. A task listed as queued is
  leased, then cancelled: the leases were not read, so the lease is not released, and the worker goes on
  renewing a lease on a cancelled task.
\<close>

theorem stop_misses_lease:
  "map_option t_status (row_of ''a'' stopped_shop) = Some TaskCancelled \<and>
   map l_id (held_by stopped_shop ''a'') = [''la''] \<and>
   map_option l_expiresAt (fst (heartbeatWorkLease ''la'' 1000 301000 stopped_shop)) = Some 301000 \<and>
   held_by (snd (cancelTasks 2 stop_a busy_shop)) ''a'' = []"
  by code_simp

end
