(* ===== verification/Spec2Isabelle.thy ===== *)
theory Spec2Isabelle
  imports Collab_Properties Approval_Properties Patch_Properties Service_Properties Coordination_Properties Claim_Properties Zip_Properties Access_Properties Work_Properties
begin

text \<open>
  Verification of the collaborative editor, of the coordination core and of the access rules of agentic-git.

  The program lets several coding agents and several people work on one repository. People edit a
  file together through operational transformation (\<open>packages/collab\<close>, served by
  \<open>services/api-gateway\<close>). Agents first submit a plan; the coordinator (\<open>services/coordinator\<close>)
  decides whether the plan may run beside the plans that are executing, wholly, in part, or not yet,
  gives it leases on what it needs, and later divides the change it made by what was withheld. Tasks wait
  in a queue of the store, and workers take them under leases that expire. Every
  decision is appended to an audit log (\<open>services/persistence\<close>).

  \<^bold>\<open>Theories and sources.\<close>

  \<^item> \<open>Prelude\<close>: results of code that may throw (\<open>res_bind\<close>, \<open>res_map\<close>), JavaScript's \<open>slice\<close>,
    \<open>at(-1)\<close> and sorted sets, JSON values, the rule collections \<open>bounds_rules\<close>, \<open>wf_rules\<close>,
    \<open>step_rules\<close>.

  \<^item> Editor. \<open>Text_Operation\<close> is \<open>text-operation.ts\<close> (builder, apply, compose, transform, carets,
    parsing), \<open>Operation_Semantics\<close> its meaning: an operation is a list of kept and dropped
    positions and inserted text, and composing and transforming are proved against that meaning.
    \<open>Collab_Document\<close> is \<open>document.ts\<close> (history window, rebase, replace, catch-up), \<open>Collab_Client\<close>
    is \<open>client.ts\<close> (one operation in flight, one buffered), \<open>Collab_Room\<close> is \<open>room.ts\<close> (carets,
    registry), \<open>Collab_Protocol\<close> is \<open>protocol.ts\<close>. \<open>Collab_Session\<close> puts a hub
    (\<open>api-gateway/collab-websocket.ts\<close>) and any number of clients into one step relation with
    message queues; \<open>Collab_Properties\<close> has the properties.

  \<^item> Plans and leases. \<open>Line_Ranges\<close> is \<open>coordinator/ranges.ts\<close>; \<open>Path_Names\<close> and \<open>Plans\<close> are the
    path, plan, claim and scope functions of \<open>shared-types/index.ts\<close>; \<open>Ownership\<close> is
    \<open>ownership-service.ts\<close>. Properties: \<open>Plan_Properties\<close>.

  \<^item> Admission. \<open>Intent_Words\<close> is \<open>intent-analysis/lemmas.ts\<close>, \<open>identifierTokens\<close> and
    \<open>likelySymbolsIn\<close>; \<open>Conflict_Detector\<close> is \<open>conflict-detector.ts\<close> with its laws in
    \<open>Conflict_Laws\<close>; \<open>Plan_Admission\<close> and \<open>Plan_Splitting\<close> are \<open>plan-admission.ts\<close>: the decision
    on one plan, and the search for a part of a refused plan that may run. \<open>Admission_Laws\<close> and
    \<open>Admission_Answers\<close> take the answers apart, \<open>Coordination_Properties\<close> has the properties.

  \<^item> Claims. \<open>Claim_Conversion\<close> is \<open>blanket-claim.ts\<close>, the claim on the whole repository and how it
    shrinks, \<open>Claim_Laws\<close> what it keeps as it does; \<open>Blanket_Holders\<close> is \<open>blanket-holders.ts\<close> as a step
    relation over its three maps; \<open>Branch_Claims\<close> is \<open>branch-claims.ts\<close>, \<open>upstream-claims.ts\<close> and the
    part of \<open>apps/cli/lease-admission.ts\<close> that says what a plan is arbitrated against, and
    \<open>Branch_Laws\<close> connects it with patches and admission. Properties: \<open>Claim_Properties\<close>.

  \<^item> Approvals. \<open>Approvals\<close> is \<open>approval-service.ts\<close> with the approvals table of \<open>sqlite-store.ts\<close>: the
    policy, and the gate as steps between which others decide, sweep and let time pass; \<open>Approval_Laws\<close>
    has the meaning of a pattern and the invariant of the table. Properties: \<open>Approval_Properties\<close>.

  \<^item> The queue. \<open>Work_Queue\<close> has the rows of \<open>submitted_tasks\<close> and \<open>work_leases\<close> of \<open>sqlite-store.ts\<close> and
    the operations on leases (\<open>leaseNextTask\<close>, \<open>saveWorkLeasePlan\<close>, \<open>heartbeatWorkLease\<close>,
    \<open>finishWorkLease\<close>, \<open>expireWorkLeases\<close>), \<open>Work_Tasks\<close> those that move tasks, and what
    \<open>apps/cli/commands.ts\<close> and \<open>apps/cli/recovery.ts\<close> build from them (stop, pause, resume, requeue stranded
    work). \<open>Work_Runs\<close> makes every statement or transaction a step, so that a run is any interleaving of
    the callers, and shows that a step moves tasks along the statechart \<open>edges\<close>; \<open>Work_Holds\<close> shows who
    holds what; \<open>Work_Arbitration\<close> adds the readings and decisions that precede the saving of a plan
    (\<open>executingPlans\<close> and the decision of \<open>arbitrateScopeChange\<close> in \<open>apps/cli/worker-operations.ts\<close>), with
    the \<open>admit\<close> of the admission theories. \<open>Work_Laws\<close> and \<open>Work_Facts\<close> are the shared lemmas.
    Instants are their milliseconds. Properties: \<open>Work_Properties\<close>.

  \<^item> Changes. \<open>Patches\<close> is \<open>repository-service/patch.ts\<close> and \<open>coordinator/hunks.ts\<close>;
    \<open>Patch_Laws\<close> shows that a patch is read back, \<open>Edit_Scripts\<close> gives hunks a meaning as edits of
    lines; \<open>Partial_Admission\<close> is \<open>partial-admission.ts\<close> and \<open>scope-validator.ts\<close>. Properties:
    \<open>Patch_Properties\<close>.

  \<^item> Access. \<open>Access_Model\<close> has the roles, the rows and \<open>api-gateway/billing.ts\<close>; \<open>Authorization\<close> is
    \<open>api-gateway/authorization.ts\<close>; \<open>Access_Requests\<close> and \<open>Access_Links\<close> are the requests of
    \<open>routes/organizations.ts\<close>, \<open>routes/repositories.ts\<close> and \<open>routes/public.ts\<close> that change members,
    grants, invitations and tokens, and \<open>serve\<close>, which serves any of them. \<open>Access_Laws\<close> has the contract
    of an authorizing function, \<open>Access_Runs\<close> and \<open>Access_Tokens\<close> the invariants of runs of requests,
    \<open>Access_Reach\<close> what is listed against what opens. Properties: \<open>Access_Properties\<close>.

  \<^item> Archives. \<open>Zip_Archive\<close> is \<open>repository-service/zip-archive.ts\<close>; \<open>Zip_Laws\<close> shows where and how
    much it writes, \<open>Zip_Writer\<close> is a reference writer whose archives are read back. Properties:
    \<open>Zip_Properties\<close>.

  \<^item> Services. \<open>Ws_Frame\<close> and \<open>Frame_Laws\<close> are \<open>api-gateway/ws-frame.ts\<close>; \<open>Audit_Chain\<close> and
    \<open>Audit_Laws\<close> are \<open>persistence/audit-chain.ts\<close> and the audit tables of \<open>sqlite-store.ts\<close>;
    \<open>Union_Find\<close>, \<open>Task_Decomposition\<close> and \<open>Decomposition_Laws\<close> are
    \<open>coordinator/task-decomposition.ts\<close>. Properties: \<open>Service_Properties\<close>.

  \<^bold>\<open>How state and errors are modelled.\<close> A class is a record and its methods return the updated
  record; a method that throws returns \<open>Inl\<close> an error of a datatype of its own, with the state it
  leaves behind where it changes state before it throws. A \<open>Map\<close> is an association list in insertion
  order, because the code iterates over it. Text that is counted in code units is a list of 16-bit
  words, bytes are 8-bit words; a string that is only compared, split or sorted is a \<open>string\<close> of
  characters up to code point 255. Numbers that must be integers are \<open>int\<close> or \<open>nat\<close>, with the
  \<open>Number.isSafeInteger\<close> checks of the code; scores and fractions are the rationals they denote.

  \<^bold>\<open>Termination.\<close> No function has fuel. Loops over components, frames and matches come with a
  measure; \<open>ds_find\<close> of the union-find, which follows parent pointers and would loop on a cycle, is a
  \<open>partial_function\<close> into \<open>option\<close>, and the properties prove that it returns.

  \<^bold>\<open>Parameters.\<close> SHA-256, UTF-8 decoding, \<open>inflateRawSync\<close>, \<open>JSON.parse\<close>, the collation of \<open>localeCompare\<close>, the
  dictionary of \<open>wink-lemmatizer\<close>, the clock, fresh identifiers and the symbol index of a revision are
  arguments of the definitions that use them.

  \<^bold>\<open>Interfaces.\<close> \<open>ot_engine\<close> and \<open>ot_history\<close> state what the document, the client and the session need
    of the operations and of a history; \<open>claim_law\<close> in \<open>Ownership\<close> what a table of leases needs of its
    notion of a clash; \<open>shrinking_claim\<close> in \<open>Claim_Laws\<close> what a claim keeps however it shrinks;
    \<open>authorizer\<close> in \<open>Access_Laws\<close> what the four authorizing functions share;
    \<open>arbiter\<close> in \<open>Work_Arbitration\<close> what arbitration needs of a test of two plans. Each is
    interpreted on the model's own definitions.

  \<^bold>\<open>Not modelled.\<close> Sockets, HTTP routes, processes, git and the file system, timers, the web and desktop
  applications, the rest of the command-line application, agent adapters, parsing of source files by compilers, SQL other than
  the tables named above, and the wording of explanations: they are input and output, or calls of libraries,
  around the decisions modelled here.
\<close>

end
